(* ===== verification/Orbit_Prelude.thy ===== *)
theory Orbit_Prelude
  imports Main "HOL-Library.Word" "HOL-Library.Char_ord" "HOL-Library.List_Lexorder" "HOL-Library.AList"
begin

text \<open>
  Shared vocabulary of the development: Rust's \<open>Result\<close> as a sum type with the \<open>?\<close>
  operator as a bind, traversal of a list under an error, \<open>usize\<close> and \<open>u64\<close>
  arithmetic (saturating, wrapping), \<open>BTreeMap\<close> as a key-sorted association list with
  the interface every client relies on as a locale, and the lemma collections that carry
  the component proofs.
\<close>

named_theorems res_simps \<open>unfolding of Result plumbing\<close>
named_theorems job_simps \<open>unfolding of job-store operations\<close>
named_theorems graph_simps \<open>unfolding of graph operations\<close>
named_theorems usize_simps \<open>unfolding of machine arithmetic on naturals\<close>

unbundle bit_operations_syntax

section \<open>Result\<close>

text \<open>\<open>Result<T, E>\<close>: \<open>Inl\<close> carries the error, \<open>Inr\<close> the value.\<close>

type_synonym ('e, 'a) result = "'e + 'a"

abbreviation Err :: "'e \<Rightarrow> ('e, 'a) result" where "Err \<equiv> Inl"
abbreviation Ok :: "'a \<Rightarrow> ('e, 'a) result" where "Ok \<equiv> Inr"

definition and_then :: "('e, 'a) result \<Rightarrow> ('a \<Rightarrow> ('e, 'b) result) \<Rightarrow> ('e, 'b) result" where
  "and_then r f = (case r of Inl e \<Rightarrow> Inl e | Inr a \<Rightarrow> f a)"

definition map_err :: "('e \<Rightarrow> 'f) \<Rightarrow> ('e, 'a) result \<Rightarrow> ('f, 'a) result" where
  "map_err f r = (case r of Inl e \<Rightarrow> Inl (f e) | Inr a \<Rightarrow> Inr a)"

definition ok_or :: "'e \<Rightarrow> 'a option \<Rightarrow> ('e, 'a) result" where
  "ok_or e x = (case x of None \<Rightarrow> Inl e | Some a \<Rightarrow> Inr a)"

text \<open>Left-to-right traversal that stops at the first error.\<close>

fun traverse :: "('a \<Rightarrow> ('e, 'b) result) \<Rightarrow> 'a list \<Rightarrow> ('e, 'b list) result" where
  "traverse f [] = Inr []"
| "traverse f (x # xs) =
     and_then (f x) (\<lambda>y. and_then (traverse f xs) (\<lambda>ys. Inr (y # ys)))"

lemma and_then_simps [simp, res_simps]:
  "and_then (Inl e) f = Inl e"
  "and_then (Inr a) f = f a"
  by (simp_all add: and_then_def)

lemma and_then_return [simp]: "and_then r Inr = r"
  by (cases r) auto

lemma and_then_Inr_iff:
  "and_then r f = Inr b \<longleftrightarrow> (\<exists>a. r = Inr a \<and> f a = Inr b)"
  by (cases r) auto

lemma and_then_Inl_iff:
  "and_then r f = Inl e \<longleftrightarrow> r = Inl e \<or> (\<exists>a. r = Inr a \<and> f a = Inl e)"
  by (cases r) auto

lemma and_then_cong [fundef_cong]:
  "r = r' \<Longrightarrow> (\<And>a. r' = Inr a \<Longrightarrow> f a = g a) \<Longrightarrow> and_then r f = and_then r' g"
  by (cases r') auto

lemma map_err_simps [simp, res_simps]:
  "map_err h (Inl e) = Inl (h e)"
  "map_err h (Inr a) = Inr a"
  by (simp_all add: map_err_def)

lemma map_err_Inr_iff [simp]: "map_err h r = Inr a \<longleftrightarrow> r = Inr a"
  by (cases r) auto

lemma ok_or_simps [simp, res_simps]:
  "ok_or e None = Inl e"
  "ok_or e (Some a) = Inr a"
  by (simp_all add: ok_or_def)

lemma ok_or_Inr_iff [simp]: "ok_or e x = Inr a \<longleftrightarrow> x = Some a"
  by (cases x) auto

lemma ok_or_Inl_iff [simp]: "ok_or e x = Inl e' \<longleftrightarrow> x = None \<and> e = e'"
  by (cases x) auto

lemma traverse_Inr_iff:
  "traverse f xs = Inr ys \<longleftrightarrow> list_all2 (\<lambda>x y. f x = Inr y) xs ys"
proof (induction xs arbitrary: ys)
  case Nil
  then show ?case by auto
next
  case (Cons x xs)
  then show ?case by (cases ys) (auto simp: and_then_Inr_iff)
qed

lemma traverse_cong [fundef_cong]:
  "xs = ys \<Longrightarrow> (\<And>x. x \<in> set ys \<Longrightarrow> f x = g x) \<Longrightarrow> traverse f xs = traverse g ys"
  by (induction xs arbitrary: ys) auto

lemma traverse_Inl_ex:
  "traverse f xs = Inl e \<Longrightarrow> \<exists>x \<in> set xs. f x = Inl e"
  by (induction xs) (auto simp: and_then_Inl_iff)

section \<open>Machine arithmetic on naturals\<close>

text \<open>
  \<open>usize\<close> and \<open>u64\<close> are 64 bits wide on the supported targets. Values are naturals below
  \<open>2 ^ 64\<close>; the operations of the standard library are written out.
\<close>

definition u64_max :: nat where "u64_max = 2 ^ 64 - 1"

definition sat_add :: "nat \<Rightarrow> nat \<Rightarrow> nat" where "sat_add a b = min (a + b) u64_max"
definition sat_mul :: "nat \<Rightarrow> nat \<Rightarrow> nat" where "sat_mul a b = min (a * b) u64_max"
definition sat_sub :: "nat \<Rightarrow> nat \<Rightarrow> nat" where "sat_sub a b = a - b"
definition wrap64 :: "nat \<Rightarrow> nat" where "wrap64 a = a mod 2 ^ 64"
definition div_ceil :: "nat \<Rightarrow> nat \<Rightarrow> nat" where
  "div_ceil a b = (if a mod b > 0 then a div b + 1 else a div b)"

lemmas usize_defs [usize_simps] = sat_add_def sat_mul_def sat_sub_def wrap64_def u64_max_def

lemma sat_add_le_max: "sat_add a b \<le> u64_max" and sat_mul_le_max: "sat_mul a b \<le> u64_max"
  by (simp_all add: sat_add_def sat_mul_def)

lemma wrap64_id [simp]: "a < 2 ^ 64 \<Longrightarrow> wrap64 a = a"
  by (simp add: wrap64_def)

lemma wrap64_less: "wrap64 a < 2 ^ 64"
  by (simp add: wrap64_def)

lemma div_ceil_covers:
  assumes "0 < b"
  shows "i < div_ceil a b \<longleftrightarrow> i * b < a"
proof -
  have *: "a = a div b * b + a mod b" by simp
  have "a mod b < b" using assms by simp
  show ?thesis
  proof (cases "a mod b > 0")
    case True
    have "i \<le> a div b \<longleftrightarrow> i * b \<le> a div b * b" using assms by simp
    also have "\<dots> \<longleftrightarrow> i * b < a"
    proof
      assume "i * b \<le> a div b * b"
      with True * show "i * b < a" by linarith
    next
      assume "i * b < a"
      then have "i \<le> a div b" using assms by (simp add: less_eq_div_iff_mult_less_eq)
      then show "i * b \<le> a div b * b" by simp
    qed
    finally show ?thesis using True by (simp add: div_ceil_def less_Suc_eq_le)
  next
    case False
    then have "a = a div b * b" using * by simp
    then have "i * b < a \<longleftrightarrow> i * b < a div b * b" by simp
    then show ?thesis using False assms by (simp add: div_ceil_def)
  qed
qed

section \<open>Finite maps: the interface of \<open>BTreeMap\<close> and \<open>HashMap\<close>\<close>

text \<open>
  What the clients of a key-value container rely on. \<open>lookup\<close> is \<open>get\<close>, \<open>update\<close> is
  \<open>insert\<close>, \<open>remove\<close> is \<open>remove\<close>; \<open>wf\<close> is the representation invariant.
\<close>

locale kv_map =
  fixes empty :: "'m"
    and lookup :: "'m \<Rightarrow> 'k \<Rightarrow> 'v option"
    and update :: "'k \<Rightarrow> 'v \<Rightarrow> 'm \<Rightarrow> 'm"
    and remove :: "'k \<Rightarrow> 'm \<Rightarrow> 'm"
    and wf :: "'m \<Rightarrow> bool"
  assumes lookup_empty: "lookup empty k = None"
    and lookup_update: "wf m \<Longrightarrow> lookup (update k v m) k' = (if k' = k then Some v else lookup m k')"
    and lookup_remove: "wf m \<Longrightarrow> lookup (remove k m) k' = (if k' = k then None else lookup m k')"
    and wf_empty: "wf empty"
    and wf_update: "wf m \<Longrightarrow> wf (update k v m)"
    and wf_remove: "wf m \<Longrightarrow> wf (remove k m)"
begin

lemma lookup_fold_update:
  assumes "wf m" and "distinct (map fst kvs)"
  shows "lookup (fold (\<lambda>(k, v). update k v) kvs m) k =
    (case map_of kvs k of None \<Rightarrow> lookup m k | Some v \<Rightarrow> Some v)"
  using assms
proof (induction kvs arbitrary: m)
  case Nil
  then show ?case by simp
next
  case (Cons kv kvs)
  obtain k0 v0 where [simp]: "kv = (k0, v0)" by (cases kv)
  have IH: "lookup (fold (\<lambda>(k, v). update k v) kvs (update k0 v0 m)) k =
      (case map_of kvs k of None \<Rightarrow> lookup (update k0 v0 m) k | Some v \<Rightarrow> Some v)"
    using Cons by (simp add: wf_update)
  have "k = k0 \<Longrightarrow> map_of kvs k = None"
    using Cons.prems by (simp add: map_of_eq_None_iff)
  then show ?case using IH Cons.prems by (auto simp: lookup_update split: option.splits)
qed

lemma wf_fold_update: "wf m \<Longrightarrow> wf (fold (\<lambda>(k, v). update k v) kvs m)"
  by (induction kvs arbitrary: m) (auto simp: wf_update)

lemma update_remove_absent:
  "wf m \<Longrightarrow> lookup m k = None \<Longrightarrow> lookup (remove k (update k v m)) k' = lookup m k'"
  by (simp add: wf_update lookup_update lookup_remove)

end

text \<open>\<open>BTreeMap\<close>: an association list in strictly increasing key order.\<close>

type_synonym ('k, 'v) btree = "('k \<times> 'v) list"

definition bt_wf :: "('k::linorder, 'v) btree \<Rightarrow> bool" where
  "bt_wf m \<longleftrightarrow> sorted_wrt (<) (map fst m)"

fun bt_insert :: "'k::linorder \<Rightarrow> 'v \<Rightarrow> ('k, 'v) btree \<Rightarrow> ('k, 'v) btree" where
  "bt_insert k v [] = [(k, v)]"
| "bt_insert k v ((a, b) # m) =
     (if k < a then (k, v) # (a, b) # m
      else if k = a then (k, v) # m
      else (a, b) # bt_insert k v m)"

definition bt_get :: "('k, 'v) btree \<Rightarrow> 'k \<Rightarrow> 'v option" where
  "bt_get m k = map_of m k"

definition bt_remove :: "'k \<Rightarrow> ('k, 'v) btree \<Rightarrow> ('k, 'v) btree" where
  "bt_remove k m = filter (\<lambda>kv. fst kv \<noteq> k) m"

lemma bt_get_insert: "bt_get (bt_insert k v m) k' = (if k' = k then Some v else bt_get m k')"
  by (induction m) (auto simp: bt_get_def)

lemma bt_get_remove: "bt_get (bt_remove k m) k' = (if k' = k then None else bt_get m k')"
  by (induction m) (auto simp: bt_get_def bt_remove_def)

lemma bt_insert_set: "fst ` set (bt_insert k v m) = insert k (fst ` set m)"
proof (induction m)
  case (Cons ab m)
  then show ?case by (cases ab) auto
qed simp

lemma bt_insert_keys: "set (map fst (bt_insert k v m)) = insert k (set (map fst m))"
  by (simp add: bt_insert_set)

lemma bt_wf_insert: "bt_wf m \<Longrightarrow> bt_wf (bt_insert k v m)"
proof (induction m)
  case Nil
  then show ?case by (simp add: bt_wf_def)
next
  case (Cons ab m)
  obtain a b where [simp]: "ab = (a, b)" by (cases ab)
  have wf: "bt_wf m" and lt: "\<forall>x \<in> set (map fst m). a < x"
    using Cons.prems by (auto simp: bt_wf_def)
  show ?case
  proof (cases "k < a")
    case True
    then show ?thesis using Cons.prems lt by (auto simp: bt_wf_def)
  next
    case False
    then show ?thesis
      using Cons.IH [OF wf] lt bt_insert_keys [of k v m] wf
      by (auto simp: bt_wf_def)
  qed
qed

lemma bt_wf_distinct: "bt_wf m \<Longrightarrow> distinct (map fst m)"
  unfolding bt_wf_def by (induction m) auto

lemma bt_wf_remove: "bt_wf m \<Longrightarrow> bt_wf (bt_remove k m)"
  by (induction m) (auto simp: bt_wf_def bt_remove_def)

lemma bt_insert_append: "\<forall>j \<in> set (map fst m). j < k \<Longrightarrow> bt_insert k v m = m @ [(k, v)]"
  by (induction m) auto

lemma bt_insert_subset: "set (bt_insert k v m) \<subseteq> insert (k, v) (set m)"
  by (induction m) (auto split: if_splits)

lemma fold_bt_insert_subset: "set (fold (\<lambda>(k, v). bt_insert k v) kvs m) \<subseteq> set kvs \<union> set m"
proof (induction kvs arbitrary: m)
  case (Cons kv kvs)
  then show ?case using bt_insert_subset [of "fst kv" "snd kv" m] by (cases kv) fastforce
qed simp

lemma bt_fold_append:
  "sorted_wrt (<) (map fst out @ map fst kvs) \<Longrightarrow> fold (\<lambda>(k, v). bt_insert k v) kvs out = out @ kvs"
proof (induction kvs arbitrary: out)
  case (Cons kv kvs)
  have "bt_insert (fst kv) (snd kv) out = out @ [(fst kv, snd kv)]"
    by (rule bt_insert_append) (use Cons.prems in \<open>simp add: sorted_wrt_append\<close>)
  then show ?case using Cons.IH [of "out @ [kv]"] Cons.prems by (simp add: case_prod_beta)
qed simp

lemma bt_of_sorted: "bt_wf m \<Longrightarrow> fold (\<lambda>(k, v). bt_insert k v) m [] = m"
  using bt_fold_append [of "[]" m] by (simp add: bt_wf_def)

lemma bt_ext:
  assumes "bt_wf m" and "bt_wf n" and "\<And>k. bt_get m k = bt_get n k"
  shows "m = n"
proof -
  have eq: "map_of m = map_of n" using assms(3) by (simp add: bt_get_def fun_eq_iff)
  then have "fst ` set m = fst ` set n" by (metis dom_map_of_conv_image_fst)
  then have keys: "map fst m = map fst n"
    using assms(1,2) strict_sorted_equal [of "map fst n" "map fst m"] by (simp add: bt_wf_def)
  have rebuild: "map (\<lambda>k. (k, the (map_of xs k))) (map fst xs) = xs" if "distinct (map fst xs)" for xs :: "('a \<times> 'b) list"
    using that by (auto simp: comp_def intro!: map_idI)
  show ?thesis using rebuild [OF bt_wf_distinct [OF assms(1)]] rebuild [OF bt_wf_distinct [OF assms(2)]] unfolding eq keys by simp
qed

lemma bt_get_map: "bt_get (map (\<lambda>(k, x). (k, f x)) m) k = map_option f (bt_get m k)"
  by (simp add: bt_get_def map_of_map)

interpretation bt: kv_map "[]" bt_get bt_insert bt_remove bt_wf
  by unfold_locales
    (auto simp: bt_get_insert bt_get_remove bt_wf_insert bt_wf_remove, simp_all add: bt_get_def bt_wf_def)

text \<open>
  The insertion-ordered map of \<open>serde_json\<close>: an update replaces in place or appends.
\<close>

interpretation al: kv_map "[]" map_of AList.update AList.delete "\<lambda>m. distinct (map fst m)"
  by unfold_locales
    (auto simp: update_conv' delete_conv' distinct_update distinct_delete)

text \<open>Inserting fresh keys into an insertion-ordered map appends them.\<close>

lemma al_update_fresh: "k \<notin> fst ` set m \<Longrightarrow> AList.update k v m = m @ [(k, v)]"
  by (induction m) auto

lemma al_of_distinct:
  "distinct (map fst out @ map fst kvs) \<Longrightarrow> fold (\<lambda>(k, v). AList.update k v) kvs out = out @ kvs"
proof (induction kvs arbitrary: out)
  case (Cons kv kvs)
  then have "AList.update (fst kv) (snd kv) out = out @ [(fst kv, snd kv)]" by (intro al_update_fresh) auto
  then show ?case using Cons.IH [of "out @ [kv]"] Cons.prems by (simp add: case_prod_beta)
qed simp


section \<open>Lists\<close>

lemma alist_update_new: "k \<notin> fst ` set al \<Longrightarrow> AList.update k v al = al @ [(k, v)]"
  by (induction al) auto

lemma map_of_zip_upt:
  "distinct ks \<Longrightarrow> i < length ks \<Longrightarrow> map_of (zip ks [0..<length ks]) (ks ! i) = Some i"
  using map_of_zip_nth [of ks "[0..<length ks]" i] by simp

lemma map_of_upt_zip: "i < length ks \<Longrightarrow> map_of (zip [0..<length ks] ks) i = Some (ks ! i)"
  using map_of_zip_nth [of "[0..<length ks]" ks i] by simp

lemma map_of_zip_swap:
  assumes "length xs = length ys" and "distinct xs" and "distinct ys"
  shows "map_of (zip xs ys) k = Some v \<longleftrightarrow> map_of (zip ys xs) v = Some k"
proof -
  have "(k, v) \<in> set (zip xs ys) \<longleftrightarrow> (v, k) \<in> set (zip ys xs)" using assms(1) by (auto simp: in_set_zip)
  then show ?thesis using assms by (simp add: map_of_eq_Some_iff)
qed

lemma those_map_Some: "(\<And>x. x \<in> set xs \<Longrightarrow> f x = Some (g x)) \<Longrightarrow> those (map f xs) = Some (map g xs)"
  by (induction xs) auto

lemma find_Some_in: "find P xs = Some x \<Longrightarrow> x \<in> set xs \<and> P x"
  by (auto simp: find_Some_iff)

lemma find_map_same:
  assumes "\<And>x. P (g x) = P x"
  shows "find P (map g xs) = map_option g (find P xs)"
  by (induction xs) (auto simp: assms)

lemma sum_list_filter_le_nat: "sum_list (map f (filter P xs)) \<le> (sum_list (map f xs) :: nat)"
  by (induction xs) auto

section \<open>Words bit by bit\<close>

lemma drop_bit_eq_bits:
  "drop_bit n v = drop_bit n w \<longleftrightarrow> (\<forall>k < LENGTH('a). n \<le> k \<longrightarrow> bit v k = bit w k)" for v w :: "'a::len word"
proof
  assume e: "drop_bit n v = drop_bit n w"
  show "\<forall>k < LENGTH('a). n \<le> k \<longrightarrow> bit v k = bit w k"
  proof (intro allI impI)
    fix k assume "n \<le> k"
    then show "bit v k = bit w k" using arg_cong [OF e, of "\<lambda>u. bit u (k - n)"] by (simp add: bit_drop_bit_eq)
  qed
next
  assume h: "\<forall>k < LENGTH('a). n \<le> k \<longrightarrow> bit v k = bit w k"
  show "drop_bit n v = drop_bit n w"
  proof (rule bit_word_eqI)
    fix k
    show "bit (drop_bit n v) k = bit (drop_bit n w) k"
      using h bit_imp_le_length [of v "n + k"] bit_imp_le_length [of w "n + k"]
      by (cases "n + k < LENGTH('a)") (auto simp: bit_drop_bit_eq)
  qed
qed

lemma word8_bits: "a = w \<longleftrightarrow> (\<forall>k < 8. bit a k = bit w k)" for a w :: "8 word"
  by (auto intro: bit_word_eqI)

lemma all_less_8: "(\<forall>k < 8. P k) \<longleftrightarrow> P 0 \<and> P 1 \<and> P 2 \<and> P 3 \<and> P 4 \<and> P 5 \<and> P 6 \<and> P (7 :: nat)"
proof -
  have "k < 8 \<Longrightarrow> k \<in> {0, 1, 2, 3, 4, 5, 6, 7 :: nat}" for k by (simp add: eval_nat_numeral less_Suc_eq)
  then show ?thesis by auto
qed

lemma word16_bits: "a = w \<longleftrightarrow> (\<forall>k < 16. bit a k = bit w k)" for a w :: "16 word"
  by (auto intro: bit_word_eqI)

lemma less_16: "k < 16 \<Longrightarrow> k \<in> {0, 1, 2, 3, 4, 5, 6, 7, 8, 9, 10, 11, 12, 13, 14, 15 :: nat}"
  by (simp add: eval_nat_numeral less_Suc_eq)

lemma all_less_16:
  "(\<forall>k < 16. P k) \<longleftrightarrow> P 0 \<and> P 1 \<and> P 2 \<and> P 3 \<and> P 4 \<and> P 5 \<and> P 6 \<and> P 7 \<and>
     P 8 \<and> P 9 \<and> P 10 \<and> P 11 \<and> P 12 \<and> P 13 \<and> P 14 \<and> P (15 :: nat)"
  by (auto dest: less_16)

section \<open>The integer square root\<close>

text \<open>\<open>usize::isqrt\<close>, two bits of the argument at a time.\<close>

function isqrt :: "nat \<Rightarrow> nat" where
  "isqrt n = (if n = 0 then 0 else let r = 2 * isqrt (n div 4) in if (r + 1) * (r + 1) \<le> n then r + 1 else r)"
  by pat_completeness auto
termination by (relation "measure id") auto

declare isqrt.simps [simp del]

lemma isqrt_bounds: "isqrt n * isqrt n \<le> n \<and> n < (isqrt n + 1) * (isqrt n + 1)"
proof (induction n rule: isqrt.induct)
  case (1 n)
  show ?case
  proof (cases "n = 0")
    case False
    define r where "r = isqrt (n div 4)"
    have IH: "r * r \<le> n div 4" "n div 4 < (r + 1) * (r + 1)" using 1 [OF False] by (simp_all add: r_def)
    then have "4 * (r * r) \<le> n" "n < 4 * ((r + 1) * (r + 1))" by linarith+
    moreover have "isqrt n = (if (2 * r + 1) * (2 * r + 1) \<le> n then 2 * r + 1 else 2 * r)"
      using False by (subst isqrt.simps) (simp add: r_def Let_def)
    ultimately show ?thesis by (auto simp: algebra_simps)
  qed (simp add: isqrt.simps)
qed

end
