(* ===== verification/Ieee_F64.thy ===== *)
theory Ieee_F64
  imports Orbit_Prelude
begin

text \<open>
  Rust's \<open>f64\<close> as its IEEE 754 binary64 bit pattern. A finite magnitude is a natural
  number of units of \<open>2 ^ - 1074\<close> (the least subnormal), so every operation is exact
  integer arithmetic followed by one rounding to nearest, ties to even. Every NaN result
  is the canonical quiet NaN: no code modelled here looks at a NaN payload.
\<close>

type_synonym f64 = "64 word"

section \<open>Classification and value\<close>

definition inf_mag :: nat where "inf_mag = 2047 * 2 ^ 52"

definition f64_neg :: "f64 \<Rightarrow> bool" where "f64_neg w \<longleftrightarrow> 2 ^ 63 \<le> unat w"
definition f64_mag :: "f64 \<Rightarrow> nat" where "f64_mag w = unat w mod 2 ^ 63"
definition f64_make :: "bool \<Rightarrow> nat \<Rightarrow> f64" where
  "f64_make s m = of_nat ((if s then 2 ^ 63 else 0) + m)"

definition f64_is_nan :: "f64 \<Rightarrow> bool" where "f64_is_nan w \<longleftrightarrow> inf_mag < f64_mag w"
definition f64_is_infinite :: "f64 \<Rightarrow> bool" where "f64_is_infinite w \<longleftrightarrow> f64_mag w = inf_mag"
definition f64_is_finite :: "f64 \<Rightarrow> bool" where "f64_is_finite w \<longleftrightarrow> f64_mag w < inf_mag"

definition f64_nan :: f64 where "f64_nan = f64_make False (2047 * 2 ^ 52 + 2 ^ 51)"
definition f64_infinity :: "bool \<Rightarrow> f64" where "f64_infinity s = f64_make s inf_mag"

text \<open>The magnitude in units of \<open>2 ^ - 1074\<close>.\<close>

definition mag_units :: "nat \<Rightarrow> nat" where
  "mag_units m = (if m < 2 ^ 52 then m else (2 ^ 52 + m mod 2 ^ 52) * 2 ^ (m div 2 ^ 52 - 1))"

definition f64_units :: "f64 \<Rightarrow> int" where
  "f64_units w = (if f64_neg w then - int (mag_units (f64_mag w)) else int (mag_units (f64_mag w)))"

section \<open>Rounding\<close>

fun bitlen :: "nat \<Rightarrow> nat" where
  "bitlen n = (if n = 0 then 0 else Suc (bitlen (n div 2)))"

declare bitlen.simps [simp del]

text \<open>Round \<open>a / b\<close> to an integer, ties to even.\<close>

definition rne :: "nat \<Rightarrow> nat \<Rightarrow> nat" where
  "rne a b = (if 2 * (a mod b) < b \<or> 2 * (a mod b) = b \<and> even (a div b) then a div b else Suc (a div b))"

text \<open>The magnitude nearest to \<open>num / den\<close> units; beyond the largest finite one, infinity.\<close>

definition round_mag :: "nat \<Rightarrow> nat \<Rightarrow> nat" where
  "round_mag num den =
     (let k = bitlen (num div den) - 53 in min (k * 2 ^ 52 + rne num (den * 2 ^ k)) inf_mag)"

section \<open>Operations\<close>

definition f64_minus :: "f64 \<Rightarrow> f64" where
  "f64_minus w = f64_make (\<not> f64_neg w) (f64_mag w)"

definition f64_abs :: "f64 \<Rightarrow> f64" where
  "f64_abs w = f64_make False (f64_mag w)"

definition f64_add :: "f64 \<Rightarrow> f64 \<Rightarrow> f64" where
  "f64_add a b =
     (if f64_is_nan a \<or> f64_is_nan b then f64_nan
      else if f64_is_infinite a then
        (if f64_is_infinite b \<and> f64_neg a \<noteq> f64_neg b then f64_nan else a)
      else if f64_is_infinite b then b
      else let s = f64_units a + f64_units b in
        if s = 0 then f64_make (f64_neg a \<and> f64_neg b) 0
        else f64_make (s < 0) (round_mag (nat \<bar>s\<bar>) 1))"

definition f64_sub :: "f64 \<Rightarrow> f64 \<Rightarrow> f64" where
  "f64_sub a b = f64_add a (f64_minus b)"

definition f64_mul :: "f64 \<Rightarrow> f64 \<Rightarrow> f64" where
  "f64_mul a b =
     (let s = (f64_neg a \<noteq> f64_neg b) in
      if f64_is_nan a \<or> f64_is_nan b then f64_nan
      else if f64_is_infinite a then (if f64_mag b = 0 then f64_nan else f64_infinity s)
      else if f64_is_infinite b then (if f64_mag a = 0 then f64_nan else f64_infinity s)
      else f64_make s (round_mag (mag_units (f64_mag a) * mag_units (f64_mag b)) (2 ^ 1074)))"

definition f64_div :: "f64 \<Rightarrow> f64 \<Rightarrow> f64" where
  "f64_div a b =
     (let s = (f64_neg a \<noteq> f64_neg b) in
      if f64_is_nan a \<or> f64_is_nan b then f64_nan
      else if f64_is_infinite a then (if f64_is_infinite b then f64_nan else f64_infinity s)
      else if f64_is_infinite b then f64_make s 0
      else if f64_mag b = 0 then (if f64_mag a = 0 then f64_nan else f64_infinity s)
      else f64_make s (round_mag (mag_units (f64_mag a) * 2 ^ 1074) (mag_units (f64_mag b))))"

text \<open>Integer casts (\<open>as f64\<close>).\<close>

definition f64_of_nat :: "nat \<Rightarrow> f64" where
  "f64_of_nat n = f64_make False (round_mag (n * 2 ^ 1074) 1)"

definition f64_of_int :: "int \<Rightarrow> f64" where
  "f64_of_int i = f64_make (i < 0) (round_mag (nat \<bar>i\<bar> * 2 ^ 1074) 1)"

text \<open>Comparisons: false as soon as one side is NaN; the two zeros are equal.\<close>

definition f64_lt :: "f64 \<Rightarrow> f64 \<Rightarrow> bool" where
  "f64_lt a b \<longleftrightarrow> \<not> f64_is_nan a \<and> \<not> f64_is_nan b \<and> f64_units a < f64_units b"

definition f64_eq :: "f64 \<Rightarrow> f64 \<Rightarrow> bool" where
  "f64_eq a b \<longleftrightarrow> \<not> f64_is_nan a \<and> \<not> f64_is_nan b \<and> f64_units a = f64_units b"

definition f64_le :: "f64 \<Rightarrow> f64 \<Rightarrow> bool" where
  "f64_le a b \<longleftrightarrow> \<not> f64_is_nan a \<and> \<not> f64_is_nan b \<and> f64_units a \<le> f64_units b"

text \<open>\<open>f64::clamp\<close>; NaN passes through both comparisons.\<close>

definition f64_clamp :: "f64 \<Rightarrow> f64 \<Rightarrow> f64 \<Rightarrow> f64" where
  "f64_clamp x lo hi =
     (let x1 = (if f64_lt x lo then lo else x) in if f64_lt hi x1 then hi else x1)"

text \<open>\<open>f64::min\<close> and \<open>f64::max\<close>: a NaN operand is ignored.\<close>

definition f64_min :: "f64 \<Rightarrow> f64 \<Rightarrow> f64" where
  "f64_min a b = (if f64_is_nan a then b else if f64_is_nan b then a else if f64_lt b a then b else a)"

definition f64_max :: "f64 \<Rightarrow> f64 \<Rightarrow> f64" where
  "f64_max a b = (if f64_is_nan a then b else if f64_is_nan b then a else if f64_lt a b then b else a)"

section \<open>Bits\<close>

lemma f64_make_parts:
  assumes "m < 2 ^ 63"
  shows "f64_neg (f64_make s m) = s" and "f64_mag (f64_make s m) = m"
proof -
  have "unat (f64_make s m) = (if s then 2 ^ 63 else 0) + m"
    using assms unfolding f64_make_def by (simp only: unsigned_of_nat take_bit_eq_mod) auto
  then show "f64_neg (f64_make s m) = s" and "f64_mag (f64_make s m) = m"
    using assms by (auto simp: f64_neg_def f64_mag_def)
qed

lemma f64_make_collapse: "f64_make (f64_neg w) (f64_mag w) = w"
proof -
  have lt: "unat w < 2 ^ 64" using unsigned_less [of w] by simp
  have "(if f64_neg w then 2 ^ 63 else 0) + f64_mag w = unat w"
    using lt by (auto simp: f64_neg_def f64_mag_def mod_if [of "unat w"])
  then show ?thesis by (simp add: f64_make_def)
qed

lemma f64_mag_less: "f64_mag w < 2 ^ 63"
  by (simp add: f64_mag_def)

lemma inf_mag_less: "inf_mag < 2 ^ 63"
  by (simp add: inf_mag_def)

lemma round_mag_le_inf: "round_mag num den \<le> inf_mag"
  by (simp add: round_mag_def Let_def)

lemma round_mag_less: "round_mag num den < 2 ^ 63"
  using round_mag_le_inf [of num den] inf_mag_less by simp

lemma f64_make_round_not_nan: "\<not> f64_is_nan (f64_make s (round_mag num den))"
  using round_mag_le_inf [of num den] f64_make_parts(2) [OF round_mag_less, of s num den]
  by (simp add: f64_is_nan_def)

section \<open>Rounding is monotone and exact on representable values\<close>

lemma bitlen_bounds: "0 < n \<Longrightarrow> 2 ^ (bitlen n - 1) \<le> n \<and> n < 2 ^ bitlen n"
proof (induction n rule: bitlen.induct)
  case (1 n)
  show ?case
  proof (cases "n div 2 = 0")
    case True
    with "1.prems" have "n = 1" by simp
    then show ?thesis by (simp add: bitlen.simps)
  next
    case False
    then have IH: "2 ^ (bitlen (n div 2) - 1) \<le> n div 2" "n div 2 < 2 ^ bitlen (n div 2)"
      using "1.IH" "1.prems" by auto
    have b: "bitlen n = Suc (bitlen (n div 2))" using "1.prems" by (simp add: bitlen.simps [of n])
    have pos: "0 < bitlen (n div 2)" using False by (simp add: bitlen.simps [of "n div 2"])
    then have "2 ^ bitlen (n div 2) = 2 * (2 ^ (bitlen (n div 2) - 1) :: nat)"
      by (simp add: power_eq_if)
    then show ?thesis using IH unfolding b by (simp only: diff_Suc_1 power_Suc) linarith
  qed
qed

lemma bitlen_le_iff: "bitlen n \<le> k \<longleftrightarrow> n < 2 ^ k"
proof (cases "n = 0")
  case True
  then show ?thesis by (simp add: bitlen.simps)
next
  case False
  then have b: "2 ^ (bitlen n - 1) \<le> n" "n < 2 ^ bitlen n" using bitlen_bounds by auto
  show ?thesis
  proof
    assume "bitlen n \<le> k"
    then have "(2::nat) ^ bitlen n \<le> 2 ^ k" by simp
    with b show "n < 2 ^ k" by linarith
  next
    assume "n < 2 ^ k"
    with b(1) have "(2::nat) ^ (bitlen n - 1) < 2 ^ k" by linarith
    then have "bitlen n - 1 < k" by (simp only: power_strict_increasing_iff one_less_numeral_iff semiring_norm)
    then show "bitlen n \<le> k" by simp
  qed
qed

lemma bitlen_mono: "m \<le> n \<Longrightarrow> bitlen m \<le> bitlen n"
  using bitlen_le_iff [of m "bitlen n"] bitlen_le_iff [of n "bitlen n"] by simp

lemma rne_bounds: "a div b \<le> rne a b" "rne a b \<le> Suc (a div b)"
  by (simp_all add: rne_def)

lemma rne_exact: "0 < b \<Longrightarrow> rne (q * b) b = q"
  by (simp add: rne_def)

lemma rne_mono:
  assumes "0 < b" and "a \<le> a'"
  shows "rne a b \<le> rne a' b"
proof (cases "a div b = a' div b")
  case False
  with div_le_mono [OF assms(2), of b] have "Suc (a div b) \<le> a' div b" by simp
  then show ?thesis using rne_bounds(2) [of a b] rne_bounds(1) [of a' b] by linarith
next
  case True
  have "a mod b \<le> a' mod b"
    using assms True by (metis add_le_cancel_left mult_div_mod_eq)
  then show ?thesis using True by (auto simp: rne_def)
qed

lemma rne_le: "0 < b \<Longrightarrow> a \<le> q * b \<Longrightarrow> rne a b \<le> q"
  using rne_mono [of b a "q * b"] rne_exact [of b q] by simp

lemma rne_ge: "0 < b \<Longrightarrow> q * b \<le> a \<Longrightarrow> q \<le> rne a b"
  using rne_mono [of b "q * b" a] rne_exact [of b q] by simp

lemma round_mag_step:
  assumes "0 < den" and "bitlen (num div den) - 53 < k"
    and "k \<le> bitlen (num' div den) - 53"
  shows "(bitlen (num div den) - 53) * 2 ^ 52 + rne num (den * 2 ^ (bitlen (num div den) - 53))
    \<le> (bitlen (num' div den) - 53) * 2 ^ 52 + rne num' (den * 2 ^ (bitlen (num' div den) - 53))"
proof -
  let ?j = "bitlen (num div den) - 53" and ?j' = "bitlen (num' div den) - 53"
  have "bitlen (num div den) \<le> 53 + ?j" by linarith
  then have "num div den < 2 ^ (53 + ?j)" by (simp only: bitlen_le_iff)
  then have "num < 2 ^ (53 + ?j) * den" using assms(1) by (simp add: div_less_iff_less_mult)
  then have "rne num (den * 2 ^ ?j) \<le> 2 ^ 53"
    using assms(1) by (intro rne_le) (auto simp: power_add mult_ac)
  moreover have "\<not> bitlen (num' div den) \<le> 52 + ?j'" using assms(2,3) by linarith
  then have "2 ^ (52 + ?j') \<le> num' div den" by (simp add: bitlen_le_iff)
  then have "2 ^ (52 + ?j') * den \<le> num'" using assms(1) by (simp add: less_eq_div_iff_mult_less_eq)
  then have "2 ^ 52 \<le> rne num' (den * 2 ^ ?j')"
    using assms(1) by (intro rne_ge) (auto simp: power_add mult_ac)
  moreover have "(?j + 1) * 2 ^ 52 \<le> ?j' * (2 ^ 52 :: nat)" using assms(2,3) by (intro mult_le_mono1) linarith
  ultimately show ?thesis by (simp add: algebra_simps)
qed

lemma round_mag_mono:
  assumes "0 < den" and "num \<le> num'"
  shows "round_mag num den \<le> round_mag num' den"
proof -
  let ?j = "bitlen (num div den) - 53" and ?j' = "bitlen (num' div den) - 53"
  have "?j \<le> ?j'" using bitlen_mono [OF div_le_mono [OF assms(2), of den]] by simp
  then consider "?j = ?j'" | "?j < ?j'" by linarith
  then have "?j * 2 ^ 52 + rne num (den * 2 ^ ?j) \<le> ?j' * 2 ^ 52 + rne num' (den * 2 ^ ?j')"
  proof cases
    case 1
    then show ?thesis using rne_mono [OF _ assms(2), of "den * 2 ^ ?j"] assms(1) by simp
  next
    case 2
    then show ?thesis using round_mag_step [OF assms(1) 2, of num'] by simp
  qed
  then show ?thesis by (simp add: round_mag_def Let_def min.coboundedI1 min_le_iff_disj)
qed

lemma bitlen_eqI: "2 ^ k \<le> n \<Longrightarrow> n < 2 ^ Suc k \<Longrightarrow> bitlen n = Suc k"
  using bitlen_le_iff [of n k] bitlen_le_iff [of n "Suc k"] by simp

lemma round_mag_units:
  assumes "m \<le> inf_mag"
  shows "round_mag (mag_units m) 1 = m"
proof (cases "m < 2 ^ 52")
  case True
  then have "bitlen m \<le> 53" by (simp add: bitlen_le_iff)
  then show ?thesis
    using True assms rne_exact [of 1 m] by (simp add: round_mag_def mag_units_def Let_def)
next
  case False
  define e where "e = m div 2 ^ 52 - 1"
  define f where "f = 2 ^ 52 + m mod 2 ^ 52"
  have m: "m = e * 2 ^ 52 + f"
  proof -
    have "1 \<le> m div 2 ^ 52" using False by (simp add: less_eq_div_iff_mult_less_eq)
    then have "m div 2 ^ 52 = Suc e" by (simp add: e_def)
    then show ?thesis using div_mult_mod_eq [of m "2 ^ 52"] by (simp add: f_def)
  qed
  have f: "2 ^ 52 \<le> f" "f < 2 ^ 53" by (simp_all add: f_def)
  have u: "mag_units m = f * 2 ^ e" using False by (simp add: mag_units_def e_def f_def)
  have "bitlen (f * 2 ^ e) = Suc (52 + e)"
    using f by (intro bitlen_eqI) (simp_all add: power_add)
  then have k: "bitlen (f * 2 ^ e div 1) - 53 = e" by simp
  show ?thesis
    unfolding u round_mag_def Let_def k using assms rne_exact [of "2 ^ e" f] m
    by (simp add: min_absorb1)
qed

lemma mag_units_inj: "m \<le> inf_mag \<Longrightarrow> m' \<le> inf_mag \<Longrightarrow> mag_units m = mag_units m' \<Longrightarrow> m = m'"
  by (metis round_mag_units)

lemma mag_units_zero [simp]: "mag_units m = 0 \<longleftrightarrow> m = 0"
  by (simp add: mag_units_def)

section \<open>Algebra of the operations\<close>

lemma f64_add_commute: "\<not> (f64_is_infinite a \<and> f64_is_infinite b) \<Longrightarrow> f64_add a b = f64_add b a"
  by (auto simp: f64_add_def Let_def add.commute conj_commute)

lemma f64_mul_commute: "f64_mul a b = f64_mul b a"
proof -
  have s: "(f64_neg a \<noteq> f64_neg b) = (f64_neg b \<noteq> f64_neg a)" by auto
  have z: "f64_is_infinite w \<Longrightarrow> f64_mag w \<noteq> 0" for w by (simp add: f64_is_infinite_def inf_mag_def)
  show ?thesis
    unfolding f64_mul_def Let_def s
    by (auto simp del: power_numeral simp: mult.commute dest: z)
qed

lemma f64_clamp_range:
  assumes "f64_le lo hi"
  shows "f64_is_nan x \<and> f64_clamp x lo hi = x \<or>
    f64_le lo (f64_clamp x lo hi) \<and> f64_le (f64_clamp x lo hi) hi"
  using assms by (auto simp: f64_clamp_def f64_lt_def f64_le_def Let_def)

lemma mag_units_mono:
  assumes "m \<le> m'" and "m' \<le> inf_mag"
  shows "mag_units m \<le> mag_units m'"
proof (rule ccontr)
  assume "\<not> mag_units m \<le> mag_units m'"
  then have "round_mag (mag_units m') 1 \<le> round_mag (mag_units m) 1" by (intro round_mag_mono) simp_all
  then have "m' \<le> m" using round_mag_units [of m] round_mag_units [of m'] assms by simp
  then show False using assms \<open>\<not> mag_units m \<le> mag_units m'\<close> by simp
qed

lemma f64_of_nat_mono:
  assumes "a \<le> b"
  shows "f64_le (f64_of_nat a) (f64_of_nat b)"
proof -
  have "round_mag (a * 2 ^ 1074) 1 \<le> round_mag (b * 2 ^ 1074) 1" using assms by (intro round_mag_mono) simp_all
  then show ?thesis
    using mag_units_mono [OF _ round_mag_le_inf]
    by (simp add: f64_le_def f64_of_nat_def f64_make_round_not_nan f64_units_def f64_make_parts [OF round_mag_less]
        del: power_numeral)
qed

lemma f64_of_nat_finite:
  assumes "n < 2 ^ 64"
  shows "f64_mag (f64_of_nat n) < inf_mag" and "\<not> f64_neg (f64_of_nat n)"
proof -
  have u: "mag_units (1087 * 2 ^ 52) = 2 ^ 64 * 2 ^ 1074" by (simp add: mag_units_def)
  have "1087 * 2 ^ 52 \<le> inf_mag" by (simp add: inf_mag_def)
  from round_mag_units [OF this] have r: "round_mag (2 ^ 64 * 2 ^ 1074) 1 = 1087 * 2 ^ 52" unfolding u .
  have "round_mag (n * 2 ^ 1074) 1 \<le> round_mag (2 ^ 64 * 2 ^ 1074) 1"
    using assms by (intro round_mag_mono) (simp_all only: zero_less_one mult_le_mono1 less_imp_le)
  then have "round_mag (n * 2 ^ 1074) 1 < inf_mag" unfolding r by (simp add: inf_mag_def)
  then show "f64_mag (f64_of_nat n) < inf_mag" "\<not> f64_neg (f64_of_nat n)"
    unfolding f64_of_nat_def f64_make_parts [OF round_mag_less] by simp_all
qed

end
