(* ===== verification/Json.thy ===== *)
theory Json
  imports Ieee_F64
begin

text \<open>
  The JSON values the program passes around (\<open>serde_json::Value\<close>), the accessors it calls on
  them, and the openEO process-graph types of \<open>crates/eo-process\<close> with the decoding that their
  \<open>Deserialize\<close> derivations perform. An object is its entries in iteration order; keys are
  distinct in every value the parser produces (\<open>json_wf\<close>).
\<close>

section \<open>Values\<close>

datatype json_number = PosInt nat | NegInt int | Float f64

datatype json =
    JNull
  | JBool bool
  | JNumber json_number
  | JString string
  | JArray "json list"
  | JObject "(string \<times> json) list"

fun as_object :: "json \<Rightarrow> (string \<times> json) list option" where
  "as_object (JObject kvs) = Some kvs"
| "as_object _ = None"

fun as_array :: "json \<Rightarrow> json list option" where
  "as_array (JArray xs) = Some xs"
| "as_array _ = None"

fun as_str :: "json \<Rightarrow> string option" where
  "as_str (JString s) = Some s"
| "as_str _ = None"

fun as_bool :: "json \<Rightarrow> bool option" where
  "as_bool (JBool b) = Some b"
| "as_bool _ = None"

fun as_u64 :: "json \<Rightarrow> nat option" where
  "as_u64 (JNumber (PosInt n)) = Some n"
| "as_u64 _ = None"

fun as_f64 :: "json \<Rightarrow> f64 option" where
  "as_f64 (JNumber (PosInt n)) = Some (f64_of_nat n)"
| "as_f64 (JNumber (NegInt i)) = Some (f64_of_int i)"
| "as_f64 (JNumber (Float x)) = Some x"
| "as_f64 _ = None"

definition json_get :: "json \<Rightarrow> string \<Rightarrow> json option" where
  "json_get v k = (case v of JObject kvs \<Rightarrow> map_of kvs k | _ \<Rightarrow> None)"

text \<open>\<open>Value::from(f64)\<close>: a number that JSON cannot carry becomes \<open>null\<close>.\<close>

definition json_from_f64 :: "f64 \<Rightarrow> json" where
  "json_from_f64 x = (if f64_is_finite x then JNumber (Float x) else JNull)"

fun json_wf :: "json \<Rightarrow> bool" where
  "json_wf (JArray xs) = list_all json_wf xs"
| "json_wf (JObject kvs) = (distinct (map fst kvs) \<and> list_all (\<lambda>kv. json_wf (snd kv)) kvs)"
| "json_wf _ = True"

section \<open>Process graphs (\<open>crates/eo-process/src/graph.rs\<close>)\<close>

record process =
  process_id :: string
  arguments :: "(string, json) btree"
  result_flag :: "bool option"

record process_graph =
  pg_nodes :: "(string, process) btree"

text \<open>The node marked \<open>result: true\<close>, when there is exactly one.\<close>

fun result_node_loop ::
  "(string \<times> process) list \<Rightarrow> (string \<times> process) option \<Rightarrow> (string \<times> process) option" where
  "result_node_loop [] found = found"
| "result_node_loop ((i, node) # rest) found =
     (if result_flag node = Some True then
        (if found \<noteq> None then None else result_node_loop rest (Some (i, node)))
      else result_node_loop rest found)"

definition result_node :: "process_graph \<Rightarrow> (string \<times> process) option" where
  "result_node g = result_node_loop (pg_nodes g) None"

section \<open>Decoding\<close>

text \<open>
  The derived decoders. The wording of a decoding error belongs to serde and is a parameter
  wherever it is shown; which error it is, is not.
\<close>

datatype serde_error = InvalidType | MissingField string | DuplicateField string | InvalidLength nat

fun decode_string :: "json \<Rightarrow> (serde_error, string) result" where
  "decode_string (JString s) = Inr s"
| "decode_string _ = Inl InvalidType"

fun decode_arguments :: "json \<Rightarrow> (serde_error, (string, json) btree) result" where
  "decode_arguments (JObject kvs) = Inr (fold (\<lambda>(k, v). bt_insert k v) kvs [])"
| "decode_arguments _ = Inl InvalidType"

fun decode_opt_bool :: "json \<Rightarrow> (serde_error, bool option) result" where
  "decode_opt_bool JNull = Inr None"
| "decode_opt_bool (JBool b) = Inr (Some b)"
| "decode_opt_bool _ = Inl InvalidType"

fun visit_process_map ::
  "(string \<times> json) list \<Rightarrow> string option \<Rightarrow> (string, json) btree option \<Rightarrow> bool option option
   \<Rightarrow> (serde_error, process) result" where
  "visit_process_map [] pid args res =
     (case pid of None \<Rightarrow> Inl (MissingField ''process_id'')
      | Some p \<Rightarrow> Inr \<lparr>process_id = p,
                       arguments = (case args of None \<Rightarrow> [] | Some a \<Rightarrow> a),
                       result_flag = (case res of None \<Rightarrow> None | Some r \<Rightarrow> r)\<rparr>)"
| "visit_process_map ((k, v) # rest) pid args res =
     (if k = ''process_id'' then
        (if pid \<noteq> None then Inl (DuplicateField k)
         else and_then (decode_string v) (\<lambda>p. visit_process_map rest (Some p) args res))
      else if k = ''arguments'' then
        (if args \<noteq> None then Inl (DuplicateField k)
         else and_then (decode_arguments v) (\<lambda>a. visit_process_map rest pid (Some a) res))
      else if k = ''result'' then
        (if res \<noteq> None then Inl (DuplicateField k)
         else and_then (decode_opt_bool v) (\<lambda>r. visit_process_map rest pid args (Some r)))
      else visit_process_map rest pid args res)"

text \<open>A struct may also be given as a sequence of its fields.\<close>

fun visit_process_seq :: "json list \<Rightarrow> (serde_error, process) result" where
  "visit_process_seq [] = Inl (InvalidLength 0)"
| "visit_process_seq [p] =
     and_then (decode_string p) (\<lambda>p. Inr \<lparr>process_id = p, arguments = [], result_flag = None\<rparr>)"
| "visit_process_seq [p, a] =
     and_then (decode_string p) (\<lambda>p. and_then (decode_arguments a) (\<lambda>a.
       Inr \<lparr>process_id = p, arguments = a, result_flag = None\<rparr>))"
| "visit_process_seq (p # a # r # rest) =
     and_then (decode_string p) (\<lambda>p. and_then (decode_arguments a) (\<lambda>a.
       and_then (decode_opt_bool r) (\<lambda>r.
         if rest = [] then Inr \<lparr>process_id = p, arguments = a, result_flag = r\<rparr>
         else Inl (InvalidLength (3 + length rest)))))"

fun decode_process :: "json \<Rightarrow> (serde_error, process) result" where
  "decode_process (JObject kvs) = visit_process_map kvs None None None"
| "decode_process (JArray xs) = visit_process_seq xs"
| "decode_process _ = Inl InvalidType"

text \<open>\<open>BTreeMap<String, Process>\<close> out of a JSON value.\<close>

definition decode_nodes :: "json \<Rightarrow> (serde_error, (string, process) btree) result" where
  "decode_nodes v =
     (case v of JObject kvs \<Rightarrow>
        and_then (traverse (\<lambda>(k, x). and_then (decode_process x) (\<lambda>p. Inr (k, p))) kvs)
          (\<lambda>kps. Inr (fold (\<lambda>(k, p). bt_insert k p) kps []))
      | _ \<Rightarrow> Inl InvalidType)"

section \<open>Lemmas\<close>

lemma json_from_f64_finite: "json_from_f64 x = JNumber (Float x) \<or> json_from_f64 x = JNull"
  by (simp add: json_from_f64_def)

lemma as_f64_from_f64: "f64_is_finite x \<Longrightarrow> as_f64 (json_from_f64 x) = Some x"
  by (simp add: json_from_f64_def)

lemma result_node_loop_spec:
  "result_node_loop nodes found =
     (case (found, filter (\<lambda>n. result_flag (snd n) = Some True) nodes) of
        (f, []) \<Rightarrow> f
      | (None, [n]) \<Rightarrow> Some n
      | _ \<Rightarrow> None)"
proof (induction nodes found rule: result_node_loop.induct)
  case (1 found)
  then show ?case by (cases found) simp_all
next
  case (2 i node rest found)
  then show ?case by (cases found) (auto split: list.splits)
qed

lemma decode_nodes_wf: "decode_nodes v = Inr m \<Longrightarrow> bt_wf m"
  by (auto simp: decode_nodes_def and_then_Inr_iff bt_wf_def [of "[]"] split: json.splits
    intro!: bt.wf_fold_update)

lemma decode_arguments_wf: "decode_arguments v = Inr m \<Longrightarrow> bt_wf m"
  by (cases v) (auto simp: bt_wf_def [of "[]"] intro!: bt.wf_fold_update)

lemma visit_process_map_args_wf:
  "visit_process_map kvs pid args res = Inr p \<Longrightarrow> (\<forall>a. args = Some a \<longrightarrow> bt_wf a) \<Longrightarrow> bt_wf (arguments p)"
  by (induction kvs pid args res rule: visit_process_map.induct)
    (auto simp: and_then_Inr_iff bt.wf_empty dest: decode_arguments_wf split: option.splits if_splits)

lemma decode_process_args_wf: "decode_process v = Inr p \<Longrightarrow> bt_wf (arguments p)"
proof (cases v)
  case (JArray xs)
  assume "decode_process v = Inr p"
  with JArray show ?thesis
    by (cases xs rule: visit_process_seq.cases)
      (auto simp: and_then_Inr_iff bt.wf_empty dest: decode_arguments_wf split: if_splits)
qed (auto dest: visit_process_map_args_wf)

end
