(* ===== verification/Process_Graph.thy ===== *)
theory Process_Graph
  imports Json
begin

text \<open>
  The process-graph analyser of \<open>apps/orbit-openeo/src/process_graph.rs\<close>: the walk that
  collects \<open>from_node\<close> references, the construction of the dependency graph, the result-node
  rule, the evaluation order, and the collection of top-level process ids for submit-time
  validation. Cycle detection and topological sorting belong to petgraph; they are parameters,
  and what the analyser relies on is the locale \<open>graph_algos\<close>.
\<close>

section \<open>Definitions\<close>

datatype graph_error =
    Cycle string
  | UnknownNodeReference string
  | AmbiguousResult nat
  | DepthExceeded nat

definition MAX_SUBGRAPH_DEPTH :: nat where "MAX_SUBGRAPH_DEPTH = 64"

text \<open>
  A petgraph \<open>DiGraph<String, ()>\<close>: node weights by index and the edges in insertion order.
\<close>

record digraph =
  weights :: "string list"
  edges :: "(nat \<times> nat) list"

record analysis =
  graph :: digraph
  idx :: "(string \<times> nat) list"
  by_index :: "(nat \<times> string) list"
  result_id :: string

text \<open>
  The reference walk. The visitor is a closure with mutable captures: it takes and returns
  their state \<open>'s\<close>.
\<close>

type_synonym 's visitor = "'s \<Rightarrow> string \<Rightarrow> (graph_error, 's) result"

fun collect_in_value_inner :: "'s visitor \<Rightarrow> json \<Rightarrow> nat \<Rightarrow> 's \<Rightarrow> (graph_error, 's) result"
  and collect_values :: "'s visitor \<Rightarrow> json list \<Rightarrow> nat \<Rightarrow> 's \<Rightarrow> (graph_error, 's) result"
  and collect_entries :: "'s visitor \<Rightarrow> (string \<times> json) list \<Rightarrow> nat \<Rightarrow> 's \<Rightarrow> (graph_error, 's) result"
where
  "collect_in_value_inner visit v depth s =
     (if depth > MAX_SUBGRAPH_DEPTH then Inl (DepthExceeded MAX_SUBGRAPH_DEPTH)
      else case v of
        JObject obj \<Rightarrow>
          (case map_of obj ''from_node'' of
             Some (JString t) \<Rightarrow> visit s t
           | _ \<Rightarrow> if map_of obj ''process_graph'' \<noteq> None then Inr s
                  else collect_entries visit obj (depth + 1) s)
      | JArray arr \<Rightarrow> collect_values visit arr (depth + 1) s
      | _ \<Rightarrow> Inr s)"
| "collect_values visit [] depth s = Inr s"
| "collect_values visit (x # xs) depth s =
     and_then (collect_in_value_inner visit x depth s) (\<lambda>s'. collect_values visit xs depth s')"
| "collect_entries visit [] depth s = Inr s"
| "collect_entries visit (kv # kvs) depth s =
     and_then (collect_in_value_inner visit (snd kv) depth s) (\<lambda>s'. collect_entries visit kvs depth s')"

definition collect_in_value :: "'s visitor \<Rightarrow> json \<Rightarrow> 's \<Rightarrow> (graph_error, 's) result" where
  "collect_in_value visit v s = collect_in_value_inner visit v 0 s"

fun collect_from_node_refs :: "'s visitor \<Rightarrow> (string, json) btree \<Rightarrow> 's \<Rightarrow> (graph_error, 's) result" where
  "collect_from_node_refs visit [] s = Inr s"
| "collect_from_node_refs visit ((k, v) # args) s =
     and_then (collect_in_value visit v s) (\<lambda>s'. collect_from_node_refs visit args s')"

text \<open>Pass 1: one graph node per process, in key order.\<close>

fun add_nodes :: "(string \<times> process) list \<Rightarrow> string list \<Rightarrow> (string \<times> nat) list \<Rightarrow> (nat \<times> string) list
  \<Rightarrow> string list \<times> (string \<times> nat) list \<times> (nat \<times> string) list" where
  "add_nodes [] ws ix bi = (ws, ix, bi)"
| "add_nodes ((i, node) # rest) ws ix bi =
     add_nodes rest (ws @ [process_id node])
       (AList.update i (length ws) ix) (AList.update (length ws) i bi)"

text \<open>Pass 2: an edge from the referenced node to the node whose argument refers to it.\<close>

definition add_edge_visit :: "(string \<times> nat) list \<Rightarrow> nat \<Rightarrow> (nat \<times> nat) list visitor" where
  "add_edge_visit ix dst es src =
     (case map_of ix src of
        None \<Rightarrow> Inl (UnknownNodeReference src)
      | Some si \<Rightarrow> Inr (es @ [(si, dst)]))"

fun add_edges :: "(string \<times> nat) list \<Rightarrow> (string \<times> process) list \<Rightarrow> (nat \<times> nat) list
  \<Rightarrow> (graph_error, (nat \<times> nat) list) result" where
  "add_edges ix [] es = Inr es"
| "add_edges ix ((dst, node) # rest) es =
     and_then (collect_from_node_refs (add_edge_visit ix (the (map_of ix dst))) (arguments node) es)
       (\<lambda>es'. add_edges ix rest es')"

definition result_nodes :: "process_graph \<Rightarrow> string list" where
  "result_nodes pg = map fst (filter (\<lambda>n. result_flag (snd n) = Some True) (pg_nodes pg))"

definition build :: "(digraph \<Rightarrow> bool) \<Rightarrow> process_graph \<Rightarrow> (graph_error, analysis) result" where
  "build is_cyclic_directed pg =
     (let (ws, ix, bi) = add_nodes (pg_nodes pg) [] [] [] in
      and_then (add_edges ix (pg_nodes pg) []) (\<lambda>es.
        let g = \<lparr>weights = ws, edges = es\<rparr> in
        if is_cyclic_directed g then
          Inl (Cycle (case pg_nodes pg of [] \<Rightarrow> ''<unknown>'' | (k, _) # _ \<Rightarrow> k))
        else
          let rs = result_nodes pg in
          if length rs \<noteq> 1 then Inl (AmbiguousResult (length rs))
          else Inr \<lparr>graph = g, idx = ix, by_index = bi, result_id = hd rs\<rparr>))"

text \<open>
  \<open>toposort\<close> returns the order or, on a cycle, an error, for which the empty order is used;
  \<open>by_index[&n]\<close> panics on an index that is not there (\<open>None\<close>).
\<close>

definition evaluation_order ::
  "(digraph \<Rightarrow> nat list option) \<Rightarrow> analysis \<Rightarrow> string list option" where
  "evaluation_order toposort a =
     (let topo = (case toposort (graph a) of None \<Rightarrow> [] | Some ns \<Rightarrow> ns) in
      those (map (map_of (by_index a)) topo))"

definition node_count :: "analysis \<Rightarrow> nat" where "node_count a = length (weights (graph a))"
definition edge_count :: "analysis \<Rightarrow> nat" where "edge_count a = length (edges (graph a))"

text \<open>Top-level process ids, for submit-time validation.\<close>

fun walk_ids :: "json \<Rightarrow> nat \<Rightarrow> string set \<Rightarrow> string set"
  and walk_list :: "json list \<Rightarrow> nat \<Rightarrow> string set \<Rightarrow> string set"
  and walk_entries :: "(string \<times> json) list \<Rightarrow> nat \<Rightarrow> string set \<Rightarrow> string set"
where
  "walk_ids v depth out =
     (if depth > MAX_SUBGRAPH_DEPTH then out
      else case v of
        JObject m \<Rightarrow>
          (let out1 = (case map_of m ''process_id'' of Some (JString p) \<Rightarrow> insert p out | _ \<Rightarrow> out) in
           if map_of m ''process_graph'' \<noteq> None then out1
           else walk_entries m (depth + 1) out1)
      | JArray arr \<Rightarrow> walk_list arr (depth + 1) out
      | _ \<Rightarrow> out)"
| "walk_list [] depth out = out"
| "walk_list (x # xs) depth out = walk_list xs depth (walk_ids x depth out)"
| "walk_entries [] depth out = out"
| "walk_entries (kv # kvs) depth out = walk_entries kvs depth (walk_ids (snd kv) depth out)"

definition submitted_graph :: "json \<Rightarrow> json option" where
  "submitted_graph body =
     (case Option.bind (json_get body ''process'') (\<lambda>p. json_get p ''process_graph'') of
        Some v \<Rightarrow> Some v
      | None \<Rightarrow> json_get body ''process_graph'')"

definition collect_process_ids :: "json \<Rightarrow> string set" where
  "collect_process_ids body =
     walk_ids (case submitted_graph body of Some v \<Rightarrow> v | None \<Rightarrow> body) 0 {}"

definition unsupported_process_ids :: "json \<Rightarrow> string list \<Rightarrow> string list" where
  "unsupported_process_ids body known =
     filter (\<lambda>i. i \<notin> set known) (sorted_list_of_set (collect_process_ids body))"

section \<open>Reference semantics of the walk\<close>

text \<open>
  The references of a value in walk order, without the depth guard, and the depth the walk
  reaches. A link and a callback (an object with a \<open>process_graph\<close> key) are leaves.
\<close>

fun refs :: "json \<Rightarrow> string list"
  and refs_list :: "json list \<Rightarrow> string list"
  and refs_entries :: "(string \<times> json) list \<Rightarrow> string list"
where
  "refs (JObject obj) =
     (case map_of obj ''from_node'' of
        Some (JString t) \<Rightarrow> [t]
      | _ \<Rightarrow> if map_of obj ''process_graph'' \<noteq> None then [] else refs_entries obj)"
| "refs (JArray arr) = refs_list arr"
| "refs _ = []"
| "refs_list [] = []"
| "refs_list (x # xs) = refs x @ refs_list xs"
| "refs_entries [] = []"
| "refs_entries (kv # kvs) = refs (snd kv) @ refs_entries kvs"

fun walk_depth :: "json \<Rightarrow> nat"
  and walk_depth_list :: "json list \<Rightarrow> nat"
  and walk_depth_entries :: "(string \<times> json) list \<Rightarrow> nat"
where
  "walk_depth (JObject obj) =
     (case map_of obj ''from_node'' of
        Some (JString t) \<Rightarrow> 0
      | _ \<Rightarrow> if map_of obj ''process_graph'' \<noteq> None then 0 else walk_depth_entries obj)"
| "walk_depth (JArray arr) = walk_depth_list arr"
| "walk_depth _ = 0"
| "walk_depth_list [] = 0"
| "walk_depth_list (x # xs) = max (Suc (walk_depth x)) (walk_depth_list xs)"
| "walk_depth_entries [] = 0"
| "walk_depth_entries (kv # kvs) = max (Suc (walk_depth (snd kv))) (walk_depth_entries kvs)"

fun visit_all :: "'s visitor \<Rightarrow> string list \<Rightarrow> 's \<Rightarrow> (graph_error, 's) result" where
  "visit_all visit [] s = Inr s"
| "visit_all visit (t # ts) s = and_then (visit s t) (\<lambda>s'. visit_all visit ts s')"

definition node_refs :: "process \<Rightarrow> string list" where
  "node_refs node = concat (map (\<lambda>kv. refs (snd kv)) (arguments node))"

definition node_depth_ok :: "process \<Rightarrow> bool" where
  "node_depth_ok node \<longleftrightarrow> (\<forall>kv \<in> set (arguments node). walk_depth (snd kv) \<le> MAX_SUBGRAPH_DEPTH)"

text \<open>The data dependencies of a process graph: \<open>(src, dst)\<close> when \<open>dst\<close> refers to \<open>src\<close>.\<close>

definition deps :: "process_graph \<Rightarrow> (string \<times> string) set" where
  "deps pg = {(src, dst). \<exists>node. (dst, node) \<in> set (pg_nodes pg) \<and> src \<in> set (node_refs node)}"

definition pg_ids :: "process_graph \<Rightarrow> string list" where
  "pg_ids pg = map fst (pg_nodes pg)"

declare collect_in_value_inner.simps [simp del] walk_ids.simps [simp del]

section \<open>The walk visits exactly the references\<close>

lemma visit_all_Nil [simp]: "visit_all visit [] = Inr"
  by (rule ext) simp

lemma visit_all_append:
  "visit_all visit (xs @ ys) s = and_then (visit_all visit xs s) (\<lambda>s'. visit_all visit ys s')"
proof (induction xs arbitrary: s)
  case (Cons x xs)
  then show ?case by (cases "visit s x") auto
qed simp

lemma collect_within_depth:
  "d + walk_depth v \<le> MAX_SUBGRAPH_DEPTH \<Longrightarrow>
     collect_in_value_inner visit v d s = visit_all visit (refs v) s"
  "d + walk_depth_list vs \<le> Suc MAX_SUBGRAPH_DEPTH \<Longrightarrow>
     collect_values visit vs d s = visit_all visit (refs_list vs) s"
  "d + walk_depth_entries es \<le> Suc MAX_SUBGRAPH_DEPTH \<Longrightarrow>
     collect_entries visit es d s = visit_all visit (refs_entries es) s"
proof (induction visit v d s and visit vs d s and visit es d s
    rule: collect_in_value_inner_collect_values_collect_entries.induct)
  case (1 visit v depth s)
  then show ?case
    by (cases v) (auto simp: collect_in_value_inner.simps split: option.splits json.splits)
qed (auto simp: visit_all_append intro!: and_then_cong)

lemma collect_error_source:
  "collect_in_value_inner visit v d s = Inl e \<Longrightarrow>
     e = DepthExceeded MAX_SUBGRAPH_DEPTH \<or> (\<exists>s' t. visit s' t = Inl e)"
  "collect_values visit vs d s = Inl e \<Longrightarrow>
     e = DepthExceeded MAX_SUBGRAPH_DEPTH \<or> (\<exists>s' t. visit s' t = Inl e)"
  "collect_entries visit es d s = Inl e \<Longrightarrow>
     e = DepthExceeded MAX_SUBGRAPH_DEPTH \<or> (\<exists>s' t. visit s' t = Inl e)"
proof (induction visit v d s and visit vs d s and visit es d s
    rule: collect_in_value_inner_collect_values_collect_entries.induct)
  case (1 visit v depth s)
  then show ?case
    by (cases v) (auto simp: collect_in_value_inner.simps split: option.splits json.splits if_splits)
qed (auto simp: and_then_Inl_iff)

lemma collect_beyond_depth:
  "MAX_SUBGRAPH_DEPTH < d + walk_depth v \<Longrightarrow> \<exists>e. collect_in_value_inner visit v d s = Inl e"
  "Suc MAX_SUBGRAPH_DEPTH < d + walk_depth_list vs \<Longrightarrow> d \<le> Suc MAX_SUBGRAPH_DEPTH \<Longrightarrow> \<exists>e. collect_values visit vs d s = Inl e"
  "Suc MAX_SUBGRAPH_DEPTH < d + walk_depth_entries es \<Longrightarrow> d \<le> Suc MAX_SUBGRAPH_DEPTH \<Longrightarrow> \<exists>e. collect_entries visit es d s = Inl e"
proof (induction visit v d s and visit vs d s and visit es d s
    rule: collect_in_value_inner_collect_values_collect_entries.induct)
  case (1 visit v depth s)
  show ?case
  proof (cases "depth > MAX_SUBGRAPH_DEPTH")
    case True
    then show ?thesis by (simp add: collect_in_value_inner.simps)
  next
    case False
    then show ?thesis using 1
      by (cases v) (auto simp: collect_in_value_inner.simps split: option.splits json.splits if_splits)
  qed
next
  case (3 visit x xs depth s)
  show ?case
  proof (cases "collect_in_value_inner visit x depth s")
    case (Inr s')
    then have "\<not> MAX_SUBGRAPH_DEPTH < depth + walk_depth x" using "3.IH"(1) by auto
    then have "Suc MAX_SUBGRAPH_DEPTH < depth + walk_depth_list xs"
      using "3.prems" by (auto simp: max_def split: if_splits)
    then show ?thesis using Inr "3.IH"(2) "3.prems" by simp
  qed simp
next
  case (5 visit kv kvs depth s)
  show ?case
  proof (cases "collect_in_value_inner visit (snd kv) depth s")
    case (Inr s')
    then have "\<not> MAX_SUBGRAPH_DEPTH < depth + walk_depth (snd kv)" using "5.IH"(1) by auto
    then have "Suc MAX_SUBGRAPH_DEPTH < depth + walk_depth_entries kvs"
      using "5.prems" by (auto simp: max_def split: if_splits)
    then show ?thesis using Inr "5.IH"(2) "5.prems" by simp
  qed simp
qed auto

lemma collect_from_node_refs_ok:
  "node_depth_ok node \<Longrightarrow>
     collect_from_node_refs visit (arguments node) s = visit_all visit (node_refs node) s"
proof -
  have "\<forall>kv \<in> set args. walk_depth (snd kv) \<le> MAX_SUBGRAPH_DEPTH \<Longrightarrow>
     collect_from_node_refs visit args s = visit_all visit (concat (map (\<lambda>kv. refs (snd kv)) args)) s" for args
    by (induction visit args s rule: collect_from_node_refs.induct)
      (auto simp: collect_in_value_def collect_within_depth visit_all_append intro!: and_then_cong)
  then show "node_depth_ok node \<Longrightarrow> ?thesis" by (simp add: node_depth_ok_def node_refs_def)
qed

lemma collect_from_node_refs_deep:
  "\<not> node_depth_ok node \<Longrightarrow> \<exists>e. collect_from_node_refs visit (arguments node) s = Inl e"
proof -
  have "\<exists>kv \<in> set args. \<not> walk_depth (snd kv) \<le> MAX_SUBGRAPH_DEPTH \<Longrightarrow>
     \<exists>e. collect_from_node_refs visit args s = Inl e" for args
  proof (induction visit args s rule: collect_from_node_refs.induct)
    case (2 visit k v args s)
    show ?case
    proof (cases "walk_depth v \<le> MAX_SUBGRAPH_DEPTH")
      case True
      then show ?thesis using 2 by (cases "collect_in_value visit v s") auto
    next
      case False
      then show ?thesis using collect_beyond_depth(1) [of 0 v visit s] by (auto simp: collect_in_value_def)
    qed
  qed simp
  then show "\<not> node_depth_ok node \<Longrightarrow> ?thesis" by (auto simp: node_depth_ok_def)
qed

section \<open>The graph that \<open>build\<close> constructs\<close>

lemma add_nodes_spec:
  "distinct (map fst nodes) \<Longrightarrow> set (map fst nodes) \<inter> set (map fst ix) = {} \<Longrightarrow>
   (\<forall>n \<in> set (map fst bi). n < length ws) \<Longrightarrow>
   add_nodes nodes ws ix bi =
     (ws @ map (process_id \<circ> snd) nodes,
      ix @ zip (map fst nodes) [length ws..<length ws + length nodes],
      bi @ zip [length ws..<length ws + length nodes] (map fst nodes))"
proof (induction nodes ws ix bi rule: add_nodes.induct)
  case (2 i node rest ws ix bi)
  have ix: "AList.update i (length ws) ix = ix @ [(i, length ws)]"
    and bi: "AList.update (length ws) i bi = bi @ [(length ws, i)]"
    using "2.prems" by (auto intro!: alist_update_new)
  have "add_nodes rest (ws @ [process_id node]) (ix @ [(i, length ws)]) (bi @ [(length ws, i)]) =
     ((ws @ [process_id node]) @ map (process_id \<circ> snd) rest,
      (ix @ [(i, length ws)]) @ zip (map fst rest) [Suc (length ws)..<Suc (length ws) + length rest],
      (bi @ [(length ws, i)]) @ zip [Suc (length ws)..<Suc (length ws) + length rest] (map fst rest))"
    using "2.IH" "2.prems" unfolding ix bi by (auto simp: less_Suc_eq)
  then show ?case by (simp add: ix bi upt_conv_Cons del: upt_Suc)
qed simp

definition node_index :: "process_graph \<Rightarrow> string \<Rightarrow> nat" where
  "node_index pg i = the (map_of (zip (pg_ids pg) [0..<length (pg_ids pg)]) i)"

lemma add_edge_visit_all:
  "set ts \<subseteq> dom (map_of ix) \<Longrightarrow>
     visit_all (add_edge_visit ix dst) ts es = Inr (es @ map (\<lambda>t. (the (map_of ix t), dst)) ts)"
  by (induction ts arbitrary: es) (auto simp: add_edge_visit_def)

lemma add_edge_visit_unknown:
  "\<not> set ts \<subseteq> dom (map_of ix) \<Longrightarrow>
     \<exists>t \<in> set ts. map_of ix t = None \<and> visit_all (add_edge_visit ix dst) ts es = Inl (UnknownNodeReference t)"
  by (induction ts arbitrary: es) (auto simp: add_edge_visit_def split: option.splits)

lemma add_edges_Inr_iff:
  "add_edges ix nodes es = Inr es' \<longleftrightarrow>
     (\<forall>n \<in> set nodes. node_depth_ok (snd n) \<and> set (node_refs (snd n)) \<subseteq> dom (map_of ix)) \<and>
     es' = es @ concat (map (\<lambda>n. map (\<lambda>t. (the (map_of ix t), the (map_of ix (fst n)))) (node_refs (snd n))) nodes)"
proof (induction ix nodes es rule: add_edges.induct)
  case (2 ix dst node rest es)
  let ?v = "add_edge_visit ix (the (map_of ix dst))"
  show ?case
  proof (cases "node_depth_ok node")
    case False
    then show ?thesis using collect_from_node_refs_deep [of node ?v es] by auto
  next
    case depth: True
    note eq = collect_from_node_refs_ok [OF depth, of ?v es]
    show ?thesis
    proof (cases "set (node_refs node) \<subseteq> dom (map_of ix)")
      case True
      then show ?thesis using eq depth 2 by (auto simp: add_edge_visit_all)
    next
      case False
      then show ?thesis using eq add_edge_visit_unknown [OF False, of "the (map_of ix dst)" es] by auto
    qed
  qed
qed auto

section \<open>What the analyser relies on\<close>

definition digraph_wf :: "digraph \<Rightarrow> bool" where
  "digraph_wf g \<longleftrightarrow> (\<forall>(u, v) \<in> set (edges g). u < length (weights g) \<and> v < length (weights g))"

definition precedes :: "'a list \<Rightarrow> 'a \<Rightarrow> 'a \<Rightarrow> bool" where
  "precedes xs a b \<longleftrightarrow> a \<in> set (takeWhile (\<lambda>x. x \<noteq> b) xs)"

definition topological :: "digraph \<Rightarrow> nat list \<Rightarrow> bool" where
  "topological g ns \<longleftrightarrow> distinct ns \<and> set ns = {..<length (weights g)} \<and>
     (\<forall>(u, v) \<in> set (edges g). precedes ns u v)"

text \<open>
  The documented behaviour of \<open>petgraph::algo::is_cyclic_directed\<close> and
  \<open>petgraph::algo::toposort\<close>.
\<close>

locale graph_algos =
  fixes is_cyclic_directed :: "digraph \<Rightarrow> bool"
    and toposort :: "digraph \<Rightarrow> nat list option"
  assumes is_cyclic_iff: "digraph_wf g \<Longrightarrow> is_cyclic_directed g \<longleftrightarrow> \<not> acyclic (set (edges g))"
    and toposort_acyclic:
      "digraph_wf g \<Longrightarrow> acyclic (set (edges g)) \<Longrightarrow> \<exists>ns. toposort g = Some ns \<and> topological g ns"
    and toposort_cyclic: "digraph_wf g \<Longrightarrow> \<not> acyclic (set (edges g)) \<Longrightarrow> toposort g = None"

section \<open>Facts about the constructed graph\<close>

definition dep_edges :: "process_graph \<Rightarrow> (nat \<times> nat) list" where
  "dep_edges pg = concat (map (\<lambda>n. map (\<lambda>t. (node_index pg t, node_index pg (fst n))) (node_refs (snd n))) (pg_nodes pg))"

definition dep_graph :: "process_graph \<Rightarrow> digraph" where
  "dep_graph pg = \<lparr>weights = map (process_id \<circ> snd) (pg_nodes pg), edges = dep_edges pg\<rparr>"

definition refs_resolve :: "process_graph \<Rightarrow> bool" where
  "refs_resolve pg \<longleftrightarrow> (\<forall>n \<in> set (pg_nodes pg). node_depth_ok (snd n) \<and> set (node_refs (snd n)) \<subseteq> set (pg_ids pg))"

lemma build_Inr_iff:
  assumes "bt_wf (pg_nodes pg)"
  shows "build ic pg = Inr a \<longleftrightarrow>
    refs_resolve pg \<and> \<not> ic (dep_graph pg) \<and> length (result_nodes pg) = 1 \<and>
    a = \<lparr>graph = dep_graph pg, idx = zip (pg_ids pg) [0..<length (pg_ids pg)],
         by_index = zip [0..<length (pg_ids pg)] (pg_ids pg), result_id = hd (result_nodes pg)\<rparr>"
proof -
  have d: "distinct (map fst (pg_nodes pg))" using assms by (rule bt_wf_distinct)
  have dom: "dom (map_of (zip (pg_ids pg) [0..<length (pg_ids pg)])) = set (pg_ids pg)"
    by (simp add: dom_map_of_zip)
  show ?thesis
    using add_nodes_spec [OF d, of "[]" "[]" "[]"] dom
    by (auto simp: build_def Let_def and_then_Inr_iff add_edges_Inr_iff refs_resolve_def dep_graph_def
        dep_edges_def node_index_def pg_ids_def split: if_splits)
qed

lemma node_index_nth:
  "distinct (pg_ids pg) \<Longrightarrow> i < length (pg_ids pg) \<Longrightarrow> node_index pg (pg_ids pg ! i) = i"
  by (simp add: node_index_def map_of_zip_upt)

lemma node_index_less:
  "distinct (pg_ids pg) \<Longrightarrow> x \<in> set (pg_ids pg) \<Longrightarrow> node_index pg x < length (pg_ids pg) \<and> pg_ids pg ! node_index pg x = x"
  by (auto simp: in_set_conv_nth node_index_nth)

lemma inj_on_node_index: "distinct (pg_ids pg) \<Longrightarrow> inj_on (node_index pg) (set (pg_ids pg))"
  by (rule inj_onI) (metis node_index_less)

lemma set_dep_edges: "set (dep_edges pg) = map_prod (node_index pg) (node_index pg) ` deps pg"
  by (force simp: dep_edges_def deps_def)

lemma deps_Field: "refs_resolve pg \<Longrightarrow> deps pg \<subseteq> set (pg_ids pg) \<times> set (pg_ids pg)"
  by (force simp: deps_def refs_resolve_def pg_ids_def)

lemma dep_graph_wf:
  assumes "distinct (pg_ids pg)" and "refs_resolve pg"
  shows "digraph_wf (dep_graph pg)"
proof -
  have "u < length (pg_ids pg) \<and> v < length (pg_ids pg)" if e: "(u, v) \<in> set (dep_edges pg)" for u v
  proof -
    obtain x y where xy: "(x, y) \<in> deps pg" "u = node_index pg x" "v = node_index pg y"
      using e by (auto simp: set_dep_edges)
    then have "x \<in> set (pg_ids pg)" "y \<in> set (pg_ids pg)" using deps_Field [OF assms(2)] by auto
    then show ?thesis using node_index_less [OF assms(1)] xy by simp
  qed
  then show ?thesis by (auto simp: digraph_wf_def dep_graph_def pg_ids_def)
qed

lemma trancl_map_prod_image:
  "(x, y) \<in> R\<^sup>+ \<Longrightarrow> (f x, f y) \<in> (map_prod f f ` R)\<^sup>+"
  by (induction rule: trancl_induct) (auto intro: trancl_into_trancl rev_image_eqI)

lemma trancl_map_prod_image_inv:
  assumes "(a, b) \<in> (map_prod f f ` R)\<^sup>+" and "inj_on f A" and "R \<subseteq> A \<times> A"
  shows "\<exists>x y. a = f x \<and> b = f y \<and> x \<in> A \<and> y \<in> A \<and> (x, y) \<in> R\<^sup>+"
  using assms(1)
proof (induction rule: trancl_induct)
  case (base y)
  then show ?case using assms(3) by auto
next
  case (step y z)
  then obtain x v u w where "a = f x" "x \<in> A" "y = f v" "v \<in> A" "(x, v) \<in> R\<^sup>+" "y = f u" "z = f w" "(u, w) \<in> R"
    by auto
  moreover have "u \<in> A" "w \<in> A" using \<open>(u, w) \<in> R\<close> assms(3) by auto
  moreover have "u = v" using calculation assms(2) by (simp add: inj_on_def)
  ultimately show ?case by (metis trancl_into_trancl)
qed

lemma acyclic_map_prod:
  assumes "inj_on f A" and "R \<subseteq> A \<times> A"
  shows "acyclic (map_prod f f ` R) \<longleftrightarrow> acyclic R"
proof
  assume "acyclic (map_prod f f ` R)"
  then show "acyclic R" using trancl_map_prod_image [of _ _ R f] by (auto simp: acyclic_def)
next
  assume *: "acyclic R"
  show "acyclic (map_prod f f ` R)"
  proof (rule acyclicI, rule allI, rule notI)
    fix a assume "(a, a) \<in> (map_prod f f ` R)\<^sup>+"
    then obtain x y where "a = f x" "a = f y" "x \<in> A" "y \<in> A" "(x, y) \<in> R\<^sup>+"
      using trancl_map_prod_image_inv assms by metis
    then show False using * assms(1) by (metis acyclic_def inj_onD)
  qed
qed

lemma acyclic_dep_edges:
  "distinct (pg_ids pg) \<Longrightarrow> refs_resolve pg \<Longrightarrow> acyclic (set (dep_edges pg)) \<longleftrightarrow> acyclic (deps pg)"
  unfolding set_dep_edges by (rule acyclic_map_prod [OF inj_on_node_index deps_Field])

lemma takeWhile_map_inj:
  assumes "inj_on f A" and "set xs \<subseteq> A" and "b \<in> A"
  shows "takeWhile (\<lambda>x. x \<noteq> f b) (map f xs) = map f (takeWhile (\<lambda>x. x \<noteq> b) xs)"
  using assms(2) by (induction xs) (use assms(1,3) in \<open>auto simp: inj_on_def\<close>)

lemma precedes_map:
  "inj_on f A \<Longrightarrow> set xs \<subseteq> A \<Longrightarrow> b \<in> A \<Longrightarrow> precedes xs a b \<Longrightarrow> precedes (map f xs) (f a) (f b)"
  by (simp add: precedes_def takeWhile_map_inj)

context graph_algos
begin

lemma build_accepts:
  assumes "bt_wf (pg_nodes pg)"
  shows "(\<exists>a. build is_cyclic_directed pg = Inr a) \<longleftrightarrow>
    refs_resolve pg \<and> acyclic (deps pg) \<and> length (result_nodes pg) = 1"
proof -
  have d: "distinct (pg_ids pg)" using bt_wf_distinct [OF assms] by (simp add: pg_ids_def)
  have "is_cyclic_directed (dep_graph pg) \<longleftrightarrow> \<not> acyclic (deps pg)" if "refs_resolve pg"
    using is_cyclic_iff [OF dep_graph_wf [OF d that]] acyclic_dep_edges [OF d that]
    by (simp add: dep_graph_def)
  then show ?thesis by (auto simp: build_Inr_iff [OF assms])
qed

lemma evaluation_order_topo:
  assumes wf: "bt_wf (pg_nodes pg)" and b: "build is_cyclic_directed pg = Inr a"
  shows "\<exists>order. evaluation_order toposort a = Some order \<and> distinct order \<and>
    set order = set (pg_ids pg) \<and> (\<forall>(src, dst) \<in> deps pg. precedes order src dst)"
proof -
  let ?ids = "pg_ids pg"
  have d: "distinct ?ids" using bt_wf_distinct [OF wf] by (simp add: pg_ids_def)
  have rr: "refs_resolve pg" and nc: "\<not> is_cyclic_directed (dep_graph pg)"
    and a: "graph a = dep_graph pg" "by_index a = zip [0..<length ?ids] ?ids"
    using b by (auto simp: build_Inr_iff [OF wf])
  note gwf = dep_graph_wf [OF d rr]
  have "acyclic (set (edges (dep_graph pg)))" using nc is_cyclic_iff [OF gwf] by simp
  then obtain ns where ns: "toposort (dep_graph pg) = Some ns" "topological (dep_graph pg) ns"
    using toposort_acyclic [OF gwf] by blast
  have set_ns: "distinct ns" "set ns = {..<length ?ids}"
    using ns(2) by (simp_all add: topological_def dep_graph_def pg_ids_def)
  let ?order = "map ((!) ?ids) ns"
  have inj: "inj_on ((!) ?ids) {..<length ?ids}" using d by (simp add: inj_on_nth)
  have "evaluation_order toposort a = Some ?order"
  proof -
    have "those (map (map_of (zip [0..<length ?ids] ?ids)) ns) = Some ?order"
      using set_ns(2) by (intro those_map_Some) (simp add: map_of_upt_zip)
    then show ?thesis by (simp add: evaluation_order_def a ns(1))
  qed
  moreover have "distinct ?order" using set_ns inj by (simp add: distinct_map)
  moreover have "set ?order = set ?ids" using set_ns by (simp add: nth_image lessThan_atLeast0)
  moreover have "precedes ?order src dst" if "(src, dst) \<in> deps pg" for src dst
  proof -
    have mem: "src \<in> set ?ids" "dst \<in> set ?ids" using that deps_Field [OF rr] by auto
    have "(node_index pg src, node_index pg dst) \<in> set (dep_edges pg)"
      using that by (auto simp: set_dep_edges)
    then have "precedes ns (node_index pg src) (node_index pg dst)"
      using ns(2) by (auto simp: topological_def dep_graph_def)
    then show ?thesis
      using precedes_map [OF inj, of ns "node_index pg dst" "node_index pg src"]
        node_index_less [OF d] mem set_ns by auto
  qed
  ultimately show ?thesis by blast
qed

end

section \<open>A reference implementation of the graph algorithms\<close>

text \<open>
  Repeatedly take the first remaining node without a remaining predecessor. It meets the
  contract of \<open>graph_algos\<close>, so the analyser's theorems are not about an empty class of
  algorithms, and concrete graphs can be evaluated with it.
\<close>

function kahn :: "(nat \<times> nat) list \<Rightarrow> nat list \<Rightarrow> nat list option" where
  "kahn es rem =
     (case find (\<lambda>n. list_all (\<lambda>(u, v). v = n \<longrightarrow> u \<notin> set rem) es) rem of
        None \<Rightarrow> if rem = [] then Some [] else None
      | Some n \<Rightarrow> map_option ((#) n) (kahn es (remove1 n rem)))"
  by pat_completeness auto
termination
proof (relation "measure (\<lambda>(es, rem). length rem)")
  fix es :: "(nat \<times> nat) list" and rem n
  assume "find (\<lambda>n. list_all (\<lambda>(u, v). v = n \<longrightarrow> u \<notin> set rem) es) rem = Some n"
  then have "n \<in> set rem" using find_Some_in by fast
  then have "length (remove1 n rem) < length rem"
    using length_pos_if_in_set [of n rem] by (simp add: length_remove1)
  then show "((es, remove1 n rem), es, rem) \<in> measure (\<lambda>(es, rem). length rem)" by simp
qed simp

definition ref_toposort :: "digraph \<Rightarrow> nat list option" where
  "ref_toposort g = kahn (edges g) [0..<length (weights g)]"

definition ref_is_cyclic :: "digraph \<Rightarrow> bool" where
  "ref_is_cyclic g \<longleftrightarrow> ref_toposort g = None"

declare kahn.simps [simp del]

lemma precedes_irrefl: "\<not> precedes xs a a"
  by (auto simp: precedes_def dest: set_takeWhileD)

lemma precedes_trans: "precedes xs a b \<Longrightarrow> precedes xs b c \<Longrightarrow> precedes xs a c"
  by (induction xs) (auto simp: precedes_def split: if_splits)

lemma precedes_acyclic:
  assumes "\<forall>(u, v) \<in> R. precedes xs u v"
  shows "acyclic R"
proof -
  have "(a, b) \<in> R\<^sup>+ \<Longrightarrow> precedes xs a b" for a b
    by (induction rule: trancl_induct) (use assms precedes_trans in \<open>fast+\<close>)
  then show ?thesis using precedes_irrefl unfolding acyclic_def by metis
qed

lemma kahn_sound:
  "kahn es rem = Some ns \<Longrightarrow> distinct rem \<Longrightarrow>
     distinct ns \<and> set ns = set rem \<and>
     (\<forall>(u, v) \<in> set es. u \<in> set rem \<longrightarrow> v \<in> set rem \<longrightarrow> precedes ns u v)"
proof (induction es rem arbitrary: ns rule: kahn.induct)
  case (1 es rem)
  show ?case
  proof (cases "find (\<lambda>n. list_all (\<lambda>(u, v). v = n \<longrightarrow> u \<notin> set rem) es) rem")
    case None
    then show ?thesis using "1.prems" by (auto simp: kahn.simps [of es rem] split: if_splits)
  next
    case (Some n)
    then obtain ns' where ns': "kahn es (remove1 n rem) = Some ns'" "ns = n # ns'"
      using "1.prems" by (auto simp: kahn.simps [of es rem])
    have n: "n \<in> set rem" "\<forall>(u, v) \<in> set es. v = n \<longrightarrow> u \<notin> set rem"
      using find_Some_in [OF Some] by (auto simp: list_all_iff)
    have IH: "distinct ns'" "set ns' = set rem - {n}"
      "\<forall>(u, v) \<in> set es. u \<in> set rem - {n} \<longrightarrow> v \<in> set rem - {n} \<longrightarrow> precedes ns' u v"
      using "1.IH" [OF Some ns'(1)] "1.prems"(2) by simp_all
    then show ?thesis using n ns'(2) by (fastforce simp: precedes_def)
  qed
qed

lemma kahn_complete:
  "acyclic (set es) \<Longrightarrow> kahn es rem \<noteq> None"
proof (induction es rem rule: kahn.induct)
  case (1 es rem)
  show ?case
  proof (cases "rem = []")
    case True
    then show ?thesis by (simp add: kahn.simps)
  next
    case False
    have "wf (set es)" using "1.prems" by (simp add: finite_acyclic_wf)
    then obtain n where "n \<in> set rem" "\<And>u. (u, n) \<in> set es \<Longrightarrow> u \<notin> set rem"
      using False wfE_min [of "set es" "hd rem" "set rem"] by auto
    then have "find (\<lambda>n. list_all (\<lambda>(u, v). v = n \<longrightarrow> u \<notin> set rem) es) rem \<noteq> None"
      by (auto simp: find_None_iff list_all_iff)
    then show ?thesis using "1.IH" "1.prems" by (auto simp: kahn.simps [of es rem])
  qed
qed

lemma ref_toposort_topological:
  assumes "digraph_wf g" and "ref_toposort g = Some ns"
  shows "topological g ns"
proof -
  have k: "kahn (edges g) [0..<length (weights g)] = Some ns" using assms(2) by (simp add: ref_toposort_def)
  show ?thesis
    using kahn_sound [OF k] assms(1) by (fastforce simp: topological_def digraph_wf_def atLeast_upt)
qed

interpretation ref: graph_algos ref_is_cyclic ref_toposort
proof unfold_locales
  fix g assume wf: "digraph_wf g"
  have some: "acyclic (set (edges g)) \<Longrightarrow> ref_toposort g \<noteq> None"
    by (simp add: ref_toposort_def kahn_complete del: not_None_eq)
  have acyc: "ref_toposort g \<noteq> None \<Longrightarrow> acyclic (set (edges g))"
    using ref_toposort_topological [OF wf] precedes_acyclic by (fastforce simp: topological_def)
  show "ref_is_cyclic g \<longleftrightarrow> \<not> acyclic (set (edges g))"
    unfolding ref_is_cyclic_def using some acyc by blast
  show "acyclic (set (edges g)) \<Longrightarrow> \<exists>ns. ref_toposort g = Some ns \<and> topological g ns"
    using some ref_toposort_topological [OF wf] by auto
  show "\<not> acyclic (set (edges g)) \<Longrightarrow> ref_toposort g = None"
    using acyc by (cases "ref_toposort g") auto
qed

section \<open>What the result depends on\<close>

lemma build_result_id:
  assumes "bt_wf (pg_nodes pg)" and "build ic pg = Inr a"
  shows "result_id a \<in> set (pg_ids pg)"
proof -
  have r: "result_id a = hd (result_nodes pg)" "length (result_nodes pg) = 1"
    using assms(2) by (simp_all add: build_Inr_iff [OF assms(1)])
  then have "result_id a \<in> set (result_nodes pg)" by (cases "result_nodes pg") auto
  then show ?thesis by (auto simp: result_nodes_def pg_ids_def)
qed

lemma precedes_chain:
  assumes "\<forall>(u, v) \<in> R. precedes xs u v" and "(a, b) \<in> R\<^sup>+"
  shows "precedes xs a b"
  using assms(2) by (induction rule: trancl_induct) (use assms(1) precedes_trans in \<open>fast+\<close>)

text \<open>In an order that puts dependencies first, the nodes that lead to \<open>r\<close> end with \<open>r\<close>.\<close>

lemma needed_nodes:
  assumes "\<forall>(u, v) \<in> R. precedes xs u v" and "distinct xs" and "r \<in> set xs"
  shows "filter (\<lambda>x. (x, r) \<in> R\<^sup>*) xs \<noteq> []" "last (filter (\<lambda>x. (x, r) \<in> R\<^sup>*) xs) = r"
proof -
  obtain pre post where xs: "xs = pre @ r # post" "r \<notin> set pre" using split_list_first [OF assms(3)] by blast
  have "(x, r) \<notin> R\<^sup>*" if "x \<in> set post" for x
  proof
    assume "(x, r) \<in> R\<^sup>*"
    moreover have "x \<noteq> r" using that assms(2) xs(1) by auto
    ultimately have "precedes xs x r" using precedes_chain [OF assms(1)] by (simp add: rtrancl_eq_or_trancl)
    moreover have "takeWhile (\<lambda>y. y \<noteq> r) xs = pre" unfolding xs(1) using xs(2) by (induction pre) auto
    ultimately have "x \<in> set pre" by (simp add: precedes_def)
    then show False using that assms(2) xs(1) by auto
  qed
  then have "filter (\<lambda>x. (x, r) \<in> R\<^sup>*) post = []" by (simp add: filter_empty_conv)
  then have eq: "filter (\<lambda>x. (x, r) \<in> R\<^sup>*) xs = filter (\<lambda>x. (x, r) \<in> R\<^sup>*) pre @ [r]" by (simp add: xs(1))
  show "filter (\<lambda>x. (x, r) \<in> R\<^sup>*) xs \<noteq> []" "last (filter (\<lambda>x. (x, r) \<in> R\<^sup>*) xs) = r" by (simp_all add: eq)
qed

section \<open>Submit-time validation\<close>

text \<open>The ids the walk collects, without the accumulator.\<close>

fun top_ids :: "json \<Rightarrow> nat \<Rightarrow> string set"
  and top_ids_list :: "json list \<Rightarrow> nat \<Rightarrow> string set"
  and top_ids_entries :: "(string \<times> json) list \<Rightarrow> nat \<Rightarrow> string set"
where
  "top_ids v depth =
     (if depth > MAX_SUBGRAPH_DEPTH then {}
      else case v of
        JObject m \<Rightarrow>
          (case map_of m ''process_id'' of Some (JString p) \<Rightarrow> {p} | _ \<Rightarrow> {}) \<union>
          (if map_of m ''process_graph'' \<noteq> None then {} else top_ids_entries m (depth + 1))
      | JArray arr \<Rightarrow> top_ids_list arr (depth + 1)
      | _ \<Rightarrow> {})"
| "top_ids_list [] depth = {}"
| "top_ids_list (x # xs) depth = top_ids x depth \<union> top_ids_list xs depth"
| "top_ids_entries [] depth = {}"
| "top_ids_entries (kv # kvs) depth = top_ids (snd kv) depth \<union> top_ids_entries kvs depth"

declare top_ids.simps [simp del]

lemma walk_ids_eq:
  "walk_ids v d out = out \<union> top_ids v d"
  "walk_list vs d out = out \<union> top_ids_list vs d"
  "walk_entries es d out = out \<union> top_ids_entries es d"
proof (induction v d out and vs d out and es d out rule: walk_ids_walk_list_walk_entries.induct)
  case (1 v depth out)
  then show ?case
    by (cases v) (auto simp: walk_ids.simps top_ids.simps Let_def split: option.splits json.splits)
qed auto

lemma finite_top_ids:
  "finite (top_ids v d)" "finite (top_ids_list vs d)" "finite (top_ids_entries es d)"
proof (induction v d and vs d and es d rule: top_ids_top_ids_list_top_ids_entries.induct)
  case (1 v depth)
  then show ?case by (cases v) (auto simp: top_ids.simps split: option.splits json.splits)
qed auto

lemma top_ids_entries_in: "(k, v) \<in> set es \<Longrightarrow> top_ids v d \<subseteq> top_ids_entries es d"
  by (induction es) auto

lemma collect_process_ids_eq:
  "collect_process_ids body = top_ids (case submitted_graph body of Some v \<Rightarrow> v | None \<Rightarrow> body) 0"
  by (simp add: collect_process_ids_def walk_ids_eq)

lemma set_unsupported: "set (unsupported_process_ids body known) = collect_process_ids body - set known"
  by (auto simp: unsupported_process_ids_def collect_process_ids_eq finite_top_ids)

text \<open>
  The objects that the walk looks at: starting from the submitted graph it enters every element of an
  array and every value of an object, except below an object that has a \<open>process_graph\<close> key, to a
  depth of 64. \<open>submitted_object v d m\<close>: from \<open>v\<close> at depth \<open>d\<close> it comes to the object \<open>m\<close>.
\<close>

inductive submitted_object :: "json \<Rightarrow> nat \<Rightarrow> (string \<times> json) list \<Rightarrow> bool" where
  here: "d \<le> MAX_SUBGRAPH_DEPTH \<Longrightarrow> submitted_object (JObject m) d m"
| entry: "d \<le> MAX_SUBGRAPH_DEPTH \<Longrightarrow> map_of es ''process_graph'' = None \<Longrightarrow> (k, v) \<in> set es \<Longrightarrow>
    submitted_object v (d + 1) m \<Longrightarrow> submitted_object (JObject es) d m"
| element: "d \<le> MAX_SUBGRAPH_DEPTH \<Longrightarrow> v \<in> set vs \<Longrightarrow> submitted_object v (d + 1) m \<Longrightarrow> submitted_object (JArray vs) d m"

inductive_cases submitted_objectE: "submitted_object v d m"

lemma top_ids_reached:
  "p \<in> top_ids v d \<longleftrightarrow> (\<exists>m. submitted_object v d m \<and> map_of m ''process_id'' = Some (JString p))"
  "p \<in> top_ids_list vs d \<longleftrightarrow> (\<exists>v \<in> set vs. \<exists>m. submitted_object v d m \<and> map_of m ''process_id'' = Some (JString p))"
  "p \<in> top_ids_entries es d \<longleftrightarrow> (\<exists>(k, v) \<in> set es. \<exists>m. submitted_object v d m \<and> map_of m ''process_id'' = Some (JString p))"
proof (induction v d and vs d and es d rule: top_ids_top_ids_list_top_ids_entries.induct)
  case (1 v depth)
  show ?case
  proof (cases "depth > MAX_SUBGRAPH_DEPTH")
    case True
    then show ?thesis by (auto simp: top_ids.simps [of v] elim: submitted_objectE)
  next
    case False
    show ?thesis
    proof (cases v)
      case (JObject m)
      have own: "p \<in> (case map_of m ''process_id'' of Some (JString q) \<Rightarrow> {q} | _ \<Rightarrow> {}) \<longleftrightarrow> map_of m ''process_id'' = Some (JString p)"
        by (auto split: option.splits json.splits)
      have step: "submitted_object (JObject m) depth m' \<longleftrightarrow>
          m' = m \<or> map_of m ''process_graph'' = None \<and> (\<exists>(k, v) \<in> set m. submitted_object v (depth + 1) m')" for m'
        using False by (auto intro: submitted_object.intros elim: submitted_objectE)
      have "p \<in> top_ids v depth \<longleftrightarrow> map_of m ''process_id'' = Some (JString p) \<or>
          map_of m ''process_graph'' = None \<and> p \<in> top_ids_entries m (depth + 1)"
        unfolding JObject using False own
        by (cases "map_of m ''process_graph''") (simp_all add: top_ids.simps [of "JObject m"])
      moreover have "p \<in> top_ids_entries m (depth + 1) \<longleftrightarrow>
          (\<exists>(k, v) \<in> set m. \<exists>m'. submitted_object v (depth + 1) m' \<and> map_of m' ''process_id'' = Some (JString p))"
        if "map_of m ''process_graph'' = None" using "1.IH"(2) False JObject that by blast
      ultimately show ?thesis unfolding JObject step by blast
    next
      case (JArray vs)
      have "submitted_object (JArray vs) depth m' \<longleftrightarrow> (\<exists>v \<in> set vs. submitted_object v (depth + 1) m')" for m'
        using False by (auto intro: submitted_object.intros elim: submitted_objectE)
      moreover have "p \<in> top_ids v depth \<longleftrightarrow> p \<in> top_ids_list vs (depth + 1)" unfolding JArray using False by (simp add: top_ids.simps [of "JArray vs"])
      ultimately show ?thesis using "1.IH"(1) [OF False JArray] unfolding JArray by blast
    qed (use False in \<open>auto simp: top_ids.simps elim: submitted_objectE\<close>)
  qed
qed auto

lemma unsupported_empty_iff:
  assumes "submitted_graph body = Some v"
  shows "unsupported_process_ids body known = [] \<longleftrightarrow>
    (\<forall>m p. submitted_object v 0 m \<longrightarrow> map_of m ''process_id'' = Some (JString p) \<longrightarrow> p \<in> set known)"
proof -
  have "unsupported_process_ids body known = [] \<longleftrightarrow> top_ids v 0 \<subseteq> set known"
    using set_unsupported [of body known] assms by (simp add: collect_process_ids_eq flip: set_empty)
  then show ?thesis using top_ids_reached(1) [of _ v 0] by blast
qed

text \<open>The nodes that a map decodes to, and where their process ids stand.\<close>

lemma visited_process_id:
  "visit_process_map kvs pid args res = Inr p \<Longrightarrow>
     (case pid of Some q \<Rightarrow> process_id p = q | None \<Rightarrow> map_of kvs ''process_id'' = Some (JString (process_id p)))"
proof (induction kvs pid args res rule: visit_process_map.induct)
  case (1 pid args res)
  then show ?case by (auto split: option.splits)
next
  case (2 k v rest pid args res)
  show ?case
  proof (cases "k = ''process_id''")
    case True
    then obtain q where "v = JString q" "visit_process_map rest (Some q) args res = Inr p" "pid = None"
      using 2(5) by (cases v) (auto split: if_splits)
    then show ?thesis using 2(1) True by auto
  next
    case False
    then show ?thesis using 2 by (auto simp: and_then_Inr_iff split: if_splits option.splits)
  qed
qed

lemma decoded_entry:
  assumes "decode_nodes (JObject entries) = Inr nodes" and "(i, node) \<in> set nodes"
  shows "\<exists>v. (i, v) \<in> set entries \<and> decode_process v = Inr node"
proof -
  obtain kps where kps: "traverse (\<lambda>(k, x). and_then (decode_process x) (\<lambda>p. Inr (k, p))) entries = Inr kps"
      "nodes = fold (\<lambda>(k, p). bt_insert k p) kps []"
    using assms(1) by (auto simp: decode_nodes_def and_then_Inr_iff)
  have "(i, node) \<in> set kps" using fold_bt_insert_subset [of kps "[]"] kps(2) assms(2) by auto
  then obtain k where k: "k < length kps" "kps ! k = (i, node)" by (auto simp: in_set_conv_nth)
  obtain j v where e: "entries ! k = (j, v)" by (cases "entries ! k")
  have "length entries = length kps" "and_then (decode_process v) (\<lambda>p. Inr (j, p)) = Inr (i, node)"
    using kps(1) k e unfolding traverse_Inr_iff list_all2_conv_all_nth by force+
  then have "(i, v) \<in> set entries" "decode_process v = Inr node" using k(1) e by (auto simp: and_then_Inr_iff) (metis nth_mem)
  then show ?thesis by blast
qed

text \<open>When no node is called \<open>process_graph\<close> and all are objects, the walk sees the process of every node.\<close>

lemma walked_nodes:
  assumes "map_of entries ''process_graph'' = None" and "decode_nodes (JObject entries) = Inr nodes"
    and "\<forall>(i, v) \<in> set entries. \<exists>flds. v = JObject flds" and "(i, node) \<in> set nodes"
    and "\<forall>m p. submitted_object (JObject entries) 0 m \<longrightarrow> map_of m ''process_id'' = Some (JString p) \<longrightarrow> p \<in> known"
  shows "process_id node \<in> known"
proof -
  obtain v where v: "(i, v) \<in> set entries" "decode_process v = Inr node" using decoded_entry [OF assms(2,4)] by blast
  then obtain flds where f: "v = JObject flds" using assms(3) by auto
  have "map_of flds ''process_id'' = Some (JString (process_id node))" using visited_process_id [of flds None None None node] v(2) f by simp
  moreover have "submitted_object (JObject entries) 0 flds"
    by (rule submitted_object.entry [OF _ assms(1) v(1)]) (simp_all add: f submitted_object.here MAX_SUBGRAPH_DEPTH_def)
  ultimately show ?thesis using assms(5) by blast
qed

section \<open>Properties\<close>

text \<open>
  C1. For a graph whose node map is a \<open>BTreeMap\<close>, and cycle detection as petgraph documents
  it, \<open>build\<close> succeeds exactly when every argument nests at most 64 levels deep, every
  \<open>from_node\<close> reference outside callbacks names a node of the graph, the references are
  acyclic, and exactly one node carries \<open>result: true\<close>.
\<close>

theorem build_accepts_iff:
  assumes "graph_algos is_cyclic_directed toposort" and "bt_wf (pg_nodes pg)"
  shows "(\<exists>a. build is_cyclic_directed pg = Inr a) \<longleftrightarrow>
    refs_resolve pg \<and> acyclic (deps pg) \<and> length (result_nodes pg) = 1"
  using assms by (rule graph_algos.build_accepts)

definition sample_graph :: process_graph where
  "sample_graph = \<lparr>pg_nodes =
     [(''a'', \<lparr>process_id = ''add'', arguments = [(''x'', JNumber (PosInt 1)), (''y'', JNumber (PosInt 2))], result_flag = None\<rparr>),
      (''b'', \<lparr>process_id = ''save_result'', arguments = [(''data'', JObject [(''from_node'', JString ''a'')])], result_flag = Some True\<rparr>)]\<rparr>"

lemma sample_graph_wf: "bt_wf (pg_nodes sample_graph)"
  by (simp add: sample_graph_def bt_wf_def)

lemma sample_graph_builds: "\<exists>a. build ref_is_cyclic sample_graph = Inr a"
proof -
  have k: "kahn [(0, Suc 0)] [0, Suc 0] = Some [0, Suc 0]"
    by (subst kahn.simps, simp, subst kahn.simps, simp, subst kahn.simps, simp)
  have n: "add_nodes (pg_nodes sample_graph) [] [] [] =
     ([''add'', ''save_result''], [(''a'', 0), (''b'', Suc 0)], [(0, ''a''), (Suc 0, ''b'')])"
    by (simp add: sample_graph_def)
  have e: "add_edges [(''a'', 0), (''b'', Suc 0)] (pg_nodes sample_graph) [] = Inr [(0, Suc 0)]"
    by (simp add: sample_graph_def collect_in_value_def collect_in_value_inner.simps add_edge_visit_def MAX_SUBGRAPH_DEPTH_def)
  have r: "result_nodes sample_graph = [''b'']" by (simp add: sample_graph_def result_nodes_def)
  show ?thesis using k by (simp add: build_def n e r ref_is_cyclic_def ref_toposort_def upt_rec)
qed


theorem build_accepts_iff_witness:
  "refs_resolve sample_graph \<and> acyclic (deps sample_graph) \<and> length (result_nodes sample_graph) = 1"
  using build_accepts_iff [OF ref.graph_algos_axioms sample_graph_wf] sample_graph_builds by blast

text \<open>
  C2. Whenever \<open>build\<close> succeeds, the evaluation order exists (no index panics), lists every node
  of the graph exactly once, and puts every referenced node before the node that refers to it. The
  nodes that the result depends on are among them and, in this order, end with the result node. The
  doc comment of \<open>evaluation_order\<close> promises those nodes only; the order is the documented one
  exactly when the result depends on every node of the graph.
\<close>

theorem evaluation_order_topological:
  assumes "graph_algos is_cyclic_directed toposort" and "bt_wf (pg_nodes pg)"
    and "build is_cyclic_directed pg = Inr a"
  shows "\<exists>order. evaluation_order toposort a = Some order \<and> distinct order \<and>
    set order = set (pg_ids pg) \<and> (\<forall>(src, dst) \<in> deps pg. precedes order src dst) \<and>
    (let needed = filter (\<lambda>i. (i, result_id a) \<in> (deps pg)\<^sup>*) order in
       needed \<noteq> [] \<and> last needed = result_id a \<and>
       (order = needed \<longleftrightarrow> (\<forall>i \<in> set (pg_ids pg). (i, result_id a) \<in> (deps pg)\<^sup>*)))"
proof -
  obtain order where o: "evaluation_order toposort a = Some order" "distinct order"
    "set order = set (pg_ids pg)" "\<forall>(src, dst) \<in> deps pg. precedes order src dst"
    using graph_algos.evaluation_order_topo [OF assms] by blast
  have "result_id a \<in> set order" using build_result_id [OF assms(2,3)] o(3) by simp
  note needed_nodes [OF o(4,2) this]
  moreover have "order = filter (\<lambda>i. (i, result_id a) \<in> (deps pg)\<^sup>*) order \<longleftrightarrow>
      (\<forall>i \<in> set (pg_ids pg). (i, result_id a) \<in> (deps pg)\<^sup>*)"
    unfolding o(3) [symmetric] filter_id_conv [symmetric] by (rule eq_commute)
  ultimately show ?thesis using o by (intro exI [of _ order]) (simp add: Let_def)
qed

theorem evaluation_order_topological_witness:
  "\<exists>a order. build ref_is_cyclic sample_graph = Inr a \<and> evaluation_order ref_toposort a = Some order \<and>
    set order = {''a'', ''b''}"
  using sample_graph_builds evaluation_order_topological [OF ref.graph_algos_axioms sample_graph_wf]
  by (fastforce simp: sample_graph_def pg_ids_def)

text \<open>
  C3. The references inside a callback do not reach the outer graph: replacing what stands under
  the \<open>process_graph\<close> key of an argument object that is not itself a link leaves the walk's
  result, for every visitor and every depth, unchanged.
\<close>

theorem callback_isolated:
  assumes "map_of obj ''process_graph'' = Some inner"
    and "\<forall>t. map_of obj ''from_node'' \<noteq> Some (JString t)"
  shows "collect_in_value_inner visit (JObject (AList.update ''process_graph'' inner' obj)) depth s =
    collect_in_value_inner visit (JObject obj) depth s"
  using assms
  by (auto simp: collect_in_value_inner.simps update_conv' split: option.splits json.splits)

theorem callback_isolated_witness:
  "collect_in_value_inner (add_edge_visit [] 0) (JObject (AList.update ''process_graph''
      (JObject [(''from_node'', JString ''zz'')]) [(''process_graph'', JNull)])) 0 [] = Inr []"
  using callback_isolated [of "[(''process_graph'', JNull)]" JNull "add_edge_visit [] 0"
      "JObject [(''from_node'', JString ''zz'')]" 0 "[]"]
  by (simp add: collect_in_value_inner.simps MAX_SUBGRAPH_DEPTH_def)

text \<open>
  Submit-time validation is complete for top-level nodes: when no node of the submitted graph
  is called \<open>process_graph\<close>, every node whose \<open>process_id\<close> is not implemented is reported.
\<close>

theorem unsupported_reported:
  assumes "submitted_graph body = Some (JObject nodes)"
    and "map_of nodes ''process_graph'' = None"
    and "(i, JObject flds) \<in> set nodes"
    and "map_of flds ''process_id'' = Some (JString p)" and "p \<notin> set known"
  shows "p \<in> set (unsupported_process_ids body known)"
proof -
  have "p \<in> top_ids (JObject flds) 1" using assms(4) by (simp add: top_ids.simps MAX_SUBGRAPH_DEPTH_def)
  then have "p \<in> top_ids_entries nodes 1" using top_ids_entries_in [OF assms(3), of 1] by blast
  then have "p \<in> top_ids (JObject nodes) 0" using assms(2) by (simp add: top_ids.simps [of _ 0])
  then show ?thesis using assms(1,5) by (simp add: set_unsupported collect_process_ids_eq)
qed

theorem unsupported_reported_witness:
  "''nope'' \<in> set (unsupported_process_ids
     (JObject [(''process_graph'', JObject [(''n'', JObject [(''process_id'', JString ''nope'')])])]) [''add''])"
  by (rule unsupported_reported [of _ "[(''n'', JObject [(''process_id'', JString ''nope'')])]" "''n''"
        "[(''process_id'', JString ''nope'')]"])
    (simp_all add: submitted_graph_def json_get_def)

text \<open>
  The exception to that: a submitted graph with a node called \<open>process_graph\<close> is taken for a
  callback wrapper, and none of its processes is checked.
\<close>

theorem validation_skipped:
  assumes "submitted_graph body = Some (JObject nodes)"
    and "map_of nodes ''process_graph'' \<noteq> None"
    and "\<forall>p. map_of nodes ''process_id'' \<noteq> Some (JString p)"
  shows "unsupported_process_ids body known = []"
proof -
  have "collect_process_ids body = {}"
    using assms by (auto simp: collect_process_ids_eq top_ids.simps split: option.splits json.splits)
  then show ?thesis by (simp add: unsupported_process_ids_def)
qed

theorem validation_skipped_witness:
  "unsupported_process_ids
     (JObject [(''process_graph'', JObject [(''process_graph'', JObject [(''process_id'', JString ''nope'')])])]) [] = []"
  by (rule validation_skipped [of _ "[(''process_graph'', JObject [(''process_id'', JString ''nope'')])]"])
    (simp_all add: submitted_graph_def json_get_def)

end
