(* ===== verification/Local_Executor.thy ===== *)
theory Local_Executor
  imports Process_Graph
begin

text \<open>
  The in-process executors of \<open>apps/orbit-openeo/src/executor.rs\<close> and the collection catalog
  they consult (\<open>catalog.rs\<close>). The main result is that \<open>LocalExecutor::evaluate\<close> computes the
  one assignment of values to nodes that is consistent with every node's process, whatever
  topological order petgraph chooses, and that it fails only where a node's own process fails.
\<close>

section \<open>Definitions\<close>

fun show_nat :: "nat \<Rightarrow> string" where
  "show_nat n = (if n < 10 then [char_of (48 + n)] else show_nat (n div 10) @ [char_of (48 + n mod 10)])"

declare show_nat.simps [simp del]

datatype exec_error =
    InvalidGraph string
  | UnknownProcess string
  | Backend string
  | PerPixelComputation string

record sync_result =
  content_type :: string
  result_body :: string

text \<open>The JSON writer belongs to serde\_json (\<open>None\<close> when it fails).\<close>

definition sync_result_json :: "(json \<Rightarrow> string option) \<Rightarrow> json \<Rightarrow> sync_result" where
  "sync_result_json to_vec v =
     \<lparr>content_type = ''application/json'',
      result_body = (case to_vec v of Some b \<Rightarrow> b | None \<Rightarrow> ''null'')\<rparr>"

fun graph_error_display :: "graph_error \<Rightarrow> string" where
  "graph_error_display (Cycle n) = ''process graph contains a cycle through node `'' @ n @ ''`''"
| "graph_error_display (UnknownNodeReference n) = ''unknown node `'' @ n @ ''` referenced as `from_node`''"
| "graph_error_display (AmbiguousResult k) =
     ''expected exactly one result-marked node (got '' @ show_nat k @ '')''"
| "graph_error_display (DepthExceeded k) =
     ''process graph argument nesting exceeded depth limit ('' @ show_nat k @ '')''"

subsection \<open>The collection catalog\<close>

record collection =
  coll_id :: string
  stac_version :: string
  description :: string
  license :: string
  extra :: "(string \<times> json) list"

definition collection_new :: "string \<Rightarrow> collection" where
  "collection_new i = \<lparr>coll_id = i, stac_version = ''1.0.0'', description = [],
     license = ''proprietary'', extra = []\<rparr>"

datatype catalog_error = NotFound string | CatalogBackend string

fun catalog_error_display :: "catalog_error \<Rightarrow> string" where
  "catalog_error_display (NotFound i) = ''collection not found: '' @ i"
| "catalog_error_display (CatalogBackend m) = ''catalog backend error: '' @ m"

type_synonym catalog_get = "string \<Rightarrow> (catalog_error, collection) result"

text \<open>\<open>InMemoryCatalog\<close>: a fixed list, searched from the front.\<close>

definition in_memory_list :: "collection list \<Rightarrow> (catalog_error, collection list) result" where
  "in_memory_list inner = Inr inner"

definition in_memory_get :: "collection list \<Rightarrow> catalog_get" where
  "in_memory_get inner i = ok_or (NotFound i) (find (\<lambda>c. coll_id c = i) inner)"

subsection \<open>Graph wrapper\<close>

definition validate_process_wrapper :: "json \<Rightarrow> (exec_error, unit) result" where
  "validate_process_wrapper body =
     (case submitted_graph body of
        Some (JObject m) \<Rightarrow>
          if m \<noteq> [] then Inr () else Inl (InvalidGraph ''process_graph is not a non-empty object'')
      | Some _ \<Rightarrow> Inl (InvalidGraph ''process_graph is not a non-empty object'')
      | None \<Rightarrow> Inl (InvalidGraph ''missing process.process_graph''))"

definition echo_run_sync :: "(json \<Rightarrow> string option) \<Rightarrow> json \<Rightarrow> (exec_error, sync_result) result" where
  "echo_run_sync to_vec body =
     and_then (validate_process_wrapper body) (\<lambda>_. Inr (sync_result_json to_vec body))"

text \<open>\<open>format!("job-\{:08x\}")\<close> of a 64-bit hash; the hash of std is unspecified, hence a parameter.\<close>

definition hex_digit :: "nat \<Rightarrow> char" where
  "hex_digit d = char_of (if d < 10 then 48 + d else 87 + d)"

fun show_hex :: "nat \<Rightarrow> string" where
  "show_hex n = (if n < 16 then [hex_digit n] else show_hex (n div 16) @ [hex_digit (n mod 16)])"

declare show_hex.simps [simp del]

definition job_id_of_hash :: "64 word \<Rightarrow> string" where
  "job_id_of_hash h =
     (let s = show_hex (unat h) in ''job-'' @ replicate (8 - length s) (CHR ''0'') @ s)"

definition echo_enqueue :: "(json \<Rightarrow> 64 word) \<Rightarrow> json \<Rightarrow> (exec_error, string) result" where
  "echo_enqueue deterministic_hash body =
     and_then (validate_process_wrapper body) (\<lambda>_. Inr (job_id_of_hash (deterministic_hash body)))"

definition parse_graph :: "(serde_error \<Rightarrow> string) \<Rightarrow> json \<Rightarrow> (exec_error, process_graph) result" where
  "parse_graph serde_show body =
     and_then (ok_or (InvalidGraph ''missing process.process_graph'') (submitted_graph body)) (\<lambda>pg_val.
     and_then (map_err (\<lambda>e. InvalidGraph (serde_show e)) (decode_nodes pg_val)) (\<lambda>nodes.
       if nodes = [] then Inl (InvalidGraph ''process_graph is empty'')
       else Inr \<lparr>pg_nodes = nodes\<rparr>))"

subsection \<open>LocalExecutor\<close>

type_synonym memo = "string \<Rightarrow> json option"

definition resolve_value :: "json \<Rightarrow> memo \<Rightarrow> (exec_error, json) result" where
  "resolve_value v memo =
     (case as_object v of
        Some obj \<Rightarrow>
          if length obj = 1 then
            (case map_of obj ''from_node'' of
               Some (JString target) \<Rightarrow>
                 ok_or (InvalidGraph (''upstream node `'' @ target @ ''` not yet evaluated'')) (memo target)
             | _ \<Rightarrow> Inr v)
          else Inr v
      | None \<Rightarrow> Inr v)"

definition number :: "json option \<Rightarrow> (exec_error, f64) result" where
  "number v = ok_or (InvalidGraph ''expected numeric argument'') (Option.bind v as_f64)"

fun resolve_args :: "(string \<times> json) list \<Rightarrow> memo \<Rightarrow> (string, json) btree
  \<Rightarrow> (exec_error, (string, json) btree) result" where
  "resolve_args [] memo acc = Inr acc"
| "resolve_args ((k, v) # rest) memo acc =
     and_then (resolve_value v memo) (\<lambda>r. resolve_args rest memo (bt_insert k r acc))"

definition binary_op :: "(f64 \<Rightarrow> f64 \<Rightarrow> f64) \<Rightarrow> (string, json) btree \<Rightarrow> (exec_error, json) result" where
  "binary_op f args =
     and_then (number (bt_get args ''x'')) (\<lambda>x. and_then (number (bt_get args ''y'')) (\<lambda>y.
       Inr (json_from_f64 (f x y))))"

text \<open>The \<open>DataCube\<close> sentinel for what the catalog answers.\<close>

definition collection_sentinel :: "json \<Rightarrow> (catalog_error, collection) result \<Rightarrow> (exec_error, json) result" where
  "collection_sentinel id_arg answer =
     (case answer of
        Inr meta \<Rightarrow>
          let s1 = AList.update ''type'' (JString ''DataCube'') [];
              s2 = AList.update ''collection'' id_arg s1;
              s3 = AList.update ''stac_version'' (JString (stac_version meta)) s2;
              s4 = (if description meta \<noteq> [] then
                      AList.update ''description'' (JString (description meta)) s3 else s3)
          in Inr (JObject s4)
      | Inl (NotFound i) \<Rightarrow> Inl (Backend (''CollectionNotFound: '' @ i))
      | Inl e \<Rightarrow> Inl (Backend (''catalog: '' @ catalog_error_display e)))"

definition load_collection :: "catalog_get option \<Rightarrow> (string, json) btree \<Rightarrow> (exec_error, json) result" where
  "load_collection catalog args =
     (let id_arg = (case bt_get args ''id'' of Some v \<Rightarrow> v | None \<Rightarrow> JNull) in
      case catalog of
        Some cat \<Rightarrow>
          and_then (ok_or (InvalidGraph ''load_collection: `id` argument must be a string'') (as_str id_arg))
            (\<lambda>id_str. collection_sentinel id_arg (cat id_str))
      | None \<Rightarrow> Inr (JObject [(''type'', JString ''DataCube''), (''collection'', id_arg)]))"

definition run_process ::
  "catalog_get option \<Rightarrow> string \<Rightarrow> (string, json) btree \<Rightarrow> (exec_error, json) result" where
  "run_process catalog pid args =
     (if pid = ''load_collection'' then load_collection catalog args
      else if pid = ''save_result'' then
        Inr (case bt_get args ''data'' of Some v \<Rightarrow> v | None \<Rightarrow> JNull)
      else if pid = ''add'' then binary_op f64_add args
      else if pid = ''subtract'' then binary_op f64_sub args
      else if pid = ''multiply'' then binary_op f64_mul args
      else if pid = ''divide'' then
        and_then (number (bt_get args ''x'')) (\<lambda>x. and_then (number (bt_get args ''y'')) (\<lambda>y.
          if f64_eq y (f64_of_nat 0) then Inl (InvalidGraph ''divide: y must be non-zero'')
          else Inr (json_from_f64 (f64_div x y))))
      else Inl (UnknownProcess pid))"

definition eval_node :: "catalog_get option \<Rightarrow> process \<Rightarrow> memo \<Rightarrow> (exec_error, json) result" where
  "eval_node catalog node memo =
     and_then (resolve_args (arguments node) memo []) (\<lambda>args. run_process catalog (process_id node) args)"

fun eval_loop :: "catalog_get option \<Rightarrow> process_graph \<Rightarrow> string list \<Rightarrow> memo \<Rightarrow> (exec_error, memo) result" where
  "eval_loop catalog g [] memo = Inr memo"
| "eval_loop catalog g (i # rest) memo =
     and_then (ok_or (InvalidGraph (''unknown node `'' @ i @ ''`'')) (bt_get (pg_nodes g) i)) (\<lambda>node.
     and_then (eval_node catalog node memo) (\<lambda>out.
       eval_loop catalog g rest (memo(i \<mapsto> out))))"

text \<open>
  \<open>None\<close> is a panic (an index missing from \<open>by_index\<close> in \<open>evaluation_order\<close>).
\<close>

definition evaluate ::
  "(digraph \<Rightarrow> bool) \<Rightarrow> (digraph \<Rightarrow> nat list option) \<Rightarrow> catalog_get option \<Rightarrow> process_graph
   \<Rightarrow> (exec_error, json) result option" where
  "evaluate is_cyclic toposort catalog g =
     (case map_err (\<lambda>e. InvalidGraph (graph_error_display e)) (build is_cyclic g) of
        Inl e \<Rightarrow> Some (Inl e)
      | Inr a \<Rightarrow> map_option (\<lambda>order.
          and_then (eval_loop catalog g order Map.empty) (\<lambda>memo.
            ok_or (InvalidGraph ''result node was not visited during topo walk'') (memo (result_id a))))
          (evaluation_order toposort a))"

definition local_run_sync ::
  "(json \<Rightarrow> string option) \<Rightarrow> (serde_error \<Rightarrow> string) \<Rightarrow> (digraph \<Rightarrow> bool) \<Rightarrow> (digraph \<Rightarrow> nat list option)
   \<Rightarrow> catalog_get option \<Rightarrow> json \<Rightarrow> (exec_error, sync_result) result option" where
  "local_run_sync to_vec serde_show is_cyclic toposort catalog body =
     (case parse_graph serde_show body of
        Inl e \<Rightarrow> Some (Inl e)
      | Inr g \<Rightarrow> map_option (\<lambda>r. and_then r (\<lambda>v. Inr (sync_result_json to_vec v)))
          (evaluate is_cyclic toposort catalog g))"

definition local_enqueue :: "(json \<Rightarrow> 64 word) \<Rightarrow> (serde_error \<Rightarrow> string) \<Rightarrow> json \<Rightarrow> (exec_error, string) result" where
  "local_enqueue deterministic_hash serde_show body =
     and_then (parse_graph serde_show body) (\<lambda>_. Inr (job_id_of_hash (deterministic_hash body)))"

section \<open>Consistent assignments\<close>

definition consistent :: "catalog_get option \<Rightarrow> process_graph \<Rightarrow> (string \<Rightarrow> json) \<Rightarrow> bool" where
  "consistent catalog g val \<longleftrightarrow>
     (\<forall>(i, node) \<in> set (pg_nodes g). eval_node catalog node (\<lambda>j. Some (val j)) = Inr (val i))"

lemma resolve_value_cong:
  assumes "\<And>t. t \<in> set (refs v) \<Longrightarrow> m t = m' t"
  shows "resolve_value v m = resolve_value v m'"
  using assms by (cases v) (auto simp: resolve_value_def split: option.splits json.splits)

lemma resolve_args_cong:
  assumes "\<And>t. t \<in> set (concat (map (\<lambda>kv. refs (snd kv)) args)) \<Longrightarrow> m t = m' t"
  shows "resolve_args args m acc = resolve_args args m' acc"
  using assms
proof (induction args m acc rule: resolve_args.induct)
  case (2 k v rest memo acc)
  have "resolve_value v memo = resolve_value v m'" using 2(2) by (intro resolve_value_cong) simp
  then show ?case using 2 by (auto intro!: and_then_cong)
qed simp

lemma eval_node_cong:
  "(\<And>t. t \<in> set (node_refs node) \<Longrightarrow> m t = m' t) \<Longrightarrow> eval_node c node m = eval_node c node m'"
  unfolding eval_node_def using resolve_args_cong [of "arguments node" m m' "[]"]
  by (simp add: node_refs_def)

text \<open>An order in which every node's references come first.\<close>

fun ready :: "process_graph \<Rightarrow> string set \<Rightarrow> string list \<Rightarrow> bool" where
  "ready g D [] = True"
| "ready g D (i # rest) =
     ((\<exists>node. bt_get (pg_nodes g) i = Some node \<and> set (node_refs node) \<subseteq> D) \<and> ready g (insert i D) rest)"

lemma precedes_ready:
  assumes "bt_wf (pg_nodes g)" and "set order \<subseteq> set (pg_ids g)" and "distinct (pre @ order)"
    and "\<forall>(src, dst) \<in> deps g. precedes (pre @ order) src dst"
  shows "ready g (set pre) order"
  using assms(2-)
proof (induction order arbitrary: pre)
  case (Cons i rest)
  obtain node where n: "(i, node) \<in> set (pg_nodes g)" using Cons.prems(1) by (auto simp: pg_ids_def)
  then have get: "bt_get (pg_nodes g) i = Some node"
    using bt_wf_distinct [OF assms(1)] by (simp add: bt_get_def)
  have "set (node_refs node) \<subseteq> set pre"
  proof
    fix t assume "t \<in> set (node_refs node)"
    then have "precedes (pre @ i # rest) t i" using Cons.prems(3) n by (auto simp: deps_def)
    moreover have "takeWhile (\<lambda>x. x \<noteq> i) (pre @ i # rest) = pre"
      using Cons.prems(2) by (simp add: takeWhile_tail) (auto simp: takeWhile_eq_all_conv)
    ultimately show "t \<in> set pre" by (simp add: precedes_def)
  qed
  moreover have "ready g (set (pre @ [i])) rest" using Cons.prems by (intro Cons.IH) auto
  ultimately show ?case using get by simp
qed simp

lemma eval_loop_complete:
  assumes "consistent c g val" and "ready g (dom m) order" and "\<forall>j \<in> dom m. m j = Some (val j)"
  shows "\<exists>m'. eval_loop c g order m = Inr m' \<and> dom m' = dom m \<union> set order \<and> (\<forall>j \<in> dom m'. m' j = Some (val j))"
  using assms(2,3)
proof (induction order arbitrary: m)
  case (Cons i rest)
  obtain node where n: "bt_get (pg_nodes g) i = Some node" "set (node_refs node) \<subseteq> dom m"
    using Cons.prems by auto
  then have "(i, node) \<in> set (pg_nodes g)" by (auto simp: bt_get_def dest: map_of_SomeD)
  then have "eval_node c node (\<lambda>j. Some (val j)) = Inr (val i)" using assms(1) by (auto simp: consistent_def)
  moreover have "eval_node c node m = eval_node c node (\<lambda>j. Some (val j))"
    using n(2) Cons.prems(2) by (intro eval_node_cong) auto
  ultimately have step: "eval_node c node m = Inr (val i)" by simp
  define M where "M = m(i \<mapsto> val i)"
  have M: "dom M = insert i (dom m)" "\<forall>j \<in> dom M. M j = Some (val j)"
    using Cons.prems(2) by (auto simp: M_def)
  have "ready g (dom M) rest" using Cons.prems(1) M(1) by simp
  from Cons.IH [OF this M(2)] show ?case using n(1) step by (auto simp: M(1) M_def [symmetric])
qed auto

lemma eval_loop_sound:
  assumes "eval_loop c g order m = Inr m'" and "ready g (dom m) order"
    and "distinct order" and "set order \<inter> dom m = {}"
  shows "dom m' = dom m \<union> set order \<and> (\<forall>j \<in> dom m. m' j = m j) \<and>
    (\<forall>i \<in> set order. \<exists>node. bt_get (pg_nodes g) i = Some node \<and>
       set (node_refs node) \<subseteq> dom m' \<and> eval_node c node m' = Inr (the (m' i)))"
  using assms
proof (induction order arbitrary: m)
  case (Cons i rest)
  obtain node where n: "bt_get (pg_nodes g) i = Some node" "set (node_refs node) \<subseteq> dom m"
    using Cons.prems by auto
  then obtain out where out: "eval_node c node m = Inr out" "eval_loop c g rest (m(i \<mapsto> out)) = Inr m'"
    using Cons.prems(1) by (auto simp: and_then_Inr_iff)
  define M where "M = m(i \<mapsto> out)"
  have M: "dom M = insert i (dom m)" by (simp add: M_def)
  have keep0: "\<forall>j \<in> dom m. M j = m j" and Mi: "M i = Some out"
    using Cons.prems(4) by (auto simp: M_def)
  have "ready g (dom M) rest" "distinct rest" "set rest \<inter> dom M = {}" using Cons.prems M by auto
  note IH = Cons.IH [OF out(2) [folded M_def] this]
  have "eval_node c node m' = eval_node c node m"
    using n(2) IH keep0 M by (intro eval_node_cong) (metis insertCI subsetD)
  moreover have "m' i = Some out" using IH M Mi by simp
  moreover have "set (node_refs node) \<subseteq> dom m'" using n(2) IH M by auto
  ultimately show ?case using n(1) out(1) IH M keep0 by auto
qed auto

text \<open>Every error of the loop is an error of a node's own process.\<close>

lemma resolve_args_ok:
  "set (concat (map (\<lambda>kv. refs (snd kv)) args)) \<subseteq> dom m \<Longrightarrow> \<exists>args'. resolve_args args m acc = Inr args'"
proof (induction args m acc rule: resolve_args.induct)
  case (2 k v rest memo acc)
  have "\<exists>r. resolve_value v memo = Inr r" using 2(2)
    by (cases v) (auto simp: resolve_value_def subset_iff split: option.splits json.splits)
  then show ?case using 2 by auto
qed simp

lemma eval_loop_error:
  assumes "eval_loop c g order m = Inl e" and "ready g (dom m) order"
  shows "\<exists>(i, node) \<in> set (pg_nodes g). \<exists>args. run_process c (process_id node) args = Inl e"
  using assms
proof (induction order arbitrary: m)
  case (Cons i rest)
  obtain node where n: "bt_get (pg_nodes g) i = Some node" "set (node_refs node) \<subseteq> dom m"
    using Cons.prems by auto
  then obtain args where args: "resolve_args (arguments node) m [] = Inr args"
    using resolve_args_ok [of "arguments node" m "[]"] by (auto simp: node_refs_def)
  show ?case
  proof (cases "run_process c (process_id node) args")
    case (Inl e')
    then have "e' = e" using Cons.prems(1) n args by (simp add: eval_node_def)
    moreover have "(i, node) \<in> set (pg_nodes g)" using n(1) by (auto simp: bt_get_def dest: map_of_SomeD)
    ultimately show ?thesis using Inl by blast
  next
    case (Inr out)
    define M where "M = m(i \<mapsto> out)"
    have "eval_loop c g rest M = Inl e" using Inr Cons.prems(1) n args by (simp add: eval_node_def M_def)
    moreover have "ready g (dom M) rest" using Cons.prems(2) by (simp add: M_def)
    ultimately show ?thesis by (rule Cons.IH)
  qed
qed simp

lemma result_nodes_hd_in: "length (result_nodes g) = 1 \<Longrightarrow> hd (result_nodes g) \<in> set (pg_ids g)"
  by (cases "result_nodes g") (auto simp: result_nodes_def pg_ids_def filter_eq_Cons_iff)

context graph_algos
begin

text \<open>What a built graph gives to the evaluation loop.\<close>

lemma evaluate_built:
  assumes wf: "bt_wf (pg_nodes g)" and b: "build is_cyclic_directed g = Inr a"
  obtains order where "evaluation_order toposort a = Some order" "ready g {} order" "distinct order"
    "set order = set (pg_ids g)" "result_id a = hd (result_nodes g)" "result_id a \<in> set order"
    "evaluate is_cyclic_directed toposort c g = Some (and_then (eval_loop c g order Map.empty)
       (\<lambda>memo. ok_or (InvalidGraph ''result node was not visited during topo walk'') (memo (result_id a))))"
proof -
  obtain order where o: "evaluation_order toposort a = Some order" "distinct order"
    "set order = set (pg_ids g)" "\<forall>(src, dst) \<in> deps g. precedes order src dst"
    using evaluation_order_topo [OF wf b] by blast
  have "ready g (set []) order" using o by (intro precedes_ready [OF wf]) auto
  moreover have "result_id a = hd (result_nodes g)" "length (result_nodes g) = 1"
    using b by (auto simp: build_Inr_iff [OF wf])
  moreover have "result_id a \<in> set order" using calculation result_nodes_hd_in o(3) by simp
  ultimately show thesis using that o b by (simp add: evaluate_def)
qed

lemma evaluate_value:
  assumes wf: "bt_wf (pg_nodes g)"
  shows "evaluate is_cyclic_directed toposort c g = Some (Inr v) \<longleftrightarrow>
    (\<exists>a. build is_cyclic_directed g = Inr a) \<and>
    (\<exists>val. consistent c g val \<and> v = val (hd (result_nodes g)))" (is "?L \<longleftrightarrow> ?R")
proof (cases "build is_cyclic_directed g")
  case (Inl e)
  then show ?thesis by (simp add: evaluate_def)
next
  case (Inr a)
  obtain order where o: "ready g (dom (Map.empty :: memo)) order" "distinct order" "set order = set (pg_ids g)"
    "result_id a = hd (result_nodes g)" "result_id a \<in> set order"
    "evaluate is_cyclic_directed toposort c g = Some (and_then (eval_loop c g order Map.empty)
       (\<lambda>memo. ok_or (InvalidGraph ''result node was not visited during topo walk'') (memo (result_id a))))"
    using evaluate_built [OF wf Inr] by (metis dom_empty)
  show ?thesis
  proof
    assume ?L
    then obtain m where m: "eval_loop c g order Map.empty = Inr m" "m (result_id a) = Some v"
      using o(6) by (auto simp: and_then_Inr_iff)
    note s = eval_loop_sound [OF m(1) o(1,2)]
    have "consistent c g (\<lambda>j. the (m j))"
      unfolding consistent_def
    proof clarify
      fix i node assume n: "(i, node) \<in> set (pg_nodes g)"
      then have "bt_get (pg_nodes g) i = Some node" and "i \<in> set order"
        using bt_wf_distinct [OF wf] o(3) by (force simp: bt_get_def pg_ids_def)+
      then have "set (node_refs node) \<subseteq> dom m" "eval_node c node m = Inr (the (m i))" using s by force+
      moreover have "eval_node c node (\<lambda>j. Some (the (m j))) = eval_node c node m"
        using calculation by (intro eval_node_cong) auto
      ultimately show "eval_node c node (\<lambda>j. Some (the (m j))) = Inr (the (m i))" by simp
    qed
    then show ?R using m(2) o(4) Inr by (metis option.sel)
  next
    assume ?R
    then obtain val where val: "consistent c g val" "v = val (hd (result_nodes g))" by blast
    obtain m where "eval_loop c g order Map.empty = Inr m" "dom m = set order" "\<forall>j \<in> dom m. m j = Some (val j)"
      using eval_loop_complete [OF val(1) o(1)] by auto
    then show ?L using o(4,5,6) val(2) by simp
  qed
qed

lemma evaluate_error:
  assumes wf: "bt_wf (pg_nodes g)" and b: "build is_cyclic_directed g = Inr a"
  shows "\<exists>r. evaluate is_cyclic_directed toposort c g = Some r \<and>
    (\<forall>e. r = Inl e \<longrightarrow> (\<exists>(i, node) \<in> set (pg_nodes g). \<exists>args. run_process c (process_id node) args = Inl e))"
proof -
  obtain order where o: "ready g (dom (Map.empty :: memo)) order" "distinct order" "result_id a \<in> set order"
    "evaluate is_cyclic_directed toposort c g = Some (and_then (eval_loop c g order Map.empty)
       (\<lambda>memo. ok_or (InvalidGraph ''result node was not visited during topo walk'') (memo (result_id a))))"
    using evaluate_built [OF wf b] by (metis dom_empty)
  show ?thesis
  proof (cases "eval_loop c g order Map.empty")
    case (Inl e)
    then show ?thesis using o(4) eval_loop_error [OF Inl o(1)] by simp
  next
    case (Inr m)
    have "result_id a \<in> dom m" using eval_loop_sound [OF Inr o(1,2)] o(3) by auto
    then show ?thesis using o(4) Inr by auto
  qed
qed

end

lemma consistent_unique:
  assumes algos: "graph_algos ic ts" and wf: "bt_wf (pg_nodes g)" and b: "build ic g = Inr a"
    and "consistent c g val" and "consistent c g val'" and "i \<in> set (pg_ids g)"
  shows "val i = val' i"
proof -
  obtain order where o: "ready g (dom (Map.empty :: memo)) order" "set order = set (pg_ids g)"
    using graph_algos.evaluate_built [OF algos wf b] by (metis dom_empty)
  obtain m m' where "eval_loop c g order Map.empty = Inr m" "dom m = set order" "\<forall>j \<in> dom m. m j = Some (val j)"
    and "eval_loop c g order Map.empty = Inr m'" "\<forall>j \<in> dom m'. m' j = Some (val' j)"
    using eval_loop_complete [OF assms(4) o(1)] eval_loop_complete [OF assms(5) o(1)] by auto
  then show ?thesis using o(2) assms(6) by (metis Inr_inject option.inject)
qed

text \<open>The errors a node's own process can raise.\<close>

definition own_error :: "catalog_get option \<Rightarrow> string \<Rightarrow> exec_error \<Rightarrow> bool" where
  "own_error c p e \<longleftrightarrow>
     (if p \<in> {''add'', ''subtract'', ''multiply''} then e = InvalidGraph ''expected numeric argument''
      else if p = ''divide'' then
        e \<in> {InvalidGraph ''expected numeric argument'', InvalidGraph ''divide: y must be non-zero''}
      else if p = ''save_result'' then False
      else if p = ''load_collection'' then
        c \<noteq> None \<and> (e = InvalidGraph ''load_collection: `id` argument must be a string'' \<or> (\<exists>m. e = Backend m))
      else e = UnknownProcess p)"

lemma number_error: "number v = Inl e \<Longrightarrow> e = InvalidGraph ''expected numeric argument''"
  by (auto simp: number_def)

lemma collection_sentinel_error: "collection_sentinel i r = Inl e \<Longrightarrow> \<exists>m. e = Backend m"
  unfolding collection_sentinel_def Let_def by (cases r) (auto split: catalog_error.splits)

lemma load_collection_error:
  assumes "load_collection c args = Inl e"
  shows "c \<noteq> None \<and> (e = InvalidGraph ''load_collection: `id` argument must be a string'' \<or> (\<exists>m. e = Backend m))"
proof (cases c)
  case (Some cat)
  then show ?thesis using assms collection_sentinel_error
    by (fastforce simp: load_collection_def Let_def and_then_Inl_iff)
qed (use assms in \<open>simp add: load_collection_def Let_def\<close>)

lemma binary_op_error: "binary_op f args = Inl e \<Longrightarrow> e = InvalidGraph ''expected numeric argument''"
  by (auto simp: binary_op_def and_then_Inl_iff dest: number_error)

lemma run_process_own_error:
  assumes "run_process c p args = Inl e"
  shows "own_error c p e"
proof (cases "p \<in> {''add'', ''subtract'', ''multiply''}")
  case True
  then obtain f where "run_process c p args = binary_op f args" by (auto simp: run_process_def)
  then have "e = InvalidGraph ''expected numeric argument''" using assms binary_op_error [of f args e] by simp
  then show ?thesis unfolding own_error_def by (simp only: True if_True)
next
  case arith: False
  show ?thesis
  proof (cases "p = ''divide''")
    case True
    then show ?thesis using assms
      by (auto simp: run_process_def own_error_def and_then_Inl_iff dest: number_error split: if_splits)
  next
    case False
    then show ?thesis using arith assms load_collection_error [of c args e]
      by (cases "p = ''load_collection''"; cases "p = ''save_result''")
        (simp_all add: run_process_def own_error_def)
  qed
qed

lemma sibling_link_unresolved:
  "map_of obj ''from_node'' = Some (JString t) \<Longrightarrow> length obj \<noteq> 1 \<Longrightarrow>
     refs (JObject obj) = [t] \<and> resolve_value (JObject obj) m = Inr (JObject obj)"
  by (simp add: resolve_value_def)

section \<open>Properties\<close>

text \<open>
  \<open>LocalExecutor::evaluate\<close> returns the value \<open>v\<close> exactly when the graph is accepted and there
  is an assignment of values to nodes under which every node's process, applied to its resolved
  arguments, gives that node's value, and \<open>v\<close> is the value of the result node. The order petgraph
  chooses does not appear on the right-hand side.
\<close>

theorem evaluate_denotes:
  assumes "graph_algos ic ts" and "bt_wf (pg_nodes g)"
  shows "evaluate ic ts c g = Some (Inr v) \<longleftrightarrow>
    refs_resolve g \<and> acyclic (deps g) \<and> length (result_nodes g) = 1 \<and>
    (\<exists>val. consistent c g val \<and> v = val (hd (result_nodes g)))"
  using graph_algos.evaluate_value [OF assms] graph_algos.build_accepts [OF assms] by simp

definition sample_value :: json where
  "sample_value = json_from_f64 (f64_add (f64_of_nat 1) (f64_of_nat 2))"

lemma sample_consistent: "consistent None sample_graph (\<lambda>_. sample_value)"
  by (simp add: consistent_def sample_graph_def eval_node_def resolve_value_def run_process_def
      binary_op_def number_def bt_get_def sample_value_def)

theorem evaluate_denotes_witness:
  "evaluate ref_is_cyclic ref_toposort None sample_graph = Some (Inr sample_value)"
  using evaluate_denotes [OF ref.graph_algos_axioms sample_graph_wf, of None sample_value]
    ref.build_accepts [OF sample_graph_wf] sample_graph_builds sample_consistent by blast

text \<open>
  On an accepted graph the executor always answers, and every error it answers with is one that
  the process of one of the nodes raises itself: it never reports a node as unknown, an upstream
  node as not yet evaluated, or the result node as not visited.
\<close>

theorem evaluate_errors_own:
  assumes "graph_algos ic ts" and "bt_wf (pg_nodes g)" and "build ic g = Inr a"
  shows "\<exists>r. evaluate ic ts c g = Some r \<and>
    (\<forall>e. r = Inl e \<longrightarrow> (\<exists>(i, node) \<in> set (pg_nodes g). own_error c (process_id node) e))"
  using graph_algos.evaluate_error [OF assms, of c] run_process_own_error by fast

theorem evaluate_errors_own_witness:
  "\<exists>a r. build ref_is_cyclic sample_graph = Inr a \<and> evaluate ref_is_cyclic ref_toposort None sample_graph = Some r \<and>
    r \<noteq> Inl (UnknownProcess ''mask'')"
proof -
  obtain a where a: "build ref_is_cyclic sample_graph = Inr a" using sample_graph_builds by blast
  show ?thesis
    using a evaluate_errors_own [OF ref.graph_algos_axioms sample_graph_wf a, of None]
    by (fastforce simp: sample_graph_def own_error_def)
qed

end
