(* ===== verification/Process_Graph_Ir.thy ===== *)
theory Process_Graph_Ir
  imports Local_Executor
begin

text \<open>
  The typed process-graph representation of \<open>apps/orbit-openeo/src/process_graph_ir.rs\<close>: typed
  arguments, the node type with one constructor per process, and the lift from raw processes, which
  recurses into the callbacks of \<open>apply\<close> and \<open>reduce_dimension\<close>. The type system the lift decides is
  stated on its own, as a table of signatures and an inductive typing relation. The printed form of
  a decoding error is the parameter \<open>show_e\<close>.
\<close>

section \<open>Errors and typed arguments\<close>

datatype ir_error =
    UnsupportedProcess string
  | MissingArgument string string
  | BadArgument string string string
  | UnresolvedFromNode string

record bbox =
  west :: f64
  south :: f64
  east :: f64
  north :: f64

definition num_field :: "json \<Rightarrow> string \<Rightarrow> (ir_error, f64) result" where
  "num_field v k = ok_or (BadArgument ''bbox'' k ''expected number'') (Option.bind (json_get v k) as_f64)"

definition bbox_parse :: "json \<Rightarrow> (ir_error, bbox) result" where
  "bbox_parse v =
     and_then (num_field v ''west'') (\<lambda>w. and_then (num_field v ''south'') (\<lambda>s.
     and_then (num_field v ''east'') (\<lambda>e. and_then (num_field v ''north'') (\<lambda>n.
       Ok \<lparr>west = w, south = s, east = e, north = n\<rparr>))))"

record temporal_extent =
  ext_start :: string
  ext_end :: string

definition extent_parse :: "json \<Rightarrow> (ir_error, temporal_extent) result" where
  "extent_parse v =
     and_then (ok_or (BadArgument ''temporal_extent'' ''value'' ''expected 2-array'') (as_array v)) (\<lambda>arr.
       if length arr \<noteq> 2
       then Err (BadArgument ''temporal_extent'' ''value'' (''expected 2 entries, got '' @ show_nat (length arr)))
       else Ok \<lparr>ext_start = (case as_str (arr ! 0) of None \<Rightarrow> ''..'' | Some s \<Rightarrow> s),
                ext_end = (case as_str (arr ! 1) of None \<Rightarrow> ''..'' | Some s \<Rightarrow> s)\<rparr>)"

text \<open>\<open>NodeRef\<close> is a name; \<open>ArgValue\<close> is a link or a literal.\<close>

datatype node_ref = NodeRef string

definition noderef_try_parse :: "json \<Rightarrow> node_ref option" where
  "noderef_try_parse v =
     Option.bind (as_object v) (\<lambda>obj. Option.bind (map_of obj ''from_node'') (\<lambda>t.
       Option.bind (as_str t) (\<lambda>s. Some (NodeRef s))))"

datatype arg_value = ArgRef node_ref | ArgLiteral json

definition argvalue_parse :: "json \<Rightarrow> arg_value" where
  "argvalue_parse v = (case noderef_try_parse v of Some r \<Rightarrow> ArgRef r | None \<Rightarrow> ArgLiteral v)"

section \<open>Typed nodes\<close>

datatype process_node =
    LoadCollection string "bbox option" "temporal_extent option" "string list option"
  | FilterBbox arg_value bbox
  | FilterTemporal arg_value temporal_extent
  | FilterSpatial arg_value json
  | Ndvi arg_value
  | Mask arg_value arg_value "arg_value option"
  | ReduceDimension arg_value process_graph_ir string
  | Apply arg_value process_graph_ir
  | ResampleSpatial arg_value "32 word" "f64 option"
  | MergeCubes arg_value arg_value
  | SaveResult arg_value string
  | Add arg_value arg_value
  | Subtract arg_value arg_value
  | Multiply arg_value arg_value
  | Divide arg_value arg_value
and process_graph_ir = ProcessGraphIr (ir_nodes: "(string \<times> process_node) list") (ir_result_id: "string option")

fun has_subgraph :: "process_node \<Rightarrow> bool" where
  "has_subgraph (ReduceDimension d r n) = True"
| "has_subgraph (Apply d p) = True"
| "has_subgraph _ = False"

fun node_process_id :: "process_node \<Rightarrow> string" where
  "node_process_id (LoadCollection i s t b) = ''load_collection''"
| "node_process_id (FilterBbox d e) = ''filter_bbox''"
| "node_process_id (FilterTemporal d e) = ''filter_temporal''"
| "node_process_id (FilterSpatial d g) = ''filter_spatial''"
| "node_process_id (Ndvi d) = ''ndvi''"
| "node_process_id (Mask d m r) = ''mask''"
| "node_process_id (ReduceDimension d r n) = ''reduce_dimension''"
| "node_process_id (Apply d p) = ''apply''"
| "node_process_id (ResampleSpatial d p r) = ''resample_spatial''"
| "node_process_id (MergeCubes a b) = ''merge_cubes''"
| "node_process_id (SaveResult d f) = ''save_result''"
| "node_process_id (Add x y) = ''add''"
| "node_process_id (Subtract x y) = ''subtract''"
| "node_process_id (Multiply x y) = ''multiply''"
| "node_process_id (Divide x y) = ''divide''"

section \<open>Argument access\<close>

type_synonym args = "(string, json) btree"

definition arg_of :: "args \<Rightarrow> string \<Rightarrow> (ir_error, arg_value) result" where
  "arg_of as key = ok_or (MissingArgument ''<unknown>'' key) (map_option argvalue_parse (bt_get as key))"

definition data_arg :: "args \<Rightarrow> (ir_error, arg_value) result" where
  "data_arg as = arg_of as ''data''"

definition req_arg :: "string \<Rightarrow> args \<Rightarrow> string \<Rightarrow> (ir_error, json) result" where
  "req_arg proc as key = ok_or (MissingArgument proc key) (bt_get as key)"

definition str_arg :: "string \<Rightarrow> args \<Rightarrow> string \<Rightarrow> (ir_error, string) result" where
  "str_arg proc as key =
     and_then (req_arg proc as key) (\<lambda>v. ok_or (BadArgument proc key ''expected string'') (as_str v))"

text \<open>\<open>args.get(k).map(f).transpose()?\<close> and \<open>Result::or_else\<close>.\<close>

definition opt_arg :: "(json \<Rightarrow> (ir_error, 'a) result) \<Rightarrow> args \<Rightarrow> string \<Rightarrow> (ir_error, 'a option) result" where
  "opt_arg f as key =
     (case bt_get as key of None \<Rightarrow> Ok None | Some v \<Rightarrow> and_then (f v) (\<lambda>a. Ok (Some a)))"

definition or_else :: "('e, 'a) result \<Rightarrow> ('e, 'a) result \<Rightarrow> ('e, 'a) result" where
  "or_else r r' = (case r of Inl _ \<Rightarrow> r' | Inr a \<Rightarrow> Inr a)"

definition two_args :: "(arg_value \<Rightarrow> arg_value \<Rightarrow> process_node) \<Rightarrow> args \<Rightarrow> (ir_error, process_node) result" where
  "two_args c as = and_then (arg_of as ''x'') (\<lambda>x. and_then (arg_of as ''y'') (\<lambda>y. Ok (c x y)))"

text \<open>A callback is \<open>{"process_graph": ...}\<close> or the node map itself.\<close>

definition callback_graph :: "json \<Rightarrow> json" where
  "callback_graph v = (case json_get v ''process_graph'' of Some g \<Rightarrow> g | None \<Rightarrow> v)"

section \<open>The recursion goes down the argument values\<close>

fun json_height :: "json \<Rightarrow> nat" where
  "json_height (JArray xs) = Suc (fold max (map json_height xs) 0)"
| "json_height (JObject kvs) = Suc (fold max (map (\<lambda>kv. json_height (snd kv)) kvs) 0)"
| "json_height _ = 0"

definition args_height :: "args \<Rightarrow> nat" where
  "args_height as = fold max (map (\<lambda>kv. json_height (snd kv)) as) 0"

definition nodes_height :: "(string, process) btree \<Rightarrow> nat" where
  "nodes_height ns = fold max (map (\<lambda>ip. args_height (arguments (snd ip))) ns) 0"

lemma fold_max_le_iff: "fold max (map f xs) a \<le> (n :: nat) \<longleftrightarrow> a \<le> n \<and> (\<forall>x \<in> set xs. f x \<le> n)"
  by (induction xs arbitrary: a) auto

lemma fold_max_init: "fold max (map f xs) a = max (a :: nat) (fold max (map f xs) 0)"
proof (induction xs arbitrary: a)
  case (Cons x xs)
  show ?case using Cons [of "max (f x) a"] Cons [of "f x"] by (simp add: max.assoc max.commute max.left_commute)
qed simp

lemma fold_max_less_Suc: "fold max (map f xs) 0 < Suc n \<longleftrightarrow> (\<forall>x \<in> set xs. f x \<le> (n :: nat))"
  using fold_max_le_iff [of f xs 0 n] by (simp add: less_Suc_eq_le)

lemma args_height_le_iff: "args_height as \<le> n \<longleftrightarrow> (\<forall>kv \<in> set as. json_height (snd kv) \<le> n)"
  by (simp add: args_height_def fold_max_le_iff)

lemma object_height: "json_height (JObject kvs) = Suc (args_height kvs)"
  by (simp add: args_height_def)

lemma array_member_height: "x \<in> set xs \<Longrightarrow> json_height x < json_height (JArray xs)"
  using fold_max_le_iff [of json_height xs 0 "fold max (map json_height xs) 0"] by auto

lemma args_member_height: "(k, v) \<in> set as \<Longrightarrow> json_height v \<le> args_height as"
  using args_height_le_iff [of as "args_height as"] by auto

lemma object_member_height: "(k, v) \<in> set kvs \<Longrightarrow> json_height v < json_height (JObject kvs)"
  by (simp only: object_height less_Suc_eq_le args_member_height)

lemma decode_arguments_height: "decode_arguments v = Ok as \<Longrightarrow> args_height as \<le> json_height v"
proof (cases v)
  case (JObject kvs)
  assume "decode_arguments v = Ok as"
  then have "set as \<subseteq> set kvs" using JObject fold_bt_insert_subset [of kvs "[]"] by simp
  then have "\<forall>kv \<in> set as. json_height (snd kv) \<le> args_height kvs"
    using args_height_le_iff [of kvs "args_height kvs"] by blast
  then show ?thesis by (simp only: args_height_le_iff [symmetric] JObject object_height le_SucI)
qed simp_all

lemma visit_process_map_height:
  "visit_process_map kvs pid args res = Ok p \<Longrightarrow> (\<forall>a. args = Some a \<longrightarrow> args_height a \<le> n) \<Longrightarrow>
    (\<forall>kv \<in> set kvs. json_height (snd kv) \<le> n) \<Longrightarrow> args_height (arguments p) \<le> n"
proof (induction kvs pid args res rule: visit_process_map.induct)
  case (1 pid args res)
  then show ?case by (auto simp: args_height_def split: option.splits)
next
  case (2 k v rest pid args res)
  show ?case
  proof (cases "k = ''arguments''")
    case True
    then obtain a where a: "decode_arguments v = Ok a" "visit_process_map rest pid (Some a) res = Ok p" "args = None"
      using 2(5) by (auto simp: and_then_Inr_iff split: if_splits)
    have "json_height v \<le> n" using 2(7) by simp
    then have "args_height a \<le> n" using decode_arguments_height [OF a(1)] by linarith
    then show ?thesis using 2(2) [of a] True a 2(7) by simp
  next
    case False
    then show ?thesis using 2 by (auto simp: and_then_Inr_iff split: if_splits)
  qed
qed

lemma decode_process_height:
  assumes "decode_process v = Ok p"
  shows "args_height (arguments p) \<le> json_height v"
proof (cases v)
  case (JObject kvs)
  then show ?thesis
    using assms visit_process_map_height [of kvs None None None p "json_height v"] object_member_height
    by (fastforce intro: less_imp_le)
next
  case (JArray xs)
  then have "arguments p = [] \<or> (\<exists>a \<in> set xs. decode_arguments a = Ok (arguments p))"
    using assms by (cases xs rule: visit_process_seq.cases) (auto simp: and_then_Inr_iff split: if_splits)
  then show ?thesis
  proof
    assume "arguments p = []"
    then show ?thesis by (simp add: args_height_def)
  next
    assume "\<exists>a \<in> set xs. decode_arguments a = Ok (arguments p)"
    then obtain a where "a \<in> set xs" "args_height (arguments p) \<le> json_height a" using decode_arguments_height by blast
    then show ?thesis unfolding JArray using array_member_height by (meson le_trans less_imp_le)
  qed
qed (use assms in simp_all)

lemma decode_nodes_height:
  assumes "decode_nodes v = Ok ns"
  shows "nodes_height ns < json_height v"
proof -
  obtain kvs kps where v: "v = JObject kvs" "ns = fold (\<lambda>(k, p). bt_insert k p) kps []"
    and kps: "traverse (\<lambda>(k, x). and_then (decode_process x) (\<lambda>p. Ok (k, p))) kvs = Ok kps"
    using assms by (auto simp: decode_nodes_def and_then_Inr_iff split: json.splits)
  have "args_height (arguments (snd ip)) \<le> args_height kvs" if ip: "ip \<in> set kps" for ip
  proof -
    have all: "list_all2 (\<lambda>kx y. (case kx of (k, x) \<Rightarrow> and_then (decode_process x) (\<lambda>p. Ok (k, p))) = Ok y) kvs kps"
      using kps by (simp only: traverse_Inr_iff)
    then have "length kvs = length kps" by (rule list_all2_lengthD)
    then obtain j where j: "j < length kvs" "ip = kps ! j" using ip by (auto simp: in_set_conv_nth)
    obtain k x where kx: "kvs ! j = (k, x)" by (cases "kvs ! j")
    have "decode_process x = Ok (snd ip)"
      using list_all2_nthD [OF all j(1)] j(2) kx by (auto simp: and_then_Inr_iff dest: sym)
    moreover have "(k, x) \<in> set kvs" using nth_mem [OF j(1)] kx by simp
    ultimately show ?thesis using decode_process_height args_member_height le_trans by blast
  qed
  then have "\<forall>ip \<in> set ns. args_height (arguments (snd ip)) \<le> args_height kvs"
    using v(2) fold_bt_insert_subset [of kps "[]"] by auto
  then show ?thesis unfolding v(1) object_height nodes_height_def fold_max_less_Suc .
qed

lemma callback_graph_height: "json_height (callback_graph v) \<le> json_height v"
  by (auto simp: callback_graph_def json_get_def split: option.splits json.splits
      dest!: map_of_SomeD intro: object_member_height less_imp_le simp del: json_height.simps)

lemma bt_get_height: "bt_get as k = Some v \<Longrightarrow> json_height v \<le> args_height as"
  by (auto simp: bt_get_def dest!: map_of_SomeD intro: args_member_height)

lemma nodes_height_Cons: "nodes_height ((i, p) # ns) = max (args_height (arguments p)) (nodes_height ns)"
  using fold_max_init [of _ ns "args_height (arguments p)"] by (simp add: nodes_height_def)

section \<open>The lift\<close>

function (sequential) node_parse :: "(serde_error \<Rightarrow> string) \<Rightarrow> process \<Rightarrow> (ir_error, process_node) result"
  and subgraph :: "(serde_error \<Rightarrow> string) \<Rightarrow> string \<Rightarrow> args \<Rightarrow> string \<Rightarrow> (ir_error, process_graph_ir) result"
  and from_nodes_loop :: "(serde_error \<Rightarrow> string) \<Rightarrow> (string, process) btree \<Rightarrow> (string, process_node) btree \<Rightarrow> string option
    \<Rightarrow> (ir_error, process_graph_ir) result"
where
  "node_parse show_e p =
     (let pid = process_id p; as = arguments p in
      if pid = ''load_collection'' then
        and_then (str_arg pid as ''id'') (\<lambda>i.
        and_then (opt_arg bbox_parse as ''spatial_extent'') (\<lambda>s.
        and_then (opt_arg extent_parse as ''temporal_extent'') (\<lambda>t.
          Ok (LoadCollection i s t
            (map_option (List.map_filter as_str) (Option.bind (bt_get as ''bands'') as_array))))))
      else if pid = ''filter_bbox'' then
        and_then (data_arg as) (\<lambda>d. and_then (req_arg pid as ''extent'') (\<lambda>v.
        and_then (bbox_parse v) (\<lambda>e. Ok (FilterBbox d e))))
      else if pid = ''filter_temporal'' then
        and_then (data_arg as) (\<lambda>d. and_then (req_arg pid as ''extent'') (\<lambda>v.
        and_then (extent_parse v) (\<lambda>e. Ok (FilterTemporal d e))))
      else if pid = ''filter_spatial'' then
        and_then (data_arg as) (\<lambda>d. and_then (req_arg pid as ''geometries'') (\<lambda>g. Ok (FilterSpatial d g)))
      else if pid = ''ndvi'' then and_then (data_arg as) (\<lambda>d. Ok (Ndvi d))
      else if pid = ''mask'' then
        and_then (data_arg as) (\<lambda>d. and_then (arg_of as ''mask'') (\<lambda>m.
          Ok (Mask d m (map_option argvalue_parse (bt_get as ''replacement'')))))
      else if pid = ''reduce_dimension'' then
        and_then (data_arg as) (\<lambda>d. and_then (subgraph show_e pid as ''reducer'') (\<lambda>r.
        and_then (str_arg pid as ''dimension'') (\<lambda>n. Ok (ReduceDimension d r n))))
      else if pid = ''apply'' then
        and_then (data_arg as) (\<lambda>d. and_then (subgraph show_e pid as ''process'') (\<lambda>r. Ok (Apply d r)))
      else if pid = ''resample_spatial'' then
        and_then (data_arg as) (\<lambda>d. and_then (req_arg pid as ''projection'') (\<lambda>v.
        and_then (ok_or (BadArgument pid ''projection'' ''expected u64 (EPSG)'') (as_u64 v)) (\<lambda>n.
          Ok (ResampleSpatial d (of_nat n) (Option.bind (bt_get as ''resolution'') as_f64)))))
      else if pid = ''merge_cubes'' then
        and_then (or_else (arg_of as ''cube1'') (arg_of as ''data1'')) (\<lambda>a.
        and_then (or_else (arg_of as ''cube2'') (arg_of as ''data2'')) (\<lambda>b. Ok (MergeCubes a b)))
      else if pid = ''save_result'' then
        and_then (data_arg as) (\<lambda>d.
          Ok (SaveResult d (case Option.bind (bt_get as ''format'') as_str of None \<Rightarrow> ''GTiff'' | Some f \<Rightarrow> f)))
      else if pid = ''add'' then two_args Add as
      else if pid = ''subtract'' then two_args Subtract as
      else if pid = ''multiply'' then two_args Multiply as
      else if pid = ''divide'' then two_args Divide as
      else Err (UnsupportedProcess pid))"
| "subgraph show_e proc as key =
     and_then (req_arg proc as key) (\<lambda>v.
     and_then (map_err (\<lambda>e. BadArgument proc key (''not a valid process_graph: '' @ show_e e))
         (decode_nodes (callback_graph v))) (\<lambda>nodes.
       from_nodes_loop show_e nodes [] None))"
| "from_nodes_loop show_e [] out r = Ok (ProcessGraphIr out r)"
| "from_nodes_loop show_e ((i, p) # rest) out r =
     (let r' = (if result_flag p = Some True \<and> r = None then Some i else r) in
      and_then (node_parse show_e p) (\<lambda>n. from_nodes_loop show_e rest (bt_insert i n out) r'))"
  by pat_completeness auto
termination
proof (relation "measures [\<lambda>x. case x of Inl (_, p) \<Rightarrow> args_height (arguments p) | Inr (Inl (_, _, as, _)) \<Rightarrow> args_height as
      | Inr (Inr (_, ns, _, _)) \<Rightarrow> nodes_height ns,
    \<lambda>x. case x of Inl _ \<Rightarrow> Suc 0 | Inr (Inl _) \<Rightarrow> 0 | Inr (Inr (_, ns, _, _)) \<Rightarrow> Suc (Suc (length ns))]", goal_cases)
  case (4 show_e proc as key v ns)
  then have "json_height v \<le> args_height as" by (simp add: req_arg_def bt_get_height)
  moreover have "nodes_height ns < json_height (callback_graph v)" using 4 by (simp add: decode_nodes_height)
  ultimately show ?case using callback_graph_height [of v] by simp
qed (auto simp: nodes_height_Cons)

definition from_nodes :: "(serde_error \<Rightarrow> string) \<Rightarrow> (string, process) btree \<Rightarrow> (ir_error, process_graph_ir) result" where
  "from_nodes show_e nodes = from_nodes_loop show_e nodes [] None"

definition from_graph :: "(serde_error \<Rightarrow> string) \<Rightarrow> process_graph \<Rightarrow> (ir_error, process_graph_ir) result" where
  "from_graph show_e g = from_nodes show_e (pg_nodes g)"

section \<open>The type system\<close>

text \<open>
  A parameter has the names it may be given under, in order of preference, its type, and whether
  it is required. A process takes the parameters of its signature; other arguments are ignored.
\<close>

datatype arg_type = TAny | TString | TBBox | TExtent | TU64 | TCallback

type_synonym param = "string list \<times> arg_type \<times> bool"

definition signatures :: "(string \<times> param list) list" where
  "signatures =
    [(''load_collection'', [([''id''], TString, True), ([''spatial_extent''], TBBox, False), ([''temporal_extent''], TExtent, False)]),
     (''filter_bbox'', [([''data''], TAny, True), ([''extent''], TBBox, True)]),
     (''filter_temporal'', [([''data''], TAny, True), ([''extent''], TExtent, True)]),
     (''filter_spatial'', [([''data''], TAny, True), ([''geometries''], TAny, True)]),
     (''ndvi'', [([''data''], TAny, True)]),
     (''mask'', [([''data''], TAny, True), ([''mask''], TAny, True), ([''replacement''], TAny, False)]),
     (''reduce_dimension'', [([''data''], TAny, True), ([''reducer''], TCallback, True), ([''dimension''], TString, True)]),
     (''apply'', [([''data''], TAny, True), ([''process''], TCallback, True)]),
     (''resample_spatial'', [([''data''], TAny, True), ([''projection''], TU64, True)]),
     (''merge_cubes'', [([''cube1'', ''data1''], TAny, True), ([''cube2'', ''data2''], TAny, True)]),
     (''save_result'', [([''data''], TAny, True)]),
     (''add'', [([''x''], TAny, True), ([''y''], TAny, True)]),
     (''subtract'', [([''x''], TAny, True), ([''y''], TAny, True)]),
     (''multiply'', [([''x''], TAny, True), ([''y''], TAny, True)]),
     (''divide'', [([''x''], TAny, True), ([''y''], TAny, True)])]"

fun first_present :: "args \<Rightarrow> string list \<Rightarrow> json option" where
  "first_present as [] = None"
| "first_present as (k # ks) = (case bt_get as k of None \<Rightarrow> first_present as ks | Some v \<Rightarrow> Some v)"

inductive has_type :: "json \<Rightarrow> arg_type \<Rightarrow> bool"
  and param_ok :: "args \<Rightarrow> param \<Rightarrow> bool"
  and well_typed :: "process \<Rightarrow> bool"
where
  any: "has_type v TAny"
| str: "has_type (JString s) TString"
| box: "\<forall>k \<in> {''west'', ''south'', ''east'', ''north''}. \<exists>n. json_get v k = Some (JNumber n) \<Longrightarrow> has_type v TBBox"
| ext: "has_type (JArray [a, b]) TExtent"
| u64: "has_type (JNumber (PosInt n)) TU64"
| cbk: "decode_nodes (callback_graph v) = Ok nodes \<Longrightarrow> (\<forall>ip \<in> set nodes. well_typed (snd ip)) \<Longrightarrow> has_type v TCallback"
| absent: "first_present as ks = None \<Longrightarrow> param_ok as (ks, t, False)"
| present: "first_present as ks = Some v \<Longrightarrow> has_type v t \<Longrightarrow> param_ok as (ks, t, req)"
| process: "map_of signatures (process_id p) = Some sig \<Longrightarrow> (\<forall>prm \<in> set sig. param_ok (arguments p) prm) \<Longrightarrow> well_typed p"

inductive_simps has_type_any [simp]: "has_type v TAny"
inductive_simps has_type_string: "has_type v TString"
inductive_simps has_type_box: "has_type v TBBox"
inductive_simps has_type_extent: "has_type v TExtent"
inductive_simps has_type_u64: "has_type v TU64"
inductive_simps has_type_callback: "has_type v TCallback"
inductive_simps param_ok_iff: "param_ok as (ks, t, req)"
inductive_simps well_typed_iff: "well_typed p"

section \<open>The links of a typed node\<close>

fun arg_links :: "arg_value \<Rightarrow> string list" where
  "arg_links (ArgRef (NodeRef t)) = [t]"
| "arg_links (ArgLiteral v) = []"

definition opt_links :: "arg_value option \<Rightarrow> string list" where
  "opt_links r = (case r of None \<Rightarrow> [] | Some a \<Rightarrow> arg_links a)"

fun node_links :: "process_node \<Rightarrow> string list" where
  "node_links (LoadCollection i s t b) = []"
| "node_links (FilterBbox d e) = arg_links d"
| "node_links (FilterTemporal d e) = arg_links d"
| "node_links (FilterSpatial d g) = arg_links d"
| "node_links (Ndvi d) = arg_links d"
| "node_links (Mask d m r) = arg_links d @ arg_links m @ opt_links r"
| "node_links (ReduceDimension d r n) = arg_links d"
| "node_links (Apply d p) = arg_links d"
| "node_links (ResampleSpatial d p r) = arg_links d"
| "node_links (MergeCubes a b) = arg_links a @ arg_links b"
| "node_links (SaveResult d f) = arg_links d"
| "node_links (Add x y) = arg_links x @ arg_links y"
| "node_links (Subtract x y) = arg_links x @ arg_links y"
| "node_links (Multiply x y) = arg_links x @ arg_links y"
| "node_links (Divide x y) = arg_links x @ arg_links y"

lemma argvalue_links: "set (arg_links (argvalue_parse v)) \<subseteq> set (refs v)"
  by (cases v) (auto simp: argvalue_parse_def noderef_try_parse_def split: option.splits bind_splits json.splits)

section \<open>Each parser accepts its type\<close>

named_theorems accepts \<open>which values and arguments a parser accepts\<close>

lemma ok_or_accepts [accepts]: "(\<exists>a. ok_or e x = Ok a) \<longleftrightarrow> x \<noteq> None"
  by auto

lemma and_then_accepts: "(\<exists>b. and_then r f = Ok b) \<longleftrightarrow> (\<exists>a. r = Ok a \<and> (\<exists>b. f a = Ok b))"
  by (auto simp: and_then_Inr_iff)

lemma as_f64_accepts: "as_f64 v \<noteq> None \<longleftrightarrow> (\<exists>n. v = JNumber n)"
  by (cases v rule: as_f64.cases) auto

lemma num_field_accepts: "(\<exists>x. num_field v k = Ok x) \<longleftrightarrow> (\<exists>n. json_get v k = Some (JNumber n))"
proof -
  have "(\<exists>x. num_field v k = Ok x) \<longleftrightarrow> (\<exists>y. json_get v k = Some y \<and> as_f64 y \<noteq> None)"
    by (simp add: num_field_def bind_eq_Some_conv) blast
  then show ?thesis unfolding as_f64_accepts by blast
qed

lemma bbox_parse_accepts [accepts]: "(\<exists>b. bbox_parse v = Ok b) \<longleftrightarrow> has_type v TBBox"
  by (simp add: bbox_parse_def and_then_accepts num_field_accepts [symmetric] has_type_box)

lemma extent_parse_accepts [accepts]: "(\<exists>b. extent_parse v = Ok b) \<longleftrightarrow> has_type v TExtent"
proof -
  have "(\<exists>b. extent_parse v = Ok b) \<longleftrightarrow> (\<exists>arr. as_array v = Some arr \<and> length arr = 2)"
    by (auto simp: extent_parse_def and_then_Inr_iff)
  also have "\<dots> \<longleftrightarrow> has_type v TExtent"
    by (cases v) (auto simp: has_type_extent numeral_2_eq_2 length_Suc_conv)
  finally show ?thesis .
qed

lemma arg_of_accepts [accepts]: "(\<exists>a. arg_of as k = Ok a) \<longleftrightarrow> param_ok as ([k], TAny, True)"
  by (auto simp: arg_of_def param_ok_iff split: option.splits)

lemma data_arg_accepts [accepts]: "(\<exists>a. data_arg as = Ok a) \<longleftrightarrow> param_ok as ([''data''], TAny, True)"
  unfolding data_arg_def by (rule arg_of_accepts)

lemma req_arg_accepts [accepts]:
  "(\<exists>v. req_arg proc as k = Ok v \<and> Q v) \<longleftrightarrow> (\<exists>v. bt_get as k = Some v \<and> Q v)"
  by (auto simp: req_arg_def)

lemma required_iff: "param_ok as ([k], t, True) \<longleftrightarrow> (\<exists>v. bt_get as k = Some v \<and> has_type v t)"
  by (auto simp: param_ok_iff split: option.splits)

lemma optional_iff: "param_ok as ([k], t, False) \<longleftrightarrow> (\<forall>v. bt_get as k = Some v \<longrightarrow> has_type v t)"
  by (auto simp: param_ok_iff split: option.splits)

lemma str_arg_accepts [accepts]: "(\<exists>s. str_arg proc as k = Ok s) \<longleftrightarrow> param_ok as ([k], TString, True)"
proof -
  have "as_str v \<noteq> None \<longleftrightarrow> has_type v TString" for v by (cases v) (auto simp: has_type_string)
  then show ?thesis by (auto simp: str_arg_def and_then_Inr_iff required_iff req_arg_def)
qed

lemma opt_arg_accepts [accepts]:
  "(\<exists>x. opt_arg f as k = Ok x) \<longleftrightarrow> (\<forall>v. bt_get as k = Some v \<longrightarrow> (\<exists>x. f v = Ok x))"
  by (auto simp: opt_arg_def and_then_Inr_iff split: option.splits)

lemma or_else_accepts [accepts]:
  "(\<exists>x. or_else (arg_of as k) (arg_of as k') = Ok x) \<longleftrightarrow> param_ok as ([k, k'], TAny, True)"
  by (auto simp: or_else_def arg_of_def param_ok_iff ok_or_def split: option.splits)

lemma two_args_accepts [accepts]:
  "(\<exists>n. two_args c as = Ok n) \<longleftrightarrow> param_ok as ([''x''], TAny, True) \<and> param_ok as ([''y''], TAny, True)"
  by (simp add: two_args_def and_then_accepts arg_of_accepts [symmetric])

lemma any_param_optional: "param_ok as ([k], TAny, False)"
  by (simp add: optional_iff)

lemma u64_accepts: "as_u64 v \<noteq> None \<longleftrightarrow> has_type v TU64"
  by (cases v rule: as_u64.cases) (auto simp: has_type_u64)

section \<open>The lift accepts exactly the well-typed processes\<close>

text \<open>The signature of each process, looked up once.\<close>

lemma signature_lookup:
  "map_of signatures pid =
    (if pid = ''load_collection'' then Some [([''id''], TString, True), ([''spatial_extent''], TBBox, False), ([''temporal_extent''], TExtent, False)]
     else if pid = ''filter_bbox'' then Some [([''data''], TAny, True), ([''extent''], TBBox, True)]
     else if pid = ''filter_temporal'' then Some [([''data''], TAny, True), ([''extent''], TExtent, True)]
     else if pid = ''filter_spatial'' then Some [([''data''], TAny, True), ([''geometries''], TAny, True)]
     else if pid = ''ndvi'' then Some [([''data''], TAny, True)]
     else if pid = ''mask'' then Some [([''data''], TAny, True), ([''mask''], TAny, True), ([''replacement''], TAny, False)]
     else if pid = ''reduce_dimension'' then Some [([''data''], TAny, True), ([''reducer''], TCallback, True), ([''dimension''], TString, True)]
     else if pid = ''apply'' then Some [([''data''], TAny, True), ([''process''], TCallback, True)]
     else if pid = ''resample_spatial'' then Some [([''data''], TAny, True), ([''projection''], TU64, True)]
     else if pid = ''merge_cubes'' then Some [([''cube1'', ''data1''], TAny, True), ([''cube2'', ''data2''], TAny, True)]
     else if pid = ''save_result'' then Some [([''data''], TAny, True)]
     else if pid = ''add'' \<or> pid = ''subtract'' \<or> pid = ''multiply'' \<or> pid = ''divide''
       then Some [([''x''], TAny, True), ([''y''], TAny, True)]
     else None)"
  unfolding signatures_def map_of.simps map_of_Cons_code fst_conv snd_conv by (simp only: fun_upd_apply if_distrib eq_commute simp_thms) auto

lemma subgraph_accepts:
  "(\<And>v nodes. bt_get as k = Some v \<Longrightarrow> decode_nodes (callback_graph v) = Ok nodes \<Longrightarrow>
      (\<exists>g. from_nodes_loop show_e nodes [] None = Ok g) \<longleftrightarrow> (\<forall>ip \<in> set nodes. well_typed (snd ip))) \<Longrightarrow>
   (\<exists>g. subgraph show_e proc as k = Ok g) \<longleftrightarrow> param_ok as ([k], TCallback, True)"
  by (simp add: and_then_accepts req_arg_accepts required_iff has_type_callback) blast

lemma node_parse_accepts:
  assumes "\<And>d. process_id p = ''reduce_dimension'' \<Longrightarrow> data_arg (arguments p) = Ok d \<Longrightarrow>
      (\<exists>g. subgraph show_e ''reduce_dimension'' (arguments p) ''reducer'' = Ok g) \<longleftrightarrow> param_ok (arguments p) ([''reducer''], TCallback, True)"
    and "\<And>d. process_id p = ''apply'' \<Longrightarrow> data_arg (arguments p) = Ok d \<Longrightarrow>
      (\<exists>g. subgraph show_e ''apply'' (arguments p) ''process'' = Ok g) \<longleftrightarrow> param_ok (arguments p) ([''process''], TCallback, True)"
  shows "(\<exists>n. node_parse show_e p = Ok n) \<longleftrightarrow> well_typed p"
proof -
  note accepted = and_then_accepts arg_of_accepts data_arg_accepts str_arg_accepts opt_arg_accepts bbox_parse_accepts
    extent_parse_accepts or_else_accepts two_args_accepts req_arg_accepts req_arg_accepts [where Q = "\<lambda>_. True", simplified]
    u64_accepts [simplified] required_iff optional_iff ok_or_accepts
  show ?thesis
  proof (cases "data_arg (arguments p)")
    case (Inl e)
    then have "\<not> (\<exists>a. data_arg (arguments p) = Ok a)" by simp
    then have "bt_get (arguments p) ''data'' = None" unfolding data_arg_accepts required_iff by simp
    then show ?thesis unfolding node_parse.simps Let_def well_typed_iff signature_lookup
      by (simp add: accepted del: subgraph.simps)
  next
    case (Inr d)
    show ?thesis unfolding node_parse.simps Let_def well_typed_iff signature_lookup
      by (simp add: accepted assms [OF _ Inr] del: subgraph.simps)
  qed
qed

lemma lift_accepts:
  shows "(\<exists>n. node_parse show_e p = Ok n) \<longleftrightarrow> well_typed p"
    and "(\<exists>g. subgraph show_e proc as k = Ok g) \<longleftrightarrow> param_ok as ([k], TCallback, True)"
    and "(\<exists>g. from_nodes_loop show_e nodes out r = Ok g) \<longleftrightarrow> (\<forall>ip \<in> set nodes. well_typed (snd ip))"
proof (induction show_e p and show_e proc as k and show_e nodes out r rule: node_parse_subgraph_from_nodes_loop.induct)
  case (1 show_e p)
  then show ?case by (intro node_parse_accepts) (simp_all del: subgraph.simps)
next
  case (2 show_e proc as key)
  then show ?case by (intro subgraph_accepts) (simp add: req_arg_def)
next
  case (3 show_e out r)
  then show ?case by simp
next
  case (4 show_e i p rest out r)
  let ?r = "if result_flag p = Some True \<and> r = None then Some i else r"
  have "(\<exists>g. from_nodes_loop show_e ((i, p) # rest) out r = Ok g) \<longleftrightarrow>
      (\<exists>n. node_parse show_e p = Ok n \<and> (\<exists>g. from_nodes_loop show_e rest (bt_insert i n out) ?r = Ok g))"
    by (simp only: from_nodes_loop.simps Let_def and_then_accepts)
  also have "\<dots> \<longleftrightarrow> (\<exists>n. node_parse show_e p = Ok n \<and> (\<forall>ip \<in> set rest. well_typed (snd ip)))"
    using 4(2) [OF refl] by (simp del: node_parse.simps cong: conj_cong)
  also have "\<dots> \<longleftrightarrow> (\<forall>ip \<in> set ((i, p) # rest). well_typed (snd ip))" using 4(1) [OF refl] by simp
  finally show ?case .
qed

section \<open>What the lift returns\<close>

lemma arg_refs_node: "bt_get (arguments p) k = Some v \<Longrightarrow> set (refs v) \<subseteq> set (node_refs p)"
  by (auto simp: bt_get_def node_refs_def dest!: map_of_SomeD intro!: bexI [where x = "(k, v)"])

lemma arg_links_node: "bt_get (arguments p) k = Some v \<Longrightarrow> set (arg_links (argvalue_parse v)) \<subseteq> set (node_refs p)"
  using argvalue_links [of v] arg_refs_node [of p k v] by simp

lemma arg_of_links: "arg_of (arguments p) k = Ok a \<Longrightarrow> set (arg_links a) \<subseteq> set (node_refs p)"
  using arg_links_node by (auto simp: arg_of_def)

lemma data_arg_links: "data_arg (arguments p) = Ok a \<Longrightarrow> set (arg_links a) \<subseteq> set (node_refs p)"
  unfolding data_arg_def by (rule arg_of_links)

lemma or_else_links: "or_else (arg_of (arguments p) k) (arg_of (arguments p) k') = Ok a \<Longrightarrow> set (arg_links a) \<subseteq> set (node_refs p)"
  by (auto simp: or_else_def dest: arg_of_links split: sum.splits)

lemma replacement_links:
  "set (opt_links (map_option argvalue_parse (bt_get (arguments p) k))) \<subseteq> set (node_refs p)"
  using arg_links_node [of p k] unfolding opt_links_def by (cases "bt_get (arguments p) k") simp_all

lemmas link_subsets = arg_of_links data_arg_links or_else_links

lemma if_Ok_cases:
  assumes "(if c then x else y) = Ok n" and "c \<Longrightarrow> x = Ok n \<Longrightarrow> P" and "y = Ok n \<Longrightarrow> P"
  shows P
  using assms by (cases c) simp_all

lemma node_parse_shape:
  assumes "node_parse show_e p = Ok n"
  shows "node_process_id n = process_id p \<and> (has_subgraph n \<longleftrightarrow> process_id p \<in> {''reduce_dimension'', ''apply''}) \<and>
    set (node_links n) \<subseteq> set (node_refs p)"
  using assms unfolding node_parse.simps Let_def
  by (elim if_Ok_cases) (auto simp: and_then_Inr_iff two_args_def simp del: subgraph.simps dest!: link_subsets dest: subsetD [OF replacement_links])

lemma from_nodes_loop_result:
  assumes "from_nodes_loop show_e nodes out r = Ok ir" and "sorted_wrt (<) (map fst out @ map fst nodes)"
  shows "\<exists>ns. ir = ProcessGraphIr (out @ ns)
      (case r of Some i \<Rightarrow> Some i | None \<Rightarrow> map_option fst (find (\<lambda>ip. result_flag (snd ip) = Some True) nodes)) \<and>
    list_all2 (\<lambda>(i, p) (j, n). i = j \<and> node_parse show_e p = Ok n) nodes ns"
  using assms
proof (induction nodes arbitrary: out r)
  case Nil
  then show ?case by (auto split: option.splits)
next
  case (Cons ip nodes)
  obtain i p where [simp]: "ip = (i, p)" by (cases ip)
  let ?r = "if result_flag p = Some True \<and> r = None then Some i else r"
  obtain n where n: "node_parse show_e p = Ok n" "from_nodes_loop show_e nodes (bt_insert i n out) ?r = Ok ir"
    using Cons.prems(1) by (auto simp: Let_def and_then_Inr_iff simp del: node_parse.simps)
  have app: "bt_insert i n out = out @ [(i, n)]"
    by (rule bt_insert_append) (use Cons.prems(2) in \<open>simp add: sorted_wrt_append\<close>)
  obtain ns where "ir = ProcessGraphIr ((out @ [(i, n)]) @ ns)
      (case ?r of Some i \<Rightarrow> Some i | None \<Rightarrow> map_option fst (find (\<lambda>ip. result_flag (snd ip) = Some True) nodes))"
    and "list_all2 (\<lambda>(i, p) (j, n). i = j \<and> node_parse show_e p = Ok n) nodes ns"
    using Cons.IH [of "out @ [(i, n)]" ?r] n(2) Cons.prems(2) app by auto
  then show ?case using n(1) by (intro exI [of _ "(i, n) # ns"]) (auto split: option.splits simp del: node_parse.simps)
qed

text \<open>
  C40. The typed representation is a type check: over graphs with distinct, sorted node ids,
  \<open>ProcessGraphIr::from_graph\<close> succeeds exactly when every node is well typed, callbacks included,
  that is when its process has a signature and every parameter of it is present as required and of
  its type. The typed graph then has the same node ids in the same order, each node the constructor
  of its process id, a sub-graph exactly for \<open>reduce_dimension\<close> and \<open>apply\<close>, and links only to
  nodes the analyser counts as dependencies of that node; the result id is that of the first node
  marked as result.
\<close>

theorem lift_is_type_check:
  assumes "bt_wf (pg_nodes g)"
  shows "((\<exists>ir. from_graph show_e g = Ok ir) \<longleftrightarrow> (\<forall>ip \<in> set (pg_nodes g). well_typed (snd ip))) \<and>
    (\<forall>ir. from_graph show_e g = Ok ir \<longrightarrow>
      ir_result_id ir = map_option fst (find (\<lambda>ip. result_flag (snd ip) = Some True) (pg_nodes g)) \<and>
      list_all2 (\<lambda>(i, p) (j, n). i = j \<and> node_process_id n = process_id p \<and>
          (has_subgraph n \<longleftrightarrow> process_id p \<in> {''reduce_dimension'', ''apply''}) \<and> set (node_links n) \<subseteq> set (node_refs p))
        (pg_nodes g) (ir_nodes ir))"
proof (intro conjI allI impI)
  show "(\<exists>ir. from_graph show_e g = Ok ir) \<longleftrightarrow> (\<forall>ip \<in> set (pg_nodes g). well_typed (snd ip))"
    unfolding from_graph_def from_nodes_def by (rule lift_accepts(3))
next
  fix ir
  assume "from_graph show_e g = Ok ir"
  then obtain ns where ir: "ir = ProcessGraphIr ns (map_option fst (find (\<lambda>ip. result_flag (snd ip) = Some True) (pg_nodes g)))"
    and all: "list_all2 (\<lambda>(i, p) (j, n). i = j \<and> node_parse show_e p = Ok n) (pg_nodes g) ns"
    using from_nodes_loop_result [of show_e "pg_nodes g" "[]" None ir] assms
    by (auto simp: from_graph_def from_nodes_def bt_wf_def)
  show "ir_result_id ir = map_option fst (find (\<lambda>ip. result_flag (snd ip) = Some True) (pg_nodes g))" using ir by simp
  show "list_all2 (\<lambda>(i, p) (j, n). i = j \<and> node_process_id n = process_id p \<and>
          (has_subgraph n \<longleftrightarrow> process_id p \<in> {''reduce_dimension'', ''apply''}) \<and> set (node_links n) \<subseteq> set (node_refs p))
        (pg_nodes g) (ir_nodes ir)"
    unfolding ir process_graph_ir.sel
    by (rule list_all2_mono [OF all], clarify) (use node_parse_shape in blast)
qed

text \<open>A reduction whose callback holds one \<open>add\<close> node.\<close>

definition sample_reduce :: process where
  "sample_reduce = \<lparr>process_id = ''reduce_dimension'',
     arguments = [(''data'', JObject [(''from_node'', JString ''l'')]), (''dimension'', JString ''t''),
       (''reducer'', JObject [(''process_graph'', JObject [(''a'', JObject [(''process_id'', JString ''add''),
         (''arguments'', JObject [(''x'', JNull), (''y'', JNull)]), (''result'', JBool True)])])])],
     result_flag = Some True\<rparr>"

definition sample_callback :: process where
  "sample_callback = \<lparr>process_id = ''add'', arguments = [(''x'', JNull), (''y'', JNull)], result_flag = Some True\<rparr>"

lemma sample_reduce_typed: "well_typed sample_reduce"
proof -
  have "well_typed sample_callback"
    by (simp add: well_typed_iff signature_lookup sample_callback_def required_iff bt_get_def)
  moreover have "decode_nodes (JObject [(''a'', JObject [(''process_id'', JString ''add''),
      (''arguments'', JObject [(''x'', JNull), (''y'', JNull)]), (''result'', JBool True)])]) = Ok [(''a'', sample_callback)]"
    by (simp add: decode_nodes_def sample_callback_def)
  ultimately show ?thesis unfolding well_typed_iff [of sample_reduce]
    by (simp add: signature_lookup sample_reduce_def required_iff bt_get_def
        has_type_callback has_type_string callback_graph_def json_get_def)
qed

theorem lift_is_type_check_witness:
  "\<exists>ir. from_graph (\<lambda>_. []) \<lparr>pg_nodes = [(''r'', sample_reduce)]\<rparr> = Ok ir \<and> ir_result_id ir = Some ''r'' \<and>
    map (\<lambda>(i, n). (i, has_subgraph n)) (ir_nodes ir) = [(''r'', True)]"
proof -
  have wf: "bt_wf (pg_nodes \<lparr>pg_nodes = [(''r'', sample_reduce)]\<rparr>)" by (simp add: bt_wf_def)
  note check = lift_is_type_check [OF wf, of "\<lambda>_. []"]
  obtain ir where ir: "from_graph (\<lambda>_. []) \<lparr>pg_nodes = [(''r'', sample_reduce)]\<rparr> = Ok ir"
    using check [THEN conjunct1] sample_reduce_typed by auto
  note typed = check [THEN conjunct2, THEN spec, THEN mp, OF ir]
  have res: "ir_result_id ir = Some ''r''" using typed [THEN conjunct1] by (simp add: sample_reduce_def)
  have "length (ir_nodes ir) = 1" using list_all2_lengthD [OF typed [THEN conjunct2]] by simp
  then obtain j n where "ir_nodes ir = [(j, n)]" by (auto simp: length_Suc_conv)
  then have sub: "map (\<lambda>(i, n). (i, has_subgraph n)) (ir_nodes ir) = [(''r'', True)]"
    using typed [THEN conjunct2] by (simp add: sample_reduce_def)
  show ?thesis by (rule exI [of _ ir]) (simp only: ir res sub simp_thms)
qed

end
