(* ===== verification/Job_Store.thy ===== *)
theory Job_Store
  imports Civil_Time
begin

text \<open>
  The job store of \<open>apps/orbit-openeo/src/job_store.rs\<close>: records, the \<open>JobStore\<close> trait as a record of
  operations, its contract as the locale \<open>job_store_contract\<close>, and the in-memory implementation,
  which interprets it. The in-memory store has two mutexes. Most operations hold the one of the job list
  for their whole duration and are one function on the state; \<open>append_log\<close> and \<open>get_logs\<close> release it
  before they take the mutex of the logs, and \<open>delete\<close> takes the second while it holds the first, so
  these are compositions of one function per critical section. The contract is about operations that
  run one at a time; the section on interleavings has the critical sections as steps. The clock
  (\<open>now\<close>) and the fresh UUID are arguments.
\<close>

section \<open>Records\<close>

datatype job_status = Created | Queued | Running | Canceled | Finished | Error

fun status_str :: "job_status \<Rightarrow> string" where
  "status_str Created = ''created''"
| "status_str Queued = ''queued''"
| "status_str Running = ''running''"
| "status_str Canceled = ''canceled''"
| "status_str Finished = ''finished''"
| "status_str Error = ''error''"

record job_asset =
  asset_name :: string
  media_type :: string
  asset_size :: "64 word"

record job_log_entry =
  log_id :: string
  level :: string
  message :: string
  log_time :: string

record job_record =
  job_id :: string
  user_id :: string
  title :: "string option"
  job_description :: "string option"
  job_process :: json
  status :: job_status
  progress :: "f64 option"
  created :: "64 word"
  updated :: "64 word"
  assets :: "job_asset list"

definition opt_string_json :: "string option \<Rightarrow> json" where
  "opt_string_json s = (case s of None \<Rightarrow> JNull | Some t \<Rightarrow> JString t)"

definition to_openeo_json :: "job_record \<Rightarrow> json" where
  "to_openeo_json r = JObject
     [(''id'', JString (job_id r)),
      (''title'', opt_string_json (title r)),
      (''description'', opt_string_json (job_description r)),
      (''process'', job_process r),
      (''status'', JString (status_str (status r))),
      (''progress'', case progress r of None \<Rightarrow> JNull | Some x \<Rightarrow> json_from_f64 x),
      (''created'', JString (iso8601 (created r))),
      (''updated'', JString (iso8601 (updated r)))]"

datatype job_error = JobNotFound string | JobBackend string

fun job_error_display :: "job_error \<Rightarrow> string" where
  "job_error_display (JobNotFound i) = ''job not found: '' @ i"
| "job_error_display (JobBackend m) = ''job store error: '' @ m"

section \<open>The trait\<close>

text \<open>\<open>dyn JobStore\<close>: the operations as functions on a state \<open>'s\<close>.\<close>

record 's job_store_ops =
  op_create :: "'s \<Rightarrow> string \<Rightarrow> 64 word \<Rightarrow> string \<Rightarrow> string option \<Rightarrow> string option \<Rightarrow> json
    \<Rightarrow> (job_error, job_record) result \<times> 's"
  op_get :: "'s \<Rightarrow> string \<Rightarrow> (job_error, job_record) result"
  op_list_for_user :: "'s \<Rightarrow> string \<Rightarrow> (job_error, job_record list) result"
  op_set_status :: "'s \<Rightarrow> 64 word \<Rightarrow> string \<Rightarrow> job_status \<Rightarrow> (job_error, unit) result \<times> 's"
  op_set_progress :: "'s \<Rightarrow> 64 word \<Rightarrow> string \<Rightarrow> f64 \<Rightarrow> (job_error, unit) result \<times> 's"
  op_set_metadata :: "'s \<Rightarrow> 64 word \<Rightarrow> string \<Rightarrow> string option \<Rightarrow> string option \<Rightarrow> (job_error, unit) result \<times> 's"
  op_delete :: "'s \<Rightarrow> string \<Rightarrow> (job_error, unit) result \<times> 's"
  op_add_asset :: "'s \<Rightarrow> 64 word \<Rightarrow> string \<Rightarrow> job_asset \<Rightarrow> (job_error, unit) result \<times> 's"
  op_append_log :: "'s \<Rightarrow> 64 word \<Rightarrow> string \<Rightarrow> string \<Rightarrow> string \<Rightarrow> (job_error, unit) result \<times> 's"
  op_get_logs :: "'s \<Rightarrow> string \<Rightarrow> (job_error, job_log_entry list) result"
  op_recover_orphans :: "'s \<Rightarrow> 64 word \<Rightarrow> (job_error, nat) result \<times> 's"

section \<open>The in-memory store\<close>

record mem_store =
  inner :: "job_record list"
  logs :: "string \<Rightarrow> job_log_entry list option"

definition mem_new :: mem_store where "mem_new = \<lparr>inner = [], logs = Map.empty\<rparr>"

text \<open>\<open>iter_mut().find\<close>: update the first match; \<open>None\<close> when there is none.\<close>

fun update_first :: "('a \<Rightarrow> bool) \<Rightarrow> ('a \<Rightarrow> 'a) \<Rightarrow> 'a list \<Rightarrow> 'a list option" where
  "update_first P f [] = None"
| "update_first P f (x # xs) =
     (if P x then Some (f x # xs) else map_option ((#) x) (update_first P f xs))"

definition with_job :: "mem_store \<Rightarrow> string \<Rightarrow> (job_record \<Rightarrow> job_record) \<Rightarrow> (job_error, unit) result \<times> mem_store" where
  "with_job s i f =
     (case update_first (\<lambda>r. job_id r = i) f (inner s) of
        None \<Rightarrow> (Inl (JobNotFound i), s)
      | Some rs \<Rightarrow> (Inr (), s\<lparr>inner := rs\<rparr>))"

definition mem_create ::
  "mem_store \<Rightarrow> string \<Rightarrow> 64 word \<Rightarrow> string \<Rightarrow> string option \<Rightarrow> string option \<Rightarrow> json
   \<Rightarrow> (job_error, job_record) result \<times> mem_store" where
  "mem_create s new_id now user ti de pr =
     (let rec = \<lparr>job_id = new_id, user_id = user, title = ti, job_description = de, job_process = pr,
                 status = Created, progress = Some (f64_of_nat 0), created = now, updated = now, assets = []\<rparr>
      in (Inr rec, s\<lparr>inner := inner s @ [rec]\<rparr>))"

definition mem_get :: "mem_store \<Rightarrow> string \<Rightarrow> (job_error, job_record) result" where
  "mem_get s i = ok_or (JobNotFound i) (find (\<lambda>r. job_id r = i) (inner s))"

definition mem_list_for_user :: "mem_store \<Rightarrow> string \<Rightarrow> (job_error, job_record list) result" where
  "mem_list_for_user s u = Inr (filter (\<lambda>r. user_id r = u) (inner s))"

definition mem_set_status :: "mem_store \<Rightarrow> 64 word \<Rightarrow> string \<Rightarrow> job_status \<Rightarrow> (job_error, unit) result \<times> mem_store" where
  "mem_set_status s now i st = with_job s i (\<lambda>r. r\<lparr>status := st, updated := now\<rparr>)"

definition mem_set_progress :: "mem_store \<Rightarrow> 64 word \<Rightarrow> string \<Rightarrow> f64 \<Rightarrow> (job_error, unit) result \<times> mem_store" where
  "mem_set_progress s now i p =
     with_job s i (\<lambda>r. r\<lparr>progress := Some (f64_clamp p (f64_of_nat 0) (f64_of_nat 100)), updated := now\<rparr>)"

definition patch_job :: "64 word \<Rightarrow> string option \<Rightarrow> string option \<Rightarrow> job_record \<Rightarrow> job_record" where
  "patch_job now ti de r =
     (let r1 = (if ti \<noteq> None then r\<lparr>title := ti\<rparr> else r);
          r2 = (if de \<noteq> None then r1\<lparr>job_description := de\<rparr> else r1)
      in r2\<lparr>updated := now\<rparr>)"

definition mem_set_metadata ::
  "mem_store \<Rightarrow> 64 word \<Rightarrow> string \<Rightarrow> string option \<Rightarrow> string option \<Rightarrow> (job_error, unit) result \<times> mem_store" where
  "mem_set_metadata s now i ti de = with_job s i (patch_job now ti de)"

text \<open>\<open>delete\<close>: the job goes under the first mutex, which stays locked while the logs go under the second.\<close>

definition delete_retain :: "mem_store \<Rightarrow> string \<Rightarrow> mem_store" where
  "delete_retain s i = s\<lparr>inner := filter (\<lambda>r. job_id r \<noteq> i) (inner s)\<rparr>"

definition delete_logs :: "mem_store \<Rightarrow> string \<Rightarrow> mem_store" where
  "delete_logs s i = s\<lparr>logs := (logs s)(i := None)\<rparr>"

definition mem_delete :: "mem_store \<Rightarrow> string \<Rightarrow> (job_error, unit) result \<times> mem_store" where
  "mem_delete s i = (Inr (), delete_logs (delete_retain s i) i)"

definition mem_add_asset :: "mem_store \<Rightarrow> 64 word \<Rightarrow> string \<Rightarrow> job_asset \<Rightarrow> (job_error, unit) result \<times> mem_store" where
  "mem_add_asset s now i a = with_job s i (\<lambda>r. r\<lparr>assets := assets r @ [a], updated := now\<rparr>)"

text \<open>\<open>append_log\<close> and \<open>get_logs\<close>: the check under the first mutex, then the access under the second.\<close>

definition job_exists_check :: "mem_store \<Rightarrow> string \<Rightarrow> (job_error, unit) result" where
  "job_exists_check s i = (if \<not> list_ex (\<lambda>r. job_id r = i) (inner s) then Inl (JobNotFound i) else Inr ())"

definition logs_read :: "mem_store \<Rightarrow> string \<Rightarrow> job_log_entry list" where
  "logs_read s i = (case logs s i of None \<Rightarrow> [] | Some es \<Rightarrow> es)"

definition append_write :: "mem_store \<Rightarrow> 64 word \<Rightarrow> string \<Rightarrow> string \<Rightarrow> string \<Rightarrow> mem_store" where
  "append_write s now i lv msg =
     (let entries = (case logs s i of None \<Rightarrow> [] | Some es \<Rightarrow> es);
          entry = \<lparr>log_id = show_nat (length entries), level = lv, message = msg, log_time = iso8601 now\<rparr>
      in s\<lparr>logs := (logs s)(i \<mapsto> entries @ [entry])\<rparr>)"

definition mem_append_log ::
  "mem_store \<Rightarrow> 64 word \<Rightarrow> string \<Rightarrow> string \<Rightarrow> string \<Rightarrow> (job_error, unit) result \<times> mem_store" where
  "mem_append_log s now i lv msg =
     (case job_exists_check s i of
        Inl e \<Rightarrow> (Inl e, s)
      | Inr _ \<Rightarrow> (Inr (), append_write s now i lv msg))"

definition mem_get_logs :: "mem_store \<Rightarrow> string \<Rightarrow> (job_error, job_log_entry list) result" where
  "mem_get_logs s i = (case job_exists_check s i of Inl e \<Rightarrow> Inl e | Inr _ \<Rightarrow> Inr (logs_read s i))"

fun recover_loop :: "64 word \<Rightarrow> job_record list \<Rightarrow> nat \<Rightarrow> nat \<times> job_record list" where
  "recover_loop now [] n = (n, [])"
| "recover_loop now (r # rs) n =
     (if status r = Queued \<or> status r = Running then
        let (n', rs') = recover_loop now rs (n + 1) in (n', r\<lparr>status := Error, updated := now\<rparr> # rs')
      else let (n', rs') = recover_loop now rs n in (n', r # rs'))"

definition mem_recover_orphans :: "mem_store \<Rightarrow> 64 word \<Rightarrow> (job_error, nat) result \<times> mem_store" where
  "mem_recover_orphans s now =
     (let (n, rs) = recover_loop now (inner s) 0 in (Inr n, s\<lparr>inner := rs\<rparr>))"

definition mem_ops :: "mem_store job_store_ops" where
  "mem_ops = \<lparr>op_create = mem_create, op_get = mem_get, op_list_for_user = mem_list_for_user,
     op_set_status = mem_set_status, op_set_progress = mem_set_progress, op_set_metadata = mem_set_metadata,
     op_delete = mem_delete, op_add_asset = mem_add_asset, op_append_log = mem_append_log,
     op_get_logs = mem_get_logs, op_recover_orphans = mem_recover_orphans\<rparr>"

section \<open>The contract\<close>

text \<open>
  A write to one job: it fails with \<open>NotFound\<close> and changes nothing when the job is absent;
  otherwise that job's record is transformed and nothing else is observable.
\<close>

definition writes_job ::
  "('s \<Rightarrow> string \<Rightarrow> (job_error, job_record) result) \<Rightarrow> ('s \<Rightarrow> string \<Rightarrow> (job_error, job_log_entry list) result)
   \<Rightarrow> 's \<Rightarrow> string \<Rightarrow> (job_record \<Rightarrow> job_record) \<Rightarrow> (job_error, unit) result \<times> 's \<Rightarrow> bool" where
  "writes_job gt lg s i f out \<longleftrightarrow>
     (case gt s i of
        Inl e \<Rightarrow> out = (Inl (JobNotFound i), s)
      | Inr r \<Rightarrow> fst out = Inr () \<and> gt (snd out) = (gt s)(i := Inr (f r)) \<and> lg (snd out) = lg s)"

locale job_store_contract =
  fixes ops :: "'s job_store_ops"
  assumes get_create: "op_get ops s i = Inl e \<Longrightarrow>
      \<exists>r. fst (op_create ops s i now u ti de pr) = Inr r \<and> job_id r = i \<and> user_id r = u \<and> title r = ti \<and>
        job_description r = de \<and> job_process r = pr \<and> status r = Created \<and> assets r = [] \<and>
        op_get ops (snd (op_create ops s i now u ti de pr)) = (op_get ops s)(i := Inr r)"
    and set_status: "writes_job (op_get ops) (op_get_logs ops) s i (\<lambda>r. r\<lparr>status := st, updated := now\<rparr>)
      (op_set_status ops s now i st)"
    and set_progress: "writes_job (op_get ops) (op_get_logs ops) s i
      (\<lambda>r. r\<lparr>progress := Some (f64_clamp p (f64_of_nat 0) (f64_of_nat 100)), updated := now\<rparr>)
      (op_set_progress ops s now i p)"
    and set_metadata: "writes_job (op_get ops) (op_get_logs ops) s i (patch_job now ti de)
      (op_set_metadata ops s now i ti de)"
    and add_asset: "writes_job (op_get ops) (op_get_logs ops) s i
      (\<lambda>r. r\<lparr>assets := assets r @ [a], updated := now\<rparr>) (op_add_asset ops s now i a)"
    and append_log: "op_get_logs ops s i = Inr es \<Longrightarrow>
      fst (op_append_log ops s now i lv msg) = Inr () \<and>
      op_get ops (snd (op_append_log ops s now i lv msg)) = op_get ops s \<and>
      op_get_logs ops (snd (op_append_log ops s now i lv msg)) = (op_get_logs ops s)(i := Inr (es @
        [\<lparr>log_id = show_nat (length es), level = lv, message = msg, log_time = iso8601 now\<rparr>]))"
    and append_log_absent: "op_get ops s i = Inl e \<Longrightarrow>
      op_append_log ops s now i lv msg = (Inl (JobNotFound i), s)"
    and delete: "fst (op_delete ops s i) = Inr () \<and> op_get ops (snd (op_delete ops s i)) = (op_get ops s)(i := Inl (JobNotFound i))"
    and logs_iff: "(\<exists>es. op_get_logs ops s i = Inr es) \<longleftrightarrow> (\<exists>r. op_get ops s i = Inr r)"
    and get_absent: "op_get ops s i = Inl e \<Longrightarrow> e = JobNotFound i"
begin

lemma append_log_get: "op_get ops (snd (op_append_log ops s now i lv msg)) = op_get ops s"
proof (cases "op_get ops s i")
  case (Inl e)
  then show ?thesis using append_log_absent [of s i e now lv msg] by simp
next
  case (Inr r)
  then obtain es where "op_get_logs ops s i = Inr es" using logs_iff by blast
  then show ?thesis using append_log by blast
qed

lemma delete_then_absent: "op_get ops (snd (op_delete ops s i)) i = Inl (JobNotFound i)"
  using delete by simp

lemma delete_idempotent: "op_get ops (snd (op_delete ops (snd (op_delete ops s i)) i)) = op_get ops (snd (op_delete ops s i))"
  using delete by simp

end

section \<open>The in-memory store meets the contract\<close>

text \<open>The operations of several critical sections, run without interruption.\<close>

lemma mem_get_logs_eq:
  "mem_get_logs s i =
     (if \<not> list_ex (\<lambda>r. job_id r = i) (inner s) then Inl (JobNotFound i)
      else Inr (case logs s i of None \<Rightarrow> [] | Some es \<Rightarrow> es))"
  by (simp add: mem_get_logs_def job_exists_check_def logs_read_def)

lemma mem_append_log_eq:
  "mem_append_log s now i lv msg =
     (if \<not> list_ex (\<lambda>r. job_id r = i) (inner s) then (Inl (JobNotFound i), s)
      else (Inr (), append_write s now i lv msg))"
  by (simp add: mem_append_log_def job_exists_check_def)

lemma mem_delete_eq:
  "mem_delete s i = (Inr (), \<lparr>inner = filter (\<lambda>r. job_id r \<noteq> i) (inner s), logs = (logs s)(i := None)\<rparr>)"
  by (simp add: mem_delete_def delete_retain_def delete_logs_def)

lemmas append_write_simps = append_write_def Let_def

lemma update_first_None_iff: "update_first P f xs = None \<longleftrightarrow> find P xs = None"
  by (induction xs) auto

lemma find_update_first:
  assumes "update_first (\<lambda>x. key x = k) f xs = Some ys" and "\<And>x. key (f x) = key x"
  shows "find (\<lambda>x. key x = k') ys =
    (if k' = k then map_option f (find (\<lambda>x. key x = k) xs) else find (\<lambda>x. key x = k') xs)"
  using assms(1) by (induction xs arbitrary: ys) (auto simp: assms(2) split: if_splits)

lemma update_first_map_key:
  "update_first P f xs = Some ys \<Longrightarrow> (\<And>x. key (f x) = key x) \<Longrightarrow> map key ys = map key xs"
  by (induction xs arbitrary: ys) (auto split: if_splits)

lemma update_first_set: "update_first P f xs = Some ys \<Longrightarrow> set ys \<subseteq> set xs \<union> f ` set xs"
  by (induction xs arbitrary: ys) (auto split: if_splits)

lemma find_ex: "list_ex P xs \<longleftrightarrow> find P xs \<noteq> None"
  by (induction xs) auto

lemma find_append: "find P (xs @ ys) = (case find P xs of None \<Rightarrow> find P ys | Some x \<Rightarrow> Some x)"
  by (induction xs) auto

lemma find_filter_ne: "find (\<lambda>x. key x = k') (filter (\<lambda>x. key x \<noteq> k) xs) = (if k' = k then None else find (\<lambda>x. key x = k') xs)"
  by (induction xs) auto

lemma with_job_writes:
  assumes "\<And>r. job_id (f r) = job_id r"
  shows "writes_job mem_get mem_get_logs s i f (with_job s i f)"
proof (cases "update_first (\<lambda>r. job_id r = i) f (inner s)")
  case None
  then have "find (\<lambda>r. job_id r = i) (inner s) = None" using update_first_None_iff by blast
  with None show ?thesis by (simp add: writes_job_def with_job_def mem_get_def)
next
  case (Some rs)
  then have "update_first (\<lambda>r. job_id r = i) f (inner s) \<noteq> None" by simp
  then obtain r where r: "find (\<lambda>r. job_id r = i) (inner s) = Some r"
    unfolding update_first_None_iff by blast
  note f = find_update_first [OF Some assms]
  have "mem_get (s\<lparr>inner := rs\<rparr>) = (mem_get s)(i := Inr (f r))"
    by (rule ext) (simp add: mem_get_def f r)
  moreover have "mem_get_logs (s\<lparr>inner := rs\<rparr>) = mem_get_logs s"
    by (rule ext) (simp add: mem_get_logs_eq find_ex f r)
  ultimately show ?thesis using Some r by (simp add: writes_job_def with_job_def mem_get_def)
qed

lemma patch_job_id [simp]: "job_id (patch_job now ti de r) = job_id r"
  by (simp add: patch_job_def Let_def)

lemma mem_append_log_spec:
  assumes "mem_get_logs s i = Inr es"
  shows "fst (mem_append_log s now i lv msg) = Inr ()"
    and "mem_get (snd (mem_append_log s now i lv msg)) = mem_get s"
    and "mem_get_logs (snd (mem_append_log s now i lv msg)) = (mem_get_logs s)(i := Inr (es @
        [\<lparr>log_id = show_nat (length es), level = lv, message = msg, log_time = iso8601 now\<rparr>]))"
proof -
  have ex: "list_ex (\<lambda>r. job_id r = i) (inner s)" and es: "es = (case logs s i of None \<Rightarrow> [] | Some es \<Rightarrow> es)"
    using assms by (auto simp: mem_get_logs_eq split: if_splits)
  show "fst (mem_append_log s now i lv msg) = Inr ()" using ex by (simp add: mem_append_log_eq)
  show "mem_get (snd (mem_append_log s now i lv msg)) = mem_get s"
    using ex by (intro ext) (simp add: mem_append_log_eq append_write_simps mem_get_def)
  show "mem_get_logs (snd (mem_append_log s now i lv msg)) = (mem_get_logs s)(i := Inr (es @
        [\<lparr>log_id = show_nat (length es), level = lv, message = msg, log_time = iso8601 now\<rparr>]))"
    using ex es by (intro ext) (simp add: mem_append_log_eq append_write_simps mem_get_logs_eq)
qed

lemma mem_store_contract: "job_store_contract mem_ops"
proof (unfold_locales, goal_cases)
  case (1 s i e now u ti de pr)
  then have "find (\<lambda>r. job_id r = i) (inner s) = None" by (simp add: mem_ops_def mem_get_def)
  then show ?case
    by (auto simp: mem_ops_def mem_get_def mem_create_def Let_def find_append fun_eq_iff split: option.splits)
next
  case (6 s i es now lv msg)
  then show ?case using mem_append_log_spec [of s i es] by (simp add: mem_ops_def)
next
  case (7 s i e now lv msg)
  then show ?case by (simp add: mem_ops_def mem_get_def mem_append_log_eq find_ex)
next
  case (8 s i)
  then show ?case by (auto simp: mem_ops_def mem_get_def mem_delete_eq find_filter_ne fun_eq_iff)
next
  case (9 s i)
  then show ?case by (auto simp: mem_ops_def mem_get_def mem_get_logs_eq find_ex)
next
  case (10 s i e)
  then show ?case by (simp add: mem_ops_def mem_get_def)
qed (simp_all add: mem_ops_def mem_set_status_def mem_set_progress_def mem_set_metadata_def mem_add_asset_def
    with_job_writes)

interpretation mem: job_store_contract mem_ops
  by (rule mem_store_contract)

section \<open>Interleavings\<close>

text \<open>The operations that are one critical section of the job list.\<close>

inductive mem_step :: "mem_store \<Rightarrow> mem_store \<Rightarrow> bool" where
  create: "i \<notin> job_id ` set (inner s) \<Longrightarrow> mem_step s (snd (mem_create s i now u ti de pr))"
| set_status: "mem_step s (snd (mem_set_status s now i st))"
| set_progress: "mem_step s (snd (mem_set_progress s now i p))"
| set_metadata: "mem_step s (snd (mem_set_metadata s now i ti de))"
| add_asset: "mem_step s (snd (mem_add_asset s now i a))"
| recover: "mem_step s (snd (mem_recover_orphans s now))"

text \<open>
  The store with the calls in flight: the \<open>append_log\<close> calls that have passed their check and do not yet
  hold the mutex of the logs, and the \<open>delete\<close> that holds the mutex of the job list and has removed the
  job but not yet its logs. \<open>ss_raced\<close> is a history variable: the jobs that were removed while such an
  \<open>append_log\<close> was in flight.
\<close>

record shared_store =
  ss_store :: mem_store
  ss_appending :: "(string \<times> string \<times> string) list"
  ss_deleting :: "string option"
  ss_raced :: "string set"

definition shared_new :: shared_store where
  "shared_new = \<lparr>ss_store = mem_new, ss_appending = [], ss_deleting = None, ss_raced = {}\<rparr>"

inductive shared_step :: "shared_store \<Rightarrow> shared_store \<Rightarrow> bool" where
  locked: "ss_deleting c = None \<Longrightarrow> mem_step (ss_store c) s' \<Longrightarrow> shared_step c (c\<lparr>ss_store := s'\<rparr>)"
| append_check: "ss_deleting c = None \<Longrightarrow> job_exists_check (ss_store c) i = Inr () \<Longrightarrow>
    shared_step c (c\<lparr>ss_appending := (i, lv, msg) # ss_appending c\<rparr>)"
| append_write: "(i, lv, msg) \<in> set (ss_appending c) \<Longrightarrow>
    shared_step c (c\<lparr>ss_store := append_write (ss_store c) now i lv msg, ss_appending := remove1 (i, lv, msg) (ss_appending c)\<rparr>)"
| delete_retain: "ss_deleting c = None \<Longrightarrow>
    shared_step c (c\<lparr>ss_store := delete_retain (ss_store c) i, ss_deleting := Some i,
      ss_raced := (if i \<in> fst ` set (ss_appending c) then insert i (ss_raced c) else ss_raced c)\<rparr>)"
| delete_logs: "ss_deleting c = Some i \<Longrightarrow>
    shared_step c (c\<lparr>ss_store := delete_logs (ss_store c) i, ss_deleting := None\<rparr>)"

inductive shared_reachable :: "shared_store \<Rightarrow> bool" where
  init: "shared_reachable shared_new"
| step: "shared_reachable c \<Longrightarrow> shared_step c c' \<Longrightarrow> shared_reachable c'"

text \<open>An operation that is not interrupted is the sequence of its critical sections.\<close>

lemma append_log_steps:
  assumes "ss_deleting c = None" and "mem_append_log (ss_store c) now i lv msg = (Inr (), s')"
  shows "\<exists>b. shared_step c b \<and> shared_step b (c\<lparr>ss_store := s'\<rparr>)"
proof (intro exI conjI)
  have *: "job_exists_check (ss_store c) i = Inr ()" "s' = append_write (ss_store c) now i lv msg"
    using assms(2) by (auto simp: mem_append_log_def split: sum.splits)
  let ?b = "c\<lparr>ss_appending := (i, lv, msg) # ss_appending c\<rparr>"
  show "shared_step c ?b" by (rule shared_step.append_check [OF assms(1) *(1)])
  show "shared_step ?b (c\<lparr>ss_store := s'\<rparr>)" using shared_step.append_write [of i lv msg ?b now] *(2) by simp
qed

lemma delete_steps:
  assumes "ss_deleting c = None" and "i \<notin> fst ` set (ss_appending c)"
  shows "\<exists>b. shared_step c b \<and> shared_step b (c\<lparr>ss_store := snd (mem_delete (ss_store c) i)\<rparr>)"
proof (intro exI conjI)
  let ?b = "c\<lparr>ss_store := delete_retain (ss_store c) i, ss_deleting := Some i\<rparr>"
  show "shared_step c ?b" using shared_step.delete_retain [OF assms(1), of i] assms(2) by simp
  show "shared_step ?b (c\<lparr>ss_store := snd (mem_delete (ss_store c) i)\<rparr>)"
  proof -
    have "c\<lparr>ss_store := x, ss_deleting := None\<rparr> = c\<lparr>ss_store := x\<rparr>" for x using assms(1) by (cases c) simp
    then show ?thesis using shared_step.delete_logs [of ?b i] by (simp add: mem_delete_def)
  qed
qed

definition progress_ok :: "f64 option \<Rightarrow> bool" where
  "progress_ok p \<longleftrightarrow> (\<forall>x. p = Some x \<longrightarrow> f64_is_nan x \<or> f64_le (f64_of_nat 0) x \<and> f64_le x (f64_of_nat 100))"

definition numbered :: "job_log_entry list \<Rightarrow> bool" where
  "numbered es \<longleftrightarrow> map log_id es = map show_nat [0..<length es]"

definition mem_inv :: "mem_store \<Rightarrow> bool" where
  "mem_inv s \<longleftrightarrow> distinct (map job_id (inner s)) \<and> (\<forall>r \<in> set (inner s). progress_ok (progress r)) \<and>
     (\<forall>i es. logs s i = Some es \<longrightarrow> numbered es)"

definition job_ids :: "mem_store \<Rightarrow> string set" where
  "job_ids s = job_id ` set (inner s)"

definition shared_inv :: "shared_store \<Rightarrow> bool" where
  "shared_inv c \<longleftrightarrow> mem_inv (ss_store c) \<and>
     (\<forall>i. logs (ss_store c) i \<noteq> None \<longrightarrow> i \<in> job_ids (ss_store c) \<or> ss_deleting c = Some i \<or> i \<in> ss_raced c) \<and>
     (\<forall>(i, lv, msg) \<in> set (ss_appending c). i \<in> job_ids (ss_store c) \<or> i \<in> ss_raced c)"

definition orphan :: "job_record \<Rightarrow> bool" where
  "orphan r \<longleftrightarrow> status r = Queued \<or> status r = Running"

definition recovered :: "64 word \<Rightarrow> job_record \<Rightarrow> job_record" where
  "recovered now r = (if orphan r then r\<lparr>status := Error, updated := now\<rparr> else r)"

lemma recover_loop_spec:
  "recover_loop now rs n = (n + length (filter orphan rs), map (recovered now) rs)"
  by (induction now rs n rule: recover_loop.induct) (auto simp: orphan_def recovered_def)

lemma recovered_keeps [simp]:
  "job_id (recovered now r) = job_id r" "progress (recovered now r) = progress r"
  by (simp_all add: recovered_def)

lemma f64_0_le_100: "f64_le (f64_of_nat 0) (f64_of_nat 100)"
  by (rule f64_of_nat_mono) simp

lemma progress_ok_clamp: "progress_ok (Some (f64_clamp p (f64_of_nat 0) (f64_of_nat 100)))"
  using f64_clamp_range [OF f64_0_le_100, of p] by (auto simp: progress_ok_def)

lemma with_job_ids:
  assumes "\<And>r. job_id (f r) = job_id r"
  shows "map job_id (inner (snd (with_job s i f))) = map job_id (inner s)" and "logs (snd (with_job s i f)) = logs s"
proof -
  show "map job_id (inner (snd (with_job s i f))) = map job_id (inner s)"
    using update_first_map_key [of _ f "inner s" _ job_id, OF _ assms] by (auto simp: with_job_def split: option.splits)
  show "logs (snd (with_job s i f)) = logs s" by (simp add: with_job_def split: option.splits)
qed

lemma with_job_inv:
  assumes "mem_inv s" and "\<And>r. job_id (f r) = job_id r" and "\<And>r. progress_ok (progress r) \<Longrightarrow> progress_ok (progress (f r))"
  shows "mem_inv (snd (with_job s i f))"
proof (cases "update_first (\<lambda>r. job_id r = i) f (inner s)")
  case (Some rs)
  have "\<forall>r \<in> set rs. r \<in> set (inner s) \<or> (\<exists>r' \<in> set (inner s). r = f r')"
    using update_first_set [OF Some] by blast
  then show ?thesis using assms Some with_job_ids [of f s i, OF assms(2)] by (auto simp: mem_inv_def with_job_def)
qed (use assms(1) in \<open>simp add: with_job_def\<close>)

lemma mem_step_inv:
  assumes "mem_step s s'" and "mem_inv s"
  shows "mem_inv s'"
  using assms(1)
proof (cases rule: mem_step.cases)
  case (create i now u ti de pr)
  have "progress_ok (Some (f64_of_nat 0))"
    using f64_0_le_100 by (auto simp: progress_ok_def f64_le_def)
  then show ?thesis using create assms(2) by (auto simp: mem_create_def Let_def mem_inv_def)
next
  case (set_status now i st)
  then show ?thesis using assms(2) by (auto simp: mem_set_status_def intro!: with_job_inv)
next
  case (set_progress now i p)
  then show ?thesis using assms(2) progress_ok_clamp by (auto simp: mem_set_progress_def intro!: with_job_inv)
next
  case (set_metadata now i ti de)
  then show ?thesis using assms(2) by (auto simp: mem_set_metadata_def patch_job_def Let_def intro!: with_job_inv)
next
  case (add_asset now i a)
  then show ?thesis using assms(2) by (auto simp: mem_add_asset_def intro!: with_job_inv)
next
  case (recover now)
  then show ?thesis using assms(2)
    by (auto simp: mem_recover_orphans_def recover_loop_spec mem_inv_def image_image comp_def)
qed

text \<open>A step of the job list removes no job and touches no log.\<close>

lemma job_ids_map: "job_ids s = set (map job_id (inner s))"
  by (simp add: job_ids_def)

lemma mem_step_keeps: "mem_step s s' \<Longrightarrow> logs s' = logs s \<and> job_ids s \<subseteq> job_ids s'"
proof (induction rule: mem_step.induct)
  case (create i s now u ti de pr)
  then show ?case by (auto simp: mem_create_def Let_def job_ids_def)
next
  case (recover s now)
  then show ?case by (auto simp: mem_recover_orphans_def recover_loop_spec job_ids_def image_image)
qed (simp_all add: job_ids_map mem_set_status_def mem_set_progress_def mem_set_metadata_def mem_add_asset_def with_job_ids
    del: set_map)

lemma append_write_logs:
  "logs (append_write s now i lv msg) j = (if j = i then Some (logs_read s i @
     [\<lparr>log_id = show_nat (length (logs_read s i)), level = lv, message = msg, log_time = iso8601 now\<rparr>]) else logs s j)"
  "inner (append_write s now i lv msg) = inner s"
  by (simp_all add: append_write_simps logs_read_def)

lemma append_write_inv: "mem_inv s \<Longrightarrow> mem_inv (append_write s now i lv msg)"
  by (auto simp: mem_inv_def append_write_logs logs_read_def numbered_def split: option.splits)

lemma delete_inv: "mem_inv s \<Longrightarrow> mem_inv (delete_retain s i)" "mem_inv s \<Longrightarrow> mem_inv (delete_logs s i)"
  by (auto simp: mem_inv_def delete_retain_def delete_logs_def distinct_map_filter split: if_splits)

lemma delete_ids: "job_ids (delete_retain s i) = job_ids s - {i}" "logs (delete_retain s i) = logs s"
  "job_ids (delete_logs s i) = job_ids s" "logs (delete_logs s i) j = (if j = i then None else logs s j)"
  by (auto simp: job_ids_def delete_retain_def delete_logs_def)

lemma shared_step_inv: "shared_step c c' \<Longrightarrow> shared_inv c \<Longrightarrow> shared_inv c'"
proof (induction rule: shared_step.induct)
  case (locked c s')
  then show ?case using mem_step_inv mem_step_keeps [OF locked(2)] by (fastforce simp: shared_inv_def)
next
  case (append_check c i lv msg)
  then have "i \<in> job_ids (ss_store c)" by (auto simp: job_exists_check_def job_ids_def list_ex_iff split: if_splits)
  then show ?case using append_check by (auto simp: shared_inv_def)
next
  case (append_write i lv msg c now)
  then have i: "i \<in> job_ids (ss_store c) \<or> i \<in> ss_raced c" by (fastforce simp: shared_inv_def)
  have ids: "job_ids (append_write (ss_store c) now i lv msg) = job_ids (ss_store c)" by (simp add: job_ids_def append_write_logs)
  have sub: "set (remove1 (i, lv, msg) (ss_appending c)) \<subseteq> set (ss_appending c)" by (rule set_remove1_subset)
  have inv: "mem_inv (append_write (ss_store c) now i lv msg)" using append_write by (simp add: shared_inv_def append_write_inv)
  have "(\<forall>j. logs (append_write (ss_store c) now i lv msg) j \<noteq> None \<longrightarrow>
      j \<in> job_ids (ss_store c) \<or> ss_deleting c = Some j \<or> j \<in> ss_raced c)"
    using append_write.prems i unfolding shared_inv_def append_write_logs(1) by simp blast
  then show ?case using inv append_write.prems sub by (auto simp: shared_inv_def ids)
next
  case (delete_retain c i)
  define raced where "raced = (if i \<in> fst ` set (ss_appending c) then insert i (ss_raced c) else ss_raced c)"
  have "fst x \<in> job_ids (ss_store c) - {i} \<or> fst x \<in> raced" if x: "x \<in> set (ss_appending c)" for x
  proof -
    have "fst x \<in> job_ids (ss_store c) \<or> fst x \<in> ss_raced c"
      using delete_retain.prems x unfolding shared_inv_def case_prod_beta by blast
    moreover have "fst x = i \<longrightarrow> i \<in> fst ` set (ss_appending c)" using x by blast
    ultimately show ?thesis by (auto simp: raced_def)
  qed
  then have "\<forall>(j, lv, msg) \<in> set (ss_appending c). j \<in> job_ids (ss_store c) - {i} \<or> j \<in> raced"
    unfolding case_prod_beta by blast
  moreover have "\<forall>j. logs (ss_store c) j \<noteq> None \<longrightarrow> j \<in> job_ids (ss_store c) - {i} \<or> Some i = Some j \<or> j \<in> raced"
    using delete_retain.prems delete_retain.hyps by (auto simp: shared_inv_def raced_def)
  moreover have "mem_inv (delete_retain (ss_store c) i)" using delete_retain.prems by (simp add: shared_inv_def delete_inv(1))
  ultimately show ?case unfolding raced_def [symmetric] by (simp add: shared_inv_def delete_ids)
next
  case (delete_logs c i)
  then show ?case using delete_inv(2) by (simp add: shared_inv_def delete_ids) blast
qed

lemma shared_reachable_inv: "shared_reachable c \<Longrightarrow> shared_inv c"
proof (induction rule: shared_reachable.induct)
  case init
  then show ?case by (simp add: shared_new_def mem_new_def shared_inv_def mem_inv_def)
qed (rule shared_step_inv)

section \<open>Properties\<close>

text \<open>
  C10. The in-memory store keeps the promises of the \<open>JobStore\<close> trait: a created job is found under
  its id with the caller's data and no other job changes; a write to an absent job fails with
  \<open>NotFound\<close> and changes nothing; a write to a present job transforms that job's record only and
  leaves all logs alone; logs append in order; a deleted job is gone.
\<close>

theorem mem_store_meets_contract: "job_store_contract mem_ops"
  by (rule mem_store_contract)

text \<open>
  C11. In every state the in-memory store can reach from empty, whatever the interleaving of the critical
  sections of the calls, when created ids are fresh: job ids are unique, every stored progress lies
  between 0 and 100 (or is NaN, which \<open>clamp\<close> passes through), the ids of a job's log entries are their
  positions, and logs belong to a job of the list, to the one that is being deleted, or to one that was
  deleted while an \<open>append_log\<close> stood between its check and its write.
\<close>

theorem mem_store_invariant:
  assumes "shared_reachable c"
  shows "distinct (map job_id (inner (ss_store c))) \<and>
    (\<forall>r \<in> set (inner (ss_store c)). progress_ok (progress r)) \<and>
    (\<forall>i es. logs (ss_store c) i = Some es \<longrightarrow> map log_id es = map show_nat [0..<length es] \<and>
       (i \<in> job_id ` set (inner (ss_store c)) \<or> ss_deleting c = Some i \<or> i \<in> ss_raced c))"
  using shared_reachable_inv [OF assms] by (auto simp: shared_inv_def mem_inv_def numbered_def job_ids_def)

definition sample_store :: mem_store where
  "sample_store = snd (mem_create mem_new ''j1'' 5 ''anonymous'' None None JNull)"

definition sample_shared :: shared_store where
  "sample_shared = \<lparr>ss_store = sample_store, ss_appending = [], ss_deleting = None, ss_raced = {}\<rparr>"

lemma sample_shared_reachable: "shared_reachable sample_shared"
proof -
  have "mem_step (ss_store shared_new) sample_store" unfolding sample_store_def shared_new_def shared_store.select_convs
    by (rule mem_step.create) (simp add: mem_new_def)
  from shared_step.locked [OF _ this] have "shared_step shared_new sample_shared"
    by (simp add: shared_new_def sample_shared_def)
  then show ?thesis by (rule shared_reachable.step [OF shared_reachable.init])
qed

theorem mem_store_invariant_witness: "distinct (map job_id (inner sample_store)) \<and> inner sample_store \<noteq> []"
  using mem_store_invariant [OF sample_shared_reachable]
  by (simp add: sample_shared_def sample_store_def mem_create_def Let_def)

text \<open>
  The third case happens: an \<open>append_log\<close> that has passed its check writes after a complete \<open>delete\<close> of the
  job, and its entry stays in the store although the job is gone.
\<close>

lemma raced_log_stays:
  "\<exists>c. shared_reachable c \<and> ss_appending c = [] \<and> ss_deleting c = None \<and> inner (ss_store c) = [] \<and> logs (ss_store c) ''j1'' \<noteq> None"
proof -
  let ?s = "delete_logs (delete_retain sample_store ''j1'') ''j1''"
  let ?a = "sample_shared\<lparr>ss_appending := [(''j1'', ''info'', [])]\<rparr>"
  let ?b = "?a\<lparr>ss_store := delete_retain sample_store ''j1'', ss_deleting := Some ''j1'', ss_raced := {''j1''}\<rparr>"
  let ?c = "?b\<lparr>ss_store := ?s, ss_deleting := None\<rparr>"
  let ?d = "?c\<lparr>ss_store := append_write ?s 0 ''j1'' ''info'' [], ss_appending := []\<rparr>"
  have "shared_step sample_shared ?a"
    using shared_step.append_check [of sample_shared "''j1''" "''info''" "[]"]
    by (simp add: sample_shared_def sample_store_def mem_create_def mem_new_def job_exists_check_def Let_def)
  moreover have "shared_step ?a ?b" using shared_step.delete_retain [of ?a "''j1''"] by (simp add: sample_shared_def)
  moreover have "shared_step ?b ?c" using shared_step.delete_logs [of ?b "''j1''"] by simp
  moreover have "shared_step ?c ?d" using shared_step.append_write [of "''j1''" "''info''" "[]" ?c 0] by simp
  ultimately have "shared_reachable ?d" using sample_shared_reachable by (meson shared_reachable.step)
  moreover have "inner (append_write ?s 0 ''j1'' ''info'' []) = []"
    by (simp add: append_write_logs delete_retain_def delete_logs_def sample_store_def mem_create_def mem_new_def Let_def)
  ultimately show ?thesis by (intro exI [of _ ?d]) (simp add: sample_shared_def append_write_logs)
qed

text \<open>
  Startup recovery leaves no job queued or running: it returns how many jobs it moved to \<open>error\<close>,
  and every other job, its logs and the order of the jobs stay as they were.
\<close>

theorem recover_orphans_correct:
  "mem_recover_orphans s now = (Inr n, s') \<longleftrightarrow>
     n = length (filter orphan (inner s)) \<and> logs s' = logs s \<and> length (inner s') = length (inner s) \<and>
     (\<forall>k < length (inner s). \<not> orphan (inner s' ! k) \<and>
        inner s' ! k = (if orphan (inner s ! k) then (inner s ! k)\<lparr>status := Error, updated := now\<rparr> else inner s ! k))"
proof -
  have eq: "s\<lparr>inner := rs\<rparr> = s' \<longleftrightarrow> inner s' = rs \<and> logs s' = logs s" for rs by (cases s; cases s') auto
  have no: "\<not> orphan (recovered now r)" for r by (simp add: orphan_def recovered_def)
  have rec: "recovered now r = (if orphan r then r\<lparr>status := Error, updated := now\<rparr> else r)" for r
    by (simp add: recovered_def)
  show ?thesis
    unfolding mem_recover_orphans_def recover_loop_spec prod.case Let_def rec [symmetric]
    using no by (auto simp: eq list_eq_iff_nth_eq)
qed

theorem recover_orphans_correct_witness:
  "mem_recover_orphans (snd (mem_set_status sample_store 6 ''j1'' Running)) 7 =
     (Inr 1, snd (mem_set_status sample_store 7 ''j1'' Error))"
  unfolding recover_orphans_correct
  by (simp add: sample_store_def mem_create_def mem_new_def Let_def mem_set_status_def with_job_def orphan_def)

end
