(* ===== verification/File_Store.thy ===== *)
theory File_Store
  imports Orbit_Prelude
begin

text \<open>
  File storage (\<open>apps/orbit-openeo/src/file_store.rs\<close>): path validation with its single percent-decoding
  pass, and the in-memory store. A Rust string is its UTF-8 bytes; \<open>utf8_chars\<close> reads the code
  points that \<open>str::chars\<close> yields and is \<open>None\<close> where \<open>String::from_utf8\<close> fails.
\<close>

section \<open>UTF-8\<close>

definition cont :: "char \<Rightarrow> bool" where "cont c \<longleftrightarrow> 128 \<le> (of_char c :: nat) \<and> (of_char c :: nat) < 192"
definition cbits :: "char \<Rightarrow> nat" where "cbits c = of_char c - 128"

text \<open>Well-formed sequences only: shortest form, no surrogates, at most U+10FFFF.\<close>

fun utf8_chars :: "string \<Rightarrow> nat list option" where
  "utf8_chars [] = Some []"
| "utf8_chars (a # s) =
     (let b = (of_char a :: nat) in
      if b < 128 then map_option ((#) b) (utf8_chars s)
      else if b < 194 then None
      else if b < 224 then
        (case s of c1 # s1 \<Rightarrow>
           if cont c1 then map_option ((#) ((b - 192) * 64 + cbits c1)) (utf8_chars s1) else None
         | _ \<Rightarrow> None)
      else if b < 240 then
        (case s of c1 # c2 # s2 \<Rightarrow>
           let cp = (b - 224) * 4096 + cbits c1 * 64 + cbits c2 in
           if cont c1 \<and> cont c2 \<and> 2048 \<le> cp \<and> \<not> (55296 \<le> cp \<and> cp < 57344)
           then map_option ((#) cp) (utf8_chars s2) else None
         | _ \<Rightarrow> None)
      else if b < 245 then
        (case s of c1 # c2 # c3 # s3 \<Rightarrow>
           let cp = (b - 240) * 262144 + cbits c1 * 4096 + cbits c2 * 64 + cbits c3 in
           if cont c1 \<and> cont c2 \<and> cont c3 \<and> 65536 \<le> cp \<and> cp < 1114112
           then map_option ((#) cp) (utf8_chars s3) else None
         | _ \<Rightarrow> None)
      else None)"

definition chars :: "string \<Rightarrow> nat list" where
  "chars s = (case utf8_chars s of Some cs \<Rightarrow> cs | None \<Rightarrow> [])"

section \<open>Keys and errors\<close>

datatype file_key = FileKey (fk_user: string) (fk_path: string)

text \<open>The derived \<open>Ord\<close>: lexicographic in the fields.\<close>

instantiation file_key :: linorder
begin

definition less_eq_file_key :: "file_key \<Rightarrow> file_key \<Rightarrow> bool" where
  "less_eq_file_key a b \<longleftrightarrow> fk_user a < fk_user b \<or> fk_user a = fk_user b \<and> fk_path a \<le> fk_path b"

definition less_file_key :: "file_key \<Rightarrow> file_key \<Rightarrow> bool" where
  "less_file_key a b \<longleftrightarrow> fk_user a < fk_user b \<or> fk_user a = fk_user b \<and> fk_path a < fk_path b"

instance
  by standard (auto simp: less_eq_file_key_def less_file_key_def intro: file_key.expand)

end

record file_entry =
  entry_path :: string
  entry_size :: nat

datatype file_error = FileNotFound | Forbidden string | FileIo string

fun file_error_display :: "file_error \<Rightarrow> string" where
  "file_error_display FileNotFound = ''file not found''"
| "file_error_display (Forbidden p) = ''forbidden path: '' @ p"
| "file_error_display (FileIo m) = ''io error: '' @ m"

section \<open>Path validation\<close>

text \<open>\<open>char::to_digit(16)\<close> on a byte.\<close>

definition hex_val :: "char \<Rightarrow> nat option" where
  "hex_val c =
     (let b = (of_char c :: nat) in
      if 48 \<le> b \<and> b \<le> 57 then Some (b - 48)
      else if 97 \<le> b \<and> b \<le> 102 then Some (b - 87)
      else if 65 \<le> b \<and> b \<le> 70 then Some (b - 55)
      else None)"

definition hex_pair :: "string \<Rightarrow> (char \<times> string) option" where
  "hex_pair s =
     (case s of h # l # rest \<Rightarrow>
        (case (hex_val h, hex_val l) of
           (Some hi, Some lo) \<Rightarrow> Some (char_of (hi * 16 + lo), rest)
         | _ \<Rightarrow> None)
      | _ \<Rightarrow> None)"

lemma hex_pair_length: "hex_pair s = Some (c, rest) \<Longrightarrow> length rest < length s"
  by (auto simp: hex_pair_def split: list.splits option.splits)

function percent_loop :: "string \<Rightarrow> string" where
  "percent_loop [] = []"
| "percent_loop (c # s) =
     (if c = CHR ''%'' then
        (case hex_pair s of
           Some (d, rest) \<Rightarrow> d # percent_loop rest
         | None \<Rightarrow> c # percent_loop s)
      else c # percent_loop s)"
  by pat_completeness auto
termination
  by (relation "measure length") (auto dest: hex_pair_length)

definition percent_decode_once :: "string \<Rightarrow> string" where
  "percent_decode_once s =
     (if CHR ''%'' \<notin> set s then s
      else let out = percent_loop s in
        case utf8_chars out of Some _ \<Rightarrow> out | None \<Rightarrow> CHR 0x5C # ''0invalid'')"

text \<open>\<open>char::is_control\<close>: the general category Cc.\<close>

definition is_control :: "nat \<Rightarrow> bool" where
  "is_control cp \<longleftrightarrow> cp < 32 \<or> 127 \<le> cp \<and> cp < 160"

definition hex_digit_upper :: "nat \<Rightarrow> char" where
  "hex_digit_upper d = char_of (if d < 10 then 48 + d else 55 + d)"

text \<open>\<open>\{:04X\}\<close> of a value below 65536.\<close>

definition show_hex4 :: "nat \<Rightarrow> string" where
  "show_hex4 n = map hex_digit_upper [n div 4096 mod 16, n div 256 mod 16, n div 16 mod 16, n mod 16]"

definition disallowed :: "nat list" where
  "disallowed = [92, 58, 60, 62, 34, 124, 63, 42, 0]"

text \<open>\<open>\{:?\}\<close> of one of the disallowed characters: only the backslash is escaped.\<close>

definition debug_char :: "nat \<Rightarrow> string" where
  "debug_char c = CHR 0x27 # (if c = 92 then [CHR 0x5C, CHR 0x5C] else [char_of c]) @ [CHR 0x27]"

fun check_chars :: "nat list \<Rightarrow> (file_error, unit) result" where
  "check_chars [] = Inr ()"
| "check_chars (c # cs) =
     (if is_control c then Inl (Forbidden (''control char U+'' @ show_hex4 c))
      else if c \<in> set disallowed then Inl (Forbidden (''disallowed char '' @ debug_char c))
      else check_chars cs)"

text \<open>\<open>str::split('/')\<close>.\<close>

fun split_on :: "char \<Rightarrow> string \<Rightarrow> string list" where
  "split_on d [] = [[]]"
| "split_on d (c # s) =
     (if c = d then [] # split_on d s
      else case split_on d s of [] \<Rightarrow> [[c]] | seg # segs \<Rightarrow> (c # seg) # segs)"

fun check_segments :: "string \<Rightarrow> string list \<Rightarrow> (file_error, unit) result" where
  "check_segments path [] = Inr ()"
| "check_segments path (seg # segs) =
     (if seg = ''..'' \<or> seg = ''.'' \<or> seg = [] then Inl (Forbidden path) else check_segments path segs)"

definition starts_with :: "string \<Rightarrow> char \<Rightarrow> bool" where
  "starts_with s c = (case s of [] \<Rightarrow> False | a # _ \<Rightarrow> a = c)"

definition is_ascii_alphabetic :: "nat \<Rightarrow> bool" where
  "is_ascii_alphabetic cp \<longleftrightarrow> 65 \<le> cp \<and> cp \<le> 90 \<or> 97 \<le> cp \<and> cp \<le> 122"

definition drive_letter :: "nat list \<Rightarrow> bool" where
  "drive_letter cs = (case cs of a # b # _ \<Rightarrow> b = 58 \<and> is_ascii_alphabetic a | _ \<Rightarrow> False)"

definition validate_path :: "string \<Rightarrow> (file_error, unit) result" where
  "validate_path path =
     (let decoded = percent_decode_once path;
          target = (if decoded \<noteq> path then decoded else path) in
      if target = [] then Inl (Forbidden ''empty path'')
      else if starts_with target (CHR ''/'') \<or> starts_with target (CHR 0x5C) then Inl (Forbidden ''absolute path'')
      else if starts_with target (CHR ''-'') then Inl (Forbidden ''leading dash (option-injection risk)'')
      else if starts_with target (CHR ''~'') then Inl (Forbidden ''leading tilde (home-dir injection)'')
      else if drive_letter (chars target) then Inl (Forbidden ''drive-letter prefix'')
      else and_then (check_chars (chars target)) (\<lambda>_. check_segments path (split_on (CHR ''/'') target)))"

section \<open>The in-memory store\<close>

type_synonym mem_files = "(file_key, string) btree"

definition fs_put :: "mem_files \<Rightarrow> file_key \<Rightarrow> string \<Rightarrow> (file_error, unit) result \<times> mem_files" where
  "fs_put m key bytes =
     (case validate_path (fk_path key) of
        Inl e \<Rightarrow> (Inl e, m)
      | Inr _ \<Rightarrow> (Inr (), bt_insert key bytes m))"

definition fs_get :: "mem_files \<Rightarrow> file_key \<Rightarrow> (file_error, string) result" where
  "fs_get m key = and_then (validate_path (fk_path key)) (\<lambda>_. ok_or FileNotFound (bt_get m key))"

definition fs_delete :: "mem_files \<Rightarrow> file_key \<Rightarrow> (file_error, unit) result \<times> mem_files" where
  "fs_delete m key =
     (case validate_path (fk_path key) of
        Inl e \<Rightarrow> (Inl e, m)
      | Inr _ \<Rightarrow> (Inr (), bt_remove key m))"

definition fs_list :: "mem_files \<Rightarrow> string \<Rightarrow> (file_error, file_entry list) result" where
  "fs_list m user =
     Inr (map (\<lambda>(k, v). \<lparr>entry_path = fk_path k, entry_size = length v\<rparr>)
       (filter (\<lambda>(k, v). fk_user k = user) m))"

section \<open>What a valid path cannot do\<close>

text \<open>How a file system walks a relative path from a directory.\<close>

fun resolve_path :: "string list \<Rightarrow> string list \<Rightarrow> string list" where
  "resolve_path dir [] = dir"
| "resolve_path dir (seg # segs) =
     resolve_path (if seg = ''..'' then butlast dir else if seg = ''.'' \<or> seg = [] then dir else dir @ [seg]) segs"

definition plain_segments :: "string list \<Rightarrow> bool" where
  "plain_segments segs \<longleftrightarrow> (\<forall>seg \<in> set segs. seg \<noteq> ''..'' \<and> seg \<noteq> ''.'' \<and> seg \<noteq> [])"

definition plain_byte :: "char \<Rightarrow> bool" where
  "plain_byte c \<longleftrightarrow> (let b = (of_char c :: nat) in 32 \<le> b \<and> b \<noteq> 127 \<and> b \<notin> set disallowed)"

lemma resolve_plain: "plain_segments segs \<Longrightarrow> resolve_path dir segs = dir @ segs"
  by (induction dir segs rule: resolve_path.induct) (auto simp: plain_segments_def)

lemma check_segments_iff: "check_segments p segs = Inr () \<longleftrightarrow> plain_segments segs"
proof (induction segs)
  case (Cons seg segs)
  show ?case
    unfolding check_segments.simps plain_segments_def using Cons.IH unfolding plain_segments_def by simp
qed (simp add: plain_segments_def)

lemma check_chars_iff: "check_chars cs = Inr () \<longleftrightarrow> (\<forall>c \<in> set cs. \<not> is_control c \<and> c \<notin> set disallowed)"
  by (induction cs) auto

declare utf8_chars.simps(2) [simp del]

text \<open>An ASCII byte of a well-formed string is one of its characters.\<close>

lemma cont_not_ascii: "cont c \<Longrightarrow> \<not> (of_char c :: nat) < 128"
  by (simp add: cont_def)

lemma ascii_byte_is_char:
  "utf8_chars s = Some cs \<Longrightarrow> c \<in> set s \<Longrightarrow> (of_char c :: nat) < 128 \<Longrightarrow> of_char c \<in> set cs"
proof (induction s arbitrary: cs rule: utf8_chars.induct)
  case (2 a s)
  have "(of_char a :: nat) < 128 \<or> 194 \<le> (of_char a :: nat) \<and> (of_char a :: nat) < 245"
    using "2.prems"(1) by (auto simp: utf8_chars.simps(2) Let_def split: if_splits)
  then consider "(of_char a :: nat) < 128" | "194 \<le> (of_char a :: nat) \<and> (of_char a :: nat) < 224"
    | "224 \<le> (of_char a :: nat) \<and> (of_char a :: nat) < 240" | "240 \<le> (of_char a :: nat) \<and> (of_char a :: nat) < 245"
    by atomize_elim linarith
  then show ?case
  proof cases
    case 1
    then show ?thesis using 2 by (auto simp: utf8_chars.simps(2))
  next
    case c: 2
    then show ?thesis using "2.prems" "2.IH"(2)
      by (auto simp: utf8_chars.simps(2) Let_def dest: cont_not_ascii split: list.splits if_splits)
  next
    case c: 3
    then show ?thesis using "2.prems" "2.IH"(3)
      by (auto simp: utf8_chars.simps(2) Let_def dest: cont_not_ascii split: list.splits if_splits)
  next
    case c: 4
    then show ?thesis using "2.prems" "2.IH"(4)
      by (auto simp: utf8_chars.simps(2) Let_def dest: cont_not_ascii split: list.splits if_splits)
  qed
qed simp

lemma checked_bytes_plain:
  assumes "utf8_chars t = Some cs" and "check_chars cs = Inr ()" and "c \<in> set t"
  shows "plain_byte c"
proof (cases "(of_char c :: nat) < 128")
  case True
  then have "of_char c \<in> set cs" using ascii_byte_is_char assms by blast
  then have "\<not> is_control (of_char c)" "of_char c \<notin> set disallowed" using assms(2) by (auto simp: check_chars_iff)
  then show ?thesis using True by (auto simp: plain_byte_def is_control_def Let_def)
next
  case False
  then show ?thesis by (auto simp: plain_byte_def disallowed_def Let_def)
qed

section \<open>Decoding does not hide segments\<close>

lemma hex_pair_append:
  assumes "hex_val d = None"
  shows "hex_pair (s @ d # t) = map_option (\<lambda>(c, rest). (c, rest @ d # t)) (hex_pair s)"
  using assms by (cases s; cases "tl s") (auto simp: hex_pair_def split: list.splits option.splits)

lemma percent_loop_append:
  assumes "d \<noteq> CHR ''%''" and "hex_val d = None"
  shows "percent_loop (s @ d # t) = percent_loop s @ d # percent_loop t"
  using assms
proof (induction s rule: percent_loop.induct)
  case (2 c s)
  then show ?case by (cases "hex_pair s") (auto simp: hex_pair_append)
qed simp

lemma percent_loop_keeps:
  "c \<in> set s \<Longrightarrow> c \<noteq> CHR ''%'' \<Longrightarrow> hex_val c = None \<Longrightarrow> c \<in> set (percent_loop s)"
  by (auto dest!: split_list simp: percent_loop_append)

lemma split_on_ne [simp]: "split_on d a \<noteq> []"
  by (induction a) (auto split: list.splits)

lemma split_on_append: "split_on d (a @ d # b) = split_on d a @ split_on d b"
  by (induction a) (auto split: list.splits)

lemma split_on_none: "d \<notin> set a \<Longrightarrow> split_on d a = [a]"
  by (induction a) auto

lemma percent_loop_no_escape: "CHR ''%'' \<notin> set s \<Longrightarrow> percent_loop s = s"
  by (induction s rule: percent_loop.induct) auto

lemma raw_segment_survives:
  assumes "seg \<in> set (split_on (CHR ''/'') s)" and "CHR ''%'' \<notin> set seg"
  shows "seg \<in> set (split_on (CHR ''/'') (percent_loop s))"
  using assms(1)
proof (induction "length s" arbitrary: s rule: less_induct)
  case less
  have slash: "CHR ''/'' \<noteq> CHR ''%''" "hex_val (CHR ''/'') = None" by (simp_all add: hex_val_def)
  show ?case
  proof (cases "CHR ''/'' \<in> set s")
    case False
    then have "seg = s" using less.prems by (simp add: split_on_none)
    then show ?thesis using False assms(2) by (simp add: percent_loop_no_escape split_on_none)
  next
    case True
    then obtain a b where s: "s = a @ CHR ''/'' # b" "CHR ''/'' \<notin> set a" by (metis split_list_first)
    then have "seg = a \<or> seg \<in> set (split_on (CHR ''/'') b)"
      using less.prems by (auto simp: split_on_append split_on_none)
    then have "seg \<in> set (split_on (CHR ''/'') (percent_loop a)) \<or> seg \<in> set (split_on (CHR ''/'') (percent_loop b))"
      using less.hyps [of b] s assms(2) by (auto simp: percent_loop_no_escape split_on_none)
    then show ?thesis by (auto simp: s percent_loop_append [OF slash] split_on_append)
  qed
qed

definition plain_segment :: "string \<Rightarrow> bool" where
  "plain_segment seg \<longleftrightarrow> seg \<noteq> ''..'' \<and> seg \<noteq> ''.'' \<and> seg \<noteq> []"

lemma bad_segments_raw:
  assumes "plain_segments (split_on (CHR ''/'') (percent_loop s))"
  shows "plain_segments (split_on (CHR ''/'') s)"
proof -
  have *: "plain_segments segs \<longleftrightarrow> list_all plain_segment segs" for segs
    by (simp add: plain_segments_def plain_segment_def list_all_iff)
  have "plain_segment seg" if seg: "seg \<in> set (split_on (CHR ''/'') s)" for seg
  proof (rule ccontr)
    assume bad: "\<not> plain_segment seg"
    then have "CHR ''%'' \<notin> set seg" by (auto simp: plain_segment_def)
    then show False using raw_segment_survives [OF seg] assms bad by (simp add: * list_all_iff)
  qed
  then show ?thesis by (simp add: * list_all_iff)
qed

lemma not_plain_not_hex:
  assumes "\<not> plain_byte c"
  shows "c \<noteq> CHR ''%'' \<and> hex_val c = None"
proof -
  have "c \<noteq> CHR ''%''" using assms by (auto simp: plain_byte_def disallowed_def)
  moreover have "plain_byte c" if h: "hex_val c \<noteq> None"
  proof -
    define b where "b = (of_char c :: nat)"
    have "48 \<le> b \<and> b \<le> 57 \<or> 97 \<le> b \<and> b \<le> 102 \<or> 65 \<le> b \<and> b \<le> 70"
      using h unfolding hex_val_def Let_def b_def [symmetric] by (simp split: if_splits)
    then show ?thesis
      unfolding plain_byte_def Let_def b_def [symmetric] disallowed_def by (elim disjE) simp_all
  qed
  ultimately show ?thesis using assms by blast
qed

lemma validate_path_accepts:
  assumes "validate_path p = Inr ()" and "utf8_chars p \<noteq> None"
  obtains cs where "utf8_chars (percent_decode_once p) = Some cs" "check_chars cs = Inr ()"
    "plain_segments (split_on (CHR ''/'') (percent_decode_once p))"
    "percent_decode_once p = percent_loop p"
proof -
  let ?t = "percent_decode_once p"
  have acc: "?t \<noteq> []" "\<not> starts_with ?t (CHR 0x5C)" "check_chars (chars ?t) = Inr ()"
    "plain_segments (split_on (CHR ''/'') ?t)"
    using assms(1) by (auto simp: validate_path_def Let_def and_then_Inr_iff check_segments_iff split: if_splits)
  have dec: "percent_decode_once p = percent_loop p \<and> utf8_chars (percent_loop p) \<noteq> None"
  proof (cases "CHR ''%'' \<in> set p")
    case True
    have "utf8_chars (percent_loop p) \<noteq> None"
    proof
      assume "utf8_chars (percent_loop p) = None"
      then have "?t = CHR 0x5C # ''0invalid''" using True by (simp add: percent_decode_once_def)
      then show False using acc(2) by (simp add: starts_with_def)
    qed
    then show ?thesis using True by (auto simp: percent_decode_once_def)
  next
    case False
    then show ?thesis using assms(2) by (simp add: percent_decode_once_def percent_loop_no_escape)
  qed
  then show thesis using that acc by (auto simp: chars_def)
qed

section \<open>The interface of a file store\<close>

text \<open>\<open>dyn FileStore\<close> as a record of operations, and what its clients rely on.\<close>

record 'f file_store_ops =
  fop_put :: "'f \<Rightarrow> file_key \<Rightarrow> string \<Rightarrow> (file_error, unit) result \<times> 'f"
  fop_get :: "'f \<Rightarrow> file_key \<Rightarrow> (file_error, string) result"
  fop_delete :: "'f \<Rightarrow> file_key \<Rightarrow> (file_error, unit) result \<times> 'f"
  fop_list :: "'f \<Rightarrow> string \<Rightarrow> (file_error, file_entry list) result"

definition mem_file_ops :: "mem_files file_store_ops" where
  "mem_file_ops = \<lparr>fop_put = fs_put, fop_get = fs_get, fop_delete = fs_delete, fop_list = fs_list\<rparr>"

locale file_store_contract =
  fixes fops :: "'f file_store_ops"
  assumes put_valid: "validate_path (fk_path k) = Inr () \<Longrightarrow>
      fst (fop_put fops m k b) = Inr () \<and> fop_get fops (snd (fop_put fops m k b)) = (fop_get fops m)(k := Inr b)"
    and put_invalid: "validate_path (fk_path k) = Inl e \<Longrightarrow> fop_put fops m k b = (Inl e, m)"
    and delete_valid: "validate_path (fk_path k) = Inr () \<Longrightarrow>
      fst (fop_delete fops m k) = Inr () \<and> fop_get fops (snd (fop_delete fops m k)) = (fop_get fops m)(k := Inl FileNotFound)"
    and delete_invalid: "validate_path (fk_path k) = Inl e \<Longrightarrow> fop_delete fops m k = (Inl e, m)"
begin

lemma put_get: "fst (fop_put fops m k b) = Inr () \<Longrightarrow> fop_get fops (snd (fop_put fops m k b)) k = Inr b"
  using put_valid [of k m b] put_invalid [of k _ m b] by (cases "validate_path (fk_path k)") auto

lemma put_other: "k' \<noteq> k \<Longrightarrow> fop_get fops (snd (fop_put fops m k b)) k' = fop_get fops m k'"
  using put_valid [of k m b] put_invalid [of k _ m b] by (cases "validate_path (fk_path k)") auto

lemma put_overwrites:
  "fop_get fops (snd (fop_put fops (snd (fop_put fops m k a)) k b)) = fop_get fops (snd (fop_put fops m k b))"
  using put_valid [of k] put_invalid [of k] by (cases "validate_path (fk_path k)") auto

end

lemma fs_contract: "file_store_contract mem_file_ops"
  by unfold_locales
    (auto simp: mem_file_ops_def fs_put_def fs_get_def fs_delete_def bt_get_insert bt_get_remove fun_eq_iff)

interpretation mem_files: file_store_contract mem_file_ops
  by (rule fs_contract)

lemma bt_insert_filter_other: "\<not> P (k, v) \<Longrightarrow> (\<And>w. P (k, w) = P (k, v)) \<Longrightarrow> filter P (bt_insert k v m) = filter P m"
  by (induction m) auto

lemma fs_list_entries:
  assumes "bt_wf m" and "fs_list m u = Inr es"
  shows "e \<in> set es \<longleftrightarrow> (\<exists>p v. bt_get m (FileKey u p) = Some v \<and> e = \<lparr>entry_path = p, entry_size = length v\<rparr>)"
proof -
  have get: "bt_get m (FileKey u p) = Some v \<longleftrightarrow> (FileKey u p, v) \<in> set m" for p v
    using bt_wf_distinct [OF assms(1)] by (simp add: bt_get_def)
  have "e \<in> set es \<longleftrightarrow> (\<exists>k v. (k, v) \<in> set m \<and> fk_user k = u \<and> e = \<lparr>entry_path = fk_path k, entry_size = length v\<rparr>)"
    using assms(2) by (auto simp: fs_list_def image_iff split: prod.splits) blast+
  also have "\<dots> \<longleftrightarrow> (\<exists>p v. (FileKey u p, v) \<in> set m \<and> e = \<lparr>entry_path = p, entry_size = length v\<rparr>)"
    by (metis file_key.exhaust_sel file_key.sel)
  finally show ?thesis by (simp add: get)
qed

section \<open>Properties\<close>

text \<open>
  C13. A path that \<open>validate_path\<close> accepts cannot leave the directory it is joined to, neither as it was
  sent nor after one round of percent-decoding: walked from any directory, both descend through
  exactly their own segments; and neither contains a control byte, a NUL, a backslash, a colon or
  another character that the file systems treat specially.
\<close>

theorem validate_path_contained:
  assumes "validate_path p = Inr ()" and "utf8_chars p \<noteq> None"
  shows "resolve_path dir (split_on (CHR ''/'') p) = dir @ split_on (CHR ''/'') p \<and>
    resolve_path dir (split_on (CHR ''/'') (percent_decode_once p)) = dir @ split_on (CHR ''/'') (percent_decode_once p) \<and>
    list_all plain_byte p \<and> list_all plain_byte (percent_decode_once p)"
proof -
  obtain cs where a: "utf8_chars (percent_decode_once p) = Some cs" "check_chars cs = Inr ()"
    "plain_segments (split_on (CHR ''/'') (percent_decode_once p))" "percent_decode_once p = percent_loop p"
    using validate_path_accepts [OF assms] .
  have dec: "list_all plain_byte (percent_decode_once p)"
    using checked_bytes_plain [OF a(1,2)] by (simp add: list_all_iff)
  moreover have "list_all plain_byte p"
    unfolding list_all_iff
  proof (rule ballI, rule ccontr)
    fix c assume "c \<in> set p" and "\<not> plain_byte c"
    then have "c \<in> set (percent_loop p)" using not_plain_not_hex percent_loop_keeps by blast
    then show False using dec \<open>\<not> plain_byte c\<close> a(4) by (auto simp: list_all_iff)
  qed
  moreover have "plain_segments (split_on (CHR ''/'') p)" using a(3,4) bad_segments_raw by simp
  ultimately show ?thesis using a(3) by (simp add: resolve_plain)
qed

theorem validate_path_contained_witness:
  "resolve_path [''data'', ''u1''] (split_on (CHR ''/'') ''job%201/out.tif'') = [''data'', ''u1'', ''job%201'', ''out.tif'']"
proof -
  have "validate_path ''job%201/out.tif'' = Inr ()"
    by (simp add: validate_path_def percent_decode_once_def hex_pair_def hex_val_def Let_def
        utf8_chars.simps(2) starts_with_def drive_letter_def chars_def is_control_def disallowed_def)
  moreover have "utf8_chars ''job%201/out.tif'' \<noteq> None" by (simp add: utf8_chars.simps(2))
  ultimately show ?thesis using validate_path_contained [of "''job%201/out.tif''" "[''data'', ''u1'']"] by simp
qed

text \<open>
  Storing a file under a valid path and reading it back gives the same bytes, replaces what was
  there, leaves every other file readable as before and other users' listings unchanged, and the
  owner's listing shows the path with the byte count.
\<close>

theorem file_store_roundtrip:
  assumes "validate_path (fk_path k) = Inr ()" and "bt_wf m" and "fs_put m k b = (r, m')"
  shows "r = Inr () \<and> bt_wf m' \<and> fs_get m' k = Inr b \<and> (\<forall>k'. k' \<noteq> k \<longrightarrow> fs_get m' k' = fs_get m k') \<and>
    (\<forall>u. u \<noteq> fk_user k \<longrightarrow> fs_list m' u = fs_list m u) \<and>
    (\<exists>es. fs_list m' (fk_user k) = Inr es \<and> \<lparr>entry_path = fk_path k, entry_size = length b\<rparr> \<in> set es)"
proof -
  have m': "r = Inr ()" "m' = bt_insert k b m" using assms by (auto simp: fs_put_def)
  have get: "fs_get m' = (fs_get m)(k := Inr b)"
    using mem_files.put_valid [OF assms(1), of m b] assms(3) by (simp add: mem_file_ops_def)
  have wf: "bt_wf m'" using assms(2) m' by (simp add: bt_wf_insert)
  have "fs_list m' u = fs_list m u" if "u \<noteq> fk_user k" for u
    using that by (simp add: m' fs_list_def bt_insert_filter_other)
  moreover have "\<lparr>entry_path = fk_path k, entry_size = length b\<rparr> \<in> set es" if "fs_list m' (fk_user k) = Inr es" for es
    using fs_list_entries [OF wf that] m'(2) bt_get_insert [of k b m "FileKey (fk_user k) (fk_path k)"] by auto
  ultimately show ?thesis using m'(1) wf get by (simp add: fs_list_def)
qed

theorem file_store_roundtrip_witness:
  "fs_get (snd (fs_put [] (FileKey ''u'' ''a.tif'') ''xyz'')) (FileKey ''u'' ''a.tif'') = Inr ''xyz''"
proof -
  have "validate_path (fk_path (FileKey ''u'' ''a.tif'')) = Inr ()"
    by (simp add: validate_path_def percent_decode_once_def Let_def utf8_chars.simps(2) starts_with_def
        drive_letter_def chars_def is_control_def disallowed_def)
  then show ?thesis using file_store_roundtrip [of "FileKey ''u'' ''a.tif''" "[]" "''xyz''"]
    by (metis bt.wf_empty prod.collapse)
qed

end
