(* ===== verification/Runner.thy ===== *)
theory Runner
  imports Job_Store File_Store
begin

text \<open>
  The job runner (\<open>apps/orbit-openeo/src/runner.rs\<close>) with the event bus (\<open>event_bus.rs\<close>) and the job
  registry (\<open>job_registry.rs\<close>). \<open>run_job\<close> is stated over any job store and any file store, as the code
  takes \<open>dyn JobStore\<close> and \<open>dyn FileStore\<close>; its theorems assume their contracts.
\<close>

section \<open>Events\<close>

datatype job_event_kind = Started | Progress | Completed | Failed | Cancelled

record job_event =
  ev_user :: string
  ev_job :: string
  ev_kind :: job_event_kind

text \<open>The broadcast channel as the sequence of events sent; a send without receivers is no error.\<close>

type_synonym event_bus = "job_event list"

definition publish :: "event_bus \<Rightarrow> job_event \<Rightarrow> event_bus" where
  "publish bus ev = bus @ [ev]"

section \<open>Text helpers of the standard library\<close>

text \<open>The UTF-8 encodings of the characters that \<open>str::trim\<close> removes.\<close>

definition white_space :: "string list" where
  "white_space = map (map char_of)
     ([[9], [10], [11], [12], [13], [32], [194, 133], [194, 160], [225, 154, 128]] @
      map (\<lambda>n. [226, 128, n]) [128, 129, 130, 131, 132, 133, 134, 135, 136, 137, 138, 168, 169, 175] @
      [[226, 129, 159], [227, 128, 128 :: nat]])"

fun strip_seqs :: "nat \<Rightarrow> string list \<Rightarrow> string \<Rightarrow> string" where
  "strip_seqs 0 ws s = s"
| "strip_seqs (Suc n) ws s =
     (case find (\<lambda>w. take (length w) s = w) ws of
        None \<Rightarrow> s
      | Some w \<Rightarrow> strip_seqs n ws (drop (length w) s))"

text \<open>Each round removes at least one byte, so the length bounds the rounds.\<close>

definition trim_start :: "string \<Rightarrow> string" where
  "trim_start s = strip_seqs (length s) white_space s"

definition trim :: "string \<Rightarrow> string" where
  "trim s = rev (let t = rev (trim_start s) in strip_seqs (length t) (map rev white_space) t)"

text \<open>\<open>str::parse::<u64>\<close>: an optional plus sign, then digits, within range.\<close>

definition parse_u64 :: "string \<Rightarrow> nat option" where
  "parse_u64 s =
     (let ds = (case s of c # r \<Rightarrow> if c = CHR ''+'' then r else s | [] \<Rightarrow> [])
      in if ds = [] \<or> \<not> list_all (\<lambda>c. CHR ''0'' \<le> c \<and> c \<le> CHR ''9'') ds then None
         else let v = foldl (\<lambda>a c. 10 * a + (of_char c - 48)) 0 ds
              in if v \<le> u64_max then Some v else None)"

section \<open>The runner\<close>

datatype run_outcome = RunFinished | RunFailed string | StoreError string

record ('s, 'f) world =
  w_store :: 's
  w_files :: 'f
  w_bus :: event_bus
  w_terminal :: "string list"

definition media_ext :: "string \<Rightarrow> string" where
  "media_ext m =
     (if m = ''application/json'' then ''json''
      else if m = ''image/tiff'' \<or> m = ''image/geotiff'' then ''tif''
      else if m = ''image/png'' then ''png''
      else if m = ''application/x-netcdf'' then ''nc''
      else ''bin'')"

definition default_asset_name :: "string \<Rightarrow> string" where
  "default_asset_name ct = ''result.'' @ media_ext (trim (hd (split_on (CHR '';'') ct)))"

fun format_exec_error :: "exec_error \<Rightarrow> string" where
  "format_exec_error (InvalidGraph m) = ''invalid_graph: '' @ m"
| "format_exec_error (UnknownProcess p) = ''unknown_process: '' @ p"
| "format_exec_error (Backend m) = ''backend: '' @ m"
| "format_exec_error (PerPixelComputation m) = ''per_pixel_computation: '' @ m"

definition timeout_secs :: "string option \<Rightarrow> nat" where
  "timeout_secs env =
     (case Option.bind env parse_u64 of Some n \<Rightarrow> if n > 0 then n else 600 | None \<Rightarrow> 600)"

text \<open>
  One call of the store in sequence: \<open>clock k\<close> is the time the \<open>k\<close>-th write reads. \<open>emit\<close> publishes
  the runner's event for this job.
\<close>

definition emit :: "string \<Rightarrow> string \<Rightarrow> job_event_kind \<Rightarrow> ('s, 'f) world \<Rightarrow> ('s, 'f) world" where
  "emit jid user k w = w\<lparr>w_bus := publish (w_bus w) \<lparr>ev_user = user, ev_job = jid, ev_kind = k\<rparr>\<rparr>"

definition try_log :: "'s job_store_ops \<Rightarrow> 64 word \<Rightarrow> string \<Rightarrow> string \<Rightarrow> string \<Rightarrow> ('s, 'f) world \<Rightarrow> ('s, 'f) world" where
  "try_log ops now jid lv msg w = w\<lparr>w_store := snd (op_append_log ops (w_store w) now jid lv msg)\<rparr>"

definition try_progress :: "'s job_store_ops \<Rightarrow> 64 word \<Rightarrow> string \<Rightarrow> nat \<Rightarrow> ('s, 'f) world \<Rightarrow> ('s, 'f) world" where
  "try_progress ops now jid p w = w\<lparr>w_store := snd (op_set_progress ops (w_store w) now jid (f64_of_nat p))\<rparr>"

definition try_status :: "'s job_store_ops \<Rightarrow> 64 word \<Rightarrow> string \<Rightarrow> job_status \<Rightarrow> ('s, 'f) world \<Rightarrow> ('s, 'f) world" where
  "try_status ops now jid st w = w\<lparr>w_store := snd (op_set_status ops (w_store w) now jid st)\<rparr>"

definition record_terminal :: "string \<Rightarrow> ('s, 'f) world \<Rightarrow> ('s, 'f) world" where
  "record_terminal outcome w = w\<lparr>w_terminal := w_terminal w @ [outcome]\<rparr>"

text \<open>Queued, then running, then the first progress tick.\<close>

definition run_enter ::
  "'s job_store_ops \<Rightarrow> (nat \<Rightarrow> 64 word) \<Rightarrow> string \<Rightarrow> string \<Rightarrow> ('s, 'f) world
   \<Rightarrow> (job_error, unit) result \<times> ('s, 'f) world" where
  "run_enter ops clock jid user w =
     (case op_set_status ops (w_store w) (clock 0) jid Queued of
        (Inl e, s1) \<Rightarrow> (Inl e, w\<lparr>w_store := s1\<rparr>)
      | (Inr _, s1) \<Rightarrow>
          let w1 = emit jid user Started (w\<lparr>w_store := s1\<rparr>) in
          (case op_set_status ops (w_store w1) (clock 1) jid Running of
             (Inl e, s2) \<Rightarrow> (Inl e, w1\<lparr>w_store := s2\<rparr>)
           | (Inr _, s2) \<Rightarrow>
               (Inr (), emit jid user Progress
                  (try_progress ops (clock 3) jid 10
                    (try_log ops (clock 2) jid ''info'' ''job started'' (w1\<lparr>w_store := s2\<rparr>))))))"

text \<open>Store the bytes, attach the asset, finish.\<close>

definition run_persist ::
  "'s job_store_ops \<Rightarrow> 'f file_store_ops \<Rightarrow> (nat \<Rightarrow> 64 word) \<Rightarrow> string \<Rightarrow> string \<Rightarrow> sync_result \<Rightarrow> ('s, 'f) world
   \<Rightarrow> run_outcome \<times> ('s, 'f) world" where
  "run_persist ops fops clock jid user res w =
     (let name = default_asset_name (content_type res);
          size = of_nat (length (result_body res)) in
      case fop_put fops (w_files w) (FileKey jid name) (result_body res) of
        (Inl e, f1) \<Rightarrow>
          (RunFailed (''file_store: '' @ file_error_display e),
           emit jid user Failed (try_status ops (clock 5) jid Error (w\<lparr>w_files := f1\<rparr>)))
      | (Inr _, f1) \<Rightarrow>
          (let w1 = w\<lparr>w_files := f1\<rparr> in
           case op_add_asset ops (w_store w1) (clock 5) jid
                  \<lparr>asset_name = name, media_type = content_type res, asset_size = size\<rparr> of
             (Inl e, s2) \<Rightarrow>
               (StoreError (''add_asset: '' @ job_error_display e),
                emit jid user Failed (try_status ops (clock 6) jid Error (w1\<lparr>w_store := s2\<rparr>)))
           | (Inr _, s2) \<Rightarrow>
               (let w2 = emit jid user Progress (try_progress ops (clock 6) jid 95 (w1\<lparr>w_store := s2\<rparr>)) in
                case op_set_status ops (w_store w2) (clock 7) jid Finished of
                  (Inl e, s3) \<Rightarrow> (StoreError (job_error_display e), w2\<lparr>w_store := s3\<rparr>)
                | (Inr _, s3) \<Rightarrow>
                    (RunFinished, record_terminal ''finished'' (emit jid user Completed
                      (try_progress ops (clock 9) jid 100
                        (try_log ops (clock 8) jid ''info'' ''job finished'' (w2\<lparr>w_store := s3\<rparr>))))))))"

text \<open>
  \<open>exec\<close> is \<open>executor.run_sync\<close> under the timeout: \<open>None\<close> when the deadline passes first. \<open>env\<close> is the
  variable \<open>ORBIT_JOB_TIMEOUT_SECS\<close>.
\<close>

definition run_job ::
  "'s job_store_ops \<Rightarrow> 'f file_store_ops \<Rightarrow> (nat \<Rightarrow> 64 word) \<Rightarrow> string option
   \<Rightarrow> (nat \<Rightarrow> json \<Rightarrow> (exec_error, sync_result) result option)
   \<Rightarrow> string \<Rightarrow> string \<Rightarrow> json \<Rightarrow> ('s, 'f) world \<Rightarrow> run_outcome \<times> ('s, 'f) world" where
  "run_job ops fops clock env exec jid user body w =
     (case run_enter ops clock jid user w of
        (Inl e, w1) \<Rightarrow> (StoreError (job_error_display e), w1)
      | (Inr _, w1) \<Rightarrow>
          (let secs = timeout_secs env;
               late = ''job timed out after '' @ show_nat secs @ ''s'' in
           case exec secs body of
             None \<Rightarrow>
               (RunFailed late, record_terminal ''timeout'' (emit jid user Failed
                  (try_status ops (clock 5) jid Error (try_log ops (clock 4) jid ''error'' late w1))))
           | Some result \<Rightarrow>
               (let w2 = emit jid user Progress (try_progress ops (clock 4) jid 80 w1) in
                case result of
                  Inr res \<Rightarrow> run_persist ops fops clock jid user res w2
                | Inl e \<Rightarrow>
                    (RunFailed (format_exec_error e), record_terminal ''error'' (emit jid user Failed
                      (try_status ops (clock 6) jid Error
                        (try_log ops (clock 5) jid ''error'' (''executor failed: '' @ format_exec_error e) w2)))))))"

definition map_not_found :: "job_error \<Rightarrow> run_outcome" where
  "map_not_found e = StoreError (job_error_display e)"

section \<open>The job registry\<close>

text \<open>
  In-flight jobs by id. An entry is the cancel signal of its supervisor and the supervisor's handle;
  \<open>Notify::notify_one\<close> buffers one permit, so signalling is setting a flag on that \<open>Notify\<close>.
\<close>

record registry =
  reg_entries :: "string \<Rightarrow> (nat \<times> nat) option"
  reg_notified :: "nat set"

definition registry_new :: registry where "registry_new = \<lparr>reg_entries = Map.empty, reg_notified = {}\<rparr>"

definition reg_register :: "registry \<Rightarrow> string \<Rightarrow> nat \<Rightarrow> nat \<Rightarrow> registry" where
  "reg_register g i notify handle = g\<lparr>reg_entries := (reg_entries g)(i \<mapsto> (notify, handle))\<rparr>"

definition reg_cancel :: "registry \<Rightarrow> string \<Rightarrow> bool \<times> registry" where
  "reg_cancel g i =
     (case reg_entries g i of
        Some (n, h) \<Rightarrow> (True, g\<lparr>reg_notified := insert n (reg_notified g)\<rparr>)
      | None \<Rightarrow> (False, g))"

definition reg_deregister :: "registry \<Rightarrow> string \<Rightarrow> registry" where
  "reg_deregister g i = g\<lparr>reg_entries := (reg_entries g)(i := None)\<rparr>"

definition reg_in_flight :: "registry \<Rightarrow> nat" where
  "reg_in_flight g = card (dom (reg_entries g))"

section \<open>Running a job over stores that keep their contracts\<close>

lemma writes_job_present:
  assumes "writes_job gt lg s i f out" and "gt s i = Inr r"
  obtains s' where "out = (Inr (), s')" "gt s' = (gt s)(i := Inr (f r))" "lg s' = lg s"
  using assms by (cases out) (auto simp: writes_job_def)

lemma writes_job_absent: "writes_job gt lg s i f out \<Longrightarrow> gt s i = Inl e \<Longrightarrow> out = (Inl (JobNotFound i), s)"
  by (simp add: writes_job_def)

lemma asset_path_valid: "validate_path (default_asset_name ct) = Inr ()"
proof -
  have ext: "media_ext m \<in> {''json'', ''tif'', ''png'', ''nc'', ''bin''}" for m by (simp add: media_ext_def)
  have "validate_path (''result.'' @ e) = Inr ()" if "e \<in> {''json'', ''tif'', ''png'', ''nc'', ''bin''}" for e
    using that
    by (elim insertE emptyE)
      (simp_all add: validate_path_def percent_decode_once_def Let_def utf8_chars.simps(2) starts_with_def
        drive_letter_def chars_def is_control_def disallowed_def is_ascii_alphabetic_def)
  then show ?thesis using ext unfolding default_asset_name_def by blast
qed

text \<open>The observable effect of a run on the job store: what one job's record becomes.\<close>

definition job_now :: "'s job_store_ops \<Rightarrow> string \<Rightarrow> ('s, 'f) world \<Rightarrow> job_record \<Rightarrow> ('s, 'f) world \<Rightarrow> bool" where
  "job_now ops i w0 r w \<longleftrightarrow> op_get ops (w_store w) = (op_get ops (w_store w0))(i := Inr r)"

lemma job_now_world:
  "job_now ops i w0 r w \<Longrightarrow> w_store w' = w_store w \<Longrightarrow> job_now ops i w0 r w'"
  by (simp add: job_now_def)

lemma world_simps [simp]:
  "w_store (emit jid u k w) = w_store w" "w_files (emit jid u k w) = w_files w"
  "w_bus (emit jid u k w) = w_bus w @ [\<lparr>ev_user = u, ev_job = jid, ev_kind = k\<rparr>]"
  "w_terminal (emit jid u k w) = w_terminal w"
  "w_store (record_terminal oc w) = w_store w" "w_files (record_terminal oc w) = w_files w"
  "w_bus (record_terminal oc w) = w_bus w" "w_terminal (record_terminal oc w) = w_terminal w @ [oc]"
  "w_files (try_log ops now jid lv msg w) = w_files w" "w_bus (try_log ops now jid lv msg w) = w_bus w"
  "w_files (try_progress ops now jid p w) = w_files w" "w_bus (try_progress ops now jid p w) = w_bus w"
  "w_files (try_status ops now jid st w) = w_files w" "w_bus (try_status ops now jid st w) = w_bus w"
  "w_terminal (try_log ops now jid lv msg w) = w_terminal w"
  "w_terminal (try_progress ops now jid p w) = w_terminal w"
  "w_terminal (try_status ops now jid st w) = w_terminal w"
  by (simp_all add: emit_def publish_def record_terminal_def try_log_def try_progress_def try_status_def)

definition clamped :: "nat \<Rightarrow> f64" where
  "clamped p = f64_clamp (f64_of_nat p) (f64_of_nat 0) (f64_of_nat 100)"

context job_store_contract
begin

lemma try_log_now: "job_now ops i w0 r w \<Longrightarrow> job_now ops i w0 r (try_log ops now i lv msg w)"
  by (simp add: job_now_def try_log_def append_log_get)

lemma try_progress_now:
  assumes "job_now ops i w0 r w"
  shows "job_now ops i w0 (r\<lparr>progress := Some (clamped p), updated := now\<rparr>) (try_progress ops now i p w)"
proof -
  have "op_get ops (w_store w) i = Inr r" using assms by (simp add: job_now_def)
  from writes_job_present [OF set_progress [where p = "f64_of_nat p" and now = now] this] obtain s' where
    "op_set_progress ops (w_store w) now i (f64_of_nat p) = (Inr (), s')"
    "op_get ops s' = (op_get ops (w_store w))(i := Inr (r\<lparr>progress := Some (clamped p), updated := now\<rparr>))"
    unfolding clamped_def by metis
  then show ?thesis using assms unfolding job_now_def try_progress_def by simp
qed

lemma try_status_now:
  assumes "job_now ops i w0 r w"
  shows "job_now ops i w0 (r\<lparr>status := st, updated := now\<rparr>) (try_status ops now i st w)"
proof -
  have "op_get ops (w_store w) i = Inr r" using assms by (simp add: job_now_def)
  from writes_job_present [OF set_status [where st = st and now = now] this] obtain s' where
    "op_set_status ops (w_store w) now i st = (Inr (), s')"
    "op_get ops s' = (op_get ops (w_store w))(i := Inr (r\<lparr>status := st, updated := now\<rparr>))" by metis
  then show ?thesis using assms unfolding job_now_def try_status_def by simp
qed

lemma set_status_now:
  assumes "job_now ops i w0 r w"
  obtains s' where "op_set_status ops (w_store w) now i st = (Inr (), s')"
    "job_now ops i w0 (r\<lparr>status := st, updated := now\<rparr>) (w\<lparr>w_store := s'\<rparr>)"
proof -
  have "op_get ops (w_store w) i = Inr r" using assms by (simp add: job_now_def)
  from writes_job_present [OF set_status [where st = st and now = now] this] obtain s' where
    "op_set_status ops (w_store w) now i st = (Inr (), s')"
    "op_get ops s' = (op_get ops (w_store w))(i := Inr (r\<lparr>status := st, updated := now\<rparr>))" by metis
  then show thesis using assms that [of s'] unfolding job_now_def by simp
qed

lemma add_asset_now:
  assumes "job_now ops i w0 r w"
  obtains s' where "op_add_asset ops (w_store w) now i a = (Inr (), s')"
    "job_now ops i w0 (r\<lparr>assets := assets r @ [a], updated := now\<rparr>) (w\<lparr>w_store := s'\<rparr>)"
proof -
  have "op_get ops (w_store w) i = Inr r" using assms by (simp add: job_now_def)
  from writes_job_present [OF add_asset [where a = a and now = now] this] obtain s' where
    "op_add_asset ops (w_store w) now i a = (Inr (), s')"
    "op_get ops s' = (op_get ops (w_store w))(i := Inr (r\<lparr>assets := assets r @ [a], updated := now\<rparr>))" by metis
  then show thesis using assms that [of s'] unfolding job_now_def by simp
qed

lemma run_enter_present:
  assumes "op_get ops (w_store w) i = Inr r"
  obtains w1 r1 where "run_enter ops clock i user w = (Inr (), w1)" "job_now ops i w r1 w1"
    "status r1 = Running" "assets r1 = assets r" "job_id r1 = job_id r" "w_files w1 = w_files w" "w_terminal w1 = w_terminal w"
    "w_bus w1 = w_bus w @ map (\<lambda>k. \<lparr>ev_user = user, ev_job = i, ev_kind = k\<rparr>) [Started, Progress]"
proof -
  have "job_now ops i w r w" using assms by (simp add: job_now_def fun_eq_iff)
  from set_status_now [OF this, where now = "clock 0" and st = Queued] obtain s1 where
    s1: "op_set_status ops (w_store w) (clock 0) i Queued = (Inr (), s1)"
    "job_now ops i w (r\<lparr>status := Queued, updated := clock 0\<rparr>) (w\<lparr>w_store := s1\<rparr>)" by blast
  define w1 where "w1 = emit i user Started (w\<lparr>w_store := s1\<rparr>)"
  have "job_now ops i w (r\<lparr>status := Queued, updated := clock 0\<rparr>) w1"
    using s1(2) by (rule job_now_world) (simp add: w1_def)
  from set_status_now [OF this, where now = "clock 1" and st = Running] obtain s2 where
    s2: "op_set_status ops (w_store w1) (clock 1) i Running = (Inr (), s2)"
    "job_now ops i w (r\<lparr>status := Running, updated := clock 1\<rparr>) (w1\<lparr>w_store := s2\<rparr>)" by auto
  note now = try_progress_now [OF try_log_now [OF s2(2), where now = "clock 2" and lv = "''info''" and msg = "''job started''"], where p = 10 and now = "clock 3"]
  show thesis
    by (rule that [of "emit i user Progress (try_progress ops (clock 3) i 10
          (try_log ops (clock 2) i ''info'' ''job started'' (w1\<lparr>w_store := s2\<rparr>)))"
        "r\<lparr>status := Running, progress := Some (clamped 10), updated := clock 3\<rparr>"])
      (use now in \<open>simp_all add: run_enter_def s1(1) s2(1) [unfolded w1_def, simplified] w1_def Let_def job_now_def\<close>)
qed

lemma run_enter_absent:
  assumes "op_get ops (w_store w) i = Inl e"
  shows "run_enter ops clock i user w = (Inl (JobNotFound i), w)"
  using writes_job_absent [OF set_status assms] by (simp add: run_enter_def)

end

text \<open>Both contracts together: what the runner is built on.\<close>

locale runner_env = job_store_contract ops + file_store_contract fops
  for ops :: "'s job_store_ops" and fops :: "'f file_store_ops"
begin

lemma run_persist_finishes:
  assumes "job_now ops i w0 r w" and "a = \<lparr>asset_name = default_asset_name (content_type res),
    media_type = content_type res, asset_size = of_nat (length (result_body res))\<rparr>"
  obtains w' r' where "run_persist ops fops clock i user res w = (RunFinished, w')" "job_now ops i w0 r' w'"
    "status r' = Finished" "progress r' = Some (clamped 100)" "assets r' = assets r @ [a]" "job_id r' = job_id r"
    "fop_get fops (w_files w') = (fop_get fops (w_files w))(FileKey i (asset_name a) := Inr (result_body res))"
    "w_terminal w' = w_terminal w @ [''finished'']"
    "w_bus w' = w_bus w @ map (\<lambda>k. \<lparr>ev_user = user, ev_job = i, ev_kind = k\<rparr>) [Progress, Completed]"
proof -
  let ?key = "FileKey i (default_asset_name (content_type res))"
  have "validate_path (fk_path ?key) = Inr ()" by (simp add: asset_path_valid)
  from put_valid [OF this, of "w_files w" "result_body res"] obtain f1 where
    f1: "fop_put fops (w_files w) ?key (result_body res) = (Inr (), f1)"
    "fop_get fops f1 = (fop_get fops (w_files w))(?key := Inr (result_body res))"
    by (metis prod.collapse)
  define w1 where "w1 = w\<lparr>w_files := f1\<rparr>"
  have "job_now ops i w0 r w1" using assms(1) by (rule job_now_world) (simp add: w1_def)
  from add_asset_now [OF this, where now = "clock 5" and a = a] obtain s2 where
    s2: "op_add_asset ops (w_store w1) (clock 5) i a = (Inr (), s2)"
    "job_now ops i w0 (r\<lparr>assets := assets r @ [a], updated := clock 5\<rparr>) (w1\<lparr>w_store := s2\<rparr>)" .
  define w2 where "w2 = emit i user Progress (try_progress ops (clock 6) i 95 (w1\<lparr>w_store := s2\<rparr>))"
  define r2 where "r2 = r\<lparr>assets := assets r @ [a], updated := clock 5\<rparr>\<lparr>progress := Some (clamped 95), updated := clock 6\<rparr>"
  have "job_now ops i w0 r2 w2"
    unfolding r2_def
    by (rule job_now_world [OF try_progress_now [OF s2(2), where p = 95 and now = "clock 6"]]) (simp add: w2_def)
  from set_status_now [OF this, where now = "clock 7" and st = Finished] obtain s3 where
    s3: "op_set_status ops (w_store w2) (clock 7) i Finished = (Inr (), s3)"
    "job_now ops i w0 (r2\<lparr>status := Finished, updated := clock 7\<rparr>) (w2\<lparr>w_store := s3\<rparr>)" .
  note fin = try_progress_now [OF try_log_now [OF s3(2), where now = "clock 8" and lv = "''info''" and msg = "''job finished''"],
      where p = 100 and now = "clock 9"]
  define w' where "w' = record_terminal ''finished'' (emit i user Completed (try_progress ops (clock 9) i 100
     (try_log ops (clock 8) i ''info'' ''job finished'' (w2\<lparr>w_store := s3\<rparr>))))"
  have run: "run_persist ops fops clock i user res w = (RunFinished, w')"
    by (simp only: run_persist_def Let_def f1(1) prod.case sum.case w1_def [symmetric] assms(2) [symmetric]
        s2(1) w2_def [symmetric] s3(1) w'_def)
  have now: "job_now ops i w0 (r2\<lparr>status := Finished, updated := clock 7\<rparr>\<lparr>progress := Some (clamped 100), updated := clock 9\<rparr>) w'"
    by (rule job_now_world [OF fin]) (simp add: w'_def)
  show thesis
    by (rule that [OF run now]) (simp_all add: r2_def w'_def w2_def w1_def f1(2) assms(2))
qed

lemma run_job_finishes:
  assumes "op_get ops (w_store w) i = Inr r" and "exec (timeout_secs env) body = Some (Inr res)"
    and "a = \<lparr>asset_name = default_asset_name (content_type res), media_type = content_type res,
      asset_size = of_nat (length (result_body res))\<rparr>"
  shows "\<exists>w' r'. run_job ops fops clock env exec i user body w = (RunFinished, w') \<and> job_now ops i w r' w' \<and>
    status r' = Finished \<and> progress r' = Some (clamped 100) \<and> assets r' = assets r @ [a] \<and> job_id r' = job_id r \<and>
    fop_get fops (w_files w') = (fop_get fops (w_files w))(FileKey i (asset_name a) := Inr (result_body res)) \<and>
    w_terminal w' = w_terminal w @ [''finished''] \<and>
    w_bus w' = w_bus w @ map (\<lambda>k. \<lparr>ev_user = user, ev_job = i, ev_kind = k\<rparr>) [Started, Progress, Progress, Progress, Completed]"
proof -
  obtain w1 r1 where w1: "run_enter ops clock i user w = (Inr (), w1)" "job_now ops i w r1 w1"
    "assets r1 = assets r" "job_id r1 = job_id r" "w_files w1 = w_files w" "w_terminal w1 = w_terminal w"
    "w_bus w1 = w_bus w @ map (\<lambda>k. \<lparr>ev_user = user, ev_job = i, ev_kind = k\<rparr>) [Started, Progress]"
    using run_enter_present [OF assms(1), of clock user] by metis
  define w2 where "w2 = emit i user Progress (try_progress ops (clock 4) i 80 w1)"
  define r2 where "r2 = r1\<lparr>progress := Some (clamped 80), updated := clock 4\<rparr>"
  have "job_now ops i w r2 w2"
    unfolding r2_def by (rule job_now_world [OF try_progress_now [OF w1(2), where p = 80 and now = "clock 4"]]) (simp add: w2_def)
  from run_persist_finishes [OF this assms(3), of clock user]
  obtain w' r' where p: "run_persist ops fops clock i user res w2 = (RunFinished, w')" "job_now ops i w r' w'"
    "status r' = Finished" "progress r' = Some (clamped 100)" "assets r' = assets r2 @ [a]" "job_id r' = job_id r2"
    "fop_get fops (w_files w') = (fop_get fops (w_files w2))(FileKey i (asset_name a) := Inr (result_body res))"
    "w_terminal w' = w_terminal w2 @ [''finished'']"
    "w_bus w' = w_bus w2 @ map (\<lambda>k. \<lparr>ev_user = user, ev_job = i, ev_kind = k\<rparr>) [Progress, Completed]"
    .
  have "run_job ops fops clock env exec i user body w = (RunFinished, w')"
    by (simp add: run_job_def w1(1) assms(2) p(1) w2_def [symmetric] Let_def)
  then show ?thesis using p w1 by (intro exI [of _ w'] exI [of _ r']) (simp add: w2_def r2_def)
qed

text \<open>An executor error or a timeout: the job ends in \<open>Error\<close> and nothing was stored.\<close>

lemma run_job_fails:
  assumes "op_get ops (w_store w) i = Inr r"
    and "exec (timeout_secs env) body = Some (Inl e) \<and> msg = format_exec_error e \<and> kinds = [Started, Progress, Progress, Failed] \<and> oc = ''error'' \<or>
      exec (timeout_secs env) body = None \<and> msg = ''job timed out after '' @ show_nat (timeout_secs env) @ ''s'' \<and>
        kinds = [Started, Progress, Failed] \<and> oc = ''timeout''"
  shows "\<exists>w' r'. run_job ops fops clock env exec i user body w = (RunFailed msg, w') \<and> job_now ops i w r' w' \<and>
    status r' = Error \<and> assets r' = assets r \<and> w_files w' = w_files w \<and> w_terminal w' = w_terminal w @ [oc] \<and>
    w_bus w' = w_bus w @ map (\<lambda>k. \<lparr>ev_user = user, ev_job = i, ev_kind = k\<rparr>) kinds"
proof -
  obtain w1 r1 where w1: "run_enter ops clock i user w = (Inr (), w1)" "job_now ops i w r1 w1"
    "assets r1 = assets r" "w_files w1 = w_files w" "w_terminal w1 = w_terminal w"
    "w_bus w1 = w_bus w @ map (\<lambda>k. \<lparr>ev_user = user, ev_job = i, ev_kind = k\<rparr>) [Started, Progress]"
    using run_enter_present [OF assms(1), of clock user] by metis
  from assms(2) show ?thesis
  proof
    assume a: "exec (timeout_secs env) body = Some (Inl e) \<and> msg = format_exec_error e \<and> kinds = [Started, Progress, Progress, Failed] \<and> oc = ''error''"
    let ?w2 = "emit i user Progress (try_progress ops (clock 4) i 80 w1)"
    have "job_now ops i w (r1\<lparr>progress := Some (clamped 80), updated := clock 4\<rparr>) ?w2"
      by (rule job_now_world [OF try_progress_now [OF w1(2), where p = 80 and now = "clock 4"]]) simp
    note now = try_status_now [OF try_log_now [OF this, where lv = "''error''" and
          msg = "''executor failed: '' @ format_exec_error e" and now = "clock 5"], where st = Error and now = "clock 6"]
    have run: "run_job ops fops clock env exec i user body w =
       (RunFailed msg, record_terminal oc (emit i user Failed (try_status ops (clock 6) i Error
          (try_log ops (clock 5) i ''error'' (''executor failed: '' @ format_exec_error e) ?w2))))"
      using a by (simp add: run_job_def w1(1) Let_def)
    show ?thesis
      by (rule exI, rule exI, rule conjI [OF run], rule conjI, rule job_now_world [OF now])
        (use a w1 in simp_all)
  next
    assume a: "exec (timeout_secs env) body = None \<and> msg = ''job timed out after '' @ show_nat (timeout_secs env) @ ''s'' \<and>
        kinds = [Started, Progress, Failed] \<and> oc = ''timeout''"
    note now = try_status_now [OF try_log_now [OF w1(2), where lv = "''error''" and msg = msg and now = "clock 4"],
        where st = Error and now = "clock 5"]
    have run: "run_job ops fops clock env exec i user body w =
       (RunFailed msg, record_terminal oc (emit i user Failed (try_status ops (clock 5) i Error
          (try_log ops (clock 4) i ''error'' msg w1))))"
      using a by (simp add: run_job_def w1(1) Let_def)
    show ?thesis
      by (rule exI, rule exI, rule conjI [OF run], rule conjI, rule job_now_world [OF now])
        (use a w1 in simp_all)
  qed
qed

lemma run_job_absent:
  assumes "op_get ops (w_store w) i = Inl e"
  shows "run_job ops fops clock env exec i user body w = (StoreError (job_error_display (JobNotFound i)), w)"
  by (simp add: run_job_def run_enter_absent [OF assms])

end

interpretation mem_run: runner_env mem_ops mem_file_ops
  by (intro runner_env.intro mem_store_contract fs_contract)

section \<open>Properties\<close>

text \<open>
  C15. A run whose executor answers succeeds, over any job store and file store that keep their
  contracts: the job ends \<open>finished\<close> at progress 100 with exactly one new asset, whose recorded name,
  media type and size are those of the result; the result's bytes are readable under that name;
  no other job and no other file changes; and the events published are started, three progress
  ticks, completed.
\<close>

theorem run_job_success:
  assumes "job_store_contract ops" and "file_store_contract fops"
    and "op_get ops (w_store w) i = Inr r" and "exec (timeout_secs env) body = Some (Inr res)"
    and "a = \<lparr>asset_name = default_asset_name (content_type res), media_type = content_type res,
      asset_size = of_nat (length (result_body res))\<rparr>"
  shows "\<exists>w' r'. run_job ops fops clock env exec i user body w = (RunFinished, w') \<and>
    op_get ops (w_store w') = (op_get ops (w_store w))(i := Inr r') \<and>
    status r' = Finished \<and> progress r' = Some (clamped 100) \<and> assets r' = assets r @ [a] \<and> job_id r' = job_id r \<and>
    fop_get fops (w_files w') = (fop_get fops (w_files w))(FileKey i (asset_name a) := Inr (result_body res)) \<and>
    w_terminal w' = w_terminal w @ [''finished''] \<and>
    w_bus w' = w_bus w @ map (\<lambda>k. \<lparr>ev_user = user, ev_job = i, ev_kind = k\<rparr>) [Started, Progress, Progress, Progress, Completed]"
  using runner_env.run_job_finishes [OF runner_env.intro [OF assms(1,2)] assms(3), where exec = exec, OF assms(4,5)] by (simp add: job_now_def)

definition sample_world :: "(mem_store, mem_files) world" where
  "sample_world = \<lparr>w_store = sample_store, w_files = [], w_bus = [], w_terminal = []\<rparr>"

lemma sample_world_get: "\<exists>r. op_get mem_ops (w_store sample_world) ''j1'' = Inr r \<and> assets r = []"
  by (simp add: sample_world_def sample_store_def mem_ops_def mem_create_def mem_new_def mem_get_def Let_def)

theorem run_job_success_witness:
  "\<exists>w'. run_job mem_ops mem_file_ops (\<lambda>_. 9) None
      (\<lambda>_ _. Some (Inr \<lparr>content_type = ''application/json'', result_body = ''null''\<rparr>))
      ''j1'' ''anonymous'' JNull sample_world = (RunFinished, w') \<and> w_terminal w' = [''finished'']"
proof -
  obtain r where r: "op_get mem_ops (w_store sample_world) ''j1'' = Inr r" using sample_world_get by blast
  show ?thesis
    using run_job_success [OF mem_store_contract fs_contract r, where body = JNull and env = None and
        exec = "\<lambda>_ _. Some (Inr \<lparr>content_type = ''application/json'', result_body = ''null''\<rparr>)" and
        clock = "\<lambda>_. 9" and user = "''anonymous''"]
    by (simp add: sample_world_def) metis
qed

text \<open>
  C16. A run whose executor fails or exceeds its deadline ends with the job in \<open>error\<close>: no asset is
  recorded, no file written, no other job touched, the last event is \<open>failed\<close>, and the outcome
  carries the executor's message or the timeout.
\<close>

theorem run_job_failure:
  assumes "job_store_contract ops" and "file_store_contract fops" and "op_get ops (w_store w) i = Inr r"
    and "exec (timeout_secs env) body = Some (Inl e) \<and> msg = format_exec_error e \<and> kinds = [Started, Progress, Progress, Failed] \<and> oc = ''error'' \<or>
      exec (timeout_secs env) body = None \<and> msg = ''job timed out after '' @ show_nat (timeout_secs env) @ ''s'' \<and>
        kinds = [Started, Progress, Failed] \<and> oc = ''timeout''"
  shows "\<exists>w' r'. run_job ops fops clock env exec i user body w = (RunFailed msg, w') \<and>
    op_get ops (w_store w') = (op_get ops (w_store w))(i := Inr r') \<and>
    status r' = Error \<and> assets r' = assets r \<and> w_files w' = w_files w \<and> w_terminal w' = w_terminal w @ [oc] \<and>
    w_bus w' = w_bus w @ map (\<lambda>k. \<lparr>ev_user = user, ev_job = i, ev_kind = k\<rparr>) kinds"
  using runner_env.run_job_fails [OF runner_env.intro [OF assms(1,2)] assms(3), where exec = exec, OF assms(4)] by (simp add: job_now_def)

theorem run_job_failure_witness:
  "\<exists>w'. run_job mem_ops mem_file_ops (\<lambda>_. 9) (Some ''30'') (\<lambda>_ _. Some (Inl (UnknownProcess ''mask'')))
      ''j1'' ''anonymous'' JNull sample_world = (RunFailed ''unknown_process: mask'', w') \<and> w_files w' = []"
proof -
  obtain r where r: "op_get mem_ops (w_store sample_world) ''j1'' = Inr r" using sample_world_get by blast
  show ?thesis
    using run_job_failure [OF mem_store_contract fs_contract r,
        where exec = "\<lambda>_ _. Some (Inl (UnknownProcess ''mask''))" and env = "Some ''30''" and body = JNull and
          e = "UnknownProcess ''mask''" and clock = "\<lambda>_. 9" and user = "''anonymous''"]
    by (simp add: sample_world_def) metis
qed

text \<open>
  A run for a job the store does not have reports the store error and changes nothing: no status
  is written, nothing is published, the executor is not consulted.
\<close>

theorem run_job_unknown:
  assumes "job_store_contract ops" and "file_store_contract fops" and "op_get ops (w_store w) i = Inl e"
  shows "run_job ops fops clock env exec i user body w = (StoreError (''job not found: '' @ i), w)"
  using runner_env.run_job_absent [OF runner_env.intro [OF assms(1,2)] assms(3)] by simp

theorem run_job_unknown_witness:
  "run_job mem_ops mem_file_ops (\<lambda>_. 9) None (\<lambda>_ _. None) ''zz'' ''anonymous'' JNull sample_world =
     (StoreError ''job not found: zz'', sample_world)"
proof -
  have "op_get mem_ops (w_store sample_world) ''zz'' = Inl (JobNotFound ''zz'')"
    by (simp add: sample_world_def sample_store_def mem_ops_def mem_create_def mem_new_def mem_get_def Let_def)
  from run_job_unknown [OF mem_store_contract fs_contract this, of "\<lambda>_. 9" None "\<lambda>_ _. None" "''anonymous''" JNull]
  show ?thesis by simp
qed

end
