(* ===== verification/Jobs_Routes.thy ===== *)
theory Jobs_Routes
  imports Runner
begin

text \<open>
  The batch-job handlers of \<open>apps/orbit-openeo/src/routes/jobs.rs\<close>, over any \<open>dyn JobStore\<close> and
  \<open>dyn FileStore\<close>, and the life of the supervisor tasks that \<open>start_processing\<close> spawns as a state
  machine: permits, registry, cancellation.
\<close>

section \<open>Responses\<close>

datatype payload = NoBody | JsonBody json | RawBody string

record response =
  code :: nat
  headers :: "(string \<times> string) list"
  resp_body :: payload

definition json_response :: "nat \<Rightarrow> json \<Rightarrow> response" where
  "json_response c v = \<lparr>code = c, headers = [], resp_body = JsonBody v\<rparr>"

definition status_only :: "nat \<Rightarrow> response" where
  "status_only c = \<lparr>code = c, headers = [], resp_body = NoBody\<rparr>"

definition error_response :: "nat \<Rightarrow> string \<Rightarrow> string \<Rightarrow> response" where
  "error_response c cd msg = json_response c (JObject [(''code'', JString cd), (''message'', JString msg)])"

definition code_response :: "nat \<Rightarrow> string \<Rightarrow> response" where
  "code_response c cd = json_response c (JObject [(''code'', JString cd)])"

definition job_not_found_msg :: "string \<Rightarrow> string" where
  "job_not_found_msg jid = ''job '' @ [CHR 0x27] @ jid @ [CHR 0x27] @ '' not found''"

text \<open>The two ways the handlers answer a store error, with and without a message on 404.\<close>

definition store_error_full :: "string \<Rightarrow> job_error \<Rightarrow> response" where
  "store_error_full jid e =
     (case e of JobNotFound _ \<Rightarrow> error_response 404 ''JobNotFound'' (job_not_found_msg jid)
      | JobBackend _ \<Rightarrow> error_response 500 ''Internal'' (job_error_display e))"

definition store_error_short :: "job_error \<Rightarrow> response" where
  "store_error_short e =
     (case e of JobNotFound _ \<Rightarrow> code_response 404 ''JobNotFound''
      | JobBackend _ \<Rightarrow> error_response 500 ''Internal'' (job_error_display e))"

definition DEFAULT_USER :: string where "DEFAULT_USER = ''anonymous''"

definition get_str :: "json \<Rightarrow> string \<Rightarrow> string option" where
  "get_str v k = Option.bind (json_get v k) as_str"

section \<open>Handlers on the job store\<close>

definition log_entry_json :: "job_log_entry \<Rightarrow> json" where
  "log_entry_json l = JObject [(''id'', JString (log_id l)), (''level'', JString (level l)),
     (''message'', JString (message l)), (''time'', JString (log_time l))]"

definition job_logs :: "'s job_store_ops \<Rightarrow> 's \<Rightarrow> string \<Rightarrow> response" where
  "job_logs ops s jid =
     (case op_get_logs ops s jid of
        Inr ls \<Rightarrow> json_response 200 (JObject [(''logs'', JArray (map log_entry_json ls)), (''links'', JArray [])])
      | Inl e \<Rightarrow> store_error_full jid e)"

definition list_jobs :: "'s job_store_ops \<Rightarrow> 's \<Rightarrow> response" where
  "list_jobs ops s =
     (let jobs = (case op_list_for_user ops s DEFAULT_USER of Inr js \<Rightarrow> js | Inl _ \<Rightarrow> []) in
      json_response 200 (JObject [(''jobs'', JArray (map to_openeo_json jobs)), (''links'', JArray [])]))"

definition join_comma :: "string list \<Rightarrow> string" where
  "join_comma xs = (case xs of [] \<Rightarrow> [] | x # r \<Rightarrow> x @ concat (map (\<lambda>y. '', '' @ y) r))"

definition create_job ::
  "'s job_store_ops \<Rightarrow> (digraph \<Rightarrow> bool) \<Rightarrow> (serde_error \<Rightarrow> string) \<Rightarrow> string list \<Rightarrow> string \<Rightarrow> 64 word
   \<Rightarrow> 's \<Rightarrow> json \<Rightarrow> response \<times> 's" where
  "create_job ops is_cyclic serde_show known new_id now s body =
     (let ti = get_str body ''title'';
          de = get_str body ''description'';
          process_inner = (case json_get body ''process'' of
              Some p \<Rightarrow> p
            | None \<Rightarrow> JObject [(''process_graph'', case json_get body ''process_graph'' of Some g \<Rightarrow> g | None \<Rightarrow> JNull)])
      in
      case Option.bind (json_get body ''process'') (\<lambda>p. json_get p ''process_graph'') of
        None \<Rightarrow> (error_response 400 ''ProcessGraphMissing'' ''request body must contain process.process_graph'', s)
      | Some pg_val \<Rightarrow>
        (case decode_nodes pg_val of
           Inl e \<Rightarrow> (error_response 400 ''ProcessGraphInvalid'' (serde_show e), s)
         | Inr nodes \<Rightarrow>
           (case build is_cyclic \<lparr>pg_nodes = nodes\<rparr> of
              Inl e \<Rightarrow> (error_response 400 ''ProcessGraphInvalid'' (graph_error_display e), s)
            | Inr _ \<Rightarrow>
              (let unsupported = unsupported_process_ids body known in
               if unsupported \<noteq> [] then
                 (error_response 400 ''ProcessUnsupported'' (''unsupported process(es): '' @ join_comma unsupported), s)
               else
                 case op_create ops s new_id now DEFAULT_USER ti de process_inner of
                   (Inl e, s') \<Rightarrow> (error_response 500 ''Internal'' (job_error_display e), s')
                 | (Inr rec, s') \<Rightarrow>
                     (\<lparr>code = 201,
                       headers = [(''location'', ''/jobs/'' @ job_id rec), (''openeo-identifier'', job_id rec)],
                       resp_body = JsonBody (to_openeo_json rec)\<rparr>, s')))))"

definition get_job :: "'s job_store_ops \<Rightarrow> 's \<Rightarrow> string \<Rightarrow> response" where
  "get_job ops s jid =
     (case op_get ops s jid of Inr rec \<Rightarrow> json_response 200 (to_openeo_json rec) | Inl e \<Rightarrow> store_error_full jid e)"

definition update_job :: "'s job_store_ops \<Rightarrow> 64 word \<Rightarrow> 's \<Rightarrow> string \<Rightarrow> json \<Rightarrow> response \<times> 's" where
  "update_job ops now s jid patch =
     (case op_set_metadata ops s now jid (get_str patch ''title'') (get_str patch ''description'') of
        (Inr _, s') \<Rightarrow> (status_only 204, s')
      | (Inl e, s') \<Rightarrow> (store_error_short e, s'))"

definition delete_job :: "'s job_store_ops \<Rightarrow> 's \<Rightarrow> string \<Rightarrow> response \<times> 's" where
  "delete_job ops s jid =
     (case op_delete ops s jid of
        (Inr _, s') \<Rightarrow> (status_only 204, s')
      | (Inl e, s') \<Rightarrow> (store_error_full jid e, s'))"

text \<open>\<open>sum\<close> over \<open>u64\<close> wraps in the release build; the duration saturates at zero.\<close>

definition estimate_job :: "'s job_store_ops \<Rightarrow> 's \<Rightarrow> string \<Rightarrow> response" where
  "estimate_job ops s jid =
     (case op_get ops s jid of
        Inl e \<Rightarrow> store_error_full jid e
      | Inr rec \<Rightarrow>
          (let size = sum_list (map asset_size (assets rec));
               secs = sat_sub (unat (updated rec)) (unat (created rec)) in
           json_response 200 (JObject
             [(''costs'', JNumber (PosInt 0)),
              (''duration'', JString (''PT'' @ show_nat secs @ ''S'')),
              (''size'', JNumber (PosInt (unat size))),
              (''downloads_included'', JNumber (PosInt 0))])))"

definition asset_json :: "string \<Rightarrow> job_asset \<Rightarrow> json" where
  "asset_json jid a = JObject
     [(''href'', JString (''/jobs/'' @ jid @ ''/results/'' @ asset_name a)),
      (''type'', JString (media_type a)),
      (''roles'', JArray [JString ''data'']),
      (''file:size'', JNumber (PosInt (unat (asset_size a))))]"

definition assets_object :: "string \<Rightarrow> job_asset list \<Rightarrow> (string \<times> json) list" where
  "assets_object jid as = fold (\<lambda>a m. AList.update (asset_name a) (asset_json jid a) m) as []"

definition link_json :: "string \<Rightarrow> string \<Rightarrow> json" where
  "link_json rel href = JObject [(''rel'', JString rel), (''href'', JString href), (''type'', JString ''application/json'')]"

definition get_results :: "'s job_store_ops \<Rightarrow> 's \<Rightarrow> string \<Rightarrow> response" where
  "get_results ops s jid =
     (case op_get ops s jid of
        Inl e \<Rightarrow> store_error_short e
      | Inr rec \<Rightarrow>
          if status rec \<noteq> Finished then
            error_response 404 ''JobNotFinished''
              (''job '' @ [CHR 0x27] @ jid @ [CHR 0x27] @ '' is in state '' @ [CHR 0x27] @ status_str (status rec) @ [CHR 0x27])
          else json_response 200 (JObject
            [(''stac_version'', JString ''1.0.0''), (''type'', JString ''Feature''), (''id'', JString (job_id rec)),
             (''geometry'', JNull), (''bbox'', JNull),
             (''properties'', JObject [(''datetime'', JString (iso8601 (updated rec))), (''title'', opt_string_json (title rec))]),
             (''assets'', JObject (assets_object (job_id rec) (assets rec))),
             (''links'', JArray [link_json ''self'' (''/jobs/'' @ job_id rec @ ''/results''),
                                link_json ''canonical'' (''/jobs/'' @ job_id rec)])]))"

definition download_asset ::
  "'s job_store_ops \<Rightarrow> 'f file_store_ops \<Rightarrow> 's \<Rightarrow> 'f \<Rightarrow> string \<Rightarrow> string \<Rightarrow> response" where
  "download_asset ops fops s f jid name =
     (case op_get ops s jid of
        Inl e \<Rightarrow> store_error_short e
      | Inr rec \<Rightarrow>
        (case find (\<lambda>a. asset_name a = name) (assets rec) of
           None \<Rightarrow> error_response 404 ''ResultNotFound''
             (''asset '' @ [CHR 0x27] @ name @ [CHR 0x27] @ '' not produced by job '' @ [CHR 0x27] @ jid @ [CHR 0x27])
         | Some a \<Rightarrow>
           (case fop_get fops f (FileKey (job_id rec) (asset_name a)) of
              Inr bytes \<Rightarrow>
                \<lparr>code = 200,
                 headers = [(''content-type'', media_type a), (''content-length'', show_nat (unat (asset_size a)))],
                 resp_body = RawBody bytes\<rparr>
            | Inl FileNotFound \<Rightarrow> code_response 404 ''ResultNotFound''
            | Inl e \<Rightarrow> error_response 500 ''Internal'' (file_error_display e))))"

section \<open>Starting and cancelling\<close>

text \<open>
  A supervisor task holds its permit, its cancel signal and the job it runs from the moment
  \<open>start_processing\<close> spawns it until it deregisters.
\<close>

record task =
  t_job :: string
  t_user :: string
  t_body :: json
  t_notify :: nat

record 's app =
  a_jobs :: 's
  a_permits :: nat
  a_registry :: registry
  a_tasks :: "nat \<Rightarrow> task option"
  a_pending :: "(string \<times> nat) list"
  a_next :: nat

text \<open>
  \<open>start_processing\<close> spawns the supervisor, which owns the permit, and then registers it. On a
  multi-threaded runtime the supervisor may run in between; \<open>a_pending\<close> holds the registrations that
  are still to come. A fresh number names the \<open>Notify\<close> and the task handle.
\<close>

definition spawn_supervisor :: "job_record \<Rightarrow> string \<Rightarrow> 's app \<Rightarrow> 's app" where
  "spawn_supervisor rec jid a =
     (let h = a_next a in
      a\<lparr>a_permits := a_permits a - 1,
        a_tasks := (a_tasks a)(h \<mapsto> \<lparr>t_job = jid, t_user = user_id rec, t_body = job_process rec, t_notify = h\<rparr>),
        a_pending := (jid, h) # a_pending a,
        a_next := h + 1\<rparr>)"

definition register_supervisor :: "string \<Rightarrow> nat \<Rightarrow> 's app \<Rightarrow> 's app" where
  "register_supervisor jid h a =
     a\<lparr>a_registry := reg_register (a_registry a) jid h h, a_pending := remove1 (jid, h) (a_pending a)\<rparr>"

definition start_processing :: "'s job_store_ops \<Rightarrow> 's app \<Rightarrow> string \<Rightarrow> response \<times> 's app" where
  "start_processing ops a jid =
     (case op_get ops (a_jobs a) jid of
        Inl e \<Rightarrow> (store_error_short e, a)
      | Inr rec \<Rightarrow>
          if status rec = Queued \<or> status rec = Running then
            (error_response 409 ''JobLocked''
               (''job '' @ [CHR 0x27] @ jid @ [CHR 0x27] @ '' is already '' @ status_str (status rec)), a)
          else if a_permits a = 0 then
            (error_response 503 ''QueueFull'' ''maximum concurrent jobs reached; retry later'', a)
          else
            (status_only 202, register_supervisor jid (a_next a) (spawn_supervisor rec jid a)))"

definition discard_results :: "'s job_store_ops \<Rightarrow> 64 word \<Rightarrow> 's app \<Rightarrow> string \<Rightarrow> response \<times> 's app" where
  "discard_results ops now a jid =
     (case op_get ops (a_jobs a) jid of
        Inl e \<Rightarrow> (store_error_short e, a)
      | Inr rec \<Rightarrow>
          (let was_active = (status rec = Queued \<or> status rec = Running);
               a1 = a\<lparr>a_registry := snd (reg_cancel (a_registry a) jid)\<rparr>
           in (status_only 204,
               if was_active then a1\<lparr>a_jobs := snd (op_set_status ops (a_jobs a1) now jid Canceled)\<rparr> else a1)))"

definition terminal :: "job_status \<Rightarrow> bool" where
  "terminal st \<longleftrightarrow> st = Finished \<or> st = Error \<or> st = Canceled"

text \<open>What a supervisor does to a job that its inner task left unfinished.\<close>

definition close_job :: "'s job_store_ops \<Rightarrow> 64 word \<Rightarrow> string \<Rightarrow> job_status \<Rightarrow> 's \<Rightarrow> 's" where
  "close_job ops now jid st s =
     (case op_get ops s jid of
        Inl _ \<Rightarrow> s
      | Inr rec \<Rightarrow> if terminal (status rec) then s else snd (op_set_status ops s now jid st))"

text \<open>The end of a supervisor: deregister, and the permit it owned is released.\<close>

definition end_task :: "nat \<Rightarrow> task \<Rightarrow> 's app \<Rightarrow> 's app" where
  "end_task h t a = a\<lparr>a_registry := reg_deregister (a_registry a) (t_job t),
     a_tasks := (a_tasks a)(h := None), a_permits := a_permits a + 1\<rparr>"

definition supervisor_cancelled :: "'s job_store_ops \<Rightarrow> 64 word \<Rightarrow> nat \<Rightarrow> task \<Rightarrow> 's app \<Rightarrow> 's app" where
  "supervisor_cancelled ops now h t a =
     end_task h t (a\<lparr>a_jobs := close_job ops now (t_job t) Canceled (a_jobs a)\<rparr>)"

definition supervisor_joined :: "'s job_store_ops \<Rightarrow> 64 word \<Rightarrow> bool \<Rightarrow> nat \<Rightarrow> task \<Rightarrow> 's app \<Rightarrow> 's app" where
  "supervisor_joined ops now panicked h t a =
     end_task h t (if panicked then a\<lparr>a_jobs := close_job ops now (t_job t) Error (a_jobs a)\<rparr> else a)"

section \<open>The tasks as a state machine\<close>

text \<open>
  The job-store writes of the other handlers and of the runners, each through one operation of the
  store: submissions under a fresh id, metadata patches, deletions, and what \<open>run_job\<close> writes for the
  job it runs. A runner may still write after its supervisor has ended (an aborted task runs on to its
  next await point), so its writes are not tied to a live task. Only the supervisors and the discard
  handler write \<open>canceled\<close>, and only a submission makes a job \<open>created\<close>.
\<close>

inductive store_write :: "'s job_store_ops \<Rightarrow> 's \<Rightarrow> 's \<Rightarrow> bool" for ops where
  submit: "op_get ops s i = Inl e \<Longrightarrow> store_write ops s (snd (op_create ops s i now u ti de pr))"
| patch: "store_write ops s (snd (op_set_metadata ops s now i ti de))"
| remove: "store_write ops s (snd (op_delete ops s i))"
| run_status: "st = Queued \<or> st = Running \<or> st = Finished \<or> st = Error \<Longrightarrow> store_write ops s (snd (op_set_status ops s now i st))"
| run_progress: "store_write ops s (snd (op_set_progress ops s now i p))"
| run_asset: "store_write ops s (snd (op_add_asset ops s now i asset))"
| run_log: "store_write ops s (snd (op_append_log ops s now i lv msg))"

text \<open>Every interleaving of handlers and supervisors; the writes above touch neither permits nor registry.\<close>

inductive app_step :: "'s job_store_ops \<Rightarrow> 's app \<Rightarrow> 's app \<Rightarrow> bool" for ops where
  spawn: "op_get ops (a_jobs a) jid = Inr rec \<Longrightarrow> status rec \<noteq> Queued \<Longrightarrow> status rec \<noteq> Running \<Longrightarrow>
    a_permits a \<noteq> 0 \<Longrightarrow> app_step ops a (spawn_supervisor rec jid a)"
| register: "(jid, h) \<in> set (a_pending a) \<Longrightarrow> app_step ops a (register_supervisor jid h a)"
| discard: "app_step ops a (snd (discard_results ops now a jid))"
| cancelled: "a_tasks a h = Some t \<Longrightarrow> t_notify t \<in> reg_notified (a_registry a) \<Longrightarrow>
    app_step ops a (supervisor_cancelled ops now h t a)"
| joined: "a_tasks a h = Some t \<Longrightarrow> app_step ops a (supervisor_joined ops now panicked h t a)"
| store: "store_write ops (a_jobs a) s' \<Longrightarrow> app_step ops a (a\<lparr>a_jobs := s'\<rparr>)"

definition app_init :: "nat \<Rightarrow> 's \<Rightarrow> 's app" where
  "app_init permits s = \<lparr>a_jobs = s, a_permits = permits, a_registry = registry_new, a_tasks = Map.empty,
     a_pending = [], a_next = 0\<rparr>"

inductive app_reachable :: "'s job_store_ops \<Rightarrow> nat \<Rightarrow> 's app \<Rightarrow> bool" for ops cap where
  init: "app_reachable ops cap (app_init cap s)"
| step: "app_reachable ops cap a \<Longrightarrow> app_step ops a a' \<Longrightarrow> app_reachable ops cap a'"

text \<open>The handler is the two steps in sequence, or no change.\<close>

lemma start_processing_steps:
  "start_processing ops a jid = (resp, a') \<Longrightarrow> a' = a \<or> (\<exists>b. app_step ops a b \<and> app_step ops b a')"
proof -
  assume s: "start_processing ops a jid = (resp, a')"
  show ?thesis
  proof (cases "a' = a")
    case False
    then obtain rec where r: "op_get ops (a_jobs a) jid = Inr rec" "status rec \<noteq> Queued" "status rec \<noteq> Running"
      "a_permits a \<noteq> 0" "a' = register_supervisor jid (a_next a) (spawn_supervisor rec jid a)"
      using s by (auto simp: start_processing_def split: sum.splits if_splits)
    have "app_step ops a (spawn_supervisor rec jid a)" using r by (intro app_step.spawn)
    moreover have "app_step ops (spawn_supervisor rec jid a) a'"
      unfolding r(5) by (rule app_step.register) (simp add: spawn_supervisor_def Let_def)
    ultimately show ?thesis by blast
  qed simp
qed

definition app_inv :: "nat \<Rightarrow> 's app \<Rightarrow> bool" where
  "app_inv cap a \<longleftrightarrow> finite (dom (a_tasks a)) \<and> a_permits a + card (dom (a_tasks a)) = cap \<and>
     dom (a_tasks a) \<subseteq> {..<a_next a}"

lemma end_task_inv:
  assumes "app_inv cap a" and "a_tasks a h = Some t" and "a_tasks b = a_tasks a" "a_permits b = a_permits a" "a_next b = a_next a"
  shows "app_inv cap (end_task h t b)"
proof -
  have h: "h \<in> dom (a_tasks a)" using assms(2) by auto
  have i: "finite (dom (a_tasks a))" "a_permits a + card (dom (a_tasks a)) = cap" "dom (a_tasks a) \<subseteq> {..<a_next a}"
    using assms(1) by (simp_all add: app_inv_def)
  have t: "a_tasks (end_task h t b) = (a_tasks a)(h := None)" "a_permits (end_task h t b) = a_permits a + 1"
    "a_next (end_task h t b) = a_next a"
    by (simp_all add: end_task_def assms(3-5))
  have d: "dom ((a_tasks a)(h := None)) = dom (a_tasks a) - {h}" by simp
  have "card (dom (a_tasks a) - {h}) + 1 = card (dom (a_tasks a))" using card_Suc_Diff1 [OF i(1) h] by simp
  then show ?thesis unfolding app_inv_def t d using i by auto
qed

lemma app_step_inv: "app_step ops a a' \<Longrightarrow> app_inv cap a \<Longrightarrow> app_inv cap a'"
proof (induction rule: app_step.induct)
  case (spawn a jid rec)
  have "a_next a \<notin> dom (a_tasks a)" using spawn.prems by (auto simp: app_inv_def)
  moreover have "dom ((a_tasks a)(a_next a \<mapsto> t)) = insert (a_next a) (dom (a_tasks a))" for t by simp
  ultimately show ?case using spawn
    unfolding app_inv_def spawn_supervisor_def Let_def by (simp del: dom_fun_upd) (auto simp: less_Suc_eq)
next
  case (cancelled a h t now)
  then show ?case unfolding supervisor_cancelled_def by (intro end_task_inv [of cap a]) auto
next
  case (joined a h t now panicked)
  then show ?case unfolding supervisor_joined_def by (intro end_task_inv [of cap a]) auto
qed (auto simp: app_inv_def register_supervisor_def discard_results_def Let_def split: sum.splits)

lemma app_reachable_inv: "app_reachable ops cap a \<Longrightarrow> app_inv cap a"
proof (induction rule: app_reachable.induct)
  case (init s)
  then show ?case by (simp add: app_init_def app_inv_def)
qed (rule app_step_inv)

text \<open>Numbers of \<open>Notify\<close> cells that were handed out are below the next one.\<close>

definition notify_inv :: "'s app \<Rightarrow> bool" where
  "notify_inv a \<longleftrightarrow> reg_notified (a_registry a) \<subseteq> {..<a_next a} \<and>
     (\<forall>j n h. reg_entries (a_registry a) j = Some (n, h) \<longrightarrow> n < a_next a) \<and> (\<forall>(j, h) \<in> set (a_pending a). h < a_next a)"

lemma notify_inv_discard:
  assumes "notify_inv a"
  shows "notify_inv (snd (discard_results ops now a jid))"
proof -
  have "notify_inv (a\<lparr>a_registry := snd (reg_cancel (a_registry a) jid)\<rparr>)"
    using assms by (auto simp: notify_inv_def reg_cancel_def split: option.splits)
  then have "notify_inv (a\<lparr>a_registry := snd (reg_cancel (a_registry a) jid), a_jobs := s'\<rparr>)" for s' by (simp add: notify_inv_def)
  then show ?thesis using assms \<open>notify_inv (a\<lparr>a_registry := snd (reg_cancel (a_registry a) jid)\<rparr>)\<close>
    by (simp add: discard_results_def Let_def split: sum.split)
qed

lemma notify_inv_end_task:
  "notify_inv a \<Longrightarrow> a_registry b = a_registry a \<Longrightarrow> a_next b = a_next a \<Longrightarrow> a_pending b = a_pending a \<Longrightarrow> notify_inv (end_task h t b)"
  by (simp add: notify_inv_def end_task_def reg_deregister_def)

lemma app_step_notify: "app_step ops a a' \<Longrightarrow> notify_inv a \<Longrightarrow> notify_inv a'"
proof (induction rule: app_step.induct)
  case (spawn a jid rec)
  then show ?case by (fastforce simp: notify_inv_def spawn_supervisor_def Let_def less_Suc_eq)
next
  case (register jid h a)
  then show ?case
    by (auto simp: notify_inv_def register_supervisor_def reg_register_def dest: set_remove1_subset [THEN subsetD])
next
  case (discard a now jid)
  then show ?case by (rule notify_inv_discard)
next
  case (cancelled a h t now)
  then show ?case unfolding supervisor_cancelled_def by (intro notify_inv_end_task [of a]) auto
next
  case (joined a h t now panicked)
  then show ?case unfolding supervisor_joined_def by (intro notify_inv_end_task [of a]) auto
qed (simp add: notify_inv_def)

lemma app_reachable_notify: "app_reachable ops cap a \<Longrightarrow> notify_inv a"
proof (induction rule: app_reachable.induct)
  case (init s)
  then show ?case by (simp add: app_init_def notify_inv_def registry_new_def)
qed (rule app_step_notify)

lemma start_reachable:
  "app_reachable ops cap a \<Longrightarrow> app_reachable ops cap (snd (start_processing ops a jid))"
  using start_processing_steps [of ops a jid] by (metis app_reachable.step prod.collapse)

text \<open>An accepted start, in one equation.\<close>

lemma start_accepted:
  assumes "op_get ops (a_jobs a) jid = Inr r" and "status r \<noteq> Queued" and "status r \<noteq> Running" and "a_permits a \<noteq> 0"
  shows "start_processing ops a jid = (status_only 202,
    a\<lparr>a_permits := a_permits a - 1,
      a_tasks := (a_tasks a)(a_next a \<mapsto> \<lparr>t_job = jid, t_user = user_id r, t_body = job_process r, t_notify = a_next a\<rparr>),
      a_registry := reg_register (a_registry a) jid (a_next a) (a_next a), a_next := a_next a + 1\<rparr>)"
  using assms by (simp add: start_processing_def register_supervisor_def spawn_supervisor_def Let_def)

section \<open>Submission\<close>

definition submitted_nodes :: "json \<Rightarrow> (string, process) btree option" where
  "submitted_nodes body =
     (case Option.bind (json_get body ''process'') (\<lambda>p. json_get p ''process_graph'') of
        None \<Rightarrow> None
      | Some v \<Rightarrow> (case decode_nodes v of Inl _ \<Rightarrow> None | Inr nodes \<Rightarrow> Some nodes))"

lemma submitted_nodes_wf: "submitted_nodes body = Some nodes \<Longrightarrow> bt_wf nodes"
  by (auto simp: submitted_nodes_def dest: decode_nodes_wf split: option.splits sum.splits)

text \<open>The three outcomes of a submission: refused before the store is reached, or the store's answer.\<close>

lemma resp_simps [simp]:
  "code (error_response c cd msg) = c" "code (code_response c cd) = c" "code (json_response c v) = c"
  "code (status_only c) = c"
  by (simp_all add: error_response_def code_response_def json_response_def status_only_def)

lemma create_job_cases:
  assumes "create_job ops ic show_e known i now s body = (resp, s')"
  obtains (refused) "code resp = 400" "s' = s"
      "\<not> (\<exists>nodes a. submitted_nodes body = Some nodes \<and> build ic \<lparr>pg_nodes = nodes\<rparr> = Inr a \<and> unsupported_process_ids body known = [])"
    | (stored) nodes a ti de pr where "submitted_nodes body = Some nodes" "build ic \<lparr>pg_nodes = nodes\<rparr> = Inr a"
      "unsupported_process_ids body known = []"
      "s' = snd (op_create ops s i now DEFAULT_USER ti de pr)"
      "(resp = (case fst (op_create ops s i now DEFAULT_USER ti de pr) of
          Inl e \<Rightarrow> error_response 500 ''Internal'' (job_error_display e)
        | Inr rec \<Rightarrow> \<lparr>code = 201, headers = [(''location'', ''/jobs/'' @ job_id rec), (''openeo-identifier'', job_id rec)],
            resp_body = JsonBody (to_openeo_json rec)\<rparr>))"
proof (cases "Option.bind (json_get body ''process'') (\<lambda>p. json_get p ''process_graph'')")
  case None
  then show thesis
    by (intro refused) (use assms in \<open>auto simp: create_job_def Let_def resp_simps submitted_nodes_def\<close>)
next
  case (Some v)
  show thesis
  proof (cases "decode_nodes v")
    case (Inl e)
    then show thesis
      by (intro refused) (use assms Some in \<open>auto simp: create_job_def Let_def resp_simps submitted_nodes_def\<close>)
  next
    case (Inr nodes)
    have sub: "submitted_nodes body = Some nodes" using Some Inr by (simp add: submitted_nodes_def)
    show thesis
    proof (cases "build ic \<lparr>pg_nodes = nodes\<rparr>")
      case (Inl e)
      then show thesis
        by (intro refused) (use assms Some Inr sub in \<open>auto simp: create_job_def Let_def resp_simps\<close>)
    next
      case built: (Inr a)
      show thesis
      proof (cases "unsupported_process_ids body known = []")
        case False
        then show thesis
          by (intro refused) (use assms Some Inr sub built in \<open>auto simp: create_job_def Let_def resp_simps\<close>)
      next
        case True
        show thesis
          using assms Some Inr built True
          by (intro stored [OF sub built True, of "get_str body ''title''" "get_str body ''description''"
                "case json_get body ''process'' of Some p \<Rightarrow> p
                  | None \<Rightarrow> JObject [(''process_graph'', case json_get body ''process_graph'' of Some g \<Rightarrow> g | None \<Rightarrow> JNull)]"])
            (auto simp: create_job_def Let_def split: prod.splits sum.splits)
      qed
    qed
  qed
qed

lemma submitted_nodes_Some:
  "submitted_nodes body = Some nodes \<longleftrightarrow>
     (\<exists>v. Option.bind (json_get body ''process'') (\<lambda>p. json_get p ''process_graph'') = Some v \<and> decode_nodes v = Ok nodes)"
  by (auto simp: submitted_nodes_def split: option.splits sum.splits)

lemma unsupported_walked:
  assumes "Option.bind (json_get body ''process'') (\<lambda>p. json_get p ''process_graph'') = Some v"
  shows "unsupported_process_ids body known = [] \<longleftrightarrow>
    (\<forall>m p. submitted_object v 0 m \<longrightarrow> map_of m ''process_id'' = Some (JString p) \<longrightarrow> p \<in> set known)"
  using assms by (intro unsupported_empty_iff) (simp add: submitted_graph_def)

section \<open>Properties\<close>

text \<open>
  C18. \<open>POST /jobs\<close> stores exactly the submissions that pass its checks: with a fresh id it answers 201 if
  and only if the body's process graph decodes, its references resolve and are acyclic, it has one
  result node, and every object that the validation walk reaches names a known process in its
  \<open>process_id\<close>, if it has one; otherwise it answers 400 and stores nothing. The walk does not enter
  callbacks, nor anything below a node called \<open>process_graph\<close>, nor does it see the process of a node that
  is written as an array. When no node is called \<open>process_graph\<close> and all nodes are written as objects, it
  follows that every node of a stored graph names a known process. A stored job is then found by \<open>GET\<close>
  with the JSON that the submission returned, in state \<open>created\<close>, and every other job is as before.
\<close>

theorem create_job_admission:
  assumes "job_store_contract ops" and "graph_algos ic ts" and "op_get ops s i = Inl e"
    and "create_job ops ic show_e known i now s body = (resp, s')"
  shows "(code resp = 201 \<longleftrightarrow> (\<exists>v nodes. Option.bind (json_get body ''process'') (\<lambda>p. json_get p ''process_graph'') = Some v \<and>
      decode_nodes v = Ok nodes \<and> refs_resolve \<lparr>pg_nodes = nodes\<rparr> \<and> acyclic (deps \<lparr>pg_nodes = nodes\<rparr>) \<and>
      length (result_nodes \<lparr>pg_nodes = nodes\<rparr>) = 1 \<and>
      (\<forall>m p. submitted_object v 0 m \<longrightarrow> map_of m ''process_id'' = Some (JString p) \<longrightarrow> p \<in> set known))) \<and>
    (code resp \<noteq> 201 \<longrightarrow> code resp = 400 \<and> s' = s) \<and>
    (code resp = 201 \<longrightarrow> (\<forall>entries nodes.
      Option.bind (json_get body ''process'') (\<lambda>p. json_get p ''process_graph'') = Some (JObject entries) \<longrightarrow>
      decode_nodes (JObject entries) = Ok nodes \<longrightarrow> map_of entries ''process_graph'' = None \<longrightarrow>
      (\<forall>(j, x) \<in> set entries. \<exists>flds. x = JObject flds) \<longrightarrow> (\<forall>(j, node) \<in> set nodes. process_id node \<in> set known))) \<and>
    (code resp = 201 \<longrightarrow> (\<exists>r. op_get ops s' = (op_get ops s)(i := Inr r) \<and> job_id r = i \<and> status r = Created \<and>
      resp_body resp = JsonBody (to_openeo_json r) \<and> get_job ops s' i = json_response 200 (to_openeo_json r)))"
  using assms(4)
proof (cases rule: create_job_cases)
  case refused
  have "\<not> (\<exists>v nodes. Option.bind (json_get body ''process'') (\<lambda>p. json_get p ''process_graph'') = Some v \<and>
      decode_nodes v = Ok nodes \<and> refs_resolve \<lparr>pg_nodes = nodes\<rparr> \<and> acyclic (deps \<lparr>pg_nodes = nodes\<rparr>) \<and>
      length (result_nodes \<lparr>pg_nodes = nodes\<rparr>) = 1 \<and>
      (\<forall>m p. submitted_object v 0 m \<longrightarrow> map_of m ''process_id'' = Some (JString p) \<longrightarrow> p \<in> set known))"
  proof (rule notI, elim exE conjE)
    fix v nodes
    assume v: "Option.bind (json_get body ''process'') (\<lambda>p. json_get p ''process_graph'') = Some v" "decode_nodes v = Ok nodes"
      and g: "refs_resolve \<lparr>pg_nodes = nodes\<rparr>" "acyclic (deps \<lparr>pg_nodes = nodes\<rparr>)" "length (result_nodes \<lparr>pg_nodes = nodes\<rparr>) = 1"
      and k: "\<forall>m p. submitted_object v 0 m \<longrightarrow> map_of m ''process_id'' = Some (JString p) \<longrightarrow> p \<in> set known"
    have "\<exists>a. build ic \<lparr>pg_nodes = nodes\<rparr> = Inr a"
      using graph_algos.build_accepts [OF assms(2), of "\<lparr>pg_nodes = nodes\<rparr>"] decode_nodes_wf [OF v(2)] g by simp
    moreover have "submitted_nodes body = Some nodes" using v by (simp add: submitted_nodes_def)
    moreover have "unsupported_process_ids body known = []" using unsupported_walked [OF v(1)] k by blast
    ultimately show False using refused(3) by blast
  qed
  then show ?thesis using refused(1,2) by (simp only: simp_thms) simp
next
  case (stored nodes a ti de pr)
  obtain v where v: "Option.bind (json_get body ''process'') (\<lambda>p. json_get p ''process_graph'') = Some v" "decode_nodes v = Ok nodes"
    using stored(1) submitted_nodes_Some [of body] by blast
  obtain r where r: "fst (op_create ops s i now DEFAULT_USER ti de pr) = Inr r" "job_id r = i" "status r = Created"
    "op_get ops (snd (op_create ops s i now DEFAULT_USER ti de pr)) = (op_get ops s)(i := Inr r)"
    using job_store_contract.get_create [OF assms(1,3), of now DEFAULT_USER ti de pr] by blast
  have g: "refs_resolve \<lparr>pg_nodes = nodes\<rparr> \<and> acyclic (deps \<lparr>pg_nodes = nodes\<rparr>) \<and> length (result_nodes \<lparr>pg_nodes = nodes\<rparr>) = 1"
    using graph_algos.build_accepts [OF assms(2), of "\<lparr>pg_nodes = nodes\<rparr>"] stored(1,2) submitted_nodes_wf by auto
  have walked: "\<forall>m p. submitted_object v 0 m \<longrightarrow> map_of m ''process_id'' = Some (JString p) \<longrightarrow> p \<in> set known"
    using unsupported_walked [OF v(1)] stored(3) by blast
  have nodes: "process_id node \<in> set known"
    if "Option.bind (json_get body ''process'') (\<lambda>p. json_get p ''process_graph'') = Some (JObject entries)"
      "decode_nodes (JObject entries) = Ok ns" "map_of entries ''process_graph'' = None"
      "\<forall>(j, x) \<in> set entries. \<exists>flds. x = JObject flds" "(j, node) \<in> set ns" for entries ns j node
    by (rule walked_nodes [OF that(3,2,4,5)]) (use walked that(1) v(1) in simp)
  have resp: "code resp = 201" "resp_body resp = JsonBody (to_openeo_json r)" using stored(5) r(1) by simp_all
  have get: "op_get ops s' = (op_get ops s)(i := Inr r)" using stored(4) r(4) by simp
  have "get_job ops s' i = json_response 200 (to_openeo_json r)" by (simp add: get_job_def get)
  then have stored_job: "\<exists>r. op_get ops s' = (op_get ops s)(i := Inr r) \<and> job_id r = i \<and> status r = Created \<and>
      resp_body resp = JsonBody (to_openeo_json r) \<and> get_job ops s' i = json_response 200 (to_openeo_json r)"
    using get r(2,3) resp(2) by blast
  have "\<exists>v nodes. Option.bind (json_get body ''process'') (\<lambda>p. json_get p ''process_graph'') = Some v \<and>
      decode_nodes v = Ok nodes \<and> refs_resolve \<lparr>pg_nodes = nodes\<rparr> \<and> acyclic (deps \<lparr>pg_nodes = nodes\<rparr>) \<and>
      length (result_nodes \<lparr>pg_nodes = nodes\<rparr>) = 1 \<and>
      (\<forall>m p. submitted_object v 0 m \<longrightarrow> map_of m ''process_id'' = Some (JString p) \<longrightarrow> p \<in> set known)"
    using v g walked by blast
  then show ?thesis using resp(1) stored_job nodes by blast
qed

definition sample_body :: json where
  "sample_body = JObject [(''process'', JObject [(''process_graph'', JObject [(''a'', JObject
     [(''process_id'', JString ''add''), (''arguments'', JObject [(''x'', JNumber (PosInt 1)), (''y'', JNumber (PosInt 2))]),
      (''result'', JBool True)])])])]"

lemma sample_body_nodes:
  "submitted_nodes sample_body = Some [(''a'', \<lparr>process_id = ''add'',
     arguments = [(''x'', JNumber (PosInt 1)), (''y'', JNumber (PosInt 2))], result_flag = Some True\<rparr>)]"
  by (simp add: sample_body_def submitted_nodes_def json_get_def decode_nodes_def)

lemma sample_body_supported: "unsupported_process_ids sample_body [''add''] = []"
proof -
  have "collect_process_ids sample_body = {''add''}"
    by (simp add: sample_body_def collect_process_ids_def submitted_graph_def json_get_def walk_ids.simps MAX_SUBGRAPH_DEPTH_def)
  then have "set (unsupported_process_ids sample_body [''add'']) = {}" by (simp add: set_unsupported)
  then show ?thesis by simp
qed

theorem create_job_admission_witness:
  "code (fst (create_job mem_ops ref_is_cyclic (\<lambda>_. []) [''add''] ''j1'' 5 mem_new sample_body)) = 201"
proof -
  let ?n = "[(''a'', \<lparr>process_id = ''add'', arguments = [(''x'', JNumber (PosInt 1)), (''y'', JNumber (PosInt 2))],
    result_flag = Some True\<rparr>)]"
  obtain resp s' where c: "create_job mem_ops ref_is_cyclic (\<lambda>_. []) [''add''] ''j1'' 5 mem_new sample_body = (resp, s')"
    by (cases "create_job mem_ops ref_is_cyclic (\<lambda>_. []) [''add''] ''j1'' 5 mem_new sample_body")
  have fresh: "op_get mem_ops mem_new ''j1'' = Inl (JobNotFound ''j1'')" by (simp add: mem_ops_def mem_get_def mem_new_def)
  have "refs_resolve \<lparr>pg_nodes = ?n\<rparr>" "deps \<lparr>pg_nodes = ?n\<rparr> = {}" "length (result_nodes \<lparr>pg_nodes = ?n\<rparr>) = 1"
    by (simp_all add: refs_resolve_def node_depth_ok_def node_refs_def deps_def result_nodes_def)
  moreover obtain v where v: "Option.bind (json_get sample_body ''process'') (\<lambda>p. json_get p ''process_graph'') = Some v" "decode_nodes v = Ok ?n"
    using sample_body_nodes submitted_nodes_Some [of sample_body] by blast
  moreover have "\<forall>m p. submitted_object v 0 m \<longrightarrow> map_of m ''process_id'' = Some (JString p) \<longrightarrow> p \<in> set [''add'']"
    using unsupported_walked [OF v(1)] sample_body_supported by blast
  moreover have "acyclic (deps \<lparr>pg_nodes = ?n\<rparr>)" using calculation(2) by (simp add: acyclic_def)
  ultimately have "code resp = 201"
    using create_job_admission [OF mem_store_contract ref.graph_algos_axioms fresh c, THEN conjunct1] by blast
  then show ?thesis by (simp add: c)
qed

text \<open>
  C19. \<open>POST /jobs/\{id\}/results\<close> starts a supervisor (202) exactly when the job exists, is neither queued nor
  running, and a permit is free; the supervisor then holds the permit and is the one registered for
  the job. In every other case the answer is 404, 409 or 503 (or the store's 500) and nothing changes.
\<close>

theorem start_processing_guard:
  assumes "start_processing ops a jid = (resp, a')"
  shows "(code resp = 202 \<longleftrightarrow> (\<exists>r. op_get ops (a_jobs a) jid = Inr r \<and> status r \<noteq> Queued \<and> status r \<noteq> Running) \<and> 0 < a_permits a) \<and>
    (code resp = 202 \<longrightarrow> a_permits a' + 1 = a_permits a \<and> reg_entries (a_registry a') jid = Some (a_next a, a_next a) \<and>
       (\<exists>t. a_tasks a' = (a_tasks a)(a_next a \<mapsto> t) \<and> t_job t = jid \<and> t_notify t = a_next a) \<and> a_jobs a' = a_jobs a) \<and>
    (code resp \<noteq> 202 \<longrightarrow> a' = a \<and> code resp \<in> {404, 409, 500, 503})"
proof (cases "op_get ops (a_jobs a) jid")
  case (Inl e)
  then show ?thesis using assms by (cases e) (auto simp: start_processing_def store_error_short_def)
next
  case (Inr r)
  show ?thesis
  proof (cases "status r = Queued \<or> status r = Running \<or> a_permits a = 0")
    case True
    then have "a' = a" "code resp = 409 \<or> code resp = 503"
      using assms Inr by (auto simp: start_processing_def split: if_splits)
    then show ?thesis using True Inr by auto
  next
    case False
    then have "resp = status_only 202" "a' = register_supervisor jid (a_next a) (spawn_supervisor r jid a)"
      using assms Inr by (auto simp: start_processing_def)
    then show ?thesis using False Inr
      by (simp add: register_supervisor_def spawn_supervisor_def reg_register_def Let_def)
        (rule exI [of _ "\<lparr>t_job = jid, t_user = user_id r, t_body = job_process r, t_notify = a_next a\<rparr>"], simp)
  qed
qed

theorem start_processing_guard_witness:
  "code (fst (start_processing mem_ops (app_init 2 sample_store) ''j1'')) = 202 \<and>
   a_permits (snd (start_processing mem_ops (app_init 2 sample_store) ''j1'')) = 1"
proof -
  obtain resp a' where s: "start_processing mem_ops (app_init 2 sample_store) ''j1'' = (resp, a')"
    by (cases "start_processing mem_ops (app_init 2 sample_store) ''j1''")
  have "\<exists>r. op_get mem_ops (a_jobs (app_init 2 sample_store)) ''j1'' = Inr r \<and> status r = Created"
    by (simp add: app_init_def sample_store_def mem_ops_def mem_create_def mem_new_def mem_get_def Let_def)
  then show ?thesis using start_processing_guard [OF s] s by (auto simp: app_init_def)
qed

text \<open>
  C20. Under every interleaving of starts, registrations, cancellations, completions and panics, the
  number of running supervisors plus the free permits is the configured number of permits: at most
  that many jobs run at a time, and no permit is lost or duplicated.
\<close>

theorem permits_conserved:
  assumes "app_reachable ops cap a"
  shows "finite (dom (a_tasks a)) \<and> card (dom (a_tasks a)) + a_permits a = cap"
  using app_reachable_inv [OF assms] by (simp add: app_inv_def)

definition twice_started :: "mem_store app" where
  "twice_started = snd (start_processing mem_ops (snd (start_processing mem_ops (app_init 2 sample_store) ''j1'')) ''j1'')"

lemma twice_started_reachable: "app_reachable mem_ops 2 twice_started"
  unfolding twice_started_def by (intro start_reachable app_reachable.init)

lemma sample_store_get: "\<exists>r. op_get mem_ops sample_store ''j1'' = Inr r \<and> status r = Created"
  by (simp add: sample_store_def mem_ops_def mem_create_def mem_new_def mem_get_def Let_def)

lemma twice_started_state:
  "\<exists>t t'. a_tasks twice_started = [0 \<mapsto> t, 1 \<mapsto> t'] \<and> t_job t = ''j1'' \<and> t_job t' = ''j1'' \<and>
     reg_entries (a_registry twice_started) = [''j1'' \<mapsto> (1, 1)] \<and> a_pending twice_started = [] \<and> a_jobs twice_started = sample_store"
proof -
  obtain r where r: "op_get mem_ops sample_store ''j1'' = Inr r" "status r = Created" using sample_store_get by blast
  let ?t = "\<lambda>h. \<lparr>t_job = ''j1'', t_user = user_id r, t_body = job_process r, t_notify = h\<rparr>"
  have "snd (start_processing mem_ops (app_init 2 sample_store) ''j1'') =
     \<lparr>a_jobs = sample_store, a_permits = 1, a_registry = \<lparr>reg_entries = [''j1'' \<mapsto> (0, 0)], reg_notified = {}\<rparr>,
      a_tasks = [0 \<mapsto> ?t 0], a_pending = [], a_next = 1\<rparr>"
    by (simp add: start_processing_def r app_init_def register_supervisor_def spawn_supervisor_def Let_def
        reg_register_def registry_new_def)
  then have eq: "twice_started =
     \<lparr>a_jobs = sample_store, a_permits = 0, a_registry = \<lparr>reg_entries = [''j1'' \<mapsto> (1, 1)], reg_notified = {}\<rparr>,
      a_tasks = [0 \<mapsto> ?t 0, 1 \<mapsto> ?t 1], a_pending = [], a_next = 2\<rparr>"
    by (simp add: twice_started_def start_processing_def r register_supervisor_def spawn_supervisor_def Let_def reg_register_def)
  show ?thesis unfolding eq by (rule exI [of _ "?t 0"], rule exI [of _ "?t 1"]) simp
qed

theorem permits_conserved_witness: "card (dom (a_tasks twice_started)) + a_permits twice_started = 2"
  using permits_conserved [OF twice_started_reachable] by simp

text \<open>
  C21. The check against starting a job twice is not effective before the first runner has written its
  status. Whatever the application has done before, when a job is \<open>created\<close> and two permits are free, two
  starts in a row are both accepted: two supervisors run the same graph of the same job, and only the
  second is registered. A discard notifies the second only; and once the second has ended, the job has
  no registry entry, so a discard leaves the first running without a cancel signal.
\<close>

theorem double_start_uncancellable:
  assumes "app_reachable ops cap a" and "op_get ops (a_jobs a) jid = Inr r" and "status r = Created" and "2 \<le> a_permits a"
  shows "\<exists>a1 a2 t t'. start_processing ops a jid = (status_only 202, a1) \<and> start_processing ops a1 jid = (status_only 202, a2) \<and>
    app_reachable ops cap a2 \<and> a_tasks a2 (a_next a) = Some t \<and> a_tasks a2 (a_next a + 1) = Some t' \<and>
    t_job t = jid \<and> t_job t' = jid \<and> t_body t = t_body t' \<and> t_user t = t_user t' \<and>
    (\<forall>now. let c = snd (discard_results ops now a2 jid) in
       t_notify t' \<in> reg_notified (a_registry c) \<and> t_notify t \<notin> reg_notified (a_registry c)) \<and>
    (\<forall>now panicked later. let b = supervisor_joined ops now panicked (a_next a + 1) t' a2; c = snd (discard_results ops later b jid) in
       app_reachable ops cap c \<and> a_tasks c (a_next a) = Some t \<and> reg_entries (a_registry c) jid = None \<and>
       t_notify t \<notin> reg_notified (a_registry c))"
proof -
  let ?n = "a_next a"
  let ?t = "\<lparr>t_job = jid, t_user = user_id r, t_body = job_process r, t_notify = ?n\<rparr>"
  let ?t' = "\<lparr>t_job = jid, t_user = user_id r, t_body = job_process r, t_notify = ?n + 1\<rparr>"
  let ?a1 = "a\<lparr>a_permits := a_permits a - 1, a_tasks := (a_tasks a)(?n \<mapsto> ?t),
      a_registry := reg_register (a_registry a) jid ?n ?n, a_next := ?n + 1\<rparr>"
  let ?a2 = "?a1\<lparr>a_permits := a_permits a - 2, a_tasks := (a_tasks a)(?n \<mapsto> ?t, ?n + 1 \<mapsto> ?t'),
      a_registry := reg_register (reg_register (a_registry a) jid ?n ?n) jid (?n + 1) (?n + 1), a_next := ?n + 2\<rparr>"
  have s1: "start_processing ops a jid = (status_only 202, ?a1)" using start_accepted [of ops a jid r] assms(2-4) by simp
  have s2: "start_processing ops ?a1 jid = (status_only 202, ?a2)"
    using start_accepted [of ops ?a1 jid r] assms(2-4) by (simp add: numeral_2_eq_2)
  have r2: "app_reachable ops cap ?a2" using start_reachable [OF start_reachable [OF assms(1)], of jid jid] s1 s2 by simp
  have fresh: "?n \<notin> reg_notified (a_registry a)" using app_reachable_notify [OF assms(1)] by (auto simp: notify_inv_def)
  have got: "op_get ops (a_jobs ?a2) jid = Inr r" using assms(2) by simp
  have both: "t_notify ?t' \<in> reg_notified (a_registry (snd (discard_results ops now ?a2 jid)))"
      "t_notify ?t \<notin> reg_notified (a_registry (snd (discard_results ops now ?a2 jid)))" for now
    using fresh assms(2,3) by (simp_all add: discard_results_def Let_def reg_cancel_def reg_register_def)
  let ?b = "\<lambda>now panicked. supervisor_joined ops now panicked (?n + 1) ?t' ?a2"
  have b: "app_reachable ops cap (?b now panicked)" "a_tasks (?b now panicked) ?n = Some ?t"
    "reg_entries (a_registry (?b now panicked)) jid = None" "reg_notified (a_registry (?b now panicked)) = reg_notified (a_registry a)"
    for now panicked
  proof -
    have "a_tasks ?a2 (?n + 1) = Some ?t'" by simp
    then show "app_reachable ops cap (?b now panicked)" by (rule app_reachable.step [OF r2 app_step.joined])
  qed (simp_all add: supervisor_joined_def end_task_def reg_deregister_def reg_register_def)
  have quiet: "a_tasks (snd (discard_results ops later x jid)) = a_tasks x"
    "reg_entries (a_registry x) jid = None \<Longrightarrow> a_registry (snd (discard_results ops later x jid)) = a_registry x" for later x
    by (auto simp: discard_results_def Let_def reg_cancel_def split: sum.splits)
  have lost: "app_reachable ops cap (snd (discard_results ops later (?b now panicked) jid))"
      "a_tasks (snd (discard_results ops later (?b now panicked) jid)) ?n = Some ?t"
      "reg_entries (a_registry (snd (discard_results ops later (?b now panicked) jid))) jid = None"
      "t_notify ?t \<notin> reg_notified (a_registry (snd (discard_results ops later (?b now panicked) jid)))" for now panicked later
  proof -
    show "app_reachable ops cap (snd (discard_results ops later (?b now panicked) jid))"
      by (rule app_reachable.step [OF b(1) app_step.discard])
    show "a_tasks (snd (discard_results ops later (?b now panicked) jid)) ?n = Some ?t" unfolding quiet(1) by (rule b(2))
    show "reg_entries (a_registry (snd (discard_results ops later (?b now panicked) jid))) jid = None"
      unfolding quiet(2) [OF b(3)] by (rule b(3))
    show "t_notify ?t \<notin> reg_notified (a_registry (snd (discard_results ops later (?b now panicked) jid)))"
      unfolding quiet(2) [OF b(3)] b(4) using fresh by simp
  qed
  show ?thesis unfolding Let_def
    by (rule exI [of _ ?a1], rule exI [of _ ?a2], rule exI [of _ ?t], rule exI [of _ ?t'])
      (intro conjI allI s1 s2 r2 both lost; simp)
qed

theorem double_start_uncancellable_witness:
  "\<exists>a1 a2 t. start_processing mem_ops (app_init 2 sample_store) ''j1'' = (status_only 202, a1) \<and>
     start_processing mem_ops a1 ''j1'' = (status_only 202, a2) \<and> a_tasks a2 0 = Some t \<and> t_job t = ''j1''"
proof -
  obtain r where "op_get mem_ops (a_jobs (app_init 2 sample_store)) ''j1'' = Inr r" "status r = Created"
    using sample_store_get by (auto simp: app_init_def)
  moreover have "2 \<le> a_permits (app_init 2 sample_store)" "a_next (app_init 2 sample_store) = 0" by (simp_all add: app_init_def)
  ultimately show ?thesis
    using double_start_uncancellable [OF app_reachable.init [of mem_ops 2 sample_store], of "''j1''" r] by auto
qed

end
