(* ===== verification/Resilience.thy ===== *)
theory Resilience
  imports Ieee_F64
begin

text \<open>
  Retry policy and circuit breaker (\<open>crates/orbit-resilience/src/lib.rs\<close>). A \<open>Duration\<close> is its
  nanoseconds. The operation that is retried threads its own state; \<open>sleep\<close> is recorded as the list of
  delays. The breaker has a failure counter outside its mutex: \<open>record_success\<close> and \<open>record_failure\<close> are an
  atomic access of the counter followed by a critical section, as two functions that the operation
  composes; the section on interleavings has them as separate steps.
\<close>

section \<open>Retry\<close>

definition duration_max :: nat where "duration_max = u64_max * 10 ^ 9 + 999999999"

definition checked_mul :: "nat \<Rightarrow> nat \<Rightarrow> nat option" where
  "checked_mul d k = (if d * k \<le> duration_max then Some (d * k) else None)"

record retry_policy =
  max_attempts :: nat
  base_delay :: nat
  max_delay :: nat

definition default_policy :: retry_policy where
  "default_policy = \<lparr>max_attempts = 4, base_delay = 100 * 10 ^ 6, max_delay = 30 * 10 ^ 9\<rparr>"

definition delay_for_attempt :: "retry_policy \<Rightarrow> nat \<Rightarrow> nat" where
  "delay_for_attempt p n =
     (if n = 0 then 0
      else let shift = min (n - 1) 30 in
        min (case checked_mul (base_delay p) (2 ^ shift) of Some d \<Rightarrow> d | None \<Rightarrow> max_delay p) (max_delay p))"

definition should_retry :: "retry_policy \<Rightarrow> nat \<Rightarrow> bool" where
  "should_retry p n \<longleftrightarrow> n < max_attempts p"

text \<open>\<open>f64 as u64\<close>: truncation toward zero, saturating; NaN gives zero.\<close>

definition f64_to_u64 :: "f64 \<Rightarrow> nat" where
  "f64_to_u64 x =
     (if f64_is_nan x \<or> f64_neg x then 0 else min (mag_units (f64_mag x) div 2 ^ 1074) u64_max)"

definition jittered_delay :: "retry_policy \<Rightarrow> nat \<Rightarrow> f64 \<Rightarrow> nat" where
  "jittered_delay p n rng =
     (let cap = delay_for_attempt p n;
          cap_micros = wrap64 (cap div 1000) in
      if cap_micros = 0 then 0
      else f64_to_u64 (f64_mul (f64_clamp rng (f64_of_nat 0) (f64_of_nat 1)) (f64_of_nat cap_micros)) * 1000)"

text \<open>The retry loop; \<open>None\<close> is the panic for \<open>max_attempts = 0\<close>.\<close>

function retry_loop ::
  "retry_policy \<Rightarrow> ('s \<Rightarrow> ('e, 'a) result \<times> 's) \<Rightarrow> nat \<Rightarrow> 'e option \<Rightarrow> 's \<Rightarrow> nat list
   \<Rightarrow> ('e, 'a) result option \<times> 's \<times> nat list" where
  "retry_loop p op attempt last_err s sleeps =
     (if should_retry p attempt then
        (case op s of
           (Inr t, s') \<Rightarrow> (Some (Inr t), s', sleeps)
         | (Inl e, s') \<Rightarrow>
             retry_loop p op (attempt + 1) (Some e) s'
               (if should_retry p (attempt + 1) then sleeps @ [delay_for_attempt p (attempt + 1)] else sleeps))
      else (case last_err of Some e \<Rightarrow> Some (Inl e) | None \<Rightarrow> None, s, sleeps))"
  by pat_completeness auto
termination
  by (relation "measure (\<lambda>(p, op, attempt, last_err, s, sleeps). max_attempts p - attempt)")
    (auto simp: should_retry_def)

definition retry_async ::
  "retry_policy \<Rightarrow> ('s \<Rightarrow> ('e, 'a) result \<times> 's) \<Rightarrow> 's \<Rightarrow> ('e, 'a) result option \<times> 's \<times> nat list" where
  "retry_async p op s = retry_loop p op 0 None s []"

declare retry_loop.simps [simp del]

section \<open>Circuit breaker\<close>

datatype circuit_state = Closed | Open | HalfOpen

record circuit_config =
  failure_threshold :: "32 word"
  open_cooldown :: nat

definition default_circuit :: circuit_config where
  "default_circuit = \<lparr>failure_threshold = 5, open_cooldown = 30 * 10 ^ 9\<rparr>"

datatype circuit_error = CircuitOpen

record circuit_breaker =
  cb_state :: circuit_state
  opened_at :: "nat option"
  consecutive_failures :: "32 word"
  cb_open_count :: "64 word"

definition breaker_new :: circuit_breaker where
  "breaker_new = \<lparr>cb_state = Closed, opened_at = None, consecutive_failures = 0, cb_open_count = 0\<rparr>"

text \<open>\<open>state()\<close>: the state, moving from open to half-open once the cooldown has passed.\<close>

definition breaker_state :: "circuit_config \<Rightarrow> nat \<Rightarrow> circuit_breaker \<Rightarrow> circuit_state \<times> circuit_breaker" where
  "breaker_state cfg now b =
     (let b' = (if cb_state b = Open then
                  (case opened_at b of
                     Some at \<Rightarrow> if open_cooldown cfg \<le> now - at then b\<lparr>cb_state := HalfOpen\<rparr> else b
                   | None \<Rightarrow> b)
                else b)
      in (cb_state b', b'))"

definition open_count :: "circuit_breaker \<Rightarrow> 64 word" where "open_count b = cb_open_count b"

definition try_acquire :: "circuit_config \<Rightarrow> nat \<Rightarrow> circuit_breaker \<Rightarrow> (circuit_error, unit) result \<times> circuit_breaker" where
  "try_acquire cfg now b =
     (case breaker_state cfg now b of
        (Open, b') \<Rightarrow> (Inl CircuitOpen, b')
      | (_, b') \<Rightarrow> (Inr (), b'))"

definition success_reset :: "circuit_breaker \<Rightarrow> circuit_breaker" where
  "success_reset b = b\<lparr>consecutive_failures := 0\<rparr>"

definition success_locked :: "circuit_breaker \<Rightarrow> circuit_breaker" where
  "success_locked b = (if cb_state b = HalfOpen then b\<lparr>cb_state := Closed, opened_at := None\<rparr> else b)"

definition record_success :: "circuit_breaker \<Rightarrow> circuit_breaker" where
  "record_success b = success_locked (success_reset b)"

text \<open>\<open>fetch_add\<close> returns the old value, from which the caller computes its \<open>prev\<close>.\<close>

definition failure_count :: "circuit_breaker \<Rightarrow> 32 word \<times> circuit_breaker" where
  "failure_count b = (consecutive_failures b + 1, b\<lparr>consecutive_failures := consecutive_failures b + 1\<rparr>)"

definition failure_locked :: "circuit_config \<Rightarrow> nat \<Rightarrow> 32 word \<Rightarrow> circuit_breaker \<Rightarrow> circuit_breaker" where
  "failure_locked cfg now prev b =
     (let should_open = (case cb_state b of
              Closed \<Rightarrow> failure_threshold cfg \<le> prev | HalfOpen \<Rightarrow> True | Open \<Rightarrow> False)
      in if should_open \<and> cb_state b \<noteq> Open
         then b\<lparr>cb_state := Open, opened_at := Some now, cb_open_count := cb_open_count b + 1\<rparr>
         else b)"

definition record_failure :: "circuit_config \<Rightarrow> nat \<Rightarrow> circuit_breaker \<Rightarrow> circuit_breaker" where
  "record_failure cfg now b = (let (prev, b1) = failure_count b in failure_locked cfg now prev b1)"

lemmas record_defs = record_success_def success_locked_def success_reset_def
  record_failure_def failure_count_def failure_locked_def

section \<open>Lemmas\<close>

text \<open>The sequence of results of an operation that is called again and again.\<close>

primrec run_n :: "('s \<Rightarrow> ('e, 'a) result \<times> 's) \<Rightarrow> nat \<Rightarrow> 's \<Rightarrow> 's" where
  "run_n op 0 s = s"
| "run_n op (Suc n) s = run_n op n (snd (op s))"

lemma run_n_end: "snd (op (run_n op n s)) = run_n op (Suc n) s"
  by (induction n arbitrary: s) auto

lemma retry_loop_success:
  assumes "\<forall>j < k. \<exists>e. fst (op (run_n op j s)) = Inl e" and "fst (op (run_n op k s)) = Inr t"
    and "attempt + k < max_attempts p"
  shows "retry_loop p op attempt last_err s sl =
    (Some (Inr t), run_n op (Suc k) s, sl @ map (delay_for_attempt p) [attempt + 1..<attempt + 1 + k])"
  using assms
proof (induction k arbitrary: attempt last_err s sl)
  case 0
  then show ?case by (cases "op s") (simp add: retry_loop.simps [of p op attempt] should_retry_def)
next
  case (Suc k)
  obtain e s' where op: "op s = (Inl e, s')" using Suc.prems(1) by (cases "op s") force
  have more: "should_retry p attempt" "should_retry p (attempt + 1)" using Suc.prems(3) by (simp_all add: should_retry_def)
  have "retry_loop p op (attempt + 1) (Some e) s' (sl @ [delay_for_attempt p (attempt + 1)]) =
     (Some (Inr t), run_n op (Suc k) s', (sl @ [delay_for_attempt p (attempt + 1)]) @
        map (delay_for_attempt p) [attempt + 1 + 1..<attempt + 1 + 1 + k])"
    using Suc.prems op by (intro Suc.IH) force+
  then show ?case
    using op more by (simp add: retry_loop.simps [of p op attempt] upt_conv_Cons del: upt_Suc)
qed

lemma retry_loop_failure:
  assumes "\<forall>j \<le> k. \<exists>e. fst (op (run_n op j s)) = Inl e" and "fst (op (run_n op k s)) = Inl e"
    and "attempt + Suc k = max_attempts p"
  shows "retry_loop p op attempt last_err s sl =
    (Some (Inl e), run_n op (Suc k) s, sl @ map (delay_for_attempt p) [attempt + 1..<max_attempts p])"
  using assms
proof (induction k arbitrary: attempt last_err s sl)
  case 0
  then show ?case
    by (cases "op s") (simp add: retry_loop.simps [of p op attempt] retry_loop.simps [of p op "max_attempts p"] should_retry_def)
next
  case (Suc k)
  obtain e' s' where op: "op s = (Inl e', s')" using Suc.prems(1) by (cases "op s") force
  have more: "should_retry p attempt" "should_retry p (attempt + 1)" using Suc.prems(3) by (simp_all add: should_retry_def)
  have "retry_loop p op (attempt + 1) (Some e') s' (sl @ [delay_for_attempt p (attempt + 1)]) =
     (Some (Inl e), run_n op (Suc k) s', (sl @ [delay_for_attempt p (attempt + 1)]) @
        map (delay_for_attempt p) [attempt + 1 + 1..<max_attempts p])"
    using Suc.prems op by (intro Suc.IH) force+
  then show ?case
    using op more Suc.prems(3) by (simp add: retry_loop.simps [of p op attempt] upt_conv_Cons del: upt_Suc)
qed

lemma retry_loop_answers:
  "last_err \<noteq> None \<or> should_retry p attempt \<Longrightarrow> fst (retry_loop p op attempt last_err s sl) \<noteq> None"
proof (induction p op attempt last_err s sl rule: retry_loop.induct)
  case (1 p op attempt last_err s sl)
  show ?case
  proof (cases "should_retry p attempt")
    case False
    then show ?thesis using "1.prems" by (auto simp: retry_loop.simps [of p op attempt])
  next
    case True
    obtain r s' where op: "op s = (r, s')" by (cases "op s")
    then show ?thesis using True "1.IH" [OF True op [symmetric]]
      by (cases r) (auto simp: retry_loop.simps [of p op attempt])
  qed
qed

lemma delay_bounds: "delay_for_attempt p n \<le> max_delay p"
  by (simp add: delay_for_attempt_def Let_def)

section \<open>Jitter\<close>

lemma rne_scale: "0 < d \<Longrightarrow> 0 < b \<Longrightarrow> rne (k * d) (d * b) = rne k b"
  by (simp add: rne_def mult.commute [of k d] mult_mod_right [symmetric])

lemma round_mag_scale: "0 < d \<Longrightarrow> round_mag (k * d) d = round_mag k 1"
  by (simp add: round_mag_def Let_def rne_scale)

lemma f64_one_units: "f64_units (f64_of_nat 1) = 2 ^ 1074" and f64_one_mag: "round_mag (1 * 2 ^ 1074) 1 = 1023 * 2 ^ 52"
proof -
  have u: "mag_units (1023 * 2 ^ 52) = 2 ^ 1074" by (simp add: mag_units_def)
  have "1023 * 2 ^ 52 \<le> inf_mag" by (simp add: inf_mag_def)
  from round_mag_units [OF this] show r: "round_mag (1 * 2 ^ 1074) 1 = 1023 * 2 ^ 52" unfolding u by simp
  have "f64_neg (f64_of_nat 1) = False" "f64_mag (f64_of_nat 1) = 1023 * 2 ^ 52"
    using f64_make_parts [of "1023 * 2 ^ 52" False] by (simp_all only: f64_of_nat_def r, simp_all)
  then show "f64_units (f64_of_nat 1) = 2 ^ 1074" unfolding f64_units_def by (simp only: u if_False of_nat_power of_nat_numeral)
qed

text \<open>Multiplying by a factor between 0 and 1 does not increase a value.\<close>

lemma mul_unit_le:
  assumes "\<not> f64_neg x" "\<not> f64_is_nan x" "f64_units x \<le> 2 ^ 1074" and "\<not> f64_neg c" "f64_mag c < inf_mag"
  shows "f64_to_u64 (f64_mul x c) \<le> f64_to_u64 c"
proof -
  have ux: "mag_units (f64_mag x) \<le> 2 ^ 1074" using assms(1,3) unfolding f64_units_def by simp
  have xf: "\<not> f64_is_infinite x"
  proof
    assume "f64_is_infinite x"
    then have "mag_units inf_mag \<le> 2 ^ 1074" using ux by (simp add: f64_is_infinite_def)
    then show False by (simp add: inf_mag_def mag_units_def)
  qed
  have c: "\<not> f64_is_nan c" "\<not> f64_is_infinite c" using assms(5) by (simp_all add: f64_is_nan_def f64_is_infinite_def)
  let ?m = "round_mag (mag_units (f64_mag x) * mag_units (f64_mag c)) (2 ^ 1074)"
  have mul: "f64_mul x c = f64_make False ?m"
    unfolding f64_mul_def Let_def using assms(1,2,4) xf c by (simp only: if_False simp_thms)
  have "?m \<le> round_mag (mag_units (f64_mag c) * 2 ^ 1074) (2 ^ 1074)"
    by (rule round_mag_mono) (simp_all only: zero_less_power zero_less_numeral mult.commute [of _ "2 ^ 1074"] mult_le_mono1 ux)
  also have "\<dots> = f64_mag c" using round_mag_scale [of "2 ^ 1074"] round_mag_units [of "f64_mag c"] assms(5) by simp
  finally have le: "?m \<le> f64_mag c" .
  then have "mag_units ?m \<le> mag_units (f64_mag c)" using assms(5) by (intro mag_units_mono) simp_all
  then show ?thesis
    unfolding f64_to_u64_def mul f64_make_parts [OF round_mag_less] using assms(4) c(1) f64_make_round_not_nan
    by (simp add: div_le_mono min.coboundedI1 min_le_iff_disj)
qed

lemma f64_nan_is_nan: "f64_is_nan f64_nan"
proof -
  have "f64_mag f64_nan = 2047 * 2 ^ 52 + 2 ^ 51"
    unfolding f64_nan_def by (rule f64_make_parts(2)) simp
  then show ?thesis by (simp add: f64_is_nan_def inf_mag_def)
qed

lemma mul_neg_zero:
  assumes "f64_neg x" "\<not> f64_is_nan x" and "\<not> f64_neg c" "f64_mag c < inf_mag"
  shows "f64_to_u64 (f64_mul x c) = 0"
proof -
  have c: "\<not> f64_is_nan c" "\<not> f64_is_infinite c" using assms(4) by (simp_all add: f64_is_nan_def f64_is_infinite_def)
  have "f64_is_nan (f64_mul x c) \<or> f64_neg (f64_mul x c)"
    using assms c f64_nan_is_nan f64_make_parts(1) [OF round_mag_less] f64_make_parts(1) [OF inf_mag_less]
    by (simp add: f64_mul_def Let_def f64_infinity_def)
  then show ?thesis by (auto simp: f64_to_u64_def)
qed

text \<open>The bound in general, with the delay in microseconds as \<open>f64\<close> rounds it.\<close>

lemma jitter_rounded:
  "jittered_delay p n rng \<le> f64_to_u64 (f64_of_nat (wrap64 (delay_for_attempt p n div 1000))) * 1000"
proof (cases "wrap64 (delay_for_attempt p n div 1000) = 0")
  case True
  then show ?thesis by (simp add: jittered_delay_def Let_def)
next
  case False
  let ?c = "f64_of_nat (wrap64 (delay_for_attempt p n div 1000))"
  let ?x = "f64_clamp rng (f64_of_nat 0) (f64_of_nat 1)"
  have c: "\<not> f64_neg ?c" "f64_mag ?c < inf_mag" using f64_of_nat_finite [OF wrap64_less] by simp_all
  have "f64_to_u64 (f64_mul ?x ?c) \<le> f64_to_u64 ?c"
  proof (cases "f64_is_nan ?x")
    case True
    then show ?thesis by (simp add: f64_mul_def f64_to_u64_def f64_nan_is_nan)
  next
    case nan: False
    show ?thesis
    proof (cases "f64_neg ?x")
      case True
      have "f64_to_u64 (f64_mul ?x ?c) = 0" using mul_neg_zero [OF True nan c] by simp
      then show ?thesis by simp
    next
      case False
      have "f64_le (f64_of_nat 0) (f64_of_nat 1)" by (rule f64_of_nat_mono) simp
      from f64_clamp_range [OF this, of rng] have "f64_units ?x \<le> f64_units (f64_of_nat 1)"
        using nan by (auto simp: f64_le_def)
      then show ?thesis unfolding f64_one_units by (rule mul_unit_le [OF False nan _ c])
    qed
  qed
  then show ?thesis using False by (simp add: jittered_delay_def Let_def)
qed

text \<open>A natural below \<open>2 ^ 53\<close> is a value of \<open>f64\<close>.\<close>

lemma nat_mag:
  assumes "m < 2 ^ 53"
  shows "\<exists>x \<le> inf_mag. mag_units x = m * 2 ^ 1074"
proof (cases "m = 0")
  case True
  then show ?thesis by (intro exI [of _ 0]) simp
next
  case False
  define e where "e = bitlen m - 1"
  have b: "2 ^ e \<le> m" "m < 2 ^ Suc e" "e \<le> 52"
    using bitlen_bounds [of m] bitlen_le_iff [of m 53] False assms by (cases "bitlen m"; simp add: e_def)+
  define q where "q = m * 2 ^ (52 - e)"
  have "2 ^ e * 2 ^ (52 - e) \<le> q" "q < 2 ^ Suc e * 2 ^ (52 - e)" unfolding q_def using b(1,2) by simp_all
  then have q: "2 ^ 52 \<le> q" "q < 2 * 2 ^ 52" using b(3) by (simp_all add: power_add [symmetric] flip: power_Suc)
  define x where "x = (e + 1023) * 2 ^ 52 + (q - 2 ^ 52)"
  have rem: "q - 2 ^ 52 < 2 ^ 52" using q by linarith
  have parts: "x div 2 ^ 52 = e + 1023" "x mod 2 ^ 52 = q - 2 ^ 52" unfolding x_def
    by (simp_all only: div_mult_self3 mod_mult_self3 div_less [OF rem] mod_less [OF rem] add_0_right) (use rem in simp_all)
  have big: "\<not> x < 2 ^ 52" unfolding x_def by simp
  have "mag_units x = q * 2 ^ (e + 1022)" unfolding mag_units_def parts using big q(1) by simp
  also have "\<dots> = m * (2 ^ (52 - e) * 2 ^ (e + 1022))" by (simp only: q_def mult.assoc)
  also have "2 ^ (52 - e) * 2 ^ (e + 1022) = (2 ^ 1074 :: nat)" unfolding power_add [symmetric] using b(3) by simp
  finally have units: "mag_units x = m * 2 ^ 1074" .
  have "x \<le> 1075 * 2 ^ 52 + 2 ^ 52" unfolding x_def using b(3) rem by simp
  then have "x \<le> inf_mag" by (simp add: inf_mag_def)
  then show ?thesis using units by blast
qed

lemma f64_to_u64_exact:
  assumes "m < 2 ^ 53"
  shows "f64_to_u64 (f64_of_nat m) = m"
proof -
  obtain x where x: "x \<le> inf_mag" "mag_units x = m * 2 ^ 1074" using nat_mag [OF assms] by blast
  have r: "round_mag (m * 2 ^ 1074) 1 = x" using round_mag_units [OF x(1)] by (simp only: x(2))
  have "f64_mag (f64_of_nat m) = x" unfolding f64_of_nat_def by (simp only: r f64_make_parts(2) [OF round_mag_less, of False "m * 2 ^ 1074" 1, unfolded r])
  moreover have "\<not> f64_neg (f64_of_nat m)" using f64_of_nat_finite(2) [of m] assms by simp
  moreover have "\<not> f64_is_nan (f64_of_nat m)" unfolding f64_is_nan_def calculation(1) using x(1) by (simp only: not_less)
  ultimately have "f64_to_u64 (f64_of_nat m) = min (m * 2 ^ 1074 div 2 ^ 1074) u64_max"
    unfolding f64_to_u64_def by (simp only: x(2) simp_thms if_False)
  also have "m * 2 ^ 1074 div 2 ^ 1074 = m" by (rule nonzero_mult_div_cancel_right) simp
  finally show ?thesis using assms by (simp add: u64_max_def)
qed

section \<open>The breaker as a state machine\<close>

inductive breaker_reachable :: "circuit_config \<Rightarrow> circuit_breaker \<Rightarrow> bool" for cfg where
  init: "breaker_reachable cfg breaker_new"
| acquire: "breaker_reachable cfg b \<Longrightarrow> breaker_reachable cfg (snd (try_acquire cfg now b))"
| success: "breaker_reachable cfg b \<Longrightarrow> breaker_reachable cfg (record_success b)"
| failure: "breaker_reachable cfg b \<Longrightarrow> breaker_reachable cfg (record_failure cfg now b)"

definition breaker_inv :: "circuit_config \<Rightarrow> circuit_breaker \<Rightarrow> bool" where
  "breaker_inv cfg b \<longleftrightarrow>
     (cb_state b = Closed \<longrightarrow> consecutive_failures b < failure_threshold cfg) \<and>
     (cb_state b \<noteq> Closed \<longleftrightarrow> opened_at b \<noteq> None)"

lemma try_acquire_snd: "snd (try_acquire cfg now b) = snd (breaker_state cfg now b)"
  by (auto simp: try_acquire_def split: prod.splits circuit_state.splits)

lemma breaker_reachable_inv:
  assumes "breaker_reachable cfg b" and "0 < failure_threshold cfg"
  shows "breaker_inv cfg b"
  using assms(1)
proof (induction rule: breaker_reachable.induct)
  case init
  then show ?case using assms(2) by (simp add: breaker_new_def breaker_inv_def)
next
  case (acquire b now)
  then show ?case by (auto simp: try_acquire_snd breaker_state_def breaker_inv_def Let_def split: option.splits)
next
  case (success b)
  then show ?case using assms(2) by (auto simp: record_defs breaker_inv_def Let_def)
next
  case (failure b now)
  then show ?case
    by (cases "cb_state b") (auto simp: record_defs breaker_inv_def Let_def not_le)
qed

text \<open>
  Interleavings of several callers. \<open>bs_pending\<close> holds the values of \<open>prev\<close> of the failures that are
  counted but do not hold the mutex yet; a reset of the counter may be followed by anything before its
  critical section.
\<close>

record breaker_shared =
  bs_breaker :: circuit_breaker
  bs_pending :: "32 word list"
  bs_resets :: nat

inductive breaker_step :: "circuit_config \<Rightarrow> breaker_shared \<Rightarrow> breaker_shared \<Rightarrow> bool" for cfg where
  acquire: "breaker_step cfg s (s\<lparr>bs_breaker := snd (try_acquire cfg now (bs_breaker s))\<rparr>)"
| reset: "breaker_step cfg s (s\<lparr>bs_breaker := success_reset (bs_breaker s), bs_resets := bs_resets s + 1\<rparr>)"
| success: "0 < bs_resets s \<Longrightarrow>
    breaker_step cfg s (s\<lparr>bs_breaker := success_locked (bs_breaker s), bs_resets := bs_resets s - 1\<rparr>)"
| count: "failure_count (bs_breaker s) = (prev, b) \<Longrightarrow>
    breaker_step cfg s (s\<lparr>bs_breaker := b, bs_pending := prev # bs_pending s\<rparr>)"
| failure: "prev \<in> set (bs_pending s) \<Longrightarrow>
    breaker_step cfg s (s\<lparr>bs_breaker := failure_locked cfg now prev (bs_breaker s), bs_pending := remove1 prev (bs_pending s)\<rparr>)"

definition breaker_shared_new :: breaker_shared where
  "breaker_shared_new = \<lparr>bs_breaker = breaker_new, bs_pending = [], bs_resets = 0\<rparr>"

text \<open>What holds whatever the interleaving: a breaker that is not closed knows when it opened.\<close>

lemma breaker_step_opened:
  "breaker_step cfg s s' \<Longrightarrow> cb_state (bs_breaker s) \<noteq> Closed \<longleftrightarrow> opened_at (bs_breaker s) \<noteq> None \<Longrightarrow>
     cb_state (bs_breaker s') \<noteq> Closed \<longleftrightarrow> opened_at (bs_breaker s') \<noteq> None"
proof (induction rule: breaker_step.induct)
  case (acquire s now)
  then show ?case by (auto simp: try_acquire_snd breaker_state_def Let_def split: option.splits)
next
  case (failure prev s now)
  then show ?case by (cases "cb_state (bs_breaker s)") (auto simp: failure_locked_def Let_def)
qed (auto simp: record_defs)

lemma breaker_shared_opened:
  assumes "(breaker_step cfg)\<^sup>*\<^sup>* breaker_shared_new s"
  shows "cb_state (bs_breaker s) \<noteq> Closed \<longleftrightarrow> opened_at (bs_breaker s) \<noteq> None"
  using assms
proof (induction rule: rtranclp_induct)
  case base
  show ?case by (simp add: breaker_shared_new_def breaker_new_def)
next
  case (step s s')
  then show ?case using breaker_step_opened by blast
qed

text \<open>
  What does not: a failure that was counted before a success reset the counter still opens the breaker
  after it, with a counter of zero.
\<close>

lemma stale_failure_opens:
  assumes "failure_threshold cfg = 1"
  shows "\<exists>s. (breaker_step cfg)\<^sup>*\<^sup>* breaker_shared_new s \<and> cb_state (bs_breaker s) = Open \<and>
    consecutive_failures (bs_breaker s) = 0 \<and> bs_pending s = [] \<and> bs_resets s = 0"
proof -
  let ?n = breaker_shared_new
  let ?a = "?n\<lparr>bs_breaker := breaker_new\<lparr>consecutive_failures := 1\<rparr>, bs_pending := [1]\<rparr>"
  let ?b = "?a\<lparr>bs_breaker := breaker_new, bs_resets := 1\<rparr>"
  let ?c = "?b\<lparr>bs_resets := 0\<rparr>"
  let ?d = "?c\<lparr>bs_breaker := failure_locked cfg 0 1 breaker_new, bs_pending := []\<rparr>"
  have "breaker_step cfg ?n ?a"
    using breaker_step.count [of ?n 1 "breaker_new\<lparr>consecutive_failures := 1\<rparr>" cfg]
    by (simp add: breaker_shared_new_def failure_count_def breaker_new_def)
  moreover have "breaker_step cfg ?a ?b"
    using breaker_step.reset [of cfg ?a] by (simp add: breaker_shared_new_def success_reset_def breaker_new_def)
  moreover have "breaker_step cfg ?b ?c"
    using breaker_step.success [of ?b cfg] by (simp add: breaker_shared_new_def success_locked_def breaker_new_def)
  moreover have "breaker_step cfg ?c ?d" using breaker_step.failure [of 1 ?c cfg 0] by simp
  ultimately have "(breaker_step cfg)\<^sup>*\<^sup>* ?n ?d" by (meson rtranclp.rtrancl_refl rtranclp.rtrancl_into_rtrancl)
  moreover have "cb_state (bs_breaker ?d) = Open" "consecutive_failures (bs_breaker ?d) = 0"
    using assms by (simp_all add: failure_locked_def breaker_new_def)
  ultimately show ?thesis by (intro exI [of _ ?d]) (simp add: breaker_shared_new_def)
qed

section \<open>Properties\<close>

text \<open>
  C22. \<open>retry_async\<close> calls the operation until it succeeds or \<open>max_attempts\<close> calls have failed. If the
  first success is call \<open>k + 1\<close> with \<open>k\<close> below the limit, that value is returned after exactly \<open>k + 1\<close>
  calls and the delays of attempts 1 to \<open>k\<close>; if the first \<open>max_attempts\<close> calls all fail, the last error
  is returned after exactly that many calls, with a delay between any two of them and none at the
  end. It panics only for \<open>max_attempts = 0\<close>.
\<close>

theorem retry_async_attempts:
  "(k < max_attempts p \<longrightarrow> (\<forall>j < k. \<exists>e. fst (op (run_n op j s)) = Inl e) \<longrightarrow> fst (op (run_n op k s)) = Inr t \<longrightarrow>
      retry_async p op s = (Some (Inr t), run_n op (k + 1) s, map (delay_for_attempt p) [1..<k + 1])) \<and>
   (max_attempts p = k + 1 \<longrightarrow> (\<forall>j \<le> k. \<exists>e. fst (op (run_n op j s)) = Inl e) \<longrightarrow> fst (op (run_n op k s)) = Inl e \<longrightarrow>
      retry_async p op s = (Some (Inl e), run_n op (k + 1) s, map (delay_for_attempt p) [1..<max_attempts p])) \<and>
   (fst (retry_async p op s) = None \<longleftrightarrow> max_attempts p = 0)"
proof (intro conjI impI)
  assume "k < max_attempts p" and "\<forall>j < k. \<exists>e. fst (op (run_n op j s)) = Inl e" and "fst (op (run_n op k s)) = Inr t"
  then show "retry_async p op s = (Some (Inr t), run_n op (k + 1) s, map (delay_for_attempt p) [1..<k + 1])"
    using retry_loop_success [of k op s t 0 p None "[]"] unfolding retry_async_def by simp
next
  assume "max_attempts p = k + 1" and "\<forall>j \<le> k. \<exists>e. fst (op (run_n op j s)) = Inl e" and "fst (op (run_n op k s)) = Inl e"
  then show "retry_async p op s = (Some (Inl e), run_n op (k + 1) s, map (delay_for_attempt p) [1..<max_attempts p])"
    using retry_loop_failure [of k op s e 0 p None "[]"] unfolding retry_async_def by simp
next
  show "(fst (retry_async p op s) = None) = (max_attempts p = 0)"
    using retry_loop_answers [of None p 0 op s "[]"] by (auto simp: retry_async_def should_retry_def retry_loop.simps [of p op 0])
qed

text \<open>An operation that fails twice, then answers.\<close>

definition flaky :: "nat \<Rightarrow> (nat, nat) result \<times> nat" where
  "flaky n = (if n < 2 then Inl n else Inr n, n + 1)"

theorem retry_async_attempts_witness:
  "retry_async default_policy flaky 0 = (Some (Inr 2), 3, [10 ^ 8, 2 * 10 ^ 8])"
proof -
  have run: "run_n flaky k s = s + k" for k s by (induction k arbitrary: s) (auto simp: flaky_def)
  have "2 < max_attempts default_policy" "\<forall>j < 2. \<exists>e. fst (flaky (run_n flaky j 0)) = Inl e"
    "fst (flaky (run_n flaky 2 0)) = Inr 2"
    by (simp_all add: run flaky_def default_policy_def)
  then have "retry_async default_policy flaky 0 =
      (Some (Inr 2), run_n flaky (2 + 1) 0, map (delay_for_attempt default_policy) [1..<2 + 1])"
    using retry_async_attempts [of 2 default_policy flaky 0 2 0] by blast
  moreover have "map (delay_for_attempt default_policy) [1..<2 + 1] = [10 ^ 8, 2 * 10 ^ 8]"
    by (simp add: upt_rec delay_for_attempt_def checked_mul_def default_policy_def duration_max_def u64_max_def)
  ultimately show ?thesis by (simp add: run)
qed

text \<open>
  C23. Full jitter stays under the cap: for every value the random source returns, NaN and values
  outside [0, 1] included, the jittered delay is at most the un-jittered delay, and that delay is at
  most \<open>max_delay\<close>, as long as the un-jittered delay is below \<open>2 ^ 53\<close> microseconds (285 years).
  Beyond that, the delay in microseconds is rounded to \<open>f64\<close> and may come out above the cap.
\<close>

theorem jitter_below_cap:
  assumes "delay_for_attempt p n < 2 ^ 53 * 1000"
  shows "jittered_delay p n rng \<le> delay_for_attempt p n \<and> delay_for_attempt p n \<le> max_delay p"
proof -
  let ?m = "delay_for_attempt p n div 1000"
  have m: "?m < 2 ^ 53" using assms by (simp add: less_mult_imp_div_less)
  then have "wrap64 ?m = ?m" by (simp add: wrap64_def)
  then have "jittered_delay p n rng \<le> ?m * 1000" using jitter_rounded [of p n rng] f64_to_u64_exact [OF m] by simp
  then show ?thesis using delay_bounds [of p n] by linarith
qed

theorem jitter_below_cap_witness:
  "jittered_delay default_policy 3 f64_nan \<le> 400 * 10 ^ 6 \<and> jittered_delay default_policy 3 (f64_of_nat 7) \<le> 400 * 10 ^ 6"
proof -
  have d: "delay_for_attempt default_policy 3 = 400 * 10 ^ 6"
    by (simp add: delay_for_attempt_def checked_mul_def default_policy_def duration_max_def u64_max_def)
  show ?thesis using jitter_below_cap [of default_policy 3] unfolding d by simp
qed

text \<open>Above the bound: \<open>2 ^ 53 + 3\<close> microseconds are read as \<open>2 ^ 53 + 4\<close>.\<close>

lemma jitter_above_cap:
  "let p = \<lparr>max_attempts = 2, base_delay = (2 ^ 53 + 3) * 1000, max_delay = (2 ^ 53 + 3) * 1000\<rparr> in
     delay_for_attempt p 1 = (2 ^ 53 + 3) * 1000 \<and> delay_for_attempt p 1 < jittered_delay p 1 (f64_of_nat 1)"
proof -
  let ?p = "\<lparr>max_attempts = 2, base_delay = (2 ^ 53 + 3) * 1000, max_delay = (2 ^ 53 + 3) * 1000\<rparr>"
  have d: "delay_for_attempt ?p 1 = (2 ^ 53 + 3) * 1000"
    by (simp add: delay_for_attempt_def checked_mul_def duration_max_def u64_max_def)
  let ?X = "1076 * 2 ^ 52 + 2 :: nat"
  have X: "?X \<le> inf_mag" "mag_units ?X = (2 ^ 53 + 4) * 2 ^ 1074" by (simp_all add: inf_mag_def mag_units_def)
  have rX: "round_mag (mag_units ?X) 1 = ?X" by (rule round_mag_units [OF X(1)])
  have len: "bitlen ((2 ^ 53 + 3) * 2 ^ 1074) = 1128" by (simp add: bitlen_eqI [of 1127])
  have "round_mag ((2 ^ 53 + 3) * 2 ^ 1074) 1 = ?X"
    unfolding round_mag_def Let_def div_by_1 len by (simp add: rne_def inf_mag_def)
  then have c: "f64_of_nat (2 ^ 53 + 3) = f64_make False ?X" unfolding f64_of_nat_def by (simp only:)
  have cX: "f64_mag (f64_make False ?X) = ?X" "\<not> f64_neg (f64_make False ?X)" using f64_make_parts [of ?X False] by simp_all
  have one: "f64_mag (f64_of_nat 1) = 1023 * 2 ^ 52" "\<not> f64_neg (f64_of_nat 1)"
    unfolding f64_of_nat_def f64_one_mag using f64_make_parts [of "1023 * 2 ^ 52" False] by simp_all
  have u1: "mag_units (1023 * 2 ^ 52) = 2 ^ 1074" by (simp add: mag_units_def)
  have zero: "f64_mag (f64_of_nat 0) = 0" "\<not> f64_neg (f64_of_nat 0)"
  proof -
    have "round_mag (0 * 2 ^ 1074) 1 = 0" using round_mag_units [of 0] by (simp add: mag_units_def)
    then have "f64_of_nat 0 = f64_make False 0" unfolding f64_of_nat_def by (simp only:)
    then show "f64_mag (f64_of_nat 0) = 0" "\<not> f64_neg (f64_of_nat 0)" using f64_make_parts [of 0 False] by simp_all
  qed
  have "f64_clamp (f64_of_nat 1) (f64_of_nat 0) (f64_of_nat 1) = f64_of_nat 1"
  proof -
    have "f64_units (f64_of_nat 0) = 0" unfolding f64_units_def zero(1) by (simp add: mag_units_def)
    then have "\<not> f64_lt (f64_of_nat 1) (f64_of_nat 0)" unfolding f64_lt_def f64_one_units by (simp only: of_nat_0_less_iff) simp
    moreover have "\<not> f64_lt (f64_of_nat 1) (f64_of_nat 1)" unfolding f64_lt_def by (simp only: less_irrefl simp_thms)
    ultimately show ?thesis unfolding f64_clamp_def Let_def by (simp only: if_False)
  qed
  moreover have "f64_mul (f64_of_nat 1) (f64_make False ?X) = f64_make False ?X"
  proof -
    have n: "\<not> f64_is_nan (f64_of_nat 1)" "\<not> f64_is_nan (f64_make False ?X)" "\<not> f64_is_infinite (f64_of_nat 1)"
      "\<not> f64_is_infinite (f64_make False ?X)"
      unfolding f64_is_nan_def f64_is_infinite_def one cX by (simp_all add: inf_mag_def)
    have "round_mag (mag_units (1023 * 2 ^ 52) * mag_units ?X) (2 ^ 1074) = ?X"
      unfolding u1 using round_mag_scale [of "2 ^ 1074" "mag_units ?X"] rX by (simp only: mult.commute [of "2 ^ 1074"] zero_less_power zero_less_numeral)
    then show ?thesis unfolding f64_mul_def Let_def using n one(2) cX(2) by (simp only: one(1) cX(1) if_False simp_thms)
  qed
  moreover have "f64_to_u64 (f64_make False ?X) = 2 ^ 53 + 4"
  proof -
    have "\<not> f64_is_nan (f64_make False ?X)" unfolding f64_is_nan_def cX by (simp add: inf_mag_def)
    moreover have "(2 ^ 53 + 4) * 2 ^ 1074 div 2 ^ 1074 = (2 ^ 53 + 4 :: nat)" by (rule nonzero_mult_div_cancel_right) simp
    ultimately show ?thesis unfolding f64_to_u64_def cX(1) X(2) using cX(2) by (simp add: u64_max_def)
  qed
  moreover have "wrap64 ((2 ^ 53 + 3) * 1000 div 1000) = 2 ^ 53 + 3" by (simp add: wrap64_def)
  ultimately have "jittered_delay ?p 1 (f64_of_nat 1) = (2 ^ 53 + 4) * 1000"
    unfolding jittered_delay_def Let_def d by (simp only: c) simp
  then show ?thesis unfolding Let_def d by simp
qed

text \<open>
  C24. In every sequence of calls that do not overlap, a closed breaker opens on exactly the failure that makes the number of consecutive failures
  reach the threshold, counts it, and from then on rejects calls until the cooldown has passed and
  admits them afterwards. The failure counter of a closed breaker is always below the threshold,
  so it never wraps, and an open or half-open breaker always knows when it opened.
\<close>

theorem breaker_trips:
  assumes "breaker_reachable cfg b" and "0 < failure_threshold cfg" and "cb_state b = Closed"
  shows "unat (consecutive_failures b) < unat (failure_threshold cfg) \<and> opened_at b = None \<and>
    (let b' = record_failure cfg now b in
     if unat (consecutive_failures b) + 1 = unat (failure_threshold cfg)
     then cb_state b' = Open \<and> opened_at b' = Some now \<and> open_count b' = open_count b + 1 \<and>
       (\<forall>t. fst (try_acquire cfg t b') = Inl CircuitOpen \<longleftrightarrow> t - now < open_cooldown cfg)
     else cb_state b' = Closed \<and> unat (consecutive_failures b') = unat (consecutive_failures b) + 1 \<and>
       (\<forall>t. fst (try_acquire cfg t b') = Inr ()))"
proof -
  have inv: "consecutive_failures b < failure_threshold cfg" "opened_at b = None"
    using breaker_reachable_inv [OF assms(1,2)] assms(3) by (auto simp: breaker_inv_def)
  then have lt: "unat (consecutive_failures b) < unat (failure_threshold cfg)" by (simp add: word_less_nat_alt)
  then have inc: "unat (consecutive_failures b + 1) = unat (consecutive_failures b) + 1"
    using unsigned_less [of "failure_threshold cfg", where 'a = nat] by (intro unat_add_lem [THEN iffD1, THEN trans]) simp_all
  then have iff: "failure_threshold cfg \<le> consecutive_failures b + 1 \<longleftrightarrow>
      unat (consecutive_failures b) + 1 = unat (failure_threshold cfg)"
    using lt by (auto simp: word_le_nat_alt)
  show ?thesis
    using assms(3) lt inv inc
    by (auto simp: record_defs Let_def iff open_count_def try_acquire_def breaker_state_def not_le
        split: option.splits)
qed

theorem breaker_trips_witness:
  "cb_state (record_failure \<lparr>failure_threshold = 1, open_cooldown = 30\<rparr> 100 breaker_new) = Open"
  using breaker_trips [OF breaker_reachable.init, of "\<lparr>failure_threshold = 1, open_cooldown = 30\<rparr>" 100]
  by (simp add: breaker_new_def Let_def)

end
