(* ===== verification/Block_Grid.thy ===== *)
theory Block_Grid
  imports Local_Executor
begin

text \<open>
  The raster primitives of \<open>crates/eo-core\<close> and the block kernel of \<open>crates/eo-kernel\<close>: shapes,
  windows, blocks, the enumeration of the blocks that tile a raster, and the driver that runs a
  worker on every block. \<open>usize\<close> values are naturals below \<open>2 ^ 64\<close>; a division by zero and an allocation
  beyond \<open>isize::MAX\<close> bytes, which panic, are \<open>None\<close>.
\<close>

section \<open>Shapes (\<open>eo-core\<close>)\<close>

record raster_shape =
  rs_times :: nat
  rs_layers :: nat
  rs_rows :: nat
  rs_cols :: nat

definition total_elements :: "raster_shape \<Rightarrow> nat" where
  "total_elements s = sat_mul (sat_mul (sat_mul (rs_times s) (rs_layers s)) (rs_rows s)) (rs_cols s)"

definition shape_non_empty :: "raster_shape \<Rightarrow> bool" where
  "shape_non_empty s \<longleftrightarrow> rs_times s > 0 \<and> rs_layers s > 0 \<and> rs_rows s > 0 \<and> rs_cols s > 0"

datatype dimension = Layer | Time

record rc_offset =
  off_rows :: int
  off_cols :: int

record rc_size =
  size_rows :: int
  size_cols :: int

record read_window =
  win_offset :: rc_offset
  win_size :: rc_size

definition window_non_empty :: "read_window \<Rightarrow> bool" where
  "window_non_empty w \<longleftrightarrow> size_rows (win_size w) > 0 \<and> size_cols (win_size w) > 0"

record overlap =
  ov_top :: nat
  ov_bottom :: nat
  ov_left :: nat
  ov_right :: nat

definition overlap_uniform :: "nat \<Rightarrow> overlap" where
  "overlap_uniform n = \<lparr>ov_top = n, ov_bottom = n, ov_left = n, ov_right = n\<rparr>"

definition overlap_is_zero :: "overlap \<Rightarrow> bool" where
  "overlap_is_zero o1 \<longleftrightarrow> ov_top o1 = 0 \<and> ov_bottom o1 = 0 \<and> ov_left o1 = 0 \<and> ov_right o1 = 0"

record block_size =
  bs_rows :: nat
  bs_cols :: nat

definition block_area :: "block_size \<Rightarrow> nat" where "block_area b = sat_mul (bs_rows b) (bs_cols b)"
definition block_is_square :: "block_size \<Rightarrow> bool" where "block_is_square b \<longleftrightarrow> bs_rows b = bs_cols b"
definition block_default :: block_size where "block_default = \<lparr>bs_rows = 2048, bs_cols = 2048\<rparr>"

datatype output_format = GeoTiff | Cog | Vrt

fun gdal_driver :: "output_format \<Rightarrow> string" where
  "gdal_driver GeoTiff = ''GTiff''"
| "gdal_driver Cog = ''COG''"
| "gdal_driver Vrt = ''VRT''"

record output_config =
  out_format :: output_format
  compression :: string
  tile_size :: block_size
  overview_levels :: "int list"
  overview_resampling :: string

definition output_default :: output_config where
  "output_default = \<lparr>out_format = GeoTiff, compression = ''LZW'', tile_size = \<lparr>bs_rows = 512, bs_cols = 512\<rparr>,
     overview_levels = [2, 4, 8, 16], overview_resampling = ''AVERAGE''\<rparr>"

text \<open>The six GDAL coefficients.\<close>

record geo_transform =
  gt0 :: f64
  gt1 :: f64
  gt2 :: f64
  gt3 :: f64
  gt4 :: f64
  gt5 :: f64

definition is_axis_aligned :: "geo_transform \<Rightarrow> bool" where
  "is_axis_aligned g \<longleftrightarrow> f64_eq (gt2 g) (f64_of_nat 0) \<and> f64_eq (gt4 g) (f64_of_nat 0)"

definition pixel_to_crs :: "geo_transform \<Rightarrow> f64 \<Rightarrow> f64 \<Rightarrow> f64 \<times> f64" where
  "pixel_to_crs g col row =
     (f64_add (f64_add (gt0 g) (f64_mul col (gt1 g))) (f64_mul row (gt2 g)),
      f64_add (f64_add (gt3 g) (f64_mul col (gt4 g))) (f64_mul row (gt5 g)))"

section \<open>Blocks (\<open>eo-kernel\<close>)\<close>

record raster_block_id =
  block_row :: nat
  block_col :: nat

definition block_id_display :: "raster_block_id \<Rightarrow> string" where
  "block_id_display i = ''('' @ show_nat (block_row i) @ '', '' @ show_nat (block_col i) @ '')''"

record 'p raster_block =
  rb_id :: raster_block_id
  rb_window :: read_window
  rb_size :: block_size
  pixels :: 'p

definition raster_block_area :: "'p raster_block \<Rightarrow> nat" where
  "raster_block_area b = block_area (rb_size b)"

record grid_shape =
  grid_rows :: nat
  grid_cols :: nat

datatype reduce_kind = Mean | Median | Min | Max | Sum | Count | MostRecent | MaxIndex | Percentile "8 word"

fun requires_time_axis :: "reduce_kind \<Rightarrow> bool" where
  "requires_time_axis MostRecent = True"
| "requires_time_axis MaxIndex = True"
| "requires_time_axis _ = False"

datatype 'e kernel_error = Worker string 'e | Alignment string | KernelIo string

text \<open>\<open>as isize\<close>.\<close>

definition to_isize :: "nat \<Rightarrow> int" where
  "to_isize n = (if n < 2 ^ 63 then int n else int n - 2 ^ 64)"

definition block_at :: "grid_shape \<Rightarrow> block_size \<Rightarrow> nat \<Rightarrow> nat \<Rightarrow> raster_block_id \<times> read_window" where
  "block_at shape block br bc =
     (let row_off = br * bs_rows block;
          col_off = bc * bs_cols block;
          rows = min (bs_rows block) (grid_rows shape - row_off);
          cols = min (bs_cols block) (grid_cols shape - col_off)
      in (\<lparr>block_row = br, block_col = bc\<rparr>,
          \<lparr>win_offset = \<lparr>off_rows = to_isize row_off, off_cols = to_isize col_off\<rparr>,
           win_size = \<lparr>size_rows = to_isize rows, size_cols = to_isize cols\<rparr>\<rparr>))"

text \<open>The two loops, row by row.\<close>

definition grid_blocks :: "grid_shape \<Rightarrow> block_size \<Rightarrow> (raster_block_id \<times> read_window) list" where
  "grid_blocks shape block =
     concat (map (\<lambda>br. map (block_at shape block br) [0..<div_ceil (grid_cols shape) (bs_cols block)])
       [0..<div_ceil (grid_rows shape) (bs_rows block)])"

text \<open>\<open>Vec::with_capacity\<close> panics when the elements would take more than \<open>isize::MAX\<close> bytes.\<close>

definition capacity_overflow :: "nat \<Rightarrow> nat \<Rightarrow> bool" where
  "capacity_overflow count elem_bytes \<longleftrightarrow> 2 ^ 63 \<le> count * elem_bytes"

text \<open>
  The vector is reserved before the loops; the product of the two counts wraps in a release build. An
  element is a pair of two and four machine words, 48 bytes.
\<close>

definition enumerate_blocks :: "grid_shape \<Rightarrow> block_size \<Rightarrow> (raster_block_id \<times> read_window) list option" where
  "enumerate_blocks shape block =
     (if bs_rows block = 0 \<or> bs_cols block = 0 then None
      else
        let n_block_rows = div_ceil (grid_rows shape) (bs_rows block);
            n_block_cols = div_ceil (grid_cols shape) (bs_cols block)
        in if capacity_overflow (wrap64 (n_block_rows * n_block_cols)) 48 then None
           else Some (grid_blocks shape block))"

text \<open>
  The parallel map computes every block's result; the collecting loop then returns the first error
  in block order.
\<close>

definition block_result ::
  "block_size \<Rightarrow> (raster_block_id \<Rightarrow> read_window \<Rightarrow> ('e, 'p) result) \<Rightarrow> ('p raster_block \<Rightarrow> ('e, 'o) result)
   \<Rightarrow> raster_block_id \<times> read_window \<Rightarrow> ('e kernel_error, 'o) result" where
  "block_result block read worker iw =
     (case iw of (i, w) \<Rightarrow>
        and_then (map_err (Worker (block_id_display i)) (read i w)) (\<lambda>px.
          map_err (Worker (block_id_display i))
            (worker \<lparr>rb_id = i, rb_window = w, rb_size = block, pixels = px\<rparr>)))"

fun collect_results :: "('e, 'o) result list \<Rightarrow> 'o list \<Rightarrow> ('e, 'o list) result" where
  "collect_results [] out = Inr out"
| "collect_results (r # rs) out = and_then r (\<lambda>o1. collect_results rs (out @ [o1]))"

definition apply_blocks ::
  "grid_shape \<Rightarrow> block_size \<Rightarrow> (raster_block_id \<Rightarrow> read_window \<Rightarrow> ('e, 'p) result)
   \<Rightarrow> ('p raster_block \<Rightarrow> ('e, 'o) result) \<Rightarrow> ('e kernel_error, 'o list) result option" where
  "apply_blocks shape block read worker =
     map_option (\<lambda>grid. collect_results (map (block_result block read worker) grid) [])
       (enumerate_blocks shape block)"

section \<open>The blocks tile the raster\<close>

definition covers :: "read_window \<Rightarrow> nat \<Rightarrow> nat \<Rightarrow> bool" where
  "covers w r c \<longleftrightarrow>
     off_rows (win_offset w) \<le> int r \<and> int r < off_rows (win_offset w) + size_rows (win_size w) \<and>
     off_cols (win_offset w) \<le> int c \<and> int c < off_cols (win_offset w) + size_cols (win_size w)"

lemma interval_div:
  assumes "0 < b" and "r < n"
  shows "k * b \<le> r \<and> r < k * b + min b (n - k * b) \<longleftrightarrow> k = r div (b :: nat)"
proof
  assume *: "k * b \<le> r \<and> r < k * b + min b (n - k * b)"
  then have "r < (k + 1) * b" by (auto simp: min_def split: if_splits)
  then show "k = r div b" using * assms(1) by (metis div_nat_eqI mult.commute Suc_eq_plus1)
next
  assume k: "k = r div b"
  have "r div b * b \<le> r" "r < r div b * b + b" using assms(1) dividend_less_div_times [of b r] by (simp_all add: add.commute)
  then show "k * b \<le> r \<and> r < k * b + min b (n - k * b)" using assms(2) k by auto
qed

lemma to_isize_small: "n < 2 ^ 63 \<Longrightarrow> to_isize n = int n"
  by (simp add: to_isize_def)

lemma clip_small: "n < 2 ^ 63 \<Longrightarrow> min b (n - k) < (2 ^ 63 :: nat)"
  by (rule le_less_trans [of _ n]) (simp_all add: min.coboundedI2)

lemma covers_block_at:
  assumes "0 < bs_rows b" "0 < bs_cols b" and "r < grid_rows s" "c < grid_cols s"
    and "grid_rows s < 2 ^ 63" "grid_cols s < 2 ^ 63"
    and "br * bs_rows b < grid_rows s" "bc * bs_cols b < grid_cols s"
  shows "covers (snd (block_at s b br bc)) r c \<longleftrightarrow> br = r div bs_rows b \<and> bc = c div bs_cols b"
proof -
  let ?rs = "min (bs_rows b) (grid_rows s - br * bs_rows b)" and ?cs = "min (bs_cols b) (grid_cols s - bc * bs_cols b)"
  have "br * bs_rows b < 2 ^ 63" "bc * bs_cols b < 2 ^ 63" using assms(5-8) by linarith+
  moreover have "?rs < 2 ^ 63" "?cs < 2 ^ 63" using clip_small assms(5,6) by blast+
  ultimately have "covers (snd (block_at s b br bc)) r c \<longleftrightarrow>
      (br * bs_rows b \<le> r \<and> r < br * bs_rows b + ?rs) \<and> (bc * bs_cols b \<le> c \<and> c < bc * bs_cols b + ?cs)"
    unfolding covers_def block_at_def Let_def snd_conv read_window.select_convs rc_offset.select_convs rc_size.select_convs
    by (simp only: to_isize_small of_nat_le_iff of_nat_add [symmetric] of_nat_less_iff) blast
  also have "\<dots> \<longleftrightarrow> br = r div bs_rows b \<and> bc = c div bs_cols b"
    using interval_div [OF assms(1,3)] interval_div [OF assms(2,4)] by simp
  finally show ?thesis .
qed

lemma in_grid_image:
  "x \<in> (\<Union>i \<in> {0..<m}. f i ` {0..<n}) \<longleftrightarrow> (\<exists>i j. i < m \<and> j < n \<and> x = f i j)" for m n :: nat
  unfolding UN_iff image_iff Bex_def by (simp only: atLeastLessThan_iff le0 simp_thms) blast

lemma blocks_memb:
  assumes "0 < bs_rows b" "0 < bs_cols b"
  shows "x \<in> set (grid_blocks s b) \<longleftrightarrow> (\<exists>br bc. br * bs_rows b < grid_rows s \<and> bc * bs_cols b < grid_cols s \<and> x = block_at s b br bc)"
proof -
  have "set (grid_blocks s b) = (\<Union>br \<in> {0..<div_ceil (grid_rows s) (bs_rows b)}. block_at s b br ` {0..<div_ceil (grid_cols s) (bs_cols b)})"
    by (simp add: grid_blocks_def)
  then have "x \<in> set (grid_blocks s b) \<longleftrightarrow> (\<exists>br bc. br < div_ceil (grid_rows s) (bs_rows b) \<and> bc < div_ceil (grid_cols s) (bs_cols b) \<and> x = block_at s b br bc)"
    by (simp only: in_grid_image)
  then show ?thesis by (simp add: div_ceil_covers assms(1,2))
qed

lemma fst_block_at [simp]: "fst (block_at s b br bc) = \<lparr>block_row = br, block_col = bc\<rparr>"
  by (simp add: block_at_def Let_def)

lemma enumerate_ids:
  "map fst (grid_blocks s b) = [\<lparr>block_row = br, block_col = bc\<rparr>.
       br \<leftarrow> [0..<div_ceil (grid_rows s) (bs_rows b)], bc \<leftarrow> [0..<div_ceil (grid_cols s) (bs_cols b)]]"
  by (simp add: grid_blocks_def map_concat comp_def)

lemma distinct_row_major: "distinct [\<lparr>block_row = br, block_col = bc\<rparr>. br \<leftarrow> [0..<m], bc \<leftarrow> [0..<n]]"
  by (induction m) (auto simp: distinct_map inj_on_def)

lemma collect_results_traverse: "collect_results (map f xs) out = map_err id (and_then (traverse f xs) (\<lambda>ys. Inr (out @ ys)))"
proof (induction xs arbitrary: out)
  case (Cons x xs)
  then show ?case by (cases "f x"; cases "traverse f xs") auto
qed simp

lemma map_err_id: "map_err id r = r"
  by (cases r) simp_all

lemma traverse_first_error:
  "traverse f xs = Inl e \<Longrightarrow> \<exists>pre x post ys. xs = pre @ x # post \<and> traverse f pre = Inr ys \<and> f x = Inl e"
proof (induction xs)
  case (Cons x xs)
  show ?case
  proof (cases "f x")
    case (Inl e')
    then show ?thesis using Cons.prems by (intro exI [of _ "[]"] exI [of _ x] exI [of _ xs]) simp
  next
    case (Inr y)
    then have "traverse f xs = Inl e" using Cons.prems by (auto simp: and_then_Inl_iff)
    then obtain pre z post ys where "xs = pre @ z # post" "traverse f pre = Inr ys" "f z = Inl e" using Cons.IH by blast
    then show ?thesis using Inr by (intro exI [of _ "x # pre"] exI [of _ z] exI [of _ post] exI [of _ "y # ys"]) simp
  qed
qed simp

section \<open>Properties\<close>

text \<open>
  C25. The blocks tile the raster: for a block size without a zero side and a raster whose sides fit
  \<open>isize\<close>, \<open>enumerate_blocks\<close> lists every pixel's block exactly once, unless the vector for the blocks
  cannot be reserved, which panics. The ids are distinct and in row-major order; every window lies
  inside the raster and is not empty; and each pixel is covered by the window of exactly one listed
  block.
\<close>

theorem blocks_tile_raster:
  assumes "0 < bs_rows b" "0 < bs_cols b" and "grid_rows s < 2 ^ 63" "grid_cols s < 2 ^ 63"
  shows "\<exists>blocks. enumerate_blocks s b =
      (if capacity_overflow (wrap64 (div_ceil (grid_rows s) (bs_rows b) * div_ceil (grid_cols s) (bs_cols b))) 48
       then None else Some blocks) \<and>
    distinct (map fst blocks) \<and>
    map fst blocks = [\<lparr>block_row = br, block_col = bc\<rparr>.
      br \<leftarrow> [0..<div_ceil (grid_rows s) (bs_rows b)], bc \<leftarrow> [0..<div_ceil (grid_cols s) (bs_cols b)]] \<and>
    (\<forall>r c. r < grid_rows s \<longrightarrow> c < grid_cols s \<longrightarrow> (\<exists>!x. x \<in> set blocks \<and> covers (snd x) r c)) \<and>
    (\<forall>x \<in> set blocks. window_non_empty (snd x) \<and>
      0 \<le> off_rows (win_offset (snd x)) \<and> off_rows (win_offset (snd x)) + size_rows (win_size (snd x)) \<le> int (grid_rows s) \<and>
      0 \<le> off_cols (win_offset (snd x)) \<and> off_cols (win_offset (snd x)) + size_cols (win_size (snd x)) \<le> int (grid_cols s))"
proof -
  let ?blocks = "grid_blocks s b"
  note mem = blocks_memb [OF assms(1,2), of _ s]
  have "\<exists>!x. x \<in> set ?blocks \<and> covers (snd x) r c" if rc: "r < grid_rows s" "c < grid_cols s" for r c
  proof (rule ex1I [of _ "block_at s b (r div bs_rows b) (c div bs_cols b)"])
    have le: "r div bs_rows b * bs_rows b < grid_rows s" "c div bs_cols b * bs_cols b < grid_cols s"
      using rc div_times_less_eq_dividend [of r "bs_rows b"] div_times_less_eq_dividend [of c "bs_cols b"] by linarith+
    then show "block_at s b (r div bs_rows b) (c div bs_cols b) \<in> set ?blocks \<and>
        covers (snd (block_at s b (r div bs_rows b) (c div bs_cols b))) r c"
      using mem covers_block_at [OF assms(1,2) rc assms(3,4)] by blast
    fix x assume x: "x \<in> set ?blocks \<and> covers (snd x) r c"
    then obtain br bc where p: "br * bs_rows b < grid_rows s" "bc * bs_cols b < grid_cols s" "x = block_at s b br bc"
      using mem by blast
    then have "br = r div bs_rows b \<and> bc = c div bs_cols b"
      using covers_block_at [OF assms(1,2) rc assms(3,4) p(1,2)] x by simp
    then show "x = block_at s b (r div bs_rows b) (c div bs_cols b)" using p(3) by simp
  qed
  moreover have "window_non_empty (snd x) \<and>
      0 \<le> off_rows (win_offset (snd x)) \<and> off_rows (win_offset (snd x)) + size_rows (win_size (snd x)) \<le> int (grid_rows s) \<and>
      0 \<le> off_cols (win_offset (snd x)) \<and> off_cols (win_offset (snd x)) + size_cols (win_size (snd x)) \<le> int (grid_cols s)"
    if x: "x \<in> set ?blocks" for x
  proof -
    obtain br bc where p: "br * bs_rows b < grid_rows s" "bc * bs_cols b < grid_cols s" "x = block_at s b br bc"
      using x mem by blast
    then have small: "br * bs_rows b < 2 ^ 63" "bc * bs_cols b < 2 ^ 63" using assms(3,4) by linarith+
    have row: "0 < min (bs_rows b) (grid_rows s - br * bs_rows b)"
        "br * bs_rows b + min (bs_rows b) (grid_rows s - br * bs_rows b) \<le> grid_rows s"
      and col: "0 < min (bs_cols b) (grid_cols s - bc * bs_cols b)"
        "bc * bs_cols b + min (bs_cols b) (grid_cols s - bc * bs_cols b) \<le> grid_cols s"
      using p assms(1,2) by (auto simp: min_def)
    have w: "snd x = \<lparr>win_offset = \<lparr>off_rows = int (br * bs_rows b), off_cols = int (bc * bs_cols b)\<rparr>,
        win_size = \<lparr>size_rows = int (min (bs_rows b) (grid_rows s - br * bs_rows b)),
          size_cols = int (min (bs_cols b) (grid_cols s - bc * bs_cols b))\<rparr>\<rparr>"
      unfolding p(3) block_at_def Let_def snd_conv
      by (simp only: to_isize_small [OF small(1)] to_isize_small [OF small(2)] to_isize_small [OF clip_small] assms(3,4))
    show ?thesis
      unfolding w window_non_empty_def read_window.select_convs rc_offset.select_convs rc_size.select_convs
      using row col by (simp only: of_nat_0_less_iff of_nat_0_le_iff of_nat_add [symmetric] of_nat_le_iff simp_thms)
  qed
  moreover have "enumerate_blocks s b =
      (if capacity_overflow (wrap64 (div_ceil (grid_rows s) (bs_rows b) * div_ceil (grid_cols s) (bs_cols b))) 48
       then None else Some ?blocks)" using assms(1,2) by (simp add: enumerate_blocks_def Let_def)
  moreover have "distinct (map fst ?blocks)" unfolding enumerate_ids by (rule distinct_row_major)
  ultimately show ?thesis using enumerate_ids [of s b] by (intro exI [of _ ?blocks] conjI ballI allI impI) blast+
qed

theorem blocks_tile_raster_witness:
  "\<exists>blocks. enumerate_blocks \<lparr>grid_rows = 1000, grid_cols = 600\<rparr> \<lparr>bs_rows = 256, bs_cols = 512\<rparr> = Some blocks \<and>
     (\<exists>!x. x \<in> set blocks \<and> covers (snd x) 999 599)"
  using blocks_tile_raster [of "\<lparr>bs_rows = 256, bs_cols = 512\<rparr>" "\<lparr>grid_rows = 1000, grid_cols = 600\<rparr>"]
  by (auto simp: capacity_overflow_def wrap64_def div_ceil_def)

text \<open>
  The block driver returns one output per block in row-major order when every read and every
  worker call succeeds; otherwise it returns the error of the first failing block in that order,
  carrying that block's id.
\<close>

theorem apply_blocks_in_order:
  assumes "enumerate_blocks s b = Some blocks"
  shows "(apply_blocks s b read worker = Some (Inr outs) \<longleftrightarrow>
      list_all2 (\<lambda>(i, w) o1. \<exists>px. read i w = Inr px \<and>
        worker \<lparr>rb_id = i, rb_window = w, rb_size = b, pixels = px\<rparr> = Inr o1) blocks outs) \<and>
    (apply_blocks s b read worker = Some (Inl err) \<longrightarrow>
      (\<exists>pre i w post outs e. blocks = pre @ (i, w) # post \<and>
         traverse (block_result b read worker) pre = Inr outs \<and> err = Worker (block_id_display i) e \<and>
         (read i w = Inl e \<or> (\<exists>px. read i w = Inr px \<and>
            worker \<lparr>rb_id = i, rb_window = w, rb_size = b, pixels = px\<rparr> = Inl e))))"
proof -
  have eq: "apply_blocks s b read worker = Some (traverse (block_result b read worker) blocks)"
    using assms collect_results_traverse [of "block_result b read worker" blocks "[]"]
    by (simp add: apply_blocks_def map_err_id)
  have ok: "block_result b read worker (i, w) = Inr o1 \<longleftrightarrow> (\<exists>px. read i w = Inr px \<and>
        worker \<lparr>rb_id = i, rb_window = w, rb_size = b, pixels = px\<rparr> = Inr o1)" for i w o1
    by (cases "read i w") (auto simp: block_result_def)
  have bad: "\<exists>e. err = Worker (block_id_display i) e \<and> (read i w = Inl e \<or> (\<exists>px. read i w = Inr px \<and>
        worker \<lparr>rb_id = i, rb_window = w, rb_size = b, pixels = px\<rparr> = Inl e))"
    if "block_result b read worker (i, w) = Inl err" for i w
  proof (cases "read i w")
    case (Inr px)
    then show ?thesis using that
      by (cases "worker \<lparr>rb_id = i, rb_window = w, rb_size = b, pixels = px\<rparr>") (auto simp: block_result_def)
  qed (use that in \<open>auto simp: block_result_def\<close>)
  show ?thesis
  proof (intro conjI impI)
    show "apply_blocks s b read worker = Some (Inr outs) \<longleftrightarrow> list_all2 (\<lambda>(i, w) o1. \<exists>px. read i w = Inr px \<and>
        worker \<lparr>rb_id = i, rb_window = w, rb_size = b, pixels = px\<rparr> = Inr o1) blocks outs"
      unfolding eq by (auto simp: traverse_Inr_iff ok [symmetric] elim!: list_all2_mono)
    assume "apply_blocks s b read worker = Some (Inl err)"
    then obtain pre x post outs where t: "blocks = pre @ x # post" "traverse (block_result b read worker) pre = Inr outs"
      "block_result b read worker x = Inl err"
      unfolding eq using traverse_first_error by fastforce
    obtain i w where "x = (i, w)" by (cases x)
    then show "\<exists>pre i w post outs e. blocks = pre @ (i, w) # post \<and>
         traverse (block_result b read worker) pre = Inr outs \<and> err = Worker (block_id_display i) e \<and>
         (read i w = Inl e \<or> (\<exists>px. read i w = Inr px \<and>
            worker \<lparr>rb_id = i, rb_window = w, rb_size = b, pixels = px\<rparr> = Inl e))"
      using t bad [of i w] by blast
  qed
qed

theorem apply_blocks_in_order_witness:
  "enumerate_blocks \<lparr>grid_rows = 3, grid_cols = 2\<rparr> \<lparr>bs_rows = 2, bs_cols = 2\<rparr> =
     Some [block_at \<lparr>grid_rows = 3, grid_cols = 2\<rparr> \<lparr>bs_rows = 2, bs_cols = 2\<rparr> 0 0,
           block_at \<lparr>grid_rows = 3, grid_cols = 2\<rparr> \<lparr>bs_rows = 2, bs_cols = 2\<rparr> 1 0] \<and>
   apply_blocks \<lparr>grid_rows = 3, grid_cols = 2\<rparr> \<lparr>bs_rows = 2, bs_cols = 2\<rparr>
     (\<lambda>i w. Inr (size_rows (win_size w))) (\<lambda>rb. Inr (pixels rb)) = Some (Inr [2 :: int, 1] :: (unit kernel_error, int list) result)"
proof -
  let ?s = "\<lparr>grid_rows = 3, grid_cols = 2\<rparr>" and ?b = "\<lparr>bs_rows = 2, bs_cols = 2\<rparr>"
  have e: "enumerate_blocks ?s ?b = Some [block_at ?s ?b 0 0, block_at ?s ?b 1 0]"
    by (simp add: enumerate_blocks_def grid_blocks_def div_ceil_def capacity_overflow_def wrap64_def Let_def upt_rec)
  show ?thesis
    using e apply_blocks_in_order [OF e, where read = "\<lambda>i w. Inr (size_rows (win_size w))" and worker = "\<lambda>rb. Inr (pixels rb)"
      and outs = "[2, 1]" and err = "Alignment [] :: unit kernel_error"] by (simp add: block_at_def to_isize_def Let_def)
qed

end
