(* ===== verification/Block_Budget.thy ===== *)
theory Block_Budget
  imports Orbit_Prelude
begin

text \<open>
  The block layer of \<open>apps/orbit-openeo\<close>: \<open>chunk_plan.rs\<close> chooses a block size for a memory budget,
  and \<open>block_executor.rs\<close> runs blocks under bounded concurrency. \<open>ChunkPlan::plan\<close> is a function
  whose \<open>usize\<close> arithmetic wraps as in a release build (a division by zero, which panics, is \<open>None\<close>);
  the lock-free memory budget and the executor are step relations in which each atomic access of the
  code is one step, so every interleaving of the threads is a run.
\<close>

section \<open>The chunk planner (\<open>chunk_plan.rs\<close>)\<close>

datatype plan_error = BudgetTooSmall (pe_budget: nat) (pe_threads: nat) (pe_min_block_bytes: nat)

datatype op_kind = Pixelwise | Reduction | Window

fun bytes_per_pixel_overhead :: "op_kind \<Rightarrow> nat" where
  "bytes_per_pixel_overhead Pixelwise = 8"
| "bytes_per_pixel_overhead Reduction = 16"
| "bytes_per_pixel_overhead Window = 32"

record plan_input =
  cog_tile_size :: nat
  pi_rows :: nat
  pi_cols :: nat
  bands :: nat
  times :: nat
  bytes_per_pixel :: nat

record chunk_plan =
  block_rows :: nat
  block_cols :: nat
  cp_threads :: nat
  est_peak_bytes :: nat

abbreviation MIN_BLOCK :: nat where "MIN_BLOCK \<equiv> 64"
abbreviation MAX_BLOCK :: nat where "MAX_BLOCK \<equiv> 4096"

definition per_pixel :: "plan_input \<Rightarrow> op_kind \<Rightarrow> nat" where
  "per_pixel input op =
     wrap64 (bytes_per_pixel input +
       wrap64 (wrap64 (bytes_per_pixel_overhead op * max (bands input) 1) * max (times input) 1))"

definition snap :: "nat \<Rightarrow> nat \<Rightarrow> nat" where
  "snap cog target = (if MIN_BLOCK \<le> cog \<and> cog \<le> target then target div cog * cog else target)"

definition plan :: "plan_input \<Rightarrow> op_kind \<Rightarrow> nat \<Rightarrow> nat \<Rightarrow> (plan_error, chunk_plan) result option" where
  "plan input op threads memory_budget_bytes =
     (let n_threads = max threads 1;
          cog = cog_tile_size input;
          pp = per_pixel input op;
          min_block_bytes = wrap64 (MIN_BLOCK * MIN_BLOCK * pp);
          budget_per_thread = memory_budget_bytes div n_threads
      in if budget_per_thread < min_block_bytes
         then Some (Err (BudgetTooSmall memory_budget_bytes n_threads min_block_bytes))
         else if pp = 0 then None
         else
           let max_side_by_budget = isqrt (min (max (budget_per_thread div pp) 1) (MAX_BLOCK * MAX_BLOCK));
               target = min (max max_side_by_budget MIN_BLOCK) MAX_BLOCK;
               snapped = snap cog target;
               block = min (min (min (max snapped MIN_BLOCK) MAX_BLOCK) (max (pi_rows input) MIN_BLOCK))
                         (max (pi_cols input) MIN_BLOCK)
           in Some (Ok \<lparr>block_rows = block, block_cols = block, cp_threads = n_threads,
                est_peak_bytes = wrap64 (wrap64 (wrap64 (block * block) * pp) * n_threads)\<rparr>))"

lemma snap_le: "snap cog t \<le> t"
  by (simp add: snap_def div_times_less_eq_dividend)

text \<open>The block the planner picks, in terms of the exact cost of a pixel.\<close>

lemma square_fits:
  assumes "b \<le> max (isqrt (min (max (B div pp) 1) M)) 64" and "64 * 64 * pp \<le> B" and "0 < pp"
  shows "b * b * pp \<le> (B :: nat)"
proof -
  let ?q = "min (max (B div pp) 1) M"
  have "64 * 64 \<le> B div pp" using assms(2,3) by (simp add: less_eq_div_iff_mult_less_eq)
  moreover have "isqrt ?q * isqrt ?q \<le> ?q" using isqrt_bounds by blast
  ultimately have "isqrt ?q * isqrt ?q \<le> B div pp" "64 * 64 \<le> B div pp" by linarith+
  moreover have "b * b \<le> max (isqrt ?q * isqrt ?q) (64 * 64)"
    using mult_le_mono [OF assms(1) assms(1)] by (auto simp: max_def split: if_splits)
  ultimately have "b * b \<le> B div pp" by linarith
  then show ?thesis using assms(3) by (simp add: less_eq_div_iff_mult_less_eq)
qed

definition pixel_cost :: "plan_input \<Rightarrow> op_kind \<Rightarrow> nat" where
  "pixel_cost input op = bytes_per_pixel input + bytes_per_pixel_overhead op * max (bands input) 1 * max (times input) 1"

lemma overhead_pos: "0 < bytes_per_pixel_overhead op"
  by (cases op) simp_all

lemma per_pixel_exact:
  assumes "pixel_cost input op < 2 ^ 64"
  shows "per_pixel input op = pixel_cost input op" and "0 < pixel_cost input op"
proof -
  let ?a = "bytes_per_pixel_overhead op * max (bands input) 1" and ?t = "max (times input) 1"
  have "?a * 1 \<le> ?a * ?t" by (rule mult_le_mono2) simp
  then have "?a < 2 ^ 64" "?a * ?t < 2 ^ 64" using assms unfolding pixel_cost_def by linarith+
  then show "per_pixel input op = pixel_cost input op" using assms by (simp add: per_pixel_def pixel_cost_def)
  show "0 < pixel_cost input op" using overhead_pos [of op] by (simp add: pixel_cost_def less_max_iff_disj)
qed

text \<open>
  C27. When the exact cost of a pixel does not overflow (below \<open>2 ^ 52\<close> bytes), the planner refuses
  exactly the budgets in which 64 x 64 pixels do not fit one thread's share; otherwise it returns a
  square block with a side between 64 and 4096 whose estimated peak is exactly
  rows x cols x cost x threads, at most the budget, without any wrap-around. On a raster of at
  least 4096 x 4096 pixels, a tile side of 64 or more that fits the block divides the block's side.
\<close>

theorem plan_within_budget:
  assumes "pixel_cost input op < 2 ^ 52" and "budget < 2 ^ 64"
  shows "if budget div max threads 1 < 64 * 64 * pixel_cost input op
    then plan input op threads budget = Some (Err (BudgetTooSmall budget (max threads 1) (64 * 64 * pixel_cost input op)))
    else \<exists>p. plan input op threads budget = Some (Ok p) \<and> 64 \<le> block_rows p \<and> block_rows p \<le> 4096 \<and>
      block_cols p = block_rows p \<and> cp_threads p = max threads 1 \<and>
      est_peak_bytes p = block_rows p * block_cols p * pixel_cost input op * cp_threads p \<and> est_peak_bytes p \<le> budget \<and>
      (4096 \<le> pi_rows input \<longrightarrow> 4096 \<le> pi_cols input \<longrightarrow> 64 \<le> cog_tile_size input \<longrightarrow>
         cog_tile_size input \<le> block_rows p \<longrightarrow> cog_tile_size input dvd block_rows p)"
proof -
  let ?pp = "pixel_cost input op" and ?n = "max threads 1"
  let ?B = "budget div ?n" and ?cog = "cog_tile_size input"
  have pp: "per_pixel input op = ?pp" "0 < ?pp" using per_pixel_exact [of input op] assms(1) by simp_all
  have min: "wrap64 (64 * 64 * ?pp) = 64 * 64 * ?pp" using assms(1) by simp
  show ?thesis
  proof (cases "?B < 64 * 64 * ?pp")
    case True
    then show ?thesis unfolding plan_def Let_def pp(1) min by simp
  next
    case False
    define side where "side = isqrt (min (max (?B div ?pp) 1) (4096 * 4096))"
    define target where "target = min (max side 64) 4096"
    define block where "block = min (min (min (max (snap ?cog target) 64) 4096) (max (pi_rows input) 64)) (max (pi_cols input) 64)"
    have "block \<le> max (snap ?cog target) 64" unfolding block_def by (simp add: min.coboundedI1)
    then have "block \<le> max side 64" using snap_le [of ?cog target] by (auto simp: target_def max_def split: if_splits)
    then have fit: "block * block * ?pp \<le> ?B" unfolding side_def by (rule square_fits) (use False pp(2) in linarith)+
    then have total: "block * block * ?pp * ?n \<le> budget"
      using div_times_less_eq_dividend [of budget ?n] mult_le_mono1 [OF fit, of ?n] by linarith
    have "block * block * 1 \<le> block * block * ?pp" using pp(2) by (intro mult_le_mono2) simp
    moreover have "?B \<le> budget" by simp
    ultimately have "block * block < 2 ^ 64" "block * block * ?pp < 2 ^ 64" "block * block * ?pp * ?n < 2 ^ 64"
      using fit total assms(2) by linarith+
    then have est: "wrap64 (wrap64 (wrap64 (block * block) * ?pp) * ?n) = block * block * ?pp * ?n" by simp
    have run: "plan input op threads budget = Some (Ok \<lparr>block_rows = block, block_cols = block, cp_threads = ?n,
        est_peak_bytes = block * block * ?pp * ?n\<rparr>)"
      using False pp(2) unfolding plan_def Let_def pp(1) min
      by (simp only: side_def [symmetric] target_def [symmetric] block_def [symmetric] est if_False neq0_conv [symmetric])
    have "?cog dvd block" if big: "4096 \<le> pi_rows input" "4096 \<le> pi_cols input" "64 \<le> ?cog" "?cog \<le> block"
    proof -
      have t: "64 \<le> target" "target \<le> 4096" by (simp_all add: target_def)
      have le: "?cog \<le> target" using big(3,4) t snap_le [of ?cog target] by (auto simp: block_def)
      then have "1 \<le> target div ?cog" using big(3) by (simp add: Suc_le_eq div_greater_zero_iff)
      then have "?cog \<le> target div ?cog * ?cog" using mult_le_mono1 [of 1 "target div ?cog" ?cog] by simp
      then have s: "64 \<le> target div ?cog * ?cog" "target div ?cog * ?cog \<le> 4096"
        using big(3) t(2) div_times_less_eq_dividend [of target ?cog] by linarith+
      have "snap ?cog target = target div ?cog * ?cog" using le big(3) by (simp add: snap_def)
      then have "block = target div ?cog * ?cog" using s big(1,2) by (simp add: block_def max_def min_def)
      then show ?thesis by simp
    qed
    moreover have "64 \<le> block" "block \<le> 4096" by (simp_all add: block_def)
    ultimately show ?thesis using False run total by auto
  qed
qed

definition sentinel_input :: plan_input where
  "sentinel_input = \<lparr>cog_tile_size = 512, pi_rows = 10980, pi_cols = 10980, bands = 4, times = 10, bytes_per_pixel = 4\<rparr>"

theorem plan_within_budget_witness:
  "pixel_cost sentinel_input Reduction = 644 \<and>
   (\<exists>p. plan sentinel_input Reduction 8 (2 ^ 33) = Some (Ok p) \<and> 64 \<le> block_rows p \<and> est_peak_bytes p \<le> 2 ^ 33)"
proof -
  have c: "pixel_cost sentinel_input Reduction = 644" by (simp add: pixel_cost_def sentinel_input_def)
  show ?thesis using plan_within_budget [of sentinel_input Reduction "2 ^ 33" 8] by (auto simp: c)
qed

text \<open>
  Above that bound the cost wraps: with \<open>2 ^ 59\<close> bands of a windowed operation the planner sees a
  cost of four bytes per pixel, and accepts a budget of 16 KiB.
\<close>

lemma plan_cost_wraps:
  "plan \<lparr>cog_tile_size = 512, pi_rows = 64, pi_cols = 64, bands = 2 ^ 59, times = 1, bytes_per_pixel = 4\<rparr> Window 1 16384 =
     Some (Ok \<lparr>block_rows = 64, block_cols = 64, cp_threads = 1, est_peak_bytes = 16384\<rparr>)"
  by (simp add: plan_def per_pixel_def wrap64_def snap_def Let_def isqrt.simps)

section \<open>The memory budget (\<open>block_executor.rs\<close>)\<close>

datatype block_exec_error = WorkerError string | Cancelled | BudgetExhausted (requested: nat) (avail: nat)

definition budget_available :: "nat \<Rightarrow> nat \<Rightarrow> nat" where
  "budget_available cap used = sat_sub cap used"

text \<open>
  One turn of the compare-and-swap loop up to the exchange: the value to write, or the refusal. Then
  the exchange: it succeeds only if the shared counter still holds \<open>cur\<close> (a weak exchange may also
  fail spuriously, which the step relation allows); and the \<open>fetch_sub\<close> of a dropped guard.
\<close>

definition reserve_next :: "nat \<Rightarrow> nat \<Rightarrow> nat \<Rightarrow> (block_exec_error, nat) result" where
  "reserve_next cap bytes cur =
     (let next = sat_add cur bytes
      in if next > cap then Err (BudgetExhausted bytes (sat_sub cap cur)) else Ok next)"

definition guard_drop :: "nat \<Rightarrow> nat \<Rightarrow> nat" where
  "guard_drop bytes used = wrap64 (used + 2 ^ 64 - bytes)"

text \<open>Where a thread is: outside, in the loop having read \<open>cur\<close>, refused, or holding a guard.\<close>

datatype thread = Outside | Trying nat nat | Refused block_exec_error | Holding nat

fun held :: "thread \<Rightarrow> nat" where
  "held (Holding b) = b"
| "held _ = 0"

inductive budget_step :: "nat \<Rightarrow> nat \<times> thread list \<Rightarrow> nat \<times> thread list \<Rightarrow> bool" for cap where
  load: "i < length ts \<Longrightarrow> ts ! i = Outside \<Longrightarrow> bytes < 2 ^ 64 \<Longrightarrow> budget_step cap (used, ts) (used, ts[i := Trying bytes used])"
| refuse: "i < length ts \<Longrightarrow> ts ! i = Trying bytes cur \<Longrightarrow> reserve_next cap bytes cur = Err e \<Longrightarrow>
    budget_step cap (used, ts) (used, ts[i := Refused e])"
| exchange: "i < length ts \<Longrightarrow> ts ! i = Trying bytes cur \<Longrightarrow> reserve_next cap bytes cur = Ok next \<Longrightarrow> used = cur \<Longrightarrow>
    budget_step cap (used, ts) (next, ts[i := Holding bytes])"
| exchange_failed: "i < length ts \<Longrightarrow> ts ! i = Trying bytes cur \<Longrightarrow> reserve_next cap bytes cur = Ok next \<Longrightarrow>
    budget_step cap (used, ts) (used, ts[i := Trying bytes used])"
| retry: "i < length ts \<Longrightarrow> ts ! i = Refused e \<Longrightarrow> budget_step cap (used, ts) (used, ts[i := Outside])"
| drop: "i < length ts \<Longrightarrow> ts ! i = Holding bytes \<Longrightarrow> budget_step cap (used, ts) (guard_drop bytes used, ts[i := Outside])"

definition budget_new :: "nat \<Rightarrow> nat \<times> thread list" where
  "budget_new n = (0, replicate n Outside)"

definition budget_inv :: "nat \<Rightarrow> nat \<times> thread list \<Rightarrow> bool" where
  "budget_inv cap s \<longleftrightarrow> fst s = sum_list (map held (snd s)) \<and> fst s \<le> cap"

lemma reserve_next_Ok:
  assumes "reserve_next cap bytes cur = Ok next" and "cap < 2 ^ 64 - 1"
  shows "next = cur + bytes \<and> cur + bytes \<le> cap"
  using assms by (auto simp: reserve_next_def Let_def sat_add_def u64_max_def min_def split: if_splits)

lemma sum_held_update:
  "i < length ts \<Longrightarrow> sum_list (map held (ts[i := t])) + held (ts ! i) = sum_list (map held ts) + held t"
proof (induction ts arbitrary: i)
  case (Cons a ts)
  then show ?case by (cases i) auto
qed simp

lemma guard_drop_exact: "bytes \<le> used \<Longrightarrow> used < 2 ^ 64 \<Longrightarrow> guard_drop bytes used = used - bytes"
  by (simp add: guard_drop_def wrap64_def mod_if)

lemma held_le_sum: "i < length ts \<Longrightarrow> held (ts ! i) \<le> sum_list (map held ts)"
  by (simp add: member_le_sum_list)

lemma budget_step_inv:
  assumes "budget_step cap s s'" and "budget_inv cap s" and "cap < 2 ^ 64 - 1"
  shows "budget_inv cap s'"
  using assms
proof (induction rule: budget_step.induct)
  case (exchange i ts bytes cur "next" used)
  then show ?case using sum_held_update [of i ts "Holding bytes"] reserve_next_Ok by (fastforce simp: budget_inv_def)
next
  case (drop i ts bytes used)
  have "bytes \<le> used" using drop held_le_sum [of i ts] by (simp add: budget_inv_def)
  moreover have "used < 2 ^ 64" using drop.prems by (simp add: budget_inv_def)
  ultimately show ?case using drop sum_held_update [of i ts Outside] by (auto simp: budget_inv_def guard_drop_exact)
next
  case (load i ts bytes used)
  then show ?case using sum_held_update [of i ts "Trying bytes used"] by (simp add: budget_inv_def)
next
  case (refuse i ts bytes cur e used)
  then show ?case using sum_held_update [of i ts "Refused e"] by (simp add: budget_inv_def)
next
  case (exchange_failed i ts bytes cur "next" used)
  then show ?case using sum_held_update [of i ts "Trying bytes used"] by (simp add: budget_inv_def)
next
  case (retry i ts e used)
  then show ?case using sum_held_update [of i ts Outside] by (simp add: budget_inv_def)
qed

lemma budget_runs_inv:
  assumes "(budget_step cap)\<^sup>*\<^sup>* (budget_new n) s" and "cap < 2 ^ 64 - 1"
  shows "budget_inv cap s"
  using assms(1)
proof (induction rule: rtranclp_induct)
  case base
  show ?case by (simp add: budget_inv_def budget_new_def sum_list_replicate)
next
  case (step s s')
  then show ?case using budget_step_inv assms(2) by blast
qed

text \<open>Dropping the guards of the first \<open>k\<close> threads, one step each.\<close>

lemma drop_guards:
  "k \<le> length ts \<Longrightarrow> \<exists>used' ts'. (budget_step cap)\<^sup>*\<^sup>* (used, ts) (used', ts') \<and> length ts' = length ts \<and>
     (\<forall>j < k. held (ts' ! j) = 0) \<and> (\<forall>j < length ts. ts ! j = Outside \<longrightarrow> ts' ! j = Outside)"
proof (induction k)
  case 0
  show ?case by (intro exI [of _ used] exI [of _ ts]) simp
next
  case (Suc k)
  then obtain used' ts' where run: "(budget_step cap)\<^sup>*\<^sup>* (used, ts) (used', ts')" and len: "length ts' = length ts"
    and low: "\<forall>j < k. held (ts' ! j) = 0" and out: "\<forall>j < length ts. ts ! j = Outside \<longrightarrow> ts' ! j = Outside" by auto
  show ?case
  proof (cases "ts' ! k")
    case (Holding b)
    then have "budget_step cap (used', ts') (guard_drop b used', ts'[k := Outside])"
      using Suc.prems len by (intro budget_step.drop) simp_all
    with run have "(budget_step cap)\<^sup>*\<^sup>* (used, ts) (guard_drop b used', ts'[k := Outside])" by simp
    then show ?thesis using len low out Suc.prems
      by (intro exI [of _ "guard_drop b used'"] exI [of _ "ts'[k := Outside]"]) (auto simp: nth_list_update less_Suc_eq)
  qed (use run len low out in \<open>auto simp: less_Suc_eq intro!: exI [of _ used'] exI [of _ ts']\<close>)
qed

lemma budget_step_length: "budget_step cap s s' \<Longrightarrow> length (snd s') = length (snd s)"
  by (induction rule: budget_step.induct) simp_all

lemma no_guard_no_use: "budget_inv cap (used, ts) \<Longrightarrow> \<forall>j < length ts. held (ts ! j) = 0 \<Longrightarrow> used = 0"
  by (auto simp: budget_inv_def in_set_conv_nth)

text \<open>
  The saturating addition makes a cap of \<open>usize::MAX\<close> an exception: a request beside a full counter is
  then granted although the counter cannot hold its bytes, and dropping both guards leaves the counter
  wrapped around with no guard alive.
\<close>

lemma saturated_reservation:
  fixes top :: nat
  defines "top \<equiv> 2 ^ 64 - 1"
  shows "(budget_step top)\<^sup>*\<^sup>* (budget_new 2) (top, [Holding top, Holding 1])"
    and "(budget_step top)\<^sup>*\<^sup>* (budget_new 2) (top, [Outside, Outside])"
proof -
  have grant: "reserve_next top top 0 = Ok top" "reserve_next top 1 top = Ok top"
    by (simp_all add: reserve_next_def Let_def sat_add_def u64_max_def top_def)
  have drops: "guard_drop top top = 0" "guard_drop 1 0 = top" by (simp_all add: guard_drop_def wrap64_def top_def)
  let ?st = "budget_step top"
  have "?st (0, [Outside, Outside]) (0, [Outside, Outside][0 := Trying top 0])" by (rule budget_step.load) (simp_all add: top_def)
  moreover have "?st (0, [Trying top 0, Outside]) (top, [Trying top 0, Outside][0 := Holding top])"
    by (rule budget_step.exchange [of _ _ _ 0]) (simp_all add: grant grant(2) [unfolded One_nat_def])
  moreover have "?st (top, [Holding top, Outside]) (top, [Holding top, Outside][1 := Trying 1 top])" by (rule budget_step.load) simp_all
  moreover have "?st (top, [Holding top, Trying 1 top]) (top, [Holding top, Trying 1 top][1 := Holding 1])"
    by (rule budget_step.exchange [of _ _ _ top]) (simp_all add: grant grant(2) [unfolded One_nat_def])
  ultimately show two: "?st\<^sup>*\<^sup>* (budget_new 2) (top, [Holding top, Holding 1])"
    by (simp add: budget_new_def numeral_2_eq_2)
  have "?st (top, [Holding top, Holding 1]) (guard_drop top top, [Holding top, Holding 1][0 := Outside])" by (rule budget_step.drop) simp_all
  moreover have "?st (0, [Outside, Holding 1]) (guard_drop 1 0, [Outside, Holding 1][1 := Outside])" by (rule budget_step.drop) simp_all
  ultimately show "?st\<^sup>*\<^sup>* (budget_new 2) (top, [Outside, Outside])" using two by (simp add: drops drops(2) [unfolded One_nat_def])
qed

text \<open>
  C28. For a cap below \<open>usize::MAX\<close> the memory budget is never exceeded: in every interleaving of threads
  that reserve and drop guards, the shared counter equals the bytes of the guards alive and is at most
  the cap, so the \<open>fetch_sub\<close> of a dropped guard never underflows and gives back exactly its bytes, and a
  refusal is given only when the request did not fit beside the value read. For the cap \<open>usize::MAX\<close>
  itself this fails, see the lemma above.
\<close>

theorem memory_budget_respected:
  assumes "(budget_step cap)\<^sup>*\<^sup>* (budget_new n) (used, ts)" and "cap < 2 ^ 64 - 1"
  shows "used = sum_list (map held ts) \<and> used \<le> cap \<and>
    (\<forall>i < length ts. \<forall>b. ts ! i = Holding b \<longrightarrow> b \<le> used \<and> guard_drop b used + b = used) \<and>
    (\<forall>bytes. bytes < 2 ^ 64 \<longrightarrow>
      reserve_next cap bytes used = (if used + bytes \<le> cap then Ok (used + bytes) else Err (BudgetExhausted bytes (cap - used))))"
proof -
  have inv: "used = sum_list (map held ts)" "used \<le> cap" using budget_runs_inv [OF assms] by (simp_all add: budget_inv_def)
  have "b \<le> used \<and> guard_drop b used + b = used" if "i < length ts" "ts ! i = Holding b" for i b
  proof -
    have "b \<le> used" using held_le_sum [OF that(1)] that(2) inv(1) by simp
    then show ?thesis using inv(2) assms(2) by (simp add: guard_drop_exact)
  qed
  moreover have "reserve_next cap bytes used = (if used + bytes \<le> cap then Ok (used + bytes) else Err (BudgetExhausted bytes (cap - used)))" for bytes
    using assms(2) by (simp add: reserve_next_def Let_def sat_add_def sat_sub_def u64_max_def min_def)
  ultimately show ?thesis using inv by blast
qed

theorem memory_budget_respected_witness:
  "(budget_step 100)\<^sup>*\<^sup>* (budget_new 2) (60, [Holding 60, Outside]) \<and> reserve_next 100 50 60 = Err (BudgetExhausted 50 40)"
proof -
  have "budget_step 100 (0, [Outside, Outside]) (0, [Outside, Outside][0 := Trying 60 0])" by (rule budget_step.load) simp_all
  moreover have "budget_step 100 (0, [Trying 60 0, Outside]) (60, [Trying 60 0, Outside][0 := Holding 60])"
    by (rule budget_step.exchange [of _ _ _ 0]) (simp_all add: reserve_next_def sat_add_def u64_max_def)
  ultimately have run: "(budget_step 100)\<^sup>*\<^sup>* (budget_new 2) (60, [Holding 60, Outside])"
    by (simp add: budget_new_def numeral_2_eq_2)
  then show ?thesis using memory_budget_respected [OF run] by simp
qed

text \<open>
  C29. No reservation is locked out, for a cap below \<open>usize::MAX\<close>: from every reachable state, a thread
  outside the loop whose request fits the cap can still come to hold its guard, once the guards alive are dropped.
\<close>

theorem reservation_possible:
  assumes "(budget_step cap)\<^sup>*\<^sup>* (budget_new n) (used, ts)" and "cap < 2 ^ 64 - 1"
    and "i < length ts" "ts ! i = Outside" and "bytes \<le> cap"
  shows "\<exists>ts'. (budget_step cap)\<^sup>*\<^sup>* (used, ts) (bytes, ts') \<and> ts' ! i = Holding bytes"
proof -
  obtain u t where run: "(budget_step cap)\<^sup>*\<^sup>* (used, ts) (u, t)" and len: "length t = length ts"
    and none: "\<forall>j < length ts. held (t ! j) = 0" and out: "t ! i = Outside"
    using drop_guards [of "length ts" ts cap used] assms(3,4) by auto
  have "(budget_step cap)\<^sup>*\<^sup>* (budget_new n) (u, t)" using assms(1) run by simp
  then have u: "u = 0" using no_guard_no_use budget_runs_inv assms(2) none len by metis
  have "budget_step cap (0, t) (0, t[i := Trying bytes 0])" using assms(2,3,5) len out by (intro budget_step.load) simp_all
  moreover have "budget_step cap (0, t[i := Trying bytes 0]) (bytes, t[i := Trying bytes 0, i := Holding bytes])"
    using assms(2,3,5) len
    by (intro budget_step.exchange [of _ _ _ 0]) (simp_all add: reserve_next_def sat_add_def u64_max_def min_def)
  ultimately have "(budget_step cap)\<^sup>*\<^sup>* (0, t) (bytes, t[i := Holding bytes])" by simp
  then show ?thesis using run u assms(3) len by (intro exI [of _ "t[i := Holding bytes]"]) simp
qed

theorem reservation_possible_witness:
  "\<exists>ts'. (budget_step 100)\<^sup>*\<^sup>* (0, [Outside, Outside]) (80, ts') \<and> ts' ! 1 = Holding 80"
proof -
  have "(budget_step 100)\<^sup>*\<^sup>* (budget_new 2) (0, [Outside, Outside])" by (simp add: budget_new_def numeral_2_eq_2)
  then show ?thesis using reservation_possible [of 100 2 0 "[Outside, Outside]" 1 80] by simp
qed

end
