(* ===== verification/Block_Executor.thy ===== *)
theory Block_Executor
  imports Block_Budget "HOL-Library.Multiset"
begin

text \<open>
  \<open>run_blocks\<close> of \<open>block_executor.rs\<close> as a step relation. The dispatcher checks the cancellation
  flag, waits for a permit and spawns a task per block, then joins the tasks in block order; the
  tasks run in any interleaving. Each access to a shared cell (the flag, the semaphore, the counter
  of finished blocks, the progress callback) is one step. The worker and the progress callback are
  parameters, and either may return, panic or never return; a panic surfaces as the text of the join
  error.
\<close>

section \<open>State\<close>

datatype 'o call = Returns "(string, 'o) result" | Panics string | Hangs

text \<open>What the progress callback does when it is called with a count.\<close>

datatype callback = Reports | Report_panics string | Report_hangs

type_synonym progress_fn = "nat \<Rightarrow> callback"

text \<open>A spawned task: not started, past the flag check, counted and about to report, ended, unwound.\<close>

datatype 'o block_task = Spawned | Working | Counted nat "(string, 'o) result" | Ended "(string, 'o) result" | Unwound string

record 'o exec_state =
  cancel_flag :: bool
  permits :: nat
  done_count :: nat
  progress_log :: "(nat \<times> nat) list"
  flag_checked :: bool
  handles :: "'o block_task list"
  outputs :: "'o list"
  returned :: "(block_exec_error, 'o list) result option"

definition exec_start :: "nat \<Rightarrow> 'o exec_state" where
  "exec_start n_threads = \<lparr>cancel_flag = False, permits = max n_threads 1, done_count = 0, progress_log = [],
     flag_checked = False, handles = [], outputs = [], returned = None\<rparr>"

definition cancelled_text :: string where "cancelled_text = ''cancelled''"

section \<open>Steps\<close>

definition set_task :: "nat \<Rightarrow> 'o block_task \<Rightarrow> 'o exec_state \<Rightarrow> 'o exec_state" where
  "set_task i t s = s\<lparr>handles := (handles s)[i := t]\<rparr>"

definition release_permit :: "'o exec_state \<Rightarrow> 'o exec_state" where
  "release_permit s = s\<lparr>permits := permits s + 1\<rparr>"

definition join_error :: "string \<Rightarrow> block_exec_error" where
  "join_error e = (if e = cancelled_text then Cancelled else WorkerError e)"

text \<open>What the join loop does with an ended handle: the next output, or the error to return.\<close>

fun join_outcome :: "'o block_task \<Rightarrow> (block_exec_error, 'o) result option" where
  "join_outcome (Ended (Inr v)) = Some (Ok v)"
| "join_outcome (Ended (Inl e)) = Some (Err (join_error e))"
| "join_outcome (Unwound m) = Some (Err (WorkerError m))"
| "join_outcome _ = None"

inductive exec_step :: "nat \<Rightarrow> progress_fn option \<Rightarrow> (nat \<Rightarrow> 'o call) \<Rightarrow> 'o exec_state \<Rightarrow> 'o exec_state \<Rightarrow> bool"
  for total_blocks report worker where
  trip: "\<not> cancel_flag s \<Longrightarrow> exec_step total_blocks report worker s (s\<lparr>cancel_flag := True\<rparr>)"
| submit_refused: "returned s = None \<Longrightarrow> length (handles s) < total_blocks \<Longrightarrow> \<not> flag_checked s \<Longrightarrow> cancel_flag s \<Longrightarrow>
    exec_step total_blocks report worker s (s\<lparr>returned := Some (Err Cancelled)\<rparr>)"
| submit_check: "returned s = None \<Longrightarrow> length (handles s) < total_blocks \<Longrightarrow> \<not> flag_checked s \<Longrightarrow> \<not> cancel_flag s \<Longrightarrow>
    exec_step total_blocks report worker s (s\<lparr>flag_checked := True\<rparr>)"
| submit_spawn: "returned s = None \<Longrightarrow> length (handles s) < total_blocks \<Longrightarrow> flag_checked s \<Longrightarrow> 0 < permits s \<Longrightarrow>
    exec_step total_blocks report worker s
      (s\<lparr>permits := permits s - 1, handles := handles s @ [Spawned], flag_checked := False\<rparr>)"
| task_cancelled: "i < length (handles s) \<Longrightarrow> handles s ! i = Spawned \<Longrightarrow> cancel_flag s \<Longrightarrow>
    exec_step total_blocks report worker s (release_permit (set_task i (Ended (Err cancelled_text)) s))"
| task_starts: "i < length (handles s) \<Longrightarrow> handles s ! i = Spawned \<Longrightarrow> \<not> cancel_flag s \<Longrightarrow>
    exec_step total_blocks report worker s (set_task i Working s)"
| task_counts: "i < length (handles s) \<Longrightarrow> handles s ! i = Working \<Longrightarrow> worker i = Returns r \<Longrightarrow>
    exec_step total_blocks report worker s (set_task i (Counted (done_count s + 1) r) s\<lparr>done_count := done_count s + 1\<rparr>)"
| task_panics: "i < length (handles s) \<Longrightarrow> handles s ! i = Working \<Longrightarrow> worker i = Panics m \<Longrightarrow>
    exec_step total_blocks report worker s (release_permit (set_task i (Unwound m) s))"
| task_ends: "i < length (handles s) \<Longrightarrow> handles s ! i = Counted n r \<Longrightarrow> report = None \<Longrightarrow>
    exec_step total_blocks report worker s (release_permit (set_task i (Ended r) s))"
| task_reports: "i < length (handles s) \<Longrightarrow> handles s ! i = Counted n r \<Longrightarrow> report = Some p \<Longrightarrow> p n = Reports \<Longrightarrow>
    exec_step total_blocks report worker s
      (release_permit (set_task i (Ended r) s\<lparr>progress_log := progress_log s @ [(n, total_blocks)]\<rparr>))"
| report_panics: "i < length (handles s) \<Longrightarrow> handles s ! i = Counted n r \<Longrightarrow> report = Some p \<Longrightarrow> p n = Report_panics m \<Longrightarrow>
    exec_step total_blocks report worker s
      (release_permit (set_task i (Unwound m) s\<lparr>progress_log := progress_log s @ [(n, total_blocks)]\<rparr>))"
| join: "returned s = None \<Longrightarrow> length (handles s) = total_blocks \<Longrightarrow> length (outputs s) < total_blocks \<Longrightarrow>
    join_outcome (handles s ! length (outputs s)) = Some (Ok v) \<Longrightarrow>
    exec_step total_blocks report worker s (s\<lparr>outputs := outputs s @ [v]\<rparr>)"
| join_failed: "returned s = None \<Longrightarrow> length (handles s) = total_blocks \<Longrightarrow> length (outputs s) < total_blocks \<Longrightarrow>
    join_outcome (handles s ! length (outputs s)) = Some (Err e) \<Longrightarrow>
    exec_step total_blocks report worker s (s\<lparr>returned := Some (Err e)\<rparr>)"
| finish: "returned s = None \<Longrightarrow> length (handles s) = total_blocks \<Longrightarrow> length (outputs s) = total_blocks \<Longrightarrow>
    exec_step total_blocks report worker s (s\<lparr>returned := Some (Ok (outputs s))\<rparr>)"

abbreviation exec_run :: "nat \<Rightarrow> nat \<Rightarrow> progress_fn option \<Rightarrow> (nat \<Rightarrow> 'o call) \<Rightarrow> 'o exec_state \<Rightarrow> bool" where
  "exec_run total_blocks n_threads report worker \<equiv> (exec_step total_blocks report worker)\<^sup>*\<^sup>* (exec_start n_threads)"

section \<open>Invariant\<close>

fun active :: "'o block_task \<Rightarrow> bool" where
  "active (Ended _) = False"
| "active (Unwound _) = False"
| "active _ = True"

fun counted :: "'o block_task \<Rightarrow> nat list" where
  "counted (Counted n r) = [n]"
| "counted _ = []"

text \<open>The ways in which a task panics with \<open>m\<close>: in the worker, or in the callback after the worker returned.\<close>

definition panics_with :: "progress_fn option \<Rightarrow> 'o call \<Rightarrow> string \<Rightarrow> bool" where
  "panics_with report w m \<longleftrightarrow> w = Panics m \<or> (\<exists>p n r. report = Some p \<and> p n = Report_panics m \<and> w = Returns r)"

text \<open>A task's state agrees with what the worker does on its block.\<close>

fun task_ok :: "progress_fn option \<Rightarrow> bool \<Rightarrow> 'o call \<Rightarrow> 'o block_task \<Rightarrow> bool" where
  "task_ok report c w (Counted n r) \<longleftrightarrow> w = Returns r"
| "task_ok report c w (Ended r) \<longleftrightarrow> w = Returns r \<or> (c \<and> r = Err cancelled_text)"
| "task_ok report c w (Unwound m) \<longleftrightarrow> panics_with report w m"
| "task_ok report c w _ \<longleftrightarrow> True"

definition running :: "'o exec_state \<Rightarrow> nat" where
  "running s = length (filter active (handles s))"

definition exec_inv :: "nat \<Rightarrow> nat \<Rightarrow> progress_fn option \<Rightarrow> (nat \<Rightarrow> 'o call) \<Rightarrow> 'o exec_state \<Rightarrow> bool" where
  "exec_inv total_blocks n_threads report worker s \<longleftrightarrow>
     running s + permits s = max n_threads 1 \<and>
     length (handles s) \<le> total_blocks \<and>
     (\<forall>i < length (handles s). task_ok report (cancel_flag s) (worker i) (handles s ! i)) \<and>
     length (outputs s) \<le> length (handles s) \<and>
     (\<forall>k < length (outputs s). handles s ! k = Ended (Ok (outputs s ! k)))"

text \<open>What a returned value says.\<close>

definition ret_ok :: "nat \<Rightarrow> progress_fn option \<Rightarrow> (nat \<Rightarrow> 'o call) \<Rightarrow> bool \<Rightarrow> (block_exec_error, 'o list) result \<Rightarrow> bool" where
  "ret_ok total_blocks report worker c r \<longleftrightarrow> (case r of
      Inr outs \<Rightarrow> length outs = total_blocks \<and> (\<forall>k < total_blocks. worker k = Returns (Ok (outs ! k)))
    | Inl e \<Rightarrow> (e = Cancelled \<and> c) \<or>
        (\<exists>k < total_blocks. (\<forall>j < k. \<exists>v. worker j = Returns (Ok v)) \<and>
           ((\<exists>m. panics_with report (worker k) m \<and> e = WorkerError m) \<or>
            (\<exists>m. worker k = Returns (Err m) \<and> e = join_error m))))"

lemma active_update:
  "i < length ts \<Longrightarrow> length (filter active (ts[i := t])) + (if active (ts ! i) then 1 else 0) =
     length (filter active ts) + (if active t then 1 else 0)"
proof (induction ts arbitrary: i)
  case (Cons a ts)
  then show ?case by (cases i) auto
qed simp

lemma running_set_task:
  "i < length (handles s) \<Longrightarrow> running (set_task i t s) + (if active (handles s ! i) then 1 else 0) =
     running s + (if active t then 1 else 0)"
  by (simp add: running_def set_task_def active_update)

lemma exec_fields [simp]:
  "handles (set_task i t s) = (handles s)[i := t]" "permits (set_task i t s) = permits s"
  "outputs (set_task i t s) = outputs s" "cancel_flag (set_task i t s) = cancel_flag s" "returned (set_task i t s) = returned s"
  "done_count (set_task i t s) = done_count s" "progress_log (set_task i t s) = progress_log s"
  "flag_checked (set_task i t s) = flag_checked s"
  "handles (release_permit s) = handles s" "permits (release_permit s) = permits s + 1"
  "outputs (release_permit s) = outputs s" "cancel_flag (release_permit s) = cancel_flag s" "returned (release_permit s) = returned s"
  "done_count (release_permit s) = done_count s" "progress_log (release_permit s) = progress_log s"
  "flag_checked (release_permit s) = flag_checked s"
  by (simp_all add: set_task_def release_permit_def)

lemma task_ok_mono: "task_ok report c w t \<Longrightarrow> task_ok report True w t"
  by (cases t) auto

text \<open>One lemma for all the steps of a task: the new task state must fit the worker and the permits balance.\<close>

lemma task_inv:
  assumes "exec_inv total_blocks n report worker s" and "i < length (handles s)" and "active (handles s ! i)"
    and "handles s' = (handles s)[i := t]" "outputs s' = outputs s" "cancel_flag s' = cancel_flag s"
    and "permits s' = permits s + (if active t then 0 else 1)"
    and "task_ok report (cancel_flag s) (worker i) t"
  shows "exec_inv total_blocks n report worker s'"
proof -
  have "running s' + (if active t then 0 else 1) = running s"
    using active_update [OF assms(2), of t] assms(3,4) by (auto simp: running_def split: if_splits)
  moreover have "handles s ! i \<noteq> Ended (Ok v)" for v using assms(3) by auto
  ultimately show ?thesis using assms by (auto simp: exec_inv_def nth_list_update split: if_splits)
qed

lemma join_error_cancelled: "join_error cancelled_text = Cancelled"
  by (simp add: join_error_def)

lemma join_outcome_Ok: "join_outcome t = Some (Ok v) \<longleftrightarrow> t = Ended (Ok v)"
  by (cases t rule: join_outcome.cases) auto

lemma exec_step_inv:
  assumes "exec_step total_blocks report worker s s'" and "exec_inv total_blocks n report worker s"
  shows "exec_inv total_blocks n report worker s'"
  using assms
proof (induction rule: exec_step.induct)
  case (trip s)
  then show ?case by (auto simp: exec_inv_def running_def intro: task_ok_mono)
next
  case (submit_spawn s)
  then show ?case by (auto simp: exec_inv_def running_def nth_append less_Suc_eq)
next
  case (join s v)
  then show ?case by (auto simp: exec_inv_def running_def nth_append less_Suc_eq join_outcome_Ok)
next
  case (task_cancelled i s)
  show ?case by (rule task_inv [of _ _ _ _ s i _ "Ended (Err cancelled_text)"]) (use task_cancelled in simp_all)
next
  case (task_starts i s)
  show ?case by (rule task_inv [of _ _ _ _ s i _ Working]) (use task_starts in simp_all)
next
  case (task_counts i s r)
  show ?case by (rule task_inv [of _ _ _ _ s i _ "Counted (done_count s + 1) r"]) (use task_counts in simp_all)
next
  case (task_panics i s m)
  show ?case by (rule task_inv [of _ _ _ _ s i _ "Unwound m"]) (use task_panics in \<open>simp_all add: panics_with_def\<close>)
next
  case (task_ends i s k r)
  then have "worker i = Returns r" by (auto simp: exec_inv_def)
  then show ?case by - (rule task_inv [of _ _ _ _ s i _ "Ended r"], use task_ends in simp_all)
next
  case (task_reports i s k r p)
  then have "worker i = Returns r" by (auto simp: exec_inv_def)
  then show ?case by - (rule task_inv [of _ _ _ _ s i _ "Ended r"], use task_reports in simp_all)
next
  case (report_panics i s k r p m)
  then have "worker i = Returns r" by (auto simp: exec_inv_def)
  then have "panics_with report (worker i) m" using report_panics.hyps by (auto simp: panics_with_def)
  then show ?case by - (rule task_inv [of _ _ _ _ s i _ "Unwound m"], use report_panics in simp_all)
qed (auto simp: exec_inv_def running_def)

lemma exec_start_inv: "exec_inv total_blocks n report worker (exec_start n)"
  by (simp add: exec_inv_def exec_start_def running_def)

lemma exec_run_inv: "exec_run total_blocks n report worker s \<Longrightarrow> exec_inv total_blocks n report worker s"
  by (induction rule: rtranclp_induct) (auto intro: exec_start_inv exec_step_inv)

subsection \<open>Progress counts\<close>

text \<open>The tasks that have surely run, and those that may have.\<close>

fun ran_ok :: "'o block_task \<Rightarrow> bool" where
  "ran_ok (Counted _ _) = True"
| "ran_ok (Ended (Inr _)) = True"
| "ran_ok _ = False"

fun may_have_run :: "'o block_task \<Rightarrow> bool" where
  "may_have_run (Counted _ _) = True"
| "may_have_run (Ended _) = True"
| "may_have_run (Unwound _) = True"
| "may_have_run _ = False"

definition first_counts :: "nat \<Rightarrow> nat multiset" where
  "first_counts d = mset [1..<d + 1]"

lemma first_counts_simps [simp]: "first_counts 0 = {#}" "first_counts (Suc d) = add_mset (Suc d) (first_counts d)"
  by (simp_all add: first_counts_def)

definition counts_inv :: "progress_fn option \<Rightarrow> 'o exec_state \<Rightarrow> bool" where
  "counts_inv report s \<longleftrightarrow>
     length (filter ran_ok (handles s)) \<le> done_count s \<and> done_count s \<le> length (filter may_have_run (handles s)) \<and>
     (report \<noteq> None \<longrightarrow> mset (map fst (progress_log s)) + mset (concat (map counted (handles s))) = first_counts (done_count s)) \<and>
     (report = None \<longrightarrow> progress_log s = [])"

lemma filter_update:
  "i < length ts \<Longrightarrow> length (filter P (ts[i := t])) + (if P (ts ! i) then 1 else 0) = length (filter P ts) + (if P t then 1 else 0)"
proof (induction ts arbitrary: i)
  case (Cons a ts)
  then show ?case by (cases i) auto
qed simp

lemma counted_update:
  "i < length ts \<Longrightarrow> mset (concat (map counted (ts[i := t]))) + mset (counted (ts ! i)) =
     mset (concat (map counted ts)) + mset (counted t)"
proof (induction ts arbitrary: i)
  case (Cons a ts)
  then show ?case by (cases i) (auto simp: ac_simps)
qed simp

lemma ran_may: "ran_ok t \<Longrightarrow> may_have_run t"
  by (cases t) auto

text \<open>A callback's call moves its count from the task to the log.\<close>

lemma count_reported:
  assumes "i < length (handles s)" and "handles s ! i = Counted k r" and "t = Ended r \<or> t = Unwound m"
    and "counts_inv report s" and "report \<noteq> None"
  shows "counts_inv report (release_permit (set_task i t s\<lparr>progress_log := progress_log s @ [(k, total_blocks)]\<rparr>))"
proof -
  have ran: "length (filter ran_ok ((handles s)[i := t])) \<le> length (filter ran_ok (handles s))"
    using filter_update [of i "handles s" ran_ok t] assms(1-3) by (auto split: if_splits)
  have may: "length (filter may_have_run ((handles s)[i := t])) = length (filter may_have_run (handles s))"
    using filter_update [of i "handles s" may_have_run t] assms(1-3) by auto
  have "add_mset k (mset (concat (map counted ((handles s)[i := t])))) = mset (concat (map counted (handles s)))"
    using assms(1-3) counted_update [of i "handles s" t] by auto
  then have moved: "add_mset k (L + mset (concat (map counted ((handles s)[i := t])))) = L + mset (concat (map counted (handles s)))" for L
    by (metis union_mset_add_mset_right)
  show ?thesis using assms(4,5) ran may by (auto simp: counts_inv_def moved)
qed

lemma counts_step:
  assumes "exec_step total_blocks report worker s s'" and "counts_inv report s"
  shows "counts_inv report s'"
  using assms
proof (induction rule: exec_step.induct)
  case (task_cancelled i s)
  then show ?case
    using filter_update [of i "handles s" ran_ok "Ended (Err cancelled_text)"]
      filter_update [of i "handles s" may_have_run "Ended (Err cancelled_text)"]
      counted_update [of i "handles s" "Ended (Err cancelled_text)"]
    by (simp add: counts_inv_def)
next
  case (task_starts i s)
  then show ?case
    using filter_update [of i "handles s" ran_ok Working] filter_update [of i "handles s" may_have_run Working]
      counted_update [of i "handles s" Working]
    by (simp add: counts_inv_def)
next
  case (task_counts i s r)
  let ?t = "Counted (done_count s + 1) r"
  show ?case
    using task_counts filter_update [of i "handles s" ran_ok ?t] filter_update [of i "handles s" may_have_run ?t]
      counted_update [of i "handles s" ?t]
    by (simp add: counts_inv_def)
next
  case (task_panics i s m)
  then show ?case
    using filter_update [of i "handles s" ran_ok "Unwound m"] filter_update [of i "handles s" may_have_run "Unwound m"]
      counted_update [of i "handles s" "Unwound m"]
    by (simp add: counts_inv_def)
next
  case (task_ends i s k r)
  have "length (filter ran_ok ((handles s)[i := Ended r])) \<le> length (filter ran_ok (handles s))"
    "length (filter may_have_run ((handles s)[i := Ended r])) = length (filter may_have_run (handles s))"
    using filter_update [of i "handles s" ran_ok "Ended r"] filter_update [of i "handles s" may_have_run "Ended r"] task_ends.hyps
    by (simp_all split: if_splits)
  then show ?case using task_ends by (simp add: counts_inv_def)
next
  case (task_reports i s k r p)
  then show ?case using count_reported [of i s k r "Ended r"] by simp
next
  case (report_panics i s k r p m)
  then show ?case using count_reported [of i s k r "Unwound m"] by simp
qed (auto simp: counts_inv_def)

lemma exec_run_counts: "exec_run total_blocks n report worker s \<Longrightarrow> counts_inv report s"
proof (induction rule: rtranclp_induct)
  case base
  show ?case by (simp add: counts_inv_def exec_start_def)
next
  case (step s s')
  then show ?case using counts_step by blast
qed

subsection \<open>The returned value\<close>

definition final_ok :: "nat \<Rightarrow> progress_fn option \<Rightarrow> (nat \<Rightarrow> 'o call) \<Rightarrow> 'o exec_state \<Rightarrow> bool" where
  "final_ok total_blocks report worker s \<longleftrightarrow> (case returned s of
      None \<Rightarrow> True
    | Some r \<Rightarrow> ret_ok total_blocks report worker (cancel_flag s) r \<and>
        (\<forall>outs. r = Ok outs \<longrightarrow> handles s = map (\<lambda>v. Ended (Ok v)) outs))"

lemma ret_ok_mono: "ret_ok total_blocks report worker c r \<Longrightarrow> ret_ok total_blocks report worker True r"
  by (auto simp: ret_ok_def split: sum.splits)

lemma joined_prefix:
  assumes "exec_inv total_blocks n report worker s" and "j < length (outputs s)"
  shows "worker j = Returns (Ok (outputs s ! j))"
proof -
  have "j < length (handles s)" "handles s ! j = Ended (Ok (outputs s ! j))"
    "\<forall>i < length (handles s). task_ok report (cancel_flag s) (worker i) (handles s ! i)"
    using assms by (auto simp: exec_inv_def)
  then have "task_ok report (cancel_flag s) (worker j) (Ended (Ok (outputs s ! j)))" by metis
  then show ?thesis by simp
qed

lemma ended_fixed:
  assumes "i < length (handles s)" and "active (handles s ! i)"
  shows "handles s \<noteq> map (\<lambda>v. Ended (Ok v)) outs"
proof
  assume h: "handles s = map (\<lambda>v. Ended (Ok v)) outs"
  show False using assms unfolding h by simp
qed

lemma join_failed_ok:
  assumes "exec_inv total_blocks n report worker s" and "k = length (outputs s)" "k < total_blocks" "length (handles s) = total_blocks"
    and "join_outcome (handles s ! k) = Some (Err e)"
  shows "ret_ok total_blocks report worker (cancel_flag s) (Err e)"
proof -
  have pre: "\<forall>j < k. \<exists>v. worker j = Returns (Ok v)" using joined_prefix [OF assms(1)] assms(2) by blast
  have "task_ok report (cancel_flag s) (worker k) (handles s ! k)" using assms(1,3,4) by (auto simp: exec_inv_def)
  then have "(e = Cancelled \<and> cancel_flag s) \<or> (\<exists>m. panics_with report (worker k) m \<and> e = WorkerError m) \<or>
      (\<exists>m. worker k = Returns (Err m) \<and> e = join_error m)"
    using assms(5) join_error_cancelled by (cases "handles s ! k" rule: join_outcome.cases) auto
  then show ?thesis using pre assms(3) unfolding ret_ok_def by auto
qed

lemma final_step:
  assumes "exec_step total_blocks report worker s s'" and "final_ok total_blocks report worker s" and "exec_inv total_blocks n report worker s"
  shows "final_ok total_blocks report worker s'"
  using assms
proof (induction rule: exec_step.induct)
  case (trip s)
  then show ?case by (auto simp: final_ok_def intro: ret_ok_mono split: option.splits)
next
  case (join_failed s e)
  then show ?case using join_failed_ok [of total_blocks n report worker s] by (simp add: final_ok_def)
next
  case (finish s)
  have "handles s = map (\<lambda>v. Ended (Ok v)) (outputs s)"
    using finish by (intro nth_equalityI) (auto simp: exec_inv_def)
  moreover have "ret_ok total_blocks report worker (cancel_flag s) (Ok (outputs s))"
    using finish(1-3) joined_prefix [OF finish.prems(2)] by (auto simp: ret_ok_def)
  ultimately show ?case by (simp add: final_ok_def)
next
  case (task_cancelled i s)
  then show ?case using ended_fixed [of i s] by (auto simp: final_ok_def split: option.splits)
next
  case (task_starts i s)
  then show ?case using ended_fixed [of i s] by (auto simp: final_ok_def split: option.splits)
next
  case (task_counts i s r)
  then show ?case using ended_fixed [of i s] by (auto simp: final_ok_def split: option.splits)
next
  case (task_panics i s m)
  then show ?case using ended_fixed [of i s] by (auto simp: final_ok_def split: option.splits)
next
  case (task_ends i s k r)
  then show ?case using ended_fixed [of i s] by (auto simp: final_ok_def split: option.splits)
next
  case (task_reports i s k r p)
  then show ?case using ended_fixed [of i s] by (auto simp: final_ok_def split: option.splits)
next
  case (report_panics i s k r p m)
  then show ?case using ended_fixed [of i s] by (auto simp: final_ok_def split: option.splits)
qed (auto simp: final_ok_def ret_ok_def)

lemma exec_run_final: "exec_run total_blocks n report worker s \<Longrightarrow> final_ok total_blocks report worker s"
proof (induction rule: rtranclp_induct)
  case base
  show ?case by (simp add: final_ok_def exec_start_def)
next
  case (step s s')
  then show ?case using final_step exec_run_inv by blast
qed

subsection \<open>Every run ends\<close>

fun weight :: "'o block_task \<Rightarrow> nat" where
  "weight Spawned = 3"
| "weight Working = 2"
| "weight (Counted _ _) = 1"
| "weight _ = 0"

definition work_left :: "nat \<Rightarrow> 'o exec_state \<Rightarrow> nat" where
  "work_left total_blocks s =
     (if cancel_flag s then 0 else 1) + (if returned s = None then 1 else 0) + (if flag_checked s then 0 else 1) +
     sum_list (map weight (handles s)) + 6 * (total_blocks - length (handles s)) + (total_blocks - length (outputs s))"

lemma weight_update:
  "i < length ts \<Longrightarrow> sum_list (map weight (ts[i := t])) + weight (ts ! i) = sum_list (map weight ts) + weight t"
proof (induction ts arbitrary: i)
  case (Cons a ts)
  then show ?case by (cases i) auto
qed simp

lemma task_work:
  assumes "i < length (handles s)" "weight t < weight (handles s ! i)"
    and "handles s' = (handles s)[i := t]" "outputs s' = outputs s" "cancel_flag s' = cancel_flag s" "returned s' = returned s"
      "flag_checked s' = flag_checked s"
  shows "work_left total_blocks s' < work_left total_blocks s"
  using weight_update [OF assms(1), of t] assms(2-) by (simp add: work_left_def)

lemma exec_step_work: "exec_step total_blocks report worker s s' \<Longrightarrow> work_left total_blocks s' < work_left total_blocks s"
proof (induction rule: exec_step.induct)
  case (task_cancelled i s)
  then show ?case by (intro task_work [of i _ "Ended (Err cancelled_text)"]) simp_all
next
  case (task_starts i s)
  then show ?case by (intro task_work [of i _ Working]) simp_all
next
  case (task_counts i s r)
  then show ?case by (intro task_work [of i _ "Counted (done_count s + 1) r"]) simp_all
next
  case (task_panics i s m)
  then show ?case by (intro task_work [of i _ "Unwound m"]) simp_all
next
  case (task_ends i s k r)
  then show ?case by (intro task_work [of i _ "Ended r"]) simp_all
next
  case (task_reports i s k r p)
  then show ?case by (intro task_work [of i _ "Ended r"]) simp_all
next
  case (report_panics i s k r p m)
  then show ?case by (intro task_work [of i _ "Unwound m"]) simp_all
qed (auto simp: work_left_def)

text \<open>Neither the worker on a block nor the callback fails to return.\<close>

definition all_return :: "nat \<Rightarrow> progress_fn option \<Rightarrow> (nat \<Rightarrow> 'o call) \<Rightarrow> bool" where
  "all_return total_blocks report worker \<longleftrightarrow>
     (\<forall>i < total_blocks. worker i \<noteq> Hangs) \<and> (\<forall>p n. report = Some p \<longrightarrow> p n \<noteq> Report_hangs)"

lemma active_task_moves:
  assumes "i < length (handles s)" and "active (handles s ! i)" and "all_return total_blocks report worker" and "i < total_blocks"
  shows "\<exists>s'. exec_step total_blocks report worker s s'"
proof (cases "handles s ! i")
  case Spawned
  then show ?thesis using assms(1) exec_step.task_cancelled exec_step.task_starts by metis
next
  case Working
  then show ?thesis using assms(1,3,4)
    by (cases "worker i") (auto simp: all_return_def intro: exec_step.task_counts exec_step.task_panics)
next
  case (Counted k r)
  show ?thesis
  proof (cases report)
    case None
    then show ?thesis using Counted assms(1) exec_step.task_ends by metis
  next
    case (Some p)
    then have "p k \<noteq> Report_hangs" using assms(3) by (simp add: all_return_def)
    then show ?thesis using Counted assms(1) Some
      by (cases "p k") (auto intro: exec_step.task_reports exec_step.report_panics)
  qed
qed (use assms in simp_all)

lemma join_outcome_ended: "\<not> active t \<Longrightarrow> \<exists>r. join_outcome t = Some r"
  by (cases t rule: join_outcome.cases) auto

lemma no_deadlock:
  assumes "exec_inv total_blocks n report worker s" and "returned s = None" and "all_return total_blocks report worker"
  shows "\<exists>s'. exec_step total_blocks report worker s s'"
proof (cases "\<exists>i < length (handles s). active (handles s ! i)")
  case True
  then obtain i where i: "i < length (handles s)" "active (handles s ! i)" by blast
  then have "i < total_blocks" using assms(1) by (simp add: exec_inv_def)
  then show ?thesis by (rule active_task_moves [OF i assms(3)])
next
  case False
  then have "running s = 0" unfolding running_def by (auto simp: filter_empty_conv in_set_conv_nth)
  then have permit: "0 < permits s" using assms(1) by (simp add: exec_inv_def)
  have len: "length (handles s) \<le> total_blocks" "length (outputs s) \<le> length (handles s)" using assms(1) by (simp_all add: exec_inv_def)
  show ?thesis
  proof (cases "length (handles s) < total_blocks")
    case True
    then show ?thesis using exec_step.submit_refused exec_step.submit_check exec_step.submit_spawn permit assms(2) by metis
  next
    case full: False
    then have eq: "length (handles s) = total_blocks" using len by simp
    show ?thesis
    proof (cases "length (outputs s) = total_blocks")
      case True
      then show ?thesis using exec_step.finish assms(2) eq by metis
    next
      case more: False
      then have lt: "length (outputs s) < total_blocks" using len eq by simp
      then obtain r where "join_outcome (handles s ! length (outputs s)) = Some r"
        using False eq join_outcome_ended by metis
      then show ?thesis using assms(2) eq lt by (cases r) (blast intro: exec_step.join exec_step.join_failed)+
    qed
  qed
qed

lemma reaches_return:
  "exec_run total_blocks n report worker s \<Longrightarrow> all_return total_blocks report worker \<Longrightarrow>
     \<exists>s'. (exec_step total_blocks report worker)\<^sup>*\<^sup>* s s' \<and> returned s' \<noteq> None"
proof (induction "work_left total_blocks s" arbitrary: s rule: less_induct)
  case less
  show ?case
  proof (cases "returned s = None")
    case True
    obtain s1 where st: "exec_step total_blocks report worker s s1" using no_deadlock exec_run_inv less.prems True by blast
    have "exec_run total_blocks n report worker s1" using less.prems(1) st by (rule rtranclp.rtrancl_into_rtrancl)
    then obtain s' where "(exec_step total_blocks report worker)\<^sup>*\<^sup>* s1 s'" "returned s' \<noteq> None"
      using less.hyps [OF exec_step_work [OF st]] less.prems(2) by blast
    then show ?thesis using st by (meson converse_rtranclp_into_rtranclp)
  qed blast
qed

section \<open>Properties\<close>

text \<open>
  C30. Whatever the interleaving: at most \<open>max n_threads 1\<close> tasks are active at any time; when
  \<open>run_blocks\<close> returns \<open>Ok\<close>, the outputs are exactly the worker's results in block order and, with a
  progress callback, every count from 1 to the total was reported once (in some order); when it
  returns an error, either the flag was tripped and the error is \<open>Cancelled\<close>, or it is the error of a
  block before which every block succeeded: the worker's error, its panic, or a panic of the progress
  callback after the worker has returned.
\<close>

theorem run_blocks_result:
  assumes "exec_run total_blocks n_threads report worker s"
  shows "running s \<le> max n_threads 1 \<and>
    (\<forall>outs. returned s = Some (Ok outs) \<longrightarrow>
       length outs = total_blocks \<and> (\<forall>k < total_blocks. worker k = Returns (Ok (outs ! k))) \<and>
       (report \<noteq> None \<longrightarrow> mset (map fst (progress_log s)) = mset [1..<total_blocks + 1])) \<and>
    (\<forall>e. returned s = Some (Err e) \<longrightarrow> (e = Cancelled \<and> cancel_flag s) \<or>
       (\<exists>k < total_blocks. (\<forall>j < k. \<exists>v. worker j = Returns (Ok v)) \<and>
          ((\<exists>m. worker k = Panics m \<and> e = WorkerError m) \<or> (\<exists>m. worker k = Returns (Err m) \<and> e = join_error m) \<or>
           (\<exists>p n m r. report = Some p \<and> p n = Report_panics m \<and> worker k = Returns r \<and> e = WorkerError m))))"
proof -
  have inv: "exec_inv total_blocks n_threads report worker s" and cnt: "counts_inv report s" and fin: "final_ok total_blocks report worker s"
    using exec_run_inv exec_run_counts exec_run_final assms by blast+
  have "running s \<le> max n_threads 1" using inv by (simp add: exec_inv_def)
  moreover have "mset (map fst (progress_log s)) = mset [1..<total_blocks + 1]"
    if r: "returned s = Some (Ok outs)" and report: "report \<noteq> None" for outs
  proof -
    have h: "handles s = map (\<lambda>v. Ended (Ok v)) outs" "length outs = total_blocks"
      using fin r by (simp_all add: final_ok_def ret_ok_def)
    have "filter P (map (\<lambda>v. Ended (Ok v)) outs) = (if P (Ended (Ok undefined)) then map (\<lambda>v. Ended (Ok v)) outs else [])"
      if "\<And>v. P (Ended (Ok v)) = P (Ended (Ok undefined))" for P :: "'a block_task \<Rightarrow> bool"
      using that by (auto simp: filter_empty_conv intro!: filter_True)
    then have "done_count s = total_blocks" using cnt h by (simp add: counts_inv_def)
    then have "mset (map fst (progress_log s)) + mset (concat (map counted (handles s))) = first_counts total_blocks"
      using cnt report by (simp only: counts_inv_def simp_thms)
    moreover have "concat (map counted (handles s)) = []" using h by simp
    ultimately show ?thesis unfolding first_counts_def by (simp only: mset.simps add_0_right)
  qed
  moreover have "length outs = total_blocks \<and> (\<forall>k < total_blocks. worker k = Returns (Ok (outs ! k)))"
    if "returned s = Some (Ok outs)" for outs using fin that by (simp add: final_ok_def ret_ok_def)
  moreover have "(e = Cancelled \<and> cancel_flag s) \<or> (\<exists>k < total_blocks. (\<forall>j < k. \<exists>v. worker j = Returns (Ok v)) \<and>
      ((\<exists>m. panics_with report (worker k) m \<and> e = WorkerError m) \<or> (\<exists>m. worker k = Returns (Err m) \<and> e = join_error m)))"
    if "returned s = Some (Err e)" for e using fin that by (simp add: final_ok_def ret_ok_def)
  ultimately show ?thesis unfolding panics_with_def by blast
qed

theorem run_blocks_result_witness:
  "\<exists>s. exec_run 1 0 (Some (\<lambda>_. Reports)) (\<lambda>i. Returns (Ok i)) s \<and> returned s = Some (Ok [0]) \<and> mset (map fst (progress_log s)) = {#1#}"
proof -
  let ?st = "exec_step 1 (Some (\<lambda>_. Reports)) (\<lambda>i. Returns (Ok i))" and ?s = "exec_start 0 :: nat exec_state"
  let ?a = "?s\<lparr>flag_checked := True\<rparr>"
  let ?b = "?a\<lparr>permits := 0, handles := [Spawned], flag_checked := False\<rparr>"
  let ?c = "set_task 0 Working ?b"
  let ?d = "set_task 0 (Counted 1 (Ok 0)) ?c\<lparr>done_count := 1\<rparr>"
  let ?e = "release_permit (set_task 0 (Ended (Ok 0)) ?d\<lparr>progress_log := [(1, 1)]\<rparr>)"
  let ?f = "?e\<lparr>outputs := [0]\<rparr>"
  let ?g = "?f\<lparr>returned := Some (Ok [0])\<rparr>"
  have "?st ?s ?a" by (rule exec_step.submit_check) (simp_all add: exec_start_def)
  moreover have "?st ?a ?b" using exec_step.submit_spawn [of ?a 1] by (simp add: exec_start_def)
  moreover have "?st ?b ?c" by (rule exec_step.task_starts) (simp_all add: exec_start_def)
  moreover have "?st ?c ?d" using exec_step.task_counts [of 0 ?c "\<lambda>i. Returns (Ok i)" "Ok 0"] by (simp add: exec_start_def)
  moreover have "?st ?d ?e" using exec_step.task_reports [of 0 ?d 1 "Ok 0" "Some (\<lambda>_. Reports)" "\<lambda>_. Reports" 1] by (simp add: exec_start_def)
  moreover have "?st ?e ?f" using exec_step.join [of ?e 1 0] by (simp add: exec_start_def)
  moreover have "?st ?f ?g" using exec_step.finish [of ?f 1] by (simp add: exec_start_def)
  ultimately have run: "exec_run 1 0 (Some (\<lambda>_. Reports)) (\<lambda>i. Returns (Ok i)) ?g" by (meson rtranclp.rtrancl_refl rtranclp.rtrancl_into_rtrancl)
  have ret: "returned ?g = Some (Ok [0])" by simp
  show ?thesis using run ret run_blocks_result [OF run] by (intro exI [of _ ?g] conjI) simp_all
qed

text \<open>
  C31. No run of the dispatcher and the tasks is infinite, for every worker and callback (panics
  included), every thread count (zero included) and every moment of cancellation; and when the worker
  returns or panics on every block and the callback on every count, no reachable state is stuck before
  the function has returned, so \<open>run_blocks\<close> always returns.
\<close>

theorem run_blocks_terminates:
  "\<not> (\<exists>f. f 0 = exec_start n_threads \<and> (\<forall>i. exec_step total_blocks report worker (f i) (f (Suc i)))) \<and>
   ((\<forall>i < total_blocks. worker i \<noteq> Hangs) \<longrightarrow> (\<forall>p n. report = Some p \<longrightarrow> p n \<noteq> Report_hangs) \<longrightarrow>
    (\<forall>s. exec_run total_blocks n_threads report worker s \<longrightarrow>
      (returned s \<noteq> None \<or> (\<exists>s'. exec_step total_blocks report worker s s')) \<and>
      (\<exists>s'. (exec_step total_blocks report worker)\<^sup>*\<^sup>* s s' \<and> returned s' \<noteq> None)))"
proof (intro conjI allI impI notI)
  assume "\<exists>f. f 0 = exec_start n_threads \<and> (\<forall>i. exec_step total_blocks report worker (f i) (f (Suc i)))"
  then obtain f where "\<forall>i. exec_step total_blocks report worker (f i) (f (Suc i))" by blast
  then have "\<forall>i. (f (Suc i), f i) \<in> measure (work_left total_blocks)" unfolding in_measure using exec_step_work by blast
  then show False using wf_measure unfolding wf_iff_no_infinite_down_chain by blast
next
  fix s assume run: "exec_run total_blocks n_threads report worker s"
    and "\<forall>i < total_blocks. worker i \<noteq> Hangs" "\<forall>p n. report = Some p \<longrightarrow> p n \<noteq> Report_hangs"
  then have ret: "all_return total_blocks report worker" by (simp add: all_return_def)
  show "returned s \<noteq> None \<or> (\<exists>s'. exec_step total_blocks report worker s s')"
    using no_deadlock exec_run_inv run ret by blast
  show "\<exists>s'. (exec_step total_blocks report worker)\<^sup>*\<^sup>* s s' \<and> returned s' \<noteq> None"
    using reaches_return run ret by blast
qed

theorem run_blocks_terminates_witness:
  "\<exists>s'. exec_run 3 2 (Some (\<lambda>n. if n = 2 then Report_panics ''late'' else Reports))
      (\<lambda>i. if i = 1 then Panics ''boom'' else Returns (Ok i)) s' \<and> returned s' \<noteq> None"
  using run_blocks_terminates [of 2 3 "Some (\<lambda>n. if n = 2 then Report_panics ''late'' else Reports)"
      "\<lambda>i. if i = 1 then Panics ''boom'' else Returns (Ok i)"] by auto

end
