(* ===== verification/Masks.thy ===== *)
theory Masks
  imports Orbit_Prelude
begin

text \<open>
  The quality masks of \<open>crates/eo-mask\<close>: the Landsat \<open>QA_PIXEL\<close> bit field, the Sentinel-2 scene
  classification, and the generic mask values both are projected to. Bit fields are words, decoded
  with the shifts and masks of the code.
\<close>

unbundle bit_operations_syntax

section \<open>Mask values (\<open>provider.rs\<close>, \<open>confidence.rs\<close>)\<close>

datatype mask_confidence = LowConfidence | MediumConfidence | HighConfidence

definition default_mask_confidence :: mask_confidence where
  "default_mask_confidence = MediumConfidence"

datatype mask_value = Clear | Cloud | Shadow | Snow | Water | Saturated | NoData | Other "8 word"

fun mask_discriminant :: "mask_value \<Rightarrow> 8 word" where
  "mask_discriminant NoData = 0"
| "mask_discriminant Clear = 1"
| "mask_discriminant Cloud = 2"
| "mask_discriminant Shadow = 3"
| "mask_discriminant Snow = 4"
| "mask_discriminant Water = 5"
| "mask_discriminant Saturated = 6"
| "mask_discriminant (Other b) = b"

record mask_band =
  mb_rows :: nat
  mb_cols :: nat
  mb_pixels :: "8 word list"

definition mask_area :: "mask_band \<Rightarrow> nat" where
  "mask_area b = wrap64 (mb_rows b * mb_cols b)"

definition mask_clear :: "nat \<Rightarrow> nat \<Rightarrow> mask_band" where
  "mask_clear rows cols =
     \<lparr>mb_rows = rows, mb_cols = cols, mb_pixels = replicate (wrap64 (rows * cols)) (mask_discriminant Clear)\<rparr>"

section \<open>Landsat \<open>QA_PIXEL\<close> (\<open>qa_pixel.rs\<close>)\<close>

datatype qa_confidence = QaNone | QaLow | QaMedium | QaHigh

definition from_2bits :: "16 word \<Rightarrow> qa_confidence" where
  "from_2bits v = (let b = v AND 0b11 in
     if b = 0 then QaNone else if b = 1 then QaLow else if b = 2 then QaMedium else QaHigh)"

fun is_medium_or_high :: "qa_confidence \<Rightarrow> bool" where
  "is_medium_or_high QaMedium = True"
| "is_medium_or_high QaHigh = True"
| "is_medium_or_high _ = False"

record qa_pixel =
  qa_fill :: bool
  dilated_cloud :: bool
  qa_cirrus :: bool
  qa_cloud :: bool
  cloud_shadow :: bool
  qa_snow :: bool
  qa_clear :: bool
  qa_water :: bool
  cloud_confidence :: qa_confidence
  cloud_shadow_confidence :: qa_confidence
  snow_confidence :: qa_confidence
  cirrus_confidence :: qa_confidence

definition from_u16 :: "16 word \<Rightarrow> qa_pixel" where
  "from_u16 v =
     \<lparr>qa_fill = (v AND 1 \<noteq> 0),
      dilated_cloud = (drop_bit 1 v AND 1 \<noteq> 0),
      qa_cirrus = (drop_bit 2 v AND 1 \<noteq> 0),
      qa_cloud = (drop_bit 3 v AND 1 \<noteq> 0),
      cloud_shadow = (drop_bit 4 v AND 1 \<noteq> 0),
      qa_snow = (drop_bit 5 v AND 1 \<noteq> 0),
      qa_clear = (drop_bit 6 v AND 1 \<noteq> 0),
      qa_water = (drop_bit 7 v AND 1 \<noteq> 0),
      cloud_confidence = from_2bits (drop_bit 8 v),
      cloud_shadow_confidence = from_2bits (drop_bit 10 v),
      snow_confidence = from_2bits (drop_bit 12 v),
      cirrus_confidence = from_2bits (drop_bit 14 v)\<rparr>"

definition qa_to_mask_value :: "qa_pixel \<Rightarrow> mask_value" where
  "qa_to_mask_value q =
     (if qa_fill q then NoData
      else if qa_cloud q \<or> dilated_cloud q then Cloud
      else if cloud_shadow q then Shadow
      else if qa_cirrus q then Cloud
      else if qa_snow q then Snow
      else if qa_water q then Water
      else if qa_clear q then Clear
      else Clear)"

section \<open>Sentinel-2 scene classification (\<open>scl.rs\<close>)\<close>

datatype scene_class =
  SclNoData | SclSaturated | SclDarkArea | SclCloudShadows | SclVegetation | SclBareSoil | SclWater |
  SclUnclassified | SclCloudMedium | SclCloudHigh | SclCirrus | SclSnow

definition scl_from_u8 :: "8 word \<Rightarrow> scene_class" where
  "scl_from_u8 b =
     (if b = 0 then SclNoData else if b = 1 then SclSaturated else if b = 2 then SclDarkArea
      else if b = 3 then SclCloudShadows else if b = 4 then SclVegetation else if b = 5 then SclBareSoil
      else if b = 6 then SclWater else if b = 8 then SclCloudMedium else if b = 9 then SclCloudHigh
      else if b = 10 then SclCirrus else if b = 11 then SclSnow else SclUnclassified)"

text \<open>The discriminants of the \<open>repr(u8)\<close> enumeration.\<close>

fun scl_code :: "scene_class \<Rightarrow> 8 word" where
  "scl_code SclNoData = 0"
| "scl_code SclSaturated = 1"
| "scl_code SclDarkArea = 2"
| "scl_code SclCloudShadows = 3"
| "scl_code SclVegetation = 4"
| "scl_code SclBareSoil = 5"
| "scl_code SclWater = 6"
| "scl_code SclUnclassified = 7"
| "scl_code SclCloudMedium = 8"
| "scl_code SclCloudHigh = 9"
| "scl_code SclCirrus = 10"
| "scl_code SclSnow = 11"

fun scl_to_mask_value :: "scene_class \<Rightarrow> mask_value" where
  "scl_to_mask_value SclNoData = NoData"
| "scl_to_mask_value SclSaturated = Saturated"
| "scl_to_mask_value SclCloudShadows = Shadow"
| "scl_to_mask_value SclVegetation = Clear"
| "scl_to_mask_value SclBareSoil = Clear"
| "scl_to_mask_value SclUnclassified = Clear"
| "scl_to_mask_value SclDarkArea = Clear"
| "scl_to_mask_value SclWater = Water"
| "scl_to_mask_value SclCloudMedium = Cloud"
| "scl_to_mask_value SclCloudHigh = Cloud"
| "scl_to_mask_value SclCirrus = Cloud"
| "scl_to_mask_value SclSnow = Snow"

section \<open>The bit layout\<close>

text \<open>The table of the product guide, as the value that a decoded pixel stands for.\<close>

fun confidence_code :: "qa_confidence \<Rightarrow> 16 word" where
  "confidence_code QaNone = 0"
| "confidence_code QaLow = 1"
| "confidence_code QaMedium = 2"
| "confidence_code QaHigh = 3"

definition flag :: "nat \<Rightarrow> bool \<Rightarrow> 16 word" where
  "flag n b = (if b then push_bit n 1 else 0)"

definition qa_encode :: "qa_pixel \<Rightarrow> 16 word" where
  "qa_encode q =
     flag 0 (qa_fill q) OR flag 1 (dilated_cloud q) OR flag 2 (qa_cirrus q) OR flag 3 (qa_cloud q) OR
     flag 4 (cloud_shadow q) OR flag 5 (qa_snow q) OR flag 6 (qa_clear q) OR flag 7 (qa_water q) OR
     push_bit 8 (confidence_code (cloud_confidence q)) OR push_bit 10 (confidence_code (cloud_shadow_confidence q)) OR
     push_bit 12 (confidence_code (snow_confidence q)) OR push_bit 14 (confidence_code (cirrus_confidence q))"

definition confidence_of :: "bool \<Rightarrow> bool \<Rightarrow> qa_confidence" where
  "confidence_of hi lo = (if hi then if lo then QaHigh else QaMedium else if lo then QaLow else QaNone)"

lemma test_bit_mask: "drop_bit n v AND 1 \<noteq> 0 \<longleftrightarrow> bit v n" for v :: "16 word"
  by (simp add: bit_iff_and_drop_bit_eq_1 and_one_eq)

lemma bit_small: "bit (2 :: int) k \<longleftrightarrow> k = 1" "bit (3 :: int) k \<longleftrightarrow> k < 2"
  by (cases k; cases "k - 1"; auto simp: bit_Suc)+

lemma from_2bits_bits: "from_2bits (drop_bit n v) = confidence_of (bit v (Suc n)) (bit v n)"
proof -
  have "drop_bit n v AND 3 = (if bit v n then 1 else 0) OR (if bit v (Suc n) then 2 else 0)"
    by (rule bit_word_eqI) (auto simp: bit_simps bit_small less_2_cases_iff intro!: gr0I)
  then show ?thesis by (auto simp: from_2bits_def confidence_of_def Let_def)
qed

lemma bit_flag: "bit (flag n b) k \<longleftrightarrow> b \<and> k = n \<and> n < 16"
  by (auto simp: flag_def bit_simps)

lemma bit_confidence: "bit (confidence_code c) k \<longleftrightarrow>
   k = 0 \<and> (c = QaLow \<or> c = QaHigh) \<or> k = 1 \<and> (c = QaMedium \<or> c = QaHigh)"
  by (cases c) (auto simp: bit_1_iff bit_small less_2_cases_iff)

lemma confidence_of_codes: "confidence_of (c = QaMedium \<or> c = QaHigh) (c = QaLow \<or> c = QaHigh) = c"
  by (cases c) (simp_all add: confidence_of_def)

lemma confidence_of_iff:
  "confidence_of hi lo = QaLow \<or> confidence_of hi lo = QaHigh \<longleftrightarrow> lo"
  "confidence_of hi lo = QaMedium \<or> confidence_of hi lo = QaHigh \<longleftrightarrow> hi"
  by (simp_all add: confidence_of_def)

lemma bit_qa_encode:
  "k < 16 \<Longrightarrow> bit (qa_encode q) k \<longleftrightarrow>
     k = 0 \<and> qa_fill q \<or> k = 1 \<and> dilated_cloud q \<or> k = 2 \<and> qa_cirrus q \<or> k = 3 \<and> qa_cloud q \<or>
     k = 4 \<and> cloud_shadow q \<or> k = 5 \<and> qa_snow q \<or> k = 6 \<and> qa_clear q \<or> k = 7 \<and> qa_water q \<or>
     8 \<le> k \<and> bit (confidence_code (cloud_confidence q)) (k - 8) \<or>
     10 \<le> k \<and> bit (confidence_code (cloud_shadow_confidence q)) (k - 10) \<or>
     12 \<le> k \<and> bit (confidence_code (snow_confidence q)) (k - 12) \<or>
     14 \<le> k \<and> bit (confidence_code (cirrus_confidence q)) (k - 14)"
  unfolding qa_encode_def bit_or_iff bit_flag bit_push_bit_iff by auto

lemma from_u16_bits:
  "from_u16 v =
     \<lparr>qa_fill = bit v 0, dilated_cloud = bit v 1, qa_cirrus = bit v 2, qa_cloud = bit v 3, cloud_shadow = bit v 4,
      qa_snow = bit v 5, qa_clear = bit v 6, qa_water = bit v 7,
      cloud_confidence = confidence_of (bit v 9) (bit v 8), cloud_shadow_confidence = confidence_of (bit v 11) (bit v 10),
      snow_confidence = confidence_of (bit v 13) (bit v 12), cirrus_confidence = confidence_of (bit v 15) (bit v 14)\<rparr>"
proof -
  have z: "v AND 1 \<noteq> 0 \<longleftrightarrow> bit v 0" using test_bit_mask [of 0 v] by simp
  show ?thesis unfolding from_u16_def test_bit_mask from_2bits_bits z by (simp only: Suc_numeral semiring_norm)
qed

section \<open>Properties\<close>

text \<open>
The \<open>QA_PIXEL\<close> decoder follows the documented bit layout and loses nothing: decoding and the
  layout's encoding are inverse to each other on all 65536 values and all decoded pixels. The
  Sentinel-2 decoder inverts the class codes, and a byte that is no class code decodes to the
  catch-all class. A Landsat pixel is projected to \<open>Clear\<close> exactly when no fill, cloud,
  dilated-cloud, shadow, cirrus, snow or water bit is set.
\<close>

theorem qa_decode_roundtrip:
  "qa_encode (from_u16 v) = v \<and> from_u16 (qa_encode q) = q \<and>
   scl_from_u8 (scl_code c) = c \<and> (scl_code (scl_from_u8 b) = b \<or> scl_from_u8 b = SclUnclassified) \<and>
   (qa_to_mask_value (from_u16 v) = Clear \<longleftrightarrow> v AND 0b10111111 = 0)"
proof (intro conjI)
  show "qa_encode (from_u16 v) = v"
  proof (rule bit_word_eqI)
    fix k assume "k < LENGTH(16)"
    then have k: "k < 16" by simp
    show "bit (qa_encode (from_u16 v)) k \<longleftrightarrow> bit v k"
      unfolding bit_qa_encode [OF k] unfolding from_u16_bits qa_pixel.select_convs bit_confidence confidence_of_iff
      using less_16 [OF k] by (elim insertE emptyE) simp_all
  qed
next
  show "from_u16 (qa_encode q) = q"
    by (cases q) (simp add: from_u16_bits bit_qa_encode bit_confidence confidence_of_codes)
next
  show "scl_from_u8 (scl_code c) = c" by (cases c) (simp_all add: scl_from_u8_def)
next
  show "scl_code (scl_from_u8 b) = b \<or> scl_from_u8 b = SclUnclassified" by (simp add: scl_from_u8_def)
next
  have "v AND 0b10111111 = 0 \<longleftrightarrow> (\<forall>k < 16. \<not> (bit v k \<and> bit (0b10111111 :: 16 word) k))"
    by (simp add: bit_eq_iff bit_and_iff)
  also have "\<dots> \<longleftrightarrow> \<not> (bit v 0 \<or> bit v 1 \<or> bit v 2 \<or> bit v 3 \<or> bit v 4 \<or> bit v 5 \<or> bit v 7)"
    by (simp add: all_less_16)
  also have "\<dots> \<longleftrightarrow> qa_to_mask_value (from_u16 v) = Clear"
    by (simp add: from_u16_bits qa_to_mask_value_def)
  finally show "qa_to_mask_value (from_u16 v) = Clear \<longleftrightarrow> v AND 0b10111111 = 0" by simp
qed

end
