(* ===== verification/Auth.thy ===== *)
theory Auth
  imports Json File_Store
begin

text \<open>
  Authentication of \<open>apps/orbit-openeo\<close>: \<open>auth/bearer.rs\<close>, \<open>auth/basic.rs\<close> with its base64 decoder,
  \<open>auth/mod.rs\<close>, the route security map of \<open>security.rs\<close> and the middleware of \<open>auth_layer.rs\<close>. Strings
  are their UTF-8 bytes. \<open>HeaderValue::to_str\<close> of the \<open>http\<close> crate and Unicode upper-casing of non-ASCII
  strings are parameters.
\<close>

unbundle bit_operations_syntax

section \<open>Strings\<close>

definition strip_prefix :: "string \<Rightarrow> string \<Rightarrow> string option" where
  "strip_prefix pre s = (if take (length pre) s = pre then Some (drop (length pre) s) else None)"

definition split_once :: "char \<Rightarrow> string \<Rightarrow> (string \<times> string) option" where
  "split_once c s = (case dropWhile (\<lambda>x. x \<noteq> c) s of [] \<Rightarrow> None | _ # r \<Rightarrow> Some (takeWhile (\<lambda>x. x \<noteq> c) s, r))"

definition ascii_upper :: "char \<Rightarrow> char" where
  "ascii_upper c = (let n = (of_char c :: nat) in if 97 \<le> n \<and> n \<le> 122 then char_of (n - 32) else c)"

definition to_uppercase :: "(string \<Rightarrow> string) \<Rightarrow> string \<Rightarrow> string" where
  "to_uppercase unicode s = (if list_all (\<lambda>c. (of_char c :: nat) < 128) s then map ascii_upper s else unicode s)"

text \<open>The literals of the two schemes.\<close>

definition bearer_prefix :: string where "bearer_prefix = ''Bearer ''"
definition basic_prefix :: string where "basic_prefix = ''Basic ''"
definition colon :: char where "colon = CHR '':''"

section \<open>Comparison\<close>

text \<open>The loop folds the XOR of each pair of bytes into \<open>diff\<close>.\<close>

definition byte_word :: "char \<Rightarrow> 8 word" where "byte_word c = of_nat (of_char c)"

definition constant_time_eq :: "string \<Rightarrow> string \<Rightarrow> bool" where
  "constant_time_eq a b =
     (if length a \<noteq> length b then False
      else fold (\<lambda>(x, y) diff. diff OR (byte_word x XOR byte_word y)) (zip a b) 0 = 0)"

section \<open>Bearer (\<open>auth/bearer.rs\<close>)\<close>

datatype bearer_error = NotBearer
datatype bearer_token = BearerToken (bearer_raw: string)

definition bearer_parse :: "string \<Rightarrow> (bearer_error, bearer_token) result" where
  "bearer_parse header = and_then (ok_or NotBearer (strip_prefix bearer_prefix header)) (\<lambda>token. Ok (BearerToken token))"

definition bearer_matches :: "bearer_token \<Rightarrow> string \<Rightarrow> bool" where
  "bearer_matches t expected = constant_time_eq (bearer_raw t) expected"

section \<open>Basic (\<open>auth/basic.rs\<close>)\<close>

record basic_credentials =
  cred_username :: string
  cred_password :: string

datatype basic_error = NotBasic | BadBase64 | MissingColon | NotUtf8

definition b64_alphabet :: string where
  "b64_alphabet = ''ABCDEFGHIJKLMNOPQRSTUVWXYZabcdefghijklmnopqrstuvwxyz0123456789+/''"

fun position :: "'a \<Rightarrow> 'a list \<Rightarrow> nat option" where
  "position x [] = None"
| "position x (y # ys) = (if x = y then Some 0 else map_option Suc (position x ys))"

text \<open>The table \<open>T\<close>: the sextet of a character, \<open>None\<close> for its entries of -1.\<close>

definition b64_table :: "char \<Rightarrow> nat option" where
  "b64_table c = (if c = CHR ''='' then Some 0 else position c b64_alphabet)"

definition b64_skipped :: "char \<Rightarrow> bool" where
  "b64_skipped c \<longleftrightarrow> c = CHR 0x0A \<or> c = CHR 0x0D \<or> c = CHR '' ''"

text \<open>
  The bytes of a full buffer. Sextets are below 64, so the \<open>u32\<close> shifts never lose a bit and the
  naturals' bit operations are the code's.
\<close>

definition b64_triple :: "nat list \<Rightarrow> nat" where
  "b64_triple buf = push_bit 18 (buf ! 0) OR push_bit 12 (buf ! 1) OR push_bit 6 (buf ! 2) OR buf ! 3"

definition b64_emit :: "nat list \<Rightarrow> nat \<Rightarrow> string" where
  "b64_emit buf pad = (let triple = b64_triple buf in
     [char_of (drop_bit 16 triple AND 0xff)] @
     (if pad < 2 then [char_of (drop_bit 8 triple AND 0xff)] else []) @
     (if pad < 1 then [char_of (triple AND 0xff)] else []))"

fun b64_loop :: "string \<Rightarrow> nat list \<Rightarrow> nat \<Rightarrow> string \<Rightarrow> string option" where
  "b64_loop [] buf pad out = (if length buf \<noteq> 0 then None else Some out)"
| "b64_loop (b # bs) buf pad out =
     (if b64_skipped b then b64_loop bs buf pad out
      else case b64_table b of
          None \<Rightarrow> None
        | Some v \<Rightarrow>
            let buf = buf @ [v]; pad = (if b = CHR ''='' then pad + 1 else pad)
            in if length buf = 4 then b64_loop bs [] 0 (out @ b64_emit buf pad) else b64_loop bs buf pad out)"

definition b64_decode :: "string \<Rightarrow> string option" where
  "b64_decode input = b64_loop input [] 0 []"

definition basic_parse :: "string \<Rightarrow> (basic_error, basic_credentials) result" where
  "basic_parse header =
     and_then (ok_or NotBasic (strip_prefix basic_prefix header)) (\<lambda>payload.
     and_then (ok_or BadBase64 (b64_decode payload)) (\<lambda>decoded.
     and_then (ok_or NotUtf8 (map_option (\<lambda>_. decoded) (utf8_chars decoded))) (\<lambda>s.
     and_then (ok_or MissingColon (split_once colon s)) (\<lambda>(u, p).
     Ok \<lparr>cred_username = u, cred_password = p\<rparr>))))"

definition basic_matches :: "basic_credentials \<Rightarrow> string \<Rightarrow> string \<Rightarrow> bool" where
  "basic_matches c expected_user expected_pass \<longleftrightarrow>
     constant_time_eq (cred_username c) expected_user \<and> constant_time_eq (cred_password c) expected_pass"

section \<open>Policy (\<open>auth/mod.rs\<close>)\<close>

datatype auth_policy = OpenPolicy | BearerPolicy string | BasicPolicy string string
  | AnyPolicy "string option" "(string \<times> string) option"

datatype auth_outcome = OpenAccess | Authenticated | MissingHeader | BadScheme | BadCredentials

definition check_bearer :: "string \<Rightarrow> string \<Rightarrow> auth_outcome option" where
  "check_bearer token h = (case bearer_parse h of
      Inr b \<Rightarrow> Some (if bearer_matches b token then Authenticated else BadCredentials)
    | Inl _ \<Rightarrow> None)"

definition check_basic :: "string \<Rightarrow> string \<Rightarrow> string \<Rightarrow> auth_outcome option" where
  "check_basic u p h = (case basic_parse h of
      Inr b \<Rightarrow> Some (if basic_matches b u p then Authenticated else BadCredentials)
    | Inl _ \<Rightarrow> None)"

definition or_bad_scheme :: "auth_outcome option \<Rightarrow> auth_outcome" where
  "or_bad_scheme o1 = (case o1 of Some r \<Rightarrow> r | None \<Rightarrow> BadScheme)"

fun check_policy :: "auth_policy \<Rightarrow> string option \<Rightarrow> auth_outcome" where
  "check_policy OpenPolicy header = OpenAccess"
| "check_policy (BearerPolicy token) None = MissingHeader"
| "check_policy (BearerPolicy token) (Some h) = or_bad_scheme (check_bearer token h)"
| "check_policy (BasicPolicy u p) None = MissingHeader"
| "check_policy (BasicPolicy u p) (Some h) = or_bad_scheme (check_basic u p h)"
| "check_policy (AnyPolicy bearer basic) None = MissingHeader"
| "check_policy (AnyPolicy bearer basic) (Some h) =
     (case Option.bind bearer (\<lambda>tok. check_bearer tok h) of
        Some r \<Rightarrow> r
      | None \<Rightarrow> or_bad_scheme (Option.bind basic (\<lambda>(u, p). check_basic u p h)))"

section \<open>Route security (\<open>security.rs\<close>)\<close>

type_synonym route_security = "string list list"

definition is_public :: "route_security \<Rightarrow> bool" where
  "is_public alternatives \<longleftrightarrow> alternatives = [] \<or> list_ex (\<lambda>a. a = []) alternatives"

definition requires_scheme :: "route_security \<Rightarrow> string \<Rightarrow> bool" where
  "requires_scheme alternatives scheme \<longleftrightarrow> list_ex (\<lambda>a. list_ex (\<lambda>s. s = scheme) a) alternatives"

type_synonym route_security_map = "string \<times> string \<rightharpoonup> route_security"

datatype security_map_error = SpecParse string | NoPaths

definition parse_security_array :: "json list \<Rightarrow> string list list" where
  "parse_security_array arr = map (map fst) (List.map_filter as_object arr)"

definition http_methods :: "string list" where
  "http_methods = [''GET'', ''POST'', ''PUT'', ''PATCH'', ''DELETE'', ''HEAD'', ''OPTIONS'']"

definition op_security :: "json \<Rightarrow> route_security" where
  "op_security op = (case Option.bind (json_get op ''security'') as_array of
      Some a \<Rightarrow> parse_security_array a | None \<Rightarrow> [])"

definition add_path ::
  "(string \<Rightarrow> string) \<Rightarrow> string \<times> json \<Rightarrow> route_security_map \<Rightarrow> route_security_map" where
  "add_path unicode po m = (case as_object (snd po) of
      None \<Rightarrow> m
    | Some ops_obj \<Rightarrow> fold (\<lambda>(method, op) m.
        let m_upper = to_uppercase unicode method
        in if m_upper \<in> set http_methods then m((m_upper, fst po) \<mapsto> op_security op) else m) ops_obj m)"

definition from_spec :: "(string \<Rightarrow> string) \<Rightarrow> json \<Rightarrow> (security_map_error, route_security_map) result" where
  "from_spec unicode spec =
     and_then (ok_or NoPaths (Option.bind (json_get spec ''paths'') as_object)) (\<lambda>paths.
       Ok (fold (add_path unicode) paths Map.empty))"

definition route_get :: "(string \<Rightarrow> string) \<Rightarrow> route_security_map \<Rightarrow> string \<Rightarrow> string \<Rightarrow> route_security option" where
  "route_get unicode m method path_template = m (to_uppercase unicode method, path_template)"

section \<open>The middleware (\<open>auth_layer.rs\<close>)\<close>

record auth_request =
  req_matched :: "string option"
  req_method :: string
  req_authorization :: "string option"

datatype verdict = PassOn | Unauthorized (www_authenticate: string) (reject_code: string) (reject_message: string)

definition unauthorized :: "string \<Rightarrow> verdict" where
  "unauthorized msg = Unauthorized ''Bearer, Basic'' ''AuthenticationRequired'' msg"

definition enforce ::
  "(string \<Rightarrow> string) \<Rightarrow> (string \<Rightarrow> string option) \<Rightarrow> route_security_map \<Rightarrow> auth_policy \<Rightarrow> auth_request \<Rightarrow> verdict" where
  "enforce unicode to_str routes policy req =
     (let route_sec = Option.bind (req_matched req) (route_get unicode routes (req_method req))
      in if (case route_sec of None \<Rightarrow> True | Some s \<Rightarrow> is_public s) then PassOn
         else case check_policy policy (Option.bind (req_authorization req) to_str) of
             Authenticated \<Rightarrow> PassOn
           | OpenAccess \<Rightarrow> PassOn
           | MissingHeader \<Rightarrow> unauthorized ''missing Authorization header''
           | BadScheme \<Rightarrow> unauthorized ''unsupported Authorization scheme''
           | BadCredentials \<Rightarrow> unauthorized ''invalid credentials'')"

section \<open>Comparison is equality\<close>

lemma byte_word_inj [simp]: "byte_word x = byte_word y \<longleftrightarrow> x = y"
proof -
  have "unat (byte_word c) = of_char c" for c :: char
    unfolding byte_word_def by (simp add: unat_of_nat of_char_mod_256)
  then show ?thesis by (metis char_of_char)
qed

lemma fold_xor_zero:
  "fold (\<lambda>(x, y) diff. diff OR (byte_word x XOR byte_word y)) ps d = 0 \<longleftrightarrow> d = 0 \<and> (\<forall>(x, y) \<in> set ps. x = y)"
proof (induction ps arbitrary: d)
  case (Cons p ps)
  have "d OR (byte_word x XOR byte_word y) = 0 \<longleftrightarrow> d = 0 \<and> x = y" for x y
    by (metis byte_word_inj or.right_neutral or_eq_0_iff xor_self_eq xor.left_neutral xor.assoc)
  then show ?case using Cons by (auto split: prod.splits)
qed simp

lemma constant_time_eq_iff: "constant_time_eq a b \<longleftrightarrow> a = b"
proof -
  have "length a = length b \<Longrightarrow> (\<forall>(x, y) \<in> set (zip a b). x = y) \<longleftrightarrow> a = b"
    by (induction a b rule: list_induct2) auto
  then show ?thesis by (auto simp: constant_time_eq_def fold_xor_zero)
qed

section \<open>Base64\<close>

text \<open>The encoding of RFC 4648, three bytes at a time, with padding.\<close>

definition sextets :: "nat \<Rightarrow> nat list" where
  "sextets n = [drop_bit 18 n, take_bit 6 (drop_bit 12 n), take_bit 6 (drop_bit 6 n), take_bit 6 n]"

definition group :: "char \<Rightarrow> char \<Rightarrow> char \<Rightarrow> nat" where
  "group a b c = (of_char a * 256 + of_char b) * 256 + of_char c"

definition b64_chars :: "nat list \<Rightarrow> string" where
  "b64_chars ss = map (\<lambda>s. b64_alphabet ! s) ss"

fun b64_encode :: "string \<Rightarrow> string" where
  "b64_encode [] = []"
| "b64_encode [a] = b64_chars (take 2 (sextets (group a (CHR 0x00) (CHR 0x00)))) @ ''==''"
| "b64_encode [a, b] = b64_chars (take 3 (sextets (group a b (CHR 0x00)))) @ ''=''"
| "b64_encode (a # b # c # s) = b64_chars (sextets (group a b c)) @ b64_encode s"

lemma b64_alphabet_table:
  "k < 64 \<Longrightarrow> b64_table (b64_alphabet ! k) = Some k \<and> \<not> b64_skipped (b64_alphabet ! k) \<and> b64_alphabet ! k \<noteq> CHR ''=''"
proof -
  have "\<forall>k \<in> set [0..<64]. b64_table (b64_alphabet ! k) = Some k \<and> \<not> b64_skipped (b64_alphabet ! k) \<and> b64_alphabet ! k \<noteq> CHR ''=''"
    by code_simp
  then show "k < 64 \<Longrightarrow> ?thesis" by simp
qed

lemma of_char_lt: "(of_char c :: nat) < 256"
  by (metis of_char_mod_256 mod_less_divisor zero_less_numeral)

lemma group_lt: "group a b c < 2 ^ 24"
proof -
  have "(x * 256 + y) * 256 + z < 2 ^ 24" if "x < 256" "y < 256" "z < 256" for x y z :: nat
    using that by simp
  then show ?thesis using of_char_lt [of a] of_char_lt [of b] of_char_lt [of c] unfolding group_def by blast
qed

lemma sextets_lt: "n < 2 ^ 24 \<Longrightarrow> s \<in> set (sextets n) \<Longrightarrow> s < 64"
  by (auto simp: sextets_def drop_bit_eq_div take_bit_eq_mod less_mult_imp_div_less)

lemma triple_sextets: "b64_triple (sextets n) = n"
proof (rule bit_eqI)
  fix k :: nat
  consider "18 \<le> k" | "12 \<le> k" "k < 18" | "6 \<le> k" "k < 12" | "k < 6" by linarith
  then show "bit (b64_triple (sextets n)) k \<longleftrightarrow> bit n k"
    by cases (auto simp: b64_triple_def sextets_def bit_simps)
qed

lemma emit_group: "b64_emit (sextets (group a b c)) pad =
  [a] @ (if pad < 2 then [b] else []) @ (if pad < 1 then [c] else [])"
proof -
  have m: "n AND 255 = n mod 256" for n :: nat using take_bit_eq_mask [of 8 n] by (simp add: mask_eq_exp_minus_1 take_bit_eq_mod)
  have d: "drop_bit 16 n = n div 256 div 256" "drop_bit 8 n = n div 256" for n :: nat
    by (simp_all add: drop_bit_eq_div flip: div_mult2_eq)
  have q: "(w * 256 + z) div 256 = w" "(w * 256 + z) mod 256 = z" if "z < 256" for w z :: nat using that by simp_all
  have "((x * 256 + y) * 256 + z) div 256 div 256 mod 256 = x" "((x * 256 + y) * 256 + z) div 256 mod 256 = y"
    "((x * 256 + y) * 256 + z) mod 256 = z" if "x < 256" "y < 256" "z < 256" for x y z :: nat
    using that by (simp_all only: q mod_less)
  then have "drop_bit 16 (group a b c) AND 255 = of_char a" "drop_bit 8 (group a b c) AND 255 = of_char b" "group a b c AND 255 = of_char c"
    unfolding m d group_def using of_char_lt by blast+
  then show ?thesis by (simp add: b64_emit_def triple_sextets Let_def)
qed

lemma b64_loop_sextet:
  "k < 64 \<Longrightarrow> length buf < 3 \<Longrightarrow> b64_loop ((b64_alphabet ! k) # bs) buf pad out = b64_loop bs (buf @ [k]) pad out"
  "k < 64 \<Longrightarrow> length buf = 3 \<Longrightarrow> b64_loop ((b64_alphabet ! k) # bs) buf pad out = b64_loop bs [] 0 (out @ b64_emit (buf @ [k]) pad)"
  using b64_alphabet_table [of k] by (simp_all add: Let_def)

lemma b64_loop_pad:
  "length buf < 3 \<Longrightarrow> b64_loop (CHR ''='' # bs) buf pad out = b64_loop bs (buf @ [0]) (pad + 1) out"
  "length buf = 3 \<Longrightarrow> b64_loop (CHR ''='' # bs) buf pad out = b64_loop bs [] 0 (out @ b64_emit (buf @ [0]) (pad + 1))"
  by (simp_all add: b64_table_def b64_skipped_def Let_def)

lemma sextets_forms:
  obtains s0 s1 s2 s3 where "sextets n = [s0, s1, s2, s3]"
  by (simp add: sextets_def)

lemma zero_tail_sextets:
  "sextets (group a b (CHR 0x00)) ! 3 = 0"
  "sextets (group a (CHR 0x00) (CHR 0x00)) ! 2 = 0" "sextets (group a (CHR 0x00) (CHR 0x00)) ! 3 = 0"
  by (simp_all add: sextets_def group_def take_bit_eq_mod drop_bit_eq_div mod_mult_right_eq)

lemma b64_loop_encode: "b64_loop (b64_encode s) [] 0 out = Some (out @ s)"
proof (induction s arbitrary: out rule: b64_encode.induct)
  case (2 a)
  obtain s0 s1 s2 s3 where f: "sextets (group a (CHR 0x00) (CHR 0x00)) = [s0, s1, s2, s3]" by (rule sextets_forms)
  have z: "s2 = 0" "s3 = 0" using zero_tail_sextets(2,3) [of a] by (simp_all add: f)
  have lt: "s0 < 64" "s1 < 64" using sextets_lt [OF group_lt] f by (metis list.set_intros)+
  show ?case using emit_group [of a "CHR 0x00" "CHR 0x00" 2]
    by (simp add: f z b64_chars_def b64_loop_sextet lt b64_loop_pad numeral_2_eq_2 del: b64_loop.simps(2))
next
  case (3 a b)
  obtain s0 s1 s2 s3 where f: "sextets (group a b (CHR 0x00)) = [s0, s1, s2, s3]" by (rule sextets_forms)
  have z: "s3 = 0" using zero_tail_sextets(1) [of a b] by (simp add: f)
  have lt: "s0 < 64" "s1 < 64" "s2 < 64" using sextets_lt [OF group_lt] f by (metis list.set_intros)+
  show ?case using emit_group [of a b "CHR 0x00" 1]
    by (simp add: f z b64_chars_def b64_loop_sextet lt b64_loop_pad del: b64_loop.simps(2))
next
  case (4 a b c s)
  obtain s0 s1 s2 s3 where f: "sextets (group a b c) = [s0, s1, s2, s3]" by (rule sextets_forms)
  have lt: "s0 < 64" "s1 < 64" "s2 < 64" "s3 < 64" using sextets_lt [OF group_lt] f by (metis list.set_intros)+
  show ?case using emit_group [of a b c 0] 4
    by (simp add: f b64_chars_def b64_loop_sextet lt del: b64_loop.simps(2))
qed simp

lemma b64_loop_skips: "b64_loop (filter (\<lambda>c. \<not> b64_skipped c) t) buf pad out = b64_loop t buf pad out"
  by (induction t buf pad out rule: b64_loop.induct) (auto simp: Let_def split: option.splits)

lemma b64_decode_encode:
  assumes "filter (\<lambda>c. \<not> b64_skipped c) t = b64_encode s"
  shows "b64_decode t = Some s"
  using assms b64_loop_skips [of t "[]" 0 "[]"] b64_loop_encode [of s "[]"] by (simp add: b64_decode_def)

section \<open>Headers\<close>

lemma strip_prefix_Some: "strip_prefix pre s = Some r \<longleftrightarrow> s = pre @ r"
  unfolding strip_prefix_def by (metis append_eq_conv_conj append_take_drop_id option.distinct(1) option.sel)

lemma split_once_Some: "split_once c s = Some (u, p) \<longleftrightarrow> s = u @ c # p \<and> c \<notin> set u"
proof
  assume "split_once c s = Some (u, p)"
  then obtain x where d: "dropWhile (\<lambda>x. x \<noteq> c) s = x # p" and u: "takeWhile (\<lambda>x. x \<noteq> c) s = u"
    by (auto simp: split_once_def split: list.splits)
  have "dropWhile (\<lambda>x. x \<noteq> c) s \<noteq> []" by (simp add: d)
  then have "x = c" using hd_dropWhile [of "\<lambda>x. x \<noteq> c" s] by (simp only: d list.sel(1) simp_thms)
  then show "s = u @ c # p \<and> c \<notin> set u" 
    using d u takeWhile_dropWhile_id [of "\<lambda>x. x \<noteq> c" s] set_takeWhileD [of c "\<lambda>x. x \<noteq> c" s] by auto
next
  assume s: "s = u @ c # p \<and> c \<notin> set u"
  then have "\<forall>x \<in> set u. x \<noteq> c" by auto
  then show "split_once c s = Some (u, p)" using s by (simp add: split_once_def)
qed

lemma bearer_parse_iff: "bearer_parse h = Ok (BearerToken t) \<longleftrightarrow> h = bearer_prefix @ t"
proof -
  have "bearer_parse h = Ok (BearerToken t) \<longleftrightarrow> strip_prefix bearer_prefix h = Some t"
    by (cases "strip_prefix bearer_prefix h") (simp_all add: bearer_parse_def)
  then show ?thesis by (simp only: strip_prefix_Some)
qed

lemma basic_parse_iff:
  "basic_parse h = Ok \<lparr>cred_username = u, cred_password = p\<rparr> \<longleftrightarrow>
     (\<exists>payload. h = basic_prefix @ payload \<and> b64_decode payload = Some (u @ colon # p) \<and>
        utf8_chars (u @ colon # p) \<noteq> None \<and> colon \<notin> set u)"
proof -
  have dec: "and_then (ok_or NotUtf8 (map_option (\<lambda>_. d) (utf8_chars d))) (\<lambda>s.
      and_then (ok_or MissingColon (split_once colon s)) (\<lambda>(u, p). Ok \<lparr>cred_username = u, cred_password = p\<rparr>)) =
      Ok \<lparr>cred_username = u, cred_password = p\<rparr> \<longleftrightarrow> utf8_chars d \<noteq> None \<and> split_once colon d = Some (u, p)" for d
    by (cases "utf8_chars d"; cases "split_once colon d") auto
  have "basic_parse h = Ok \<lparr>cred_username = u, cred_password = p\<rparr> \<longleftrightarrow>
     (\<exists>payload d. strip_prefix basic_prefix h = Some payload \<and> b64_decode payload = Some d \<and>
        utf8_chars d \<noteq> None \<and> split_once colon d = Some (u, p))"
    unfolding basic_parse_def and_then_Inr_iff [of "ok_or NotBasic _"] and_then_Inr_iff [of "ok_or BadBase64 _"] ok_or_Inr_iff dec
    by blast
  then show ?thesis unfolding strip_prefix_Some split_once_Some by blast
qed

lemma check_bearer_iff: "check_bearer t h = Some Authenticated \<longleftrightarrow> h = bearer_prefix @ t"
proof (cases "bearer_parse h")
  case (Inl e)
  then show ?thesis using bearer_parse_iff [of h t] by (simp add: check_bearer_def)
next
  case (Inr b)
  then show ?thesis using bearer_parse_iff [of h "bearer_raw b"]
    by (cases b) (auto simp: check_bearer_def bearer_matches_def constant_time_eq_iff)
qed

definition basic_valid :: "string \<Rightarrow> string \<Rightarrow> string \<Rightarrow> bool" where
  "basic_valid u p h \<longleftrightarrow> (\<exists>payload. h = basic_prefix @ payload \<and> b64_decode payload = Some (u @ colon # p)) \<and>
     utf8_chars (u @ colon # p) \<noteq> None \<and> colon \<notin> set u"

lemma check_basic_iff: "check_basic u p h = Some Authenticated \<longleftrightarrow> basic_valid u p h"
proof (cases "basic_parse h")
  case (Inl e)
  then show ?thesis using basic_parse_iff [of h u p] by (auto simp: check_basic_def basic_valid_def)
next
  case (Inr b)
  have "check_basic u p h = Some Authenticated \<longleftrightarrow> b = \<lparr>cred_username = u, cred_password = p\<rparr>"
    using Inr by (cases b) (simp add: check_basic_def basic_matches_def constant_time_eq_iff)
  also have "\<dots> \<longleftrightarrow> basic_valid u p h" using Inr basic_parse_iff [of h u p] by (auto simp: basic_valid_def)
  finally show ?thesis .
qed

lemma check_bearer_range: "check_bearer t h = Some r \<Longrightarrow> r = Authenticated \<or> r = BadCredentials"
  by (auto simp: check_bearer_def split: sum.splits if_splits)

lemma check_basic_range: "check_basic u p h = Some r \<Longrightarrow> r = Authenticated \<or> r = BadCredentials"
  by (auto simp: check_basic_def split: sum.splits if_splits)

text \<open>A header that parses as a bearer token is not a Basic header.\<close>

lemma schemes_disjoint: "check_bearer t h = Some r \<Longrightarrow> \<not> basic_valid u p h"
proof -
  assume "check_bearer t h = Some r"
  then obtain b where "bearer_parse h = Ok b" by (auto simp: check_bearer_def split: sum.splits)
  then have "h = bearer_prefix @ bearer_raw b" using bearer_parse_iff [of h "bearer_raw b"] by simp
  moreover have "bearer_prefix @ x \<noteq> basic_prefix @ y" for x y by (simp add: bearer_prefix_def basic_prefix_def)
  ultimately show ?thesis by (auto simp: basic_valid_def)
qed

section \<open>Properties\<close>

text \<open>The credentials a policy accepts.\<close>

fun accepts :: "auth_policy \<Rightarrow> string \<Rightarrow> bool" where
  "accepts OpenPolicy h \<longleftrightarrow> True"
| "accepts (BearerPolicy t) h \<longleftrightarrow> h = bearer_prefix @ t"
| "accepts (BasicPolicy u p) h \<longleftrightarrow> basic_valid u p h"
| "accepts (AnyPolicy bearer basic) h \<longleftrightarrow>
     (\<exists>t. bearer = Some t \<and> h = bearer_prefix @ t) \<or> (\<exists>u p. basic = Some (u, p) \<and> basic_valid u p h)"

lemma or_bad_scheme_iff: "or_bad_scheme o1 = Authenticated \<longleftrightarrow> o1 = Some Authenticated"
  by (auto simp: or_bad_scheme_def split: option.splits)

lemma or_bad_scheme_closed: "(\<And>r. o1 = Some r \<Longrightarrow> r = Authenticated \<or> r = BadCredentials) \<Longrightarrow> or_bad_scheme o1 \<noteq> OpenAccess"
  by (cases o1) (auto simp: or_bad_scheme_def)

lemma check_policy_iff:
  assumes "policy \<noteq> OpenPolicy"
  shows "check_policy policy header = Authenticated \<longleftrightarrow> (\<exists>h. header = Some h \<and> accepts policy h)"
    and "check_policy policy header \<noteq> OpenAccess"
proof -
  have "(check_policy policy header = Authenticated \<longleftrightarrow> (\<exists>h. header = Some h \<and> accepts policy h)) \<and> check_policy policy header \<noteq> OpenAccess"
  proof (cases "(policy, header)" rule: check_policy.cases)
    case (7 bearer basic h)
    show ?thesis
    proof (cases "Option.bind bearer (\<lambda>tok. check_bearer tok h)")
      case None
      then have "\<not> (\<exists>t. bearer = Some t \<and> h = bearer_prefix @ t)"
        using check_bearer_iff by (metis bind.bind_lunit option.distinct(1))
      moreover have "Option.bind basic (\<lambda>(u, p). check_basic u p h) = Some Authenticated \<longleftrightarrow>
          (\<exists>u p. basic = Some (u, p) \<and> basic_valid u p h)"
        by (cases basic) (auto simp: check_basic_iff)
      moreover have "or_bad_scheme (Option.bind basic (\<lambda>(u, p). check_basic u p h)) \<noteq> OpenAccess"
        by (rule or_bad_scheme_closed) (use check_basic_range in \<open>auto simp: bind_eq_Some_conv\<close>)
      ultimately show ?thesis using 7 None by (auto simp: or_bad_scheme_iff)
    next
      case (Some r)
      then obtain t where t: "bearer = Some t" "check_bearer t h = Some r" by (cases bearer) auto
      then have "\<not> (\<exists>u p. basic = Some (u, p) \<and> basic_valid u p h)" using schemes_disjoint by blast
      then show ?thesis using 7 t check_bearer_iff [of t h] check_bearer_range [OF t(2)] by auto
    qed
  qed (use assms or_bad_scheme_closed check_bearer_range check_basic_range in
    \<open>simp_all add: or_bad_scheme_iff check_bearer_iff check_basic_iff\<close>)
  then show "check_policy policy header = Authenticated \<longleftrightarrow> (\<exists>h. header = Some h \<and> accepts policy h)"
    "check_policy policy header \<noteq> OpenAccess" by blast+
qed

text \<open>
  C33. The Basic scheme reads back what a client encodes: for a user name without a colon and valid
  UTF-8 credentials, the header built with RFC 4648 base64, line breaks and blanks inserted
  anywhere, parses to exactly that user name and password, and matches exactly the configured pair.
\<close>

theorem basic_header_roundtrip:
  assumes "filter (\<lambda>c. \<not> b64_skipped c) payload = b64_encode (u @ colon # p)"
    and "colon \<notin> set u" and "utf8_chars (u @ colon # p) \<noteq> None"
  shows "\<exists>c. basic_parse (basic_prefix @ payload) = Ok c \<and> cred_username c = u \<and> cred_password c = p \<and>
    (\<forall>u' p'. basic_matches c u' p' \<longleftrightarrow> u' = u \<and> p' = p)"
proof (intro exI conjI)
  show "basic_parse (basic_prefix @ payload) = Ok \<lparr>cred_username = u, cred_password = p\<rparr>"
    using b64_decode_encode [OF assms(1)] assms(2,3) by (auto simp: basic_parse_iff)
qed (auto simp: basic_matches_def constant_time_eq_iff)

theorem basic_header_roundtrip_witness:
  "basic_prefix @ b64_encode (''u'' @ colon # ''p'') = ''Basic dTpw'' \<and>
   (\<exists>c. basic_parse (basic_prefix @ ''dTpw'') = Ok c \<and> cred_username c = ''u'' \<and> cred_password c = ''p'')"
proof -
  have e: "b64_encode (''u'' @ colon # ''p'') = ''dTpw''" unfolding colon_def
    by (simp add: group_def sextets_def b64_chars_def b64_alphabet_def take_bit_eq_mod drop_bit_eq_div)
  have "filter (\<lambda>c. \<not> b64_skipped c) ''dTpw'' = ''dTpw''" "colon \<notin> set ''u''" "utf8_chars (''u'' @ colon # ''p'') \<noteq> None"
    by (simp_all add: b64_skipped_def colon_def utf8_chars.simps(2))
  then show ?thesis using basic_header_roundtrip [of "''dTpw''" "''u''" "''p''"] e by (auto simp: basic_prefix_def)
qed

text \<open>
  C34. The middleware passes a request on exactly when its route is not in the map, is public, the
  policy is open, or the request carries a header that the policy accepts: the bearer token itself,
  or a Basic payload that decodes to the configured user name and password. Everything else is
  answered 401 with the challenge and no handler runs.
\<close>

theorem enforce_iff:
  "enforce unicode to_str routes policy req = PassOn \<longleftrightarrow>
     (case Option.bind (req_matched req) (route_get unicode routes (req_method req)) of
        None \<Rightarrow> True
      | Some s \<Rightarrow> is_public s \<or> policy = OpenPolicy \<or>
          (\<exists>raw h. req_authorization req = Some raw \<and> to_str raw = Some h \<and> accepts policy h))"
proof (cases "Option.bind (req_matched req) (route_get unicode routes (req_method req))")
  case (Some s)
  define outcome where "outcome = check_policy policy (Option.bind (req_authorization req) to_str)"
  have u: "unauthorized m \<noteq> PassOn" for m by (simp add: unauthorized_def)
  have "enforce unicode to_str routes policy req = PassOn \<longleftrightarrow> is_public s \<or> outcome = Authenticated \<or> outcome = OpenAccess"
    using Some u by (cases outcome) (simp_all add: enforce_def Let_def outcome_def)
  also have "\<dots> \<longleftrightarrow> is_public s \<or> policy = OpenPolicy \<or>
      (\<exists>raw h. req_authorization req = Some raw \<and> to_str raw = Some h \<and> accepts policy h)"
  proof (cases "policy = OpenPolicy")
    case False
    then show ?thesis unfolding outcome_def using check_policy_iff [OF False] by (simp add: bind_eq_Some_conv) blast
  qed (simp add: outcome_def)
  finally show ?thesis using Some by simp
qed (simp add: enforce_def)

text \<open>The decoder accepts padding anywhere, which the RFC does not.\<close>

lemma b64_misplaced_padding: "b64_decode ''===='' = Some [CHR 0x00]"
  by (simp add: b64_decode_def b64_table_def b64_skipped_def b64_emit_def b64_triple_def char_of_def)

end
