(* ===== verification/Url_Policy.thy ===== *)
theory Url_Policy
  imports Auth Civil_Time
begin

text \<open>
  \<open>url_policy.rs\<close>: the check that keeps catalog and asset links away from internal hosts. The
  address parser of \<open>std::net\<close> that the check calls is modelled with it: each reader takes the rest of
  the input and returns a value with what it left.
\<close>

section \<open>Parsing addresses (\<open>str::parse::<IpAddr>\<close>)\<close>

type_synonym 'a reader = "string \<Rightarrow> ('a \<times> string) option"

definition digit_val :: "nat \<Rightarrow> char \<Rightarrow> nat option" where
  "digit_val radix c = (let n = (of_char c :: nat);
     d = (if 48 \<le> n \<and> n \<le> 57 then n - 48 else if 97 \<le> n \<and> n \<le> 102 then n - 87
          else if 65 \<le> n \<and> n \<le> 70 then n - 55 else 99)
     in if d < radix then Some d else None)"

text \<open>The digits at the front, with their number.\<close>

fun read_digits :: "nat \<Rightarrow> nat \<Rightarrow> nat \<Rightarrow> string \<Rightarrow> nat \<times> nat \<times> string" where
  "read_digits radix acc k [] = (acc, k, [])"
| "read_digits radix acc k (c # s) = (case digit_val radix c of
     None \<Rightarrow> (acc, k, c # s) | Some d \<Rightarrow> read_digits radix (acc * radix + d) (k + 1) s)"

definition read_number :: "nat \<Rightarrow> nat \<Rightarrow> bool \<Rightarrow> nat \<Rightarrow> nat reader" where
  "read_number radix max_digits allow_zero_prefix limit s =
     (case read_digits radix 0 0 s of (v, k, rest) \<Rightarrow>
        if k = 0 \<or> k > max_digits \<or> v > limit \<or> (\<not> allow_zero_prefix \<and> starts_with s (CHR ''0'') \<and> k > 1)
        then None else Some (v, rest))"

definition read_given_char :: "char \<Rightarrow> string \<Rightarrow> string option" where
  "read_given_char c s = (case s of [] \<Rightarrow> None | x # r \<Rightarrow> if x = c then Some r else None)"

definition read_separator :: "char \<Rightarrow> nat \<Rightarrow> 'a reader \<Rightarrow> 'a reader" where
  "read_separator sep index inner s =
     (if index > 0 then Option.bind (read_given_char sep s) inner else inner s)"

fun read_octets :: "nat \<Rightarrow> nat \<Rightarrow> nat list reader" where
  "read_octets i 0 s = Some ([], s)"
| "read_octets i (Suc n) s =
     Option.bind (read_separator (CHR ''.'') i (read_number 10 3 False 255) s) (\<lambda>(v, r).
       map_option (\<lambda>(vs, r'). (v # vs, r')) (read_octets (i + 1) n r))"

definition read_ipv4 :: "nat list reader" where
  "read_ipv4 s = read_octets 0 4 s"

text \<open>
  The groups of an IPv6 address, up to \<open>n\<close> of them: with two or more left, an embedded IPv4
  address is tried first and fills two. The flag says that one was read.
\<close>

fun read_groups :: "nat \<Rightarrow> nat \<Rightarrow> string \<Rightarrow> nat list \<times> bool \<times> string" where
  "read_groups i 0 s = ([], False, s)"
| "read_groups i (Suc n) s =
     (case (if n > 0 then read_separator (CHR '':'') i read_ipv4 s else None) of
        Some (o4, r) \<Rightarrow> ([o4 ! 0 * 256 + o4 ! 1, o4 ! 2 * 256 + o4 ! 3], True, r)
      | None \<Rightarrow> (case read_separator (CHR '':'') i (read_number 16 4 True 65535) s of
          Some (g, r) \<Rightarrow> (case read_groups (i + 1) n r of (gs, v4, r') \<Rightarrow> (g # gs, v4, r'))
        | None \<Rightarrow> ([], False, s)))"

definition read_ipv6 :: "nat list reader" where
  "read_ipv6 s =
     (case read_groups 0 8 s of (head, head_v4, r) \<Rightarrow>
        if length head = 8 then Some (head, r)
        else if head_v4 then None
        else Option.bind (read_given_char (CHR '':'') r) (\<lambda>r1.
          Option.bind (read_given_char (CHR '':'') r1) (\<lambda>r2.
            (case read_groups 0 (8 - (length head + 1)) r2 of (tail, _, r3) \<Rightarrow>
               Some (head @ replicate (8 - length head - length tail) 0 @ tail, r3)))))"

datatype ip_addr = V4 "8 word" "8 word" "8 word" "8 word" | V6 "16 word list"

definition parse_ip :: "string \<Rightarrow> ip_addr option" where
  "parse_ip s =
     (case read_ipv4 s of
        Some (o4, r) \<Rightarrow> if r = [] then Some (V4 (of_nat (o4 ! 0)) (of_nat (o4 ! 1)) (of_nat (o4 ! 2)) (of_nat (o4 ! 3))) else None
      | None \<Rightarrow> (case read_ipv6 s of
          Some (gs, r) \<Rightarrow> if r = [] then Some (V6 (map of_nat gs)) else None
        | None \<Rightarrow> None))"

section \<open>Internal ranges\<close>

unbundle bit_operations_syntax

definition is_internal_v4 :: "8 word \<Rightarrow> 8 word \<Rightarrow> 8 word \<Rightarrow> 8 word \<Rightarrow> bool" where
  "is_internal_v4 a b c d \<longleftrightarrow>
     (if a = 127 then True
      else if a = 169 \<and> b = 254 then True
      else if a = 10 then True
      else if a = 172 \<and> b AND 0xF0 = 16 then True
      else if a = 192 \<and> b = 168 then True
      else if a = 0 then True
      else if a = 100 \<and> b AND 0xC0 = 64 then True
      else False)"

definition hi_byte :: "16 word \<Rightarrow> 8 word" where "hi_byte g = ucast (drop_bit 8 g)"
definition lo_byte :: "16 word \<Rightarrow> 8 word" where "lo_byte g = ucast g"

definition is_internal_v6 :: "16 word list \<Rightarrow> bool" where
  "is_internal_v6 s \<longleftrightarrow>
     (if s = [0, 0, 0, 0, 0, 0, 0, 1] then True
      else if s ! 0 AND 0xFE00 = 0xFC00 then True
      else if s ! 0 AND 0xFFC0 = 0xFE80 then True
      else if take 6 s = [0, 0, 0, 0, 0, 0xFFFF]
      then is_internal_v4 (hi_byte (s ! 6)) (lo_byte (s ! 6)) (hi_byte (s ! 7)) (lo_byte (s ! 7))
      else False)"

fun is_internal_ip :: "ip_addr \<Rightarrow> bool" where
  "is_internal_ip (V4 a b c d) = is_internal_v4 a b c d"
| "is_internal_ip (V6 s) = is_internal_v6 s"

definition to_ascii_lowercase :: "string \<Rightarrow> string" where
  "to_ascii_lowercase s = map (\<lambda>c. let n = (of_char c :: nat) in if 65 \<le> n \<and> n \<le> 90 then char_of (n + 32) else c) s"

definition ends_with :: "string \<Rightarrow> string \<Rightarrow> bool" where
  "ends_with s suffix \<longleftrightarrow> length suffix \<le> length s \<and> drop (length s - length suffix) s = suffix"

definition is_obvious_internal_hostname :: "string \<Rightarrow> bool" where
  "is_obvious_internal_hostname host = (let h = to_ascii_lowercase host in
     h = ''localhost'' \<or> ends_with h ''.localhost'' \<or> h = ''metadata.google.internal'' \<or>
     ends_with h ''.internal'' \<or> ends_with h ''.local'')"

section \<open>The policy\<close>

datatype url_policy_error = SchemeNotAllowed string | DeniedRange string | Malformed string | OptionInjection string

record url_policy =
  allowed_schemes :: "string list"
  deny_internal_ranges :: bool

definition default_url_policy :: url_policy where
  "default_url_policy = \<lparr>allowed_schemes = [''https''], deny_internal_ranges = True\<rparr>"

definition relaxed_dev :: url_policy where
  "relaxed_dev = \<lparr>allowed_schemes = [''http'', ''https''], deny_internal_ranges = False\<rparr>"

definition scheme_sep :: string where "scheme_sep = ''://''"

text \<open>\<open>split_once\<close> with a string pattern, and \<open>rsplit_once\<close> with a character.\<close>

fun split_once_str :: "string \<Rightarrow> string \<Rightarrow> (string \<times> string) option" where
  "split_once_str pat [] = (if pat = [] then Some ([], []) else None)"
| "split_once_str pat (c # s) =
     (case strip_prefix pat (c # s) of
        Some r \<Rightarrow> Some ([], r)
      | None \<Rightarrow> map_option (\<lambda>(a, b). (c # a, b)) (split_once_str pat s))"

definition rsplit_once :: "char \<Rightarrow> string \<Rightarrow> (string \<times> string) option" where
  "rsplit_once c s = map_option (\<lambda>(a, b). (rev b, rev a)) (split_once c (rev s))"

definition url_host :: "string \<Rightarrow> string" where
  "url_host rest =
     (let host_with_port = takeWhile (\<lambda>c. c \<notin> {CHR ''/'', CHR ''?'', CHR ''#''}) rest;
          host = (case rsplit_once (CHR ''@'') host_with_port of Some (_, h) \<Rightarrow> h | None \<Rightarrow> host_with_port)
      in case strip_prefix ''['' host of
           Some stripped \<Rightarrow> takeWhile (\<lambda>c. c \<noteq> CHR '']'') stripped
         | None \<Rightarrow> (case rsplit_once colon host of Some (h, _) \<Rightarrow> h | None \<Rightarrow> host))"

definition check_host :: "string \<Rightarrow> (url_policy_error, unit) result" where
  "check_host host = (case parse_ip host of
      Some ip \<Rightarrow> if is_internal_ip ip then Err (DeniedRange host) else Ok ()
    | None \<Rightarrow> if is_obvious_internal_hostname host then Err (DeniedRange host) else Ok ())"

definition check_url :: "url_policy \<Rightarrow> string \<Rightarrow> (url_policy_error, unit) result" where
  "check_url policy href =
     (if starts_with href (CHR ''-'') then Err (OptionInjection href)
      else and_then (ok_or (Malformed href) (split_once_str scheme_sep href)) (\<lambda>(scheme, rest).
        let scheme_lower = to_ascii_lowercase scheme
        in if \<not> list_ex (\<lambda>s. s = scheme_lower) (allowed_schemes policy) then Err (SchemeNotAllowed scheme_lower)
           else if deny_internal_ranges policy then check_host (url_host rest)
           else Ok ()))"

section \<open>The ranges as CIDR blocks\<close>

definition ipv4_word :: "8 word \<Rightarrow> 8 word \<Rightarrow> 8 word \<Rightarrow> 8 word \<Rightarrow> 32 word" where
  "ipv4_word a b c d = push_bit 24 (ucast a) OR push_bit 16 (ucast b) OR push_bit 8 (ucast c) OR ucast d"

definition in_cidr :: "32 word \<Rightarrow> nat \<Rightarrow> 32 word \<Rightarrow> bool" where
  "in_cidr net len ip \<longleftrightarrow> drop_bit (32 - len) ip = drop_bit (32 - len) net"

definition internal_v4_ranges :: "(32 word \<times> nat) list" where
  "internal_v4_ranges =
     [(ipv4_word 127 0 0 0, 8), (ipv4_word 169 254 0 0, 16), (ipv4_word 10 0 0 0, 8), (ipv4_word 172 16 0 0, 12),
      (ipv4_word 192 168 0 0, 16), (ipv4_word 0 0 0 0, 8), (ipv4_word 100 64 0 0, 10)]"

lemma bit_ipv4_word:
  "k < 32 \<Longrightarrow> bit (ipv4_word a b c d) k \<longleftrightarrow>
     (if 24 \<le> k then bit a (k - 24) else if 16 \<le> k then bit b (k - 16) else if 8 \<le> k then bit c (k - 8) else bit d k)"
  by (auto simp: ipv4_word_def bit_simps dest: bit_imp_le_length)

lemma in_cidr_octets:
  assumes "m \<le> 8"
  shows "in_cidr (ipv4_word x y 0 0) (8 + m) (ipv4_word a b c d) \<longleftrightarrow> a = x \<and> drop_bit (8 - m) b = drop_bit (8 - m) y"
proof -
  have "in_cidr (ipv4_word x y 0 0) (8 + m) (ipv4_word a b c d) \<longleftrightarrow>
      (\<forall>k < 32. 24 - m \<le> k \<longrightarrow> bit (ipv4_word a b c d) k = bit (ipv4_word x y 0 0) k)"
    unfolding in_cidr_def drop_bit_eq_bits by simp
  also have "\<dots> \<longleftrightarrow> (\<forall>j < 8. bit a j = bit x j) \<and> (\<forall>j < 8. 8 - m \<le> j \<longrightarrow> bit b j = bit y j)" (is "?L \<longleftrightarrow> ?R")
  proof
    assume L: ?L
    have "bit a j = bit x j" if "j < 8" for j using L [rule_format, of "j + 24"] that by (simp add: bit_ipv4_word)
    moreover have "bit b j = bit y j" if "j < 8" "8 - m \<le> j" for j
      using L [rule_format, of "j + 16"] that assms by (simp add: bit_ipv4_word)
    ultimately show ?R by blast
  next
    assume R: ?R
    show ?L
    proof (intro allI impI)
      fix k :: nat assume k: "k < 32" "24 - m \<le> k"
      show "bit (ipv4_word a b c d) k = bit (ipv4_word x y 0 0) k"
        using R k assms by (cases "24 \<le> k"; cases "16 \<le> k") (simp_all add: bit_ipv4_word)
    qed
  qed
  also have "\<dots> \<longleftrightarrow> a = x \<and> drop_bit (8 - m) b = drop_bit (8 - m) y"
    unfolding drop_bit_eq_bits word8_bits [of a x] by simp
  finally show ?thesis .
qed

lemma masked_nibbles:
  "b AND 0xF0 = 16 \<longleftrightarrow> drop_bit 4 b = drop_bit 4 16" "b AND 0xC0 = 64 \<longleftrightarrow> drop_bit 6 b = drop_bit 6 64" for b :: "8 word"
  unfolding drop_bit_eq_bits unfolding word8_bits [of "_ AND _"] bit_and_iff by (simp_all add: all_less_8)

text \<open>
  The address tests are the CIDR ranges the policy names: an IPv4 address is internal exactly
  when it lies in 127.0.0.0/8, 169.254.0.0/16, 10.0.0.0/8, 172.16.0.0/12, 192.168.0.0/16, 0.0.0.0/8 or
  100.64.0.0/10; an IPv6 address exactly when it is \<open>::1\<close>, lies in \<open>fc00::/7\<close> or \<open>fe80::/10\<close>, or is the
  mapped form of an internal IPv4 address.
\<close>

theorem internal_ranges_are_cidr:
  "(is_internal_v4 a b c d \<longleftrightarrow> list_ex (\<lambda>(net, len). in_cidr net len (ipv4_word a b c d)) internal_v4_ranges) \<and>
   (is_internal_v6 s \<longleftrightarrow> s = [0, 0, 0, 0, 0, 0, 0, 1] \<or> drop_bit 9 (s ! 0) = drop_bit 9 0xFC00 \<or> drop_bit 6 (s ! 0) = drop_bit 6 0xFE80 \<or>
      take 6 s = [0, 0, 0, 0, 0, 0xFFFF] \<and>
        list_ex (\<lambda>(net, len). in_cidr net len
          (ipv4_word (hi_byte (s ! 6)) (lo_byte (s ! 6)) (hi_byte (s ! 7)) (lo_byte (s ! 7)))) internal_v4_ranges)"
proof -
  have c: "in_cidr (ipv4_word x 0 0 0) 8 (ipv4_word a b c d) \<longleftrightarrow> a = x"
    "in_cidr (ipv4_word x y 0 0) 16 (ipv4_word a b c d) \<longleftrightarrow> a = x \<and> b = y"
    "in_cidr (ipv4_word x y 0 0) 12 (ipv4_word a b c d) \<longleftrightarrow> a = x \<and> drop_bit 4 b = drop_bit 4 y"
    "in_cidr (ipv4_word x y 0 0) 10 (ipv4_word a b c d) \<longleftrightarrow> a = x \<and> drop_bit 6 b = drop_bit 6 y" for x y a b c d
    using in_cidr_octets [of 0 x 0 a b c d] in_cidr_octets [of 8 x y a b c d] in_cidr_octets [of 4 x y a b c d]
      in_cidr_octets [of 2 x y a b c d] by (simp_all add: drop_bit_eq_bits)
  have v4: "is_internal_v4 a b c d \<longleftrightarrow> list_ex (\<lambda>(net, len). in_cidr net len (ipv4_word a b c d)) internal_v4_ranges" for a b c d
    by (auto simp: is_internal_v4_def internal_v4_ranges_def c masked_nibbles)
  have "v AND 0xFE00 = 0xFC00 \<longleftrightarrow> drop_bit 9 v = drop_bit 9 0xFC00" "v AND 0xFFC0 = 0xFE80 \<longleftrightarrow> drop_bit 6 v = drop_bit 6 0xFE80" for v :: "16 word"
    unfolding drop_bit_eq_bits unfolding word16_bits [of "_ AND _"] bit_and_iff by (simp_all add: all_less_16)
  then show ?thesis by (simp add: v4 is_internal_v6_def)
qed

section \<open>A dotted address is read back\<close>

definition ipv4_text :: "8 word \<Rightarrow> 8 word \<Rightarrow> 8 word \<Rightarrow> 8 word \<Rightarrow> string" where
  "ipv4_text a b c d =
     show_nat (unat a) @ ''.'' @ show_nat (unat b) @ ''.'' @ show_nat (unat c) @ ''.'' @ show_nat (unat d)"

lemma digit_val_show: "d < 10 \<Longrightarrow> digit_val 10 (char_of (48 + d)) = Some d"
  by (simp add: digit_val_def of_char_of)

lemma read_digits_show:
  "read_digits 10 acc k (show_nat n @ rest) =
     read_digits 10 (acc * 10 ^ length (show_nat n) + n) (k + length (show_nat n)) rest"
proof (induction n arbitrary: rest acc k rule: show_nat.induct)
  case (1 n)
  show ?case
  proof (cases "n < 10")
    case True
    then show ?thesis by (simp add: show_nat.simps [of n] digit_val_show)
  next
    case False
    have "n div 10 * 10 + n mod 10 = n" by simp
    then show ?thesis using 1 [OF False] by (simp add: show_nat.simps [of n] False digit_val_show algebra_simps)
  qed
qed

lemma show_nat_ne: "show_nat n \<noteq> []"
  by (subst show_nat.simps) simp

lemma show_nat_lead: "10 \<le> n \<Longrightarrow> hd (show_nat n) \<noteq> CHR ''0''"
proof (induction n rule: show_nat.induct)
  case (1 n)
  show ?case
  proof (cases "n div 10 < 10")
    case True
    have "(of_char (char_of (48 + n div 10) :: char) :: nat) = 48 + n div 10" using True by (simp add: of_char_of)
    moreover have "(of_char CHR ''0'' :: nat) = 48" by simp
    ultimately have "(char_of (48 + n div 10) :: char) \<noteq> CHR ''0''" using "1.prems"
      by (metis add_cancel_left_right div_greater_zero_iff not_gr_zero zero_less_numeral)
    then show ?thesis using True "1.prems" by (simp add: show_nat.simps [of n] show_nat.simps [of "n div 10"])
  next
    case False
    then show ?thesis using 1 by (simp add: show_nat.simps [of n] show_nat_ne)
  qed
qed

lemma show_nat_digits: "c \<in> set (show_nat n) \<Longrightarrow> 48 \<le> (of_char c :: nat) \<and> (of_char c :: nat) \<le> 57"
proof (induction n rule: show_nat.induct)
  case (1 n)
  have d: "(of_char (char_of (48 + k) :: char) :: nat) = 48 + k" if "k < 10" for k using that by (simp add: of_char_of)
  show ?case
  proof (cases "n < 10")
    case True
    then show ?thesis using "1.prems" d [of n] by (simp add: show_nat.simps [of n])
  next
    case False
    then have "c \<in> set (show_nat (n div 10)) \<or> c = char_of (48 + n mod 10)" using "1.prems" by (auto simp: show_nat.simps [of n])
    then show ?thesis using 1 False d [of "n mod 10"] by auto
  qed
qed

lemma read_octet:
  assumes "n < 256" and "rest = [] \<or> digit_val 10 (hd rest) = None"
  shows "read_number 10 3 False 255 (show_nat n @ rest) = Some (n, rest)"
proof -
  have len: "length (show_nat n) \<le> 3" "length (show_nat n) \<noteq> 0" using assms(1) length_show_nat [of n 3] show_nat_ne by simp_all
  have stop: "read_digits 10 v k rest = (v, k, rest)" for v k using assms(2) by (cases rest) auto
  have "n < 10 \<Longrightarrow> length (show_nat n) = 1" by (simp add: show_nat.simps [of n])
  then have "\<not> (starts_with (show_nat n @ rest) CHR ''0'' \<and> 1 < length (show_nat n))"
    using show_nat_lead [of n] show_nat_ne [of n] by (cases "show_nat n"; cases "n < 10") (auto simp: starts_with_def)
  then show ?thesis using len assms(1) by (simp add: read_number_def read_digits_show stop)
qed

lemma parse_ip_text: "parse_ip (ipv4_text a b c d) = Some (V4 a b c d)"
proof -
  have oct: "unat x < 256" for x :: "8 word" using unsigned_less [of x] by simp
  have dot: "digit_val 10 (CHR ''.'') = None" by (simp add: digit_val_def)
  have n4: "(4 :: nat) = Suc (Suc (Suc (Suc 0)))" by simp
  have "read_ipv4 (ipv4_text a b c d) = Some ([unat a, unat b, unat c, unat d], [])"
    unfolding read_ipv4_def ipv4_text_def n4
    by (simp add: read_separator_def read_given_char_def read_octet oct dot read_octet [where rest = "[]", simplified])
  then show ?thesis by (simp add: parse_ip_def)
qed

section \<open>Taking a link apart\<close>

definition url_delims :: "char set" where "url_delims = {CHR ''/'', CHR ''?'', CHR ''#''}"
definition at_sign :: char where "at_sign = CHR ''@''"

lemma split_once_str_first: "colon \<notin> set scheme \<Longrightarrow> split_once_str scheme_sep (scheme @ scheme_sep @ rest) = Some (scheme, rest)"
proof (induction scheme)
  case Nil
  have "strip_prefix scheme_sep (scheme_sep @ rest) = Some rest" by (simp add: strip_prefix_Some)
  moreover obtain x xs where "scheme_sep @ rest = x # xs" by (simp add: scheme_sep_def)
  ultimately show ?case by simp
next
  case (Cons c s)
  have "strip_prefix scheme_sep (c # s @ scheme_sep @ rest) = None"
  proof (rule ccontr)
    assume "strip_prefix scheme_sep (c # s @ scheme_sep @ rest) \<noteq> None"
    then obtain r where "c # s @ scheme_sep @ rest = scheme_sep @ r" by (auto simp: strip_prefix_Some)
    then have "c = colon" by (simp add: scheme_sep_def colon_def)
    then show False using Cons.prems by simp
  qed
  then show ?case using Cons by simp
qed

lemma rsplit_once_Some: "rsplit_once c s = Some (x, y) \<longleftrightarrow> s = x @ c # y \<and> c \<notin> set y"
proof -
  have "rsplit_once c s = Some (x, y) \<longleftrightarrow> split_once c (rev s) = Some (rev y, rev x)"
    by (cases "split_once c (rev s)") (auto simp: rsplit_once_def)
  also have "\<dots> \<longleftrightarrow> rev s = rev y @ c # rev x \<and> c \<notin> set y" by (simp add: split_once_Some)
  also have "\<dots> \<longleftrightarrow> s = x @ c # y \<and> c \<notin> set y" by (metis (no_types, lifting) append_Cons append_Nil append_assoc rev.simps(2) rev_append rev_rev_ident)
  finally show ?thesis .
qed

lemma rsplit_once_None: "c \<notin> set s \<Longrightarrow> rsplit_once c s = None"
proof (cases "rsplit_once c s")
  case (Some p)
  moreover assume "c \<notin> set s"
  ultimately show ?thesis using rsplit_once_Some [of c s "fst p" "snd p"] by auto
qed

lemma takeWhile_stop: "\<forall>x \<in> set a. P x \<Longrightarrow> b = [] \<or> \<not> P (hd b) \<Longrightarrow> takeWhile P (a @ b) = a"
  by (cases b) auto

lemma url_authority:
  assumes "set user \<inter> url_delims = {}" and "set host \<inter> (url_delims \<union> {at_sign}) = {}"
    and "set post \<inter> (url_delims \<union> {at_sign}) = {}" and "tail = [] \<or> hd tail \<in> url_delims"
    and "pre = [] \<or> pre = user @ [at_sign]"
  shows "takeWhile (\<lambda>c. c \<notin> url_delims) (pre @ host @ post @ tail) = pre @ host @ post"
    and "(case rsplit_once at_sign (pre @ host @ post) of Some (_, h) \<Rightarrow> h | None \<Rightarrow> pre @ host @ post) = host @ post"
proof -
  have "at_sign \<notin> url_delims" by (simp add: at_sign_def url_delims_def)
  then have "takeWhile (\<lambda>c. c \<notin> url_delims) ((pre @ host @ post) @ tail) = pre @ host @ post"
    by (intro takeWhile_stop) (use assms in auto)
  then show "takeWhile (\<lambda>c. c \<notin> url_delims) (pre @ host @ post @ tail) = pre @ host @ post" by simp
  have hostpost: "at_sign \<notin> set (host @ post)" using assms(2,3) by auto
  show "(case rsplit_once at_sign (pre @ host @ post) of Some (_, h) \<Rightarrow> h | None \<Rightarrow> pre @ host @ post) = host @ post"
  proof (cases "pre = []")
    case True
    then show ?thesis using rsplit_once_None [OF hostpost] by simp
  next
    case False
    then have "pre @ host @ post = user @ at_sign # (host @ post)" using assms(5) by simp
    then have "rsplit_once at_sign (pre @ host @ post) = Some (user, host @ post)"
      unfolding rsplit_once_Some using hostpost by blast
    then show ?thesis by simp
  qed
qed

lemma url_host_parts:
  assumes "set user \<inter> url_delims = {}" and "set host \<inter> (url_delims \<union> {at_sign, colon, CHR ''['' }) = {}"
    and "set port \<inter> (url_delims \<union> {at_sign, colon}) = {}" and "tail = [] \<or> hd tail \<in> url_delims"
    and "pre = [] \<or> pre = user @ [at_sign]" and "post = [] \<or> post = colon # port"
    and "host \<noteq> []"
  shows "url_host (pre @ host @ post @ tail) = host"
proof -
  have nd: "colon \<notin> url_delims" "colon \<noteq> at_sign" by (simp_all add: at_sign_def url_delims_def colon_def)
  have h: "set host \<inter> (url_delims \<union> {at_sign}) = {}" using assms(2) by blast
  have p: "set post \<inter> (url_delims \<union> {at_sign}) = {}" using assms(3,6) nd by auto
  note parts = url_authority [OF assms(1) h p assms(4,5)]
  have br: "strip_prefix ''['' (host @ post) = None"
    using assms(2,7) by (cases host) (auto simp: strip_prefix_def)
  have co: "(case rsplit_once colon (host @ post) of Some (h, _) \<Rightarrow> h | None \<Rightarrow> host @ post) = host"
  proof (cases "post = []")
    case True
    then show ?thesis using rsplit_once_None [of colon host] assms(2) by auto
  next
    case False
    then have "rsplit_once colon (host @ post) = Some (host, port)" using assms(3,6) by (auto simp: rsplit_once_Some)
    then show ?thesis by simp
  qed
  show ?thesis
    unfolding url_host_def Let_def url_delims_def [symmetric] at_sign_def [symmetric] parts br by (simp add: co)
qed

lemma octet_text_chars: "x \<in> set (ipv4_text a b c d) \<Longrightarrow> 46 \<le> (of_char x :: nat) \<and> (of_char x :: nat) \<le> 57 \<and> x \<noteq> CHR ''/''"
proof -
  have dot: "(of_char CHR ''.'' :: nat) = 46" "(of_char CHR ''/'' :: nat) = 47" "CHR ''.'' \<noteq> CHR ''/''" by simp_all
  assume "x \<in> set (ipv4_text a b c d)"
  then have "x = CHR ''.'' \<or> (\<exists>n. x \<in> set (show_nat n))" by (auto simp: ipv4_text_def)
  then have "x = CHR ''.'' \<or> 48 \<le> (of_char x :: nat) \<and> (of_char x :: nat) \<le> 57" using show_nat_digits by blast
  then show ?thesis using dot by (cases "x = CHR ''.''") auto
qed

lemma ipv4_text_plain: "set (ipv4_text a b c d) \<inter> (url_delims \<union> {at_sign, colon, CHR ''[''}) = {}"
proof -
  have "(of_char CHR ''?'' :: nat) = 63" "(of_char CHR ''#'' :: nat) = 35" "(of_char CHR ''@'' :: nat) = 64"
    "(of_char CHR '':'' :: nat) = 58" "(of_char CHR ''['' :: nat) = 91" by simp_all
  then show ?thesis using octet_text_chars [of _ a b c d] by (fastforce simp: url_delims_def at_sign_def colon_def)
qed

text \<open>
  No spelling of a link reaches an internal IPv4 literal: whatever user information precedes the
  host, whatever port and path follow it, and whatever the case of the scheme, a link whose host is
  the dotted form of an internal address is refused with that host, by every policy that denies
  internal ranges.
\<close>

theorem internal_v4_link_denied:
  assumes "is_internal_v4 a b c d" and "deny_internal_ranges policy"
    and "to_ascii_lowercase scheme \<in> set (allowed_schemes policy)"
    and "colon \<notin> set scheme" and "\<not> starts_with scheme (CHR ''-'')" and "scheme \<noteq> []"
    and "pre = [] \<or> (\<exists>user. pre = user @ [at_sign] \<and> set user \<inter> url_delims = {})"
    and "post = [] \<or> (\<exists>port. post = colon # port \<and> set port \<inter> (url_delims \<union> {at_sign, colon}) = {})"
    and "tail = [] \<or> hd tail \<in> url_delims"
  shows "check_url policy (scheme @ scheme_sep @ pre @ ipv4_text a b c d @ post @ tail) = Err (DeniedRange (ipv4_text a b c d))"
proof -
  obtain user where user: "set user \<inter> url_delims = {}" "pre = [] \<or> pre = user @ [at_sign]"
    using assms(7) by (metis Int_empty_left empty_set)
  obtain port where port: "set port \<inter> (url_delims \<union> {at_sign, colon}) = {}" "post = [] \<or> post = colon # port"
    using assms(8) by (metis Int_empty_left empty_set)
  have ne: "ipv4_text a b c d \<noteq> []" using show_nat_ne by (simp add: ipv4_text_def)
  have host: "url_host (pre @ ipv4_text a b c d @ post @ tail) = ipv4_text a b c d"
    by (rule url_host_parts [OF user(1) ipv4_text_plain port(1) assms(9) user(2) port(2) ne])
  have "\<not> starts_with (scheme @ x) (CHR ''-'')" for x using assms(5,6) by (cases scheme) (auto simp: starts_with_def)
  moreover have "list_ex (\<lambda>s. s = to_ascii_lowercase scheme) (allowed_schemes policy)" using assms(3) by (auto simp: list_ex_iff)
  ultimately show ?thesis
    using assms(1,2) split_once_str_first [OF assms(4)]
    by (simp add: check_url_def Let_def host check_host_def parse_ip_text)
qed

theorem internal_v4_link_denied_witness:
  "check_url default_url_policy (''https'' @ scheme_sep @ (''user'' @ [at_sign]) @ ipv4_text 169 254 169 254 @ (colon # ''80'') @ ''/latest'') =
     Err (DeniedRange (ipv4_text 169 254 169 254))"
proof (rule internal_v4_link_denied)
  show "is_internal_v4 169 254 169 254" by (simp add: is_internal_v4_def)
  show "deny_internal_ranges default_url_policy" by (simp add: default_url_policy_def)
  show "to_ascii_lowercase ''https'' \<in> set (allowed_schemes default_url_policy)" "colon \<notin> set ''https''"
    "\<not> starts_with ''https'' (CHR ''-'')" "''https'' \<noteq> []"
    by (simp_all add: default_url_policy_def to_ascii_lowercase_def colon_def starts_with_def)
  show "''user'' @ [at_sign] = [] \<or> (\<exists>user. ''user'' @ [at_sign] = user @ [at_sign] \<and> set user \<inter> url_delims = {})"
    by (rule disjI2, rule exI [of _ "''user''"]) (simp add: url_delims_def)
  show "colon # ''80'' = [] \<or> (\<exists>port. colon # ''80'' = colon # port \<and> set port \<inter> (url_delims \<union> {at_sign, colon}) = {})"
    by (rule disjI2, rule exI [of _ "''80''"]) (simp add: url_delims_def at_sign_def colon_def)
  show "''/latest'' = [] \<or> hd ''/latest'' \<in> url_delims" by (simp add: url_delims_def)
qed

text \<open>
  The unspecified address and the IPv4-compatible addresses are not tested: \<open>::\<close> passes the policy.
\<close>

lemma unspecified_v6_allowed: "parse_ip ''::'' = Some (V6 (replicate 8 0)) \<and> \<not> is_internal_v6 (replicate 8 0)"
proof
  have suc: "(4 :: nat) = Suc 3" "(8 :: nat) = Suc 7" "(7 :: nat) = Suc 6" by simp_all
  have "digit_val n (CHR '':'') = None" if "n \<le> 16" for n using that by (simp add: digit_val_def)
  then have num: "read_number n m z l (CHR '':'' # s) = None" if "n \<le> 16" for n m z l s using that by (simp add: read_number_def)
  have none: "read_number n m z l [] = None" for n m z l by (simp add: read_number_def)
  have v4: "read_ipv4 (CHR '':'' # s) = None" "read_ipv4 [] = None" for s
    unfolding read_ipv4_def suc(1) read_octets.simps by (simp_all add: num none read_separator_def)
  have g: "read_groups 0 8 (CHR '':'' # s) = ([], False, CHR '':'' # s)" "read_groups 0 7 [] = ([], False, [])" for s
    unfolding suc(2) suc(3) read_groups.simps by (simp_all add: v4 num none read_separator_def)
  show "parse_ip ''::'' = Some (V6 (replicate 8 0))"
    by (simp add: parse_ip_def v4 read_ipv6_def g read_given_char_def)
  have r: "replicate 8 (0 :: 16 word) = [0, 0, 0, 0, 0, 0, 0, 0]" by (simp add: numeral_eq_Suc)
  show "\<not> is_internal_v6 (replicate 8 0)" unfolding r by (simp add: is_internal_v6_def)
qed

end
