(* ===== verification/File_Cache.thy ===== *)
theory File_Cache
  imports Local_Executor "HOL-Library.Multiset"
begin

text \<open>
  The on-disk file cache of \<open>crates/orbit-cache\<close>. The index is an association list with distinct
  keys; a \<open>HashMap\<close> is iterated in an unspecified order, so the order is a parameter \<open>iter\<close> that
  permutes the entries. SHA-256 is a parameter too. The disk maps paths to contents; a copy from a
  source that cannot be read fails. The clock's reading is an argument. \<open>insert\<close> copies without the lock
  and then takes it twice, so it is the composition of one function per phase; the section on
  interleavings has the phases as steps.
\<close>

section \<open>Keys and counters\<close>

definition hex2 :: "char \<Rightarrow> string" where
  "hex2 b = (let n = (of_char b :: nat); h = (\<lambda>d. if d < 10 then char_of (48 + d) else char_of (87 + d))
     in [h (n div 16), h (n mod 16)])"

definition key_for :: "(string \<Rightarrow> string) \<Rightarrow> string \<Rightarrow> string" where
  "key_for sha256 url = concat (map hex2 (sha256 url))"

record stats =
  st_hits :: nat
  st_misses :: nat
  st_bytes_in :: nat
  st_bytes_out :: nat

definition stats_new :: stats where
  "stats_new = \<lparr>st_hits = 0, st_misses = 0, st_bytes_in = 0, st_bytes_out = 0\<rparr>"

definition record_hit :: "nat \<Rightarrow> stats \<Rightarrow> stats" where
  "record_hit n s = s\<lparr>st_hits := wrap64 (st_hits s + 1), st_bytes_out := wrap64 (st_bytes_out s + n)\<rparr>"

definition record_miss :: "nat \<Rightarrow> stats \<Rightarrow> stats" where
  "record_miss n s = s\<lparr>st_misses := wrap64 (st_misses s + 1), st_bytes_in := wrap64 (st_bytes_in s + n)\<rparr>"

section \<open>The cache\<close>

record cache_entry =
  ce_path :: string
  size_bytes :: nat
  last_access :: nat

type_synonym cache_index = "(string \<times> cache_entry) list"

record file_cache =
  cache_root :: string
  max_bytes :: nat
  cache_ix :: cache_index
  cache_hits :: nat
  cache_misses :: nat
  disk :: "string \<rightharpoonup> string"

record cache_snapshot =
  snap_entries :: nat
  snap_total :: nat
  snap_hits :: nat
  snap_misses :: nat

text \<open>\<open>Path::join\<close> for a relative last component.\<close>

definition path_join :: "string \<Rightarrow> string \<Rightarrow> string" where
  "path_join root key = (if root = [] \<or> last root = CHR ''/'' then root @ key else root @ CHR ''/'' # key)"

text \<open>
  \<open>open\<close> after the directory listing: the readable entries, each with its name if that is UTF-8,
  whether it is a file, its length and its access time.
\<close>

definition open_cache ::
  "string \<Rightarrow> nat \<Rightarrow> (string \<rightharpoonup> string) \<Rightarrow> (string \<times> bool \<times> nat \<times> nat) list \<Rightarrow> file_cache" where
  "open_cache root cap d listing =
     \<lparr>cache_root = root, max_bytes = cap,
      cache_ix = fold (\<lambda>(name, is_file, len, atime) ix.
        if is_file then AList.update name \<lparr>ce_path = path_join root name, size_bytes = len, last_access = atime\<rparr> ix else ix) listing [],
      cache_hits = 0, cache_misses = 0, disk = d\<rparr>"

definition total_bytes :: "cache_index \<Rightarrow> nat" where
  "total_bytes ix = wrap64 (sum_list (map (\<lambda>(_, e). size_bytes e) ix))"

definition cache_get :: "(string \<Rightarrow> string) \<Rightarrow> nat \<Rightarrow> file_cache \<Rightarrow> string \<Rightarrow> string option \<times> file_cache" where
  "cache_get sha256 now c url =
     (let key = key_for sha256 url
      in case map_of (cache_ix c) key of
           Some e \<Rightarrow> (Some (ce_path e),
             c\<lparr>cache_ix := AList.update key (e\<lparr>last_access := now\<rparr>) (cache_ix c), cache_hits := wrap64 (cache_hits c + 1)\<rparr>)
         | None \<Rightarrow> (None, c\<lparr>cache_misses := wrap64 (cache_misses c + 1)\<rparr>))"

definition remove_file :: "string \<Rightarrow> (string \<rightharpoonup> string) \<Rightarrow> (string \<rightharpoonup> string)" where
  "remove_file path d = d(path := None)"

text \<open>\<open>min_by_key\<close>: the first entry with the smallest access time.\<close>

fun min_by_access :: "cache_index \<Rightarrow> (string \<times> cache_entry) option" where
  "min_by_access [] = None"
| "min_by_access (x # xs) = (case min_by_access xs of
     None \<Rightarrow> Some x
   | Some y \<Rightarrow> if last_access (snd y) < last_access (snd x) then Some y else Some x)"

text \<open>
  The eviction loop. Every turn that does not end it removes one entry, so the number of entries
  is enough fuel.
\<close>

fun evict_loop ::
  "(cache_index \<Rightarrow> cache_index) \<Rightarrow> nat \<Rightarrow> nat \<Rightarrow> cache_index \<Rightarrow> (string \<rightharpoonup> string) \<Rightarrow> cache_index \<times> (string \<rightharpoonup> string)" where
  "evict_loop iter cap 0 ix d = (ix, d)"
| "evict_loop iter cap (Suc fuel) ix d =
     (if total_bytes ix \<le> cap then (ix, d)
      else case min_by_access (iter ix) of
          None \<Rightarrow> (ix, d)
        | Some (k, _) \<Rightarrow> (case map_of ix k of
            Some e \<Rightarrow> evict_loop iter cap fuel (filter (\<lambda>(k', _). k' \<noteq> k) ix) (remove_file (ce_path e) d)
          | None \<Rightarrow> evict_loop iter cap fuel ix d))"

definition evict_if_needed :: "(cache_index \<Rightarrow> cache_index) \<Rightarrow> file_cache \<Rightarrow> file_cache" where
  "evict_if_needed iter c =
     (if max_bytes c = 0 then c
      else case evict_loop iter (max_bytes c) (length (cache_ix c)) (cache_ix c) (disk c) of
          (ix, d) \<Rightarrow> c\<lparr>cache_ix := ix, disk := d\<rparr>)"

text \<open>Copying a file onto itself truncates it, as \<open>std::fs::copy\<close> documents.\<close>

datatype cache_io_error = CopyFailed | MetadataFailed

definition insert_copy :: "string \<Rightarrow> string \<Rightarrow> file_cache \<Rightarrow> (cache_io_error, unit) result \<times> file_cache" where
  "insert_copy local_src dst c =
     (case disk c local_src of
        None \<Rightarrow> (Err CopyFailed, c)
      | Some source \<Rightarrow> (Ok (), c\<lparr>disk := (disk c)(dst \<mapsto> (if local_src = dst then [] else source))\<rparr>))"

definition insert_stat :: "string \<Rightarrow> file_cache \<Rightarrow> (cache_io_error, nat) result" where
  "insert_stat dst c = (case disk c dst of None \<Rightarrow> Err MetadataFailed | Some content \<Rightarrow> Ok (length content))"

definition insert_index :: "string \<Rightarrow> string \<Rightarrow> nat \<Rightarrow> nat \<Rightarrow> file_cache \<Rightarrow> file_cache" where
  "insert_index key dst bytes now c =
     c\<lparr>cache_ix := AList.update key \<lparr>ce_path = dst, size_bytes = bytes, last_access = now\<rparr> (cache_ix c)\<rparr>"

definition cache_insert ::
  "(string \<Rightarrow> string) \<Rightarrow> (cache_index \<Rightarrow> cache_index) \<Rightarrow> nat \<Rightarrow> file_cache \<Rightarrow> string \<Rightarrow> string \<Rightarrow> (cache_io_error, string) result \<times> file_cache" where
  "cache_insert sha256 iter now c url local_src =
     (let key = key_for sha256 url; dst = path_join (cache_root c) key
      in case insert_copy local_src dst c of
           (Inl e, c1) \<Rightarrow> (Err e, c1)
         | (Inr _, c1) \<Rightarrow> (case insert_stat dst c1 of
             Inl e \<Rightarrow> (Err e, c1)
           | Inr bytes \<Rightarrow> (Ok dst, evict_if_needed iter (insert_index key dst bytes now c1))))"

definition cache_snapshot_of :: "file_cache \<Rightarrow> cache_snapshot" where
  "cache_snapshot_of c = \<lparr>snap_entries = length (cache_ix c), snap_total = total_bytes (cache_ix c),
     snap_hits = cache_hits c, snap_misses = cache_misses c\<rparr>"

definition cache_clear :: "file_cache \<Rightarrow> file_cache" where
  "cache_clear c = c\<lparr>cache_ix := [], disk := fold (\<lambda>(_, e) d. remove_file (ce_path e) d) (cache_ix c) (disk c)\<rparr>"

text \<open>An insertion that is not interrupted.\<close>

lemma cache_insert_eq:
  "cache_insert sha256 iter now c url local_src =
     (let key = key_for sha256 url; dst = path_join (cache_root c) key
      in case disk c local_src of
           None \<Rightarrow> (Err CopyFailed, c)
         | Some source \<Rightarrow>
             let content = (if local_src = dst then [] else source);
                 c1 = c\<lparr>disk := (disk c)(dst \<mapsto> content),
                        cache_ix := AList.update key \<lparr>ce_path = dst, size_bytes = length content, last_access = now\<rparr> (cache_ix c)\<rparr>
             in (Ok dst, evict_if_needed iter c1))"
  by (simp add: cache_insert_def insert_copy_def insert_stat_def insert_index_def Let_def split: option.split)

section \<open>Eviction\<close>

definition iter_ok :: "(cache_index \<Rightarrow> cache_index) \<Rightarrow> bool" where
  "iter_ok iter \<longleftrightarrow> (\<forall>ix. mset (iter ix) = mset ix)"

definition sizes :: "cache_index \<Rightarrow> nat" where
  "sizes ix = sum_list (map (\<lambda>(_, e). size_bytes e) ix)"

lemma min_by_access_spec:
  "min_by_access xs = Some y \<Longrightarrow> y \<in> set xs \<and> (\<forall>x \<in> set xs. last_access (snd y) \<le> last_access (snd x))"
proof (induction xs arbitrary: y)
  case (Cons x xs)
  show ?case
  proof (cases "min_by_access xs")
    case None
    then have "xs = []" by (cases xs) (auto split: option.splits if_splits)
    then show ?thesis using Cons.prems by simp
  next
    case (Some z)
    then show ?thesis using Cons.prems Cons.IH [OF Some] by (auto split: if_splits)
  qed
qed simp

lemma min_by_access_None: "min_by_access xs = None \<longleftrightarrow> xs = []"
  by (cases xs) (auto split: option.splits if_splits)

lemma remove_key:
  "distinct (map fst ix) \<Longrightarrow> (k, e) \<in> set ix \<Longrightarrow> mset ix = mset (filter (\<lambda>(k', _). k' \<noteq> k) ix) + {#(k, e)#}"
proof (induction ix)
  case (Cons x ix)
  show ?case
  proof (cases "x = (k, e)")
    case True
    then have "\<forall>y \<in> set ix. fst y \<noteq> k" using Cons.prems(1) by (auto simp: image_iff)
    then have "filter (\<lambda>(k', _). k' \<noteq> k) ix = ix" by (intro filter_True) auto
    then show ?thesis using True by simp
  next
    case False
    then have "fst x \<noteq> k" "(k, e) \<in> set ix" using Cons.prems by (auto simp: image_iff)
    then show ?thesis using Cons by (cases x) simp
  qed
qed simp

lemma sizes_mset: "sizes ix = (\<Sum>(_, e) \<in># mset ix. size_bytes e)"
  by (simp add: sizes_def flip: sum_mset_sum_list)

lemma sizes_remove:
  "distinct (map fst ix) \<Longrightarrow> (k, e) \<in> set ix \<Longrightarrow> sizes (filter (\<lambda>(k', _). k' \<noteq> k) ix) + size_bytes e = sizes ix"
  using arg_cong [OF remove_key, of ix k e "\<lambda>M. \<Sum>(_, e) \<in># M. size_bytes e"] by (simp add: sizes_mset)

lemma total_bytes_exact: "sizes ix < 2 ^ 64 \<Longrightarrow> total_bytes ix = sizes ix"
  by (simp add: total_bytes_def sizes_def)

lemma iter_ok_set: "iter_ok iter \<Longrightarrow> set (iter ix) = set ix"
  unfolding iter_ok_def by (metis set_mset_mset)

text \<open>
  What eviction leaves: the entries removed are the least recently used, in that order, their files
  are gone and all others are untouched; it stops as soon as the rest fits.
\<close>

lemma evict_loop_spec:
  assumes "iter_ok iter" and "length ix \<le> fuel" and "distinct (map fst ix)" and "sizes ix < 2 ^ 64"
  shows "\<exists>kept gone. evict_loop iter cap fuel ix d = (kept, fold (\<lambda>(_, e) d. remove_file (ce_path e) d) gone d) \<and>
    mset ix = mset kept + mset gone \<and> distinct (map fst kept) \<and> sizes kept \<le> cap \<and>
    (\<forall>g \<in> set gone. \<forall>k \<in> set kept. last_access (snd g) \<le> last_access (snd k)) \<and>
    sorted_wrt (\<lambda>x y. last_access (snd x) \<le> last_access (snd y)) gone \<and>
    (gone \<noteq> [] \<longrightarrow> cap < sizes kept + size_bytes (snd (last gone)))"
  using assms(2-)
proof (induction fuel arbitrary: ix d)
  case 0
  then show ?case by (intro exI [of _ "[]"]) (simp add: sizes_def)
next
  case (Suc fuel)
  show ?case
  proof (cases "total_bytes ix \<le> cap")
    case True
    then show ?thesis using Suc.prems total_bytes_exact by (intro exI [of _ ix] exI [of _ "[]"]) simp
  next
    case False
    then have "iter ix \<noteq> []"
      using assms(1) by (metis iter_ok_set set_empty sizes_def sum_list.Nil list.map(1) total_bytes_def wrap64_def mod_0 le0)
    then obtain k e where m: "min_by_access (iter ix) = Some (k, e)"
      by (metis min_by_access_None not_None_eq surj_pair)
    then have mem: "(k, e) \<in> set ix" and low: "\<forall>x \<in> set ix. last_access e \<le> last_access (snd x)"
      using min_by_access_spec [OF m] iter_ok_set [OF assms(1)] by auto
    have look: "map_of ix k = Some e" using mem Suc.prems(2) by simp
    define ix' where "ix' = filter (\<lambda>(k', _). k' \<noteq> k) ix"
    have parts: "mset ix = mset ix' + {#(k, e)#}" using remove_key [OF Suc.prems(2) mem] by (simp add: ix'_def)
    have len: "length ix' \<le> fuel" using arg_cong [OF parts, of size] Suc.prems(1) by simp
    have dist: "distinct (map fst ix')" using Suc.prems(2) by (simp add: ix'_def distinct_map_filter)
    have szs: "sizes ix' + size_bytes e = sizes ix" using sizes_remove [OF Suc.prems(2) mem] by (simp add: ix'_def)
    have "sizes ix' < 2 ^ 64" using szs Suc.prems(3) by linarith
    note IH = Suc.IH [OF len dist this, of "remove_file (ce_path e) d"]
    then obtain kept gone where r: "evict_loop iter cap fuel ix' (remove_file (ce_path e) d) =
        (kept, fold (\<lambda>(_, e) d. remove_file (ce_path e) d) gone (remove_file (ce_path e) d))"
      "mset ix' = mset kept + mset gone" "distinct (map fst kept)" "sizes kept \<le> cap"
      "\<forall>g \<in> set gone. \<forall>k \<in> set kept. last_access (snd g) \<le> last_access (snd k)"
      "sorted_wrt (\<lambda>x y. last_access (snd x) \<le> last_access (snd y)) gone"
      "gone \<noteq> [] \<longrightarrow> cap < sizes kept + size_bytes (snd (last gone))" by blast
    have "set kept \<union> set gone \<subseteq> set ix" using parts r(2) by (metis set_mset_mset set_mset_union sup.cobounded1)
    then have "\<forall>k \<in> set kept \<union> set gone. last_access e \<le> last_access (snd k)" using low by blast
    moreover have "cap < sizes kept + size_bytes (snd (last ((k, e) # gone)))"
    proof (cases "gone = []")
      case True
      then have "mset ix' = mset kept" using r(2) by simp
      then have "sizes ix' = sizes kept" by (simp add: sizes_mset)
      then show ?thesis using True szs False total_bytes_exact Suc.prems(3) by simp
    qed (use r(7) in simp)
    moreover have "evict_loop iter cap (Suc fuel) ix d = evict_loop iter cap fuel ix' (remove_file (ce_path e) d)"
      using False m look by (simp add: ix'_def)
    ultimately show ?thesis using r parts by (intro exI [of _ kept] exI [of _ "(k, e) # gone"]) auto
  qed
qed

lemma fold_remove_file:
  "fold (\<lambda>(_, e) d. remove_file (ce_path e) d) gone d p = (if p \<in> ce_path ` snd ` set gone then None else d p)"
  by (induction gone arbitrary: d) (auto simp: remove_file_def)

lemma path_join_inj: "path_join root k = path_join root k' \<longleftrightarrow> k = k'"
  by (simp add: path_join_def)

text \<open>The index names its own files.\<close>

definition cache_wf :: "file_cache \<Rightarrow> bool" where
  "cache_wf c \<longleftrightarrow> distinct (map fst (cache_ix c)) \<and>
     (\<forall>(k, e) \<in> set (cache_ix c). ce_path e = path_join (cache_root c) k \<and>
        (\<exists>content. disk c (ce_path e) = Some content \<and> length content = size_bytes e))"

lemma set_update: "distinct (map fst al) \<Longrightarrow> set (AList.update k v al) = insert (k, v) {x \<in> set al. fst x \<noteq> k}"
proof (induction al)
  case (Cons x al)
  have "fst x = k \<Longrightarrow> y \<in> set al \<Longrightarrow> fst y \<noteq> k" for y using Cons.prems by (auto simp: image_iff)
  then show ?case using Cons by (cases x) auto
qed simp

lemma sizes_update: "sizes (AList.update k e ix) \<le> sizes ix + size_bytes e"
  by (induction ix) (auto simp: sizes_def)

text \<open>The newest entry survives an eviction that its own size does not force.\<close>

lemma newest_kept:
  assumes "mset ix = mset kept + mset gone" and "distinct (map fst ix)" and "n \<in> set ix"
    and "\<forall>x \<in> set ix. x \<noteq> n \<longrightarrow> last_access (snd x) < last_access (snd n)"
    and "\<forall>g \<in> set gone. \<forall>k \<in> set kept. last_access (snd g) \<le> last_access (snd k)"
    and "sorted_wrt (\<lambda>x y. last_access (snd x) \<le> last_access (snd y)) gone"
    and "gone \<noteq> [] \<longrightarrow> cap < sizes kept + size_bytes (snd (last gone))"
    and "size_bytes (snd n) \<le> cap"
  shows "n \<in> set kept"
proof (rule ccontr)
  assume no: "n \<notin> set kept"
  have sub: "set kept \<union> set gone = set ix" using assms(1) by (metis set_mset_mset set_mset_union)
  then have g: "n \<in> set gone" using no assms(3) by blast
  then have "kept = []" using assms(4,5) sub no by (cases kept) force+
  have "gone \<noteq> []" using g by auto
  moreover have "gone = butlast gone @ [last gone]" using \<open>gone \<noteq> []\<close> by simp
  ultimately have "n = last gone \<or> n \<in> set (butlast gone)" using g by (metis Un_iff empty_iff empty_set insert_iff list.simps(15) set_append)
  then have "last gone = n"
  proof
    assume "n \<in> set (butlast gone)"
    then have "last_access (snd n) \<le> last_access (snd (last gone))"
      using assms(6) append_butlast_last_id [OF \<open>gone \<noteq> []\<close>] by (metis sorted_wrt_append list.set_intros(1))
    moreover have "last gone \<in> set ix" using sub \<open>gone \<noteq> []\<close> by auto
    ultimately show ?thesis using assms(4) by (metis leD)
  qed simp
  then show False using assms(7,8) \<open>gone \<noteq> []\<close> \<open>kept = []\<close> by (simp add: sizes_def)
qed

lemma evict_if_needed_spec:
  assumes "iter_ok iter" and "distinct (map fst (cache_ix c))" and "sizes (cache_ix c) < 2 ^ 64"
  obtains kept gone where
    "evict_if_needed iter c = c\<lparr>cache_ix := kept, disk := fold (\<lambda>(_, e) d. remove_file (ce_path e) d) gone (disk c)\<rparr>"
    "mset (cache_ix c) = mset kept + mset gone" "distinct (map fst kept)" "max_bytes c \<noteq> 0 \<longrightarrow> sizes kept \<le> max_bytes c"
    "\<forall>g \<in> set gone. \<forall>k \<in> set kept. last_access (snd g) \<le> last_access (snd k)"
    "\<forall>n \<in> set (cache_ix c). (\<forall>x \<in> set (cache_ix c). x \<noteq> n \<longrightarrow> last_access (snd x) < last_access (snd n)) \<longrightarrow>
       max_bytes c = 0 \<or> size_bytes (snd n) \<le> max_bytes c \<longrightarrow> n \<in> set kept"
proof (cases "max_bytes c = 0")
  case True
  show ?thesis by (rule that [where kept = "cache_ix c" and gone = "[]"]) (use True assms(2) in \<open>auto simp: evict_if_needed_def\<close>)
next
  case False
  obtain kept gone where r: "evict_loop iter (max_bytes c) (length (cache_ix c)) (cache_ix c) (disk c) =
      (kept, fold (\<lambda>(_, e) d. remove_file (ce_path e) d) gone (disk c))"
    "mset (cache_ix c) = mset kept + mset gone" "distinct (map fst kept)" "sizes kept \<le> max_bytes c"
    "\<forall>g \<in> set gone. \<forall>k \<in> set kept. last_access (snd g) \<le> last_access (snd k)"
    "sorted_wrt (\<lambda>x y. last_access (snd x) \<le> last_access (snd y)) gone"
    "gone \<noteq> [] \<longrightarrow> max_bytes c < sizes kept + size_bytes (snd (last gone))"
    using evict_loop_spec [OF assms(1) order.refl assms(2,3)] by blast
  show ?thesis
    by (rule that [where kept = kept and gone = gone]) (use False r newest_kept [OF r(2) assms(2) _ _ r(5-7)] in \<open>auto simp: evict_if_needed_def\<close>)
qed

section \<open>Interleavings\<close>

text \<open>
  Several callers of one cache: the insertions that have copied (key and path), that have read the size,
  and that are in the index but have not run the eviction. Lookups, evictions and \<open>clear\<close> are one critical
  section each.
\<close>

record cache_shared =
  cs_cache :: file_cache
  cs_copied :: "string list"
  cs_sized :: "(string \<times> nat) list"
  cs_indexed :: nat

inductive cache_step :: "(string \<Rightarrow> string) \<Rightarrow> (cache_index \<Rightarrow> cache_index) \<Rightarrow> cache_shared \<Rightarrow> cache_shared \<Rightarrow> bool"
  for sha256 iter where
  get: "cache_step sha256 iter s (s\<lparr>cs_cache := snd (cache_get sha256 now (cs_cache s) url)\<rparr>)"
| copy: "insert_copy src (path_join (cache_root (cs_cache s)) (key_for sha256 url)) (cs_cache s) = (Ok (), c) \<Longrightarrow>
    cache_step sha256 iter s (s\<lparr>cs_cache := c, cs_copied := key_for sha256 url # cs_copied s\<rparr>)"
| stat: "key \<in> set (cs_copied s) \<Longrightarrow> insert_stat (path_join (cache_root (cs_cache s)) key) (cs_cache s) = Ok bytes \<Longrightarrow>
    cache_step sha256 iter s (s\<lparr>cs_copied := remove1 key (cs_copied s), cs_sized := (key, bytes) # cs_sized s\<rparr>)"
| stat_failed: "key \<in> set (cs_copied s) \<Longrightarrow> insert_stat (path_join (cache_root (cs_cache s)) key) (cs_cache s) = Err e \<Longrightarrow>
    cache_step sha256 iter s (s\<lparr>cs_copied := remove1 key (cs_copied s)\<rparr>)"
| index: "(key, bytes) \<in> set (cs_sized s) \<Longrightarrow>
    cache_step sha256 iter s (s\<lparr>cs_cache := insert_index key (path_join (cache_root (cs_cache s)) key) bytes now (cs_cache s),
      cs_sized := remove1 (key, bytes) (cs_sized s), cs_indexed := cs_indexed s + 1\<rparr>)"
| evict: "0 < cs_indexed s \<Longrightarrow>
    cache_step sha256 iter s (s\<lparr>cs_cache := evict_if_needed iter (cs_cache s), cs_indexed := cs_indexed s - 1\<rparr>)"
| clear: "cache_step sha256 iter s (s\<lparr>cs_cache := cache_clear (cs_cache s)\<rparr>)"

definition shared_cache :: "file_cache \<Rightarrow> cache_shared" where
  "shared_cache c = \<lparr>cs_cache = c, cs_copied = [], cs_sized = [], cs_indexed = 0\<rparr>"

text \<open>
  Whatever the interleaving, every key is in the index at most once, under its own path below the root of
  the cache.
\<close>

definition index_ok :: "file_cache \<Rightarrow> bool" where
  "index_ok c \<longleftrightarrow> distinct (map fst (cache_ix c)) \<and> (\<forall>(k, e) \<in> set (cache_ix c). ce_path e = path_join (cache_root c) k)"

lemma evict_loop_subset:
  "fst (evict_loop iter cap fuel ix d) = ix' \<Longrightarrow> distinct (map fst ix) \<Longrightarrow> set ix' \<subseteq> set ix \<and> distinct (map fst ix')"
proof (induction iter cap fuel ix d arbitrary: ix' rule: evict_loop.induct)
  case (2 iter cap fuel ix d)
  show ?case
  proof (cases "total_bytes ix \<le> cap \<or> min_by_access (iter ix) = None")
    case True
    then show ?thesis using "2.prems" by (auto split: option.splits)
  next
    case False
    then obtain k e where m: "min_by_access (iter ix) = Some (k, e)" by auto
    show ?thesis
    proof (cases "map_of ix k")
      case None
      then show ?thesis using "2.IH"(1) [of "(k, e)" k e] "2.prems" False m by auto
    next
      case (Some e')
      have "distinct (map fst (filter (\<lambda>(k', _). k' \<noteq> k) ix))" using "2.prems"(2) by (rule distinct_map_filter)
      then show ?thesis using "2.IH"(2) [of "(k, e)" k e e'] "2.prems"(1) False m Some by auto
    qed
  qed
qed auto

lemma cache_step_index_ok: "cache_step sha256 iter s s' \<Longrightarrow> index_ok (cs_cache s) \<Longrightarrow> index_ok (cs_cache s')"
proof (induction rule: cache_step.induct)
  case (get s now url)
  show ?case
  proof (cases "map_of (cache_ix (cs_cache s)) (key_for sha256 url)")
    case (Some e)
    then have "(key_for sha256 url, e) \<in> set (cache_ix (cs_cache s))" by (rule map_of_SomeD)
    then show ?thesis using get Some set_update [of "cache_ix (cs_cache s)"]
      by (auto simp: cache_get_def Let_def index_ok_def distinct_update)
  qed (use get in \<open>simp add: cache_get_def Let_def index_ok_def\<close>)
next
  case (copy src s url c)
  then show ?case by (auto simp: insert_copy_def index_ok_def split: option.splits)
next
  case (index key bytes s now)
  then show ?case using set_update [of "cache_ix (cs_cache s)"] by (auto simp: insert_index_def index_ok_def distinct_update)
next
  case (evict s)
  obtain ix d where r: "evict_loop iter (max_bytes (cs_cache s)) (length (cache_ix (cs_cache s))) (cache_ix (cs_cache s)) (disk (cs_cache s)) = (ix, d)"
    by fastforce
  have "set ix \<subseteq> set (cache_ix (cs_cache s)) \<and> distinct (map fst ix)"
    by (rule evict_loop_subset [of iter "max_bytes (cs_cache s)" "length (cache_ix (cs_cache s))" _ "disk (cs_cache s)"])
      (use r evict.prems in \<open>simp_all add: index_ok_def\<close>)
  then show ?case using evict.prems r by (auto simp: evict_if_needed_def index_ok_def)
next
  case (clear s)
  then show ?case by (simp add: cache_clear_def index_ok_def)
qed simp_all

lemma interleaved_index:
  assumes "(cache_step sha256 iter)\<^sup>*\<^sup>* (shared_cache c) s" and "index_ok c"
  shows "index_ok (cs_cache s)"
  using assms(1)
proof (induction rule: rtranclp_induct)
  case base
  show ?case using assms(2) by (simp add: shared_cache_def)
next
  case (step s s')
  then show ?case using cache_step_index_ok by blast
qed

section \<open>Properties\<close>

lemma cache_wfI:
  "distinct (map fst (cache_ix c)) \<Longrightarrow> (\<And>k e. (k, e) \<in> set (cache_ix c) \<Longrightarrow> ce_path e = path_join (cache_root c) k \<and>
     (\<exists>t. disk c (ce_path e) = Some t \<and> length t = size_bytes e)) \<Longrightarrow> cache_wf c"
  by (auto simp: cache_wf_def)

text \<open>The index and the disk after an insertion, before any eviction.\<close>

definition with_entry :: "file_cache \<Rightarrow> string \<Rightarrow> cache_entry \<Rightarrow> string \<Rightarrow> file_cache" where
  "with_entry c key new content =
     c\<lparr>disk := (disk c)(ce_path new \<mapsto> content), cache_ix := AList.update key new (cache_ix c)\<rparr>"

lemma with_entry_wf:
  assumes "cache_wf c" and "ce_path new = path_join (cache_root c) key" and "size_bytes new = length content"
  shows "cache_wf (with_entry c key new content)"
    and "set (cache_ix (with_entry c key new content)) = insert (key, new) {x \<in> set (cache_ix c). fst x \<noteq> key}"
    and "sizes (cache_ix (with_entry c key new content)) \<le> sizes (cache_ix c) + length content"
proof -
  have wf: "distinct (map fst (cache_ix c))" using assms(1) by (simp add: cache_wf_def)
  show set1: "set (cache_ix (with_entry c key new content)) = insert (key, new) {x \<in> set (cache_ix c). fst x \<noteq> key}"
    using set_update [OF wf] by (simp add: with_entry_def)
  show "sizes (cache_ix (with_entry c key new content)) \<le> sizes (cache_ix c) + length content"
    using sizes_update [of key new] assms(3) by (simp add: with_entry_def)
  have "distinct (map fst (cache_ix (with_entry c key new content)))" using wf by (simp add: with_entry_def distinct_update)
  moreover have "ce_path e = path_join (cache_root c) k \<and>
      (\<exists>t. disk (with_entry c key new content) (ce_path e) = Some t \<and> length t = size_bytes e)"
    if "(k, e) \<in> set (cache_ix (with_entry c key new content))" for k e
    using that assms unfolding set1 by (auto simp: cache_wf_def with_entry_def path_join_inj)
  moreover have "cache_root (with_entry c key new content) = cache_root c" by (simp add: with_entry_def)
  ultimately show "cache_wf (with_entry c key new content)" by (intro cache_wfI) metis+
qed

text \<open>Eviction keeps the cache well formed and leaves the files of the kept entries alone.\<close>

lemma evict_if_needed_wf:
  assumes "cache_wf c" and "iter_ok iter" and "sizes (cache_ix c) < 2 ^ 64"
  obtains kept gone where "cache_ix (evict_if_needed iter c) = kept" and "set kept \<union> set gone = set (cache_ix c)"
    and "cache_wf (evict_if_needed iter c)" and "max_bytes c \<noteq> 0 \<longrightarrow> sizes kept \<le> max_bytes c"
    and "\<forall>g \<in> set gone. \<forall>k \<in> set kept. last_access (snd g) \<le> last_access (snd k)"
    and "\<forall>n \<in> set (cache_ix c). (\<forall>x \<in> set (cache_ix c). x \<noteq> n \<longrightarrow> last_access (snd x) < last_access (snd n)) \<longrightarrow>
       max_bytes c = 0 \<or> size_bytes (snd n) \<le> max_bytes c \<longrightarrow> n \<in> set kept"
    and "\<forall>x \<in> set kept. disk (evict_if_needed iter c) (ce_path (snd x)) = disk c (ce_path (snd x))"
proof -
  have dist: "distinct (map fst (cache_ix c))" using assms(1) by (simp add: cache_wf_def)
  obtain kept gone where r:
    "evict_if_needed iter c = c\<lparr>cache_ix := kept, disk := fold (\<lambda>(_, e) d. remove_file (ce_path e) d) gone (disk c)\<rparr>"
    "mset (cache_ix c) = mset kept + mset gone" "distinct (map fst kept)" "max_bytes c \<noteq> 0 \<longrightarrow> sizes kept \<le> max_bytes c"
    "\<forall>g \<in> set gone. \<forall>k \<in> set kept. last_access (snd g) \<le> last_access (snd k)"
    "\<forall>n \<in> set (cache_ix c). (\<forall>x \<in> set (cache_ix c). x \<noteq> n \<longrightarrow> last_access (snd x) < last_access (snd n)) \<longrightarrow>
       max_bytes c = 0 \<or> size_bytes (snd n) \<le> max_bytes c \<longrightarrow> n \<in> set kept"
    by (rule evict_if_needed_spec [OF assms(2) dist assms(3)])
  have sub: "set kept \<union> set gone = set (cache_ix c)" using r(2) by (metis set_mset_mset set_mset_union)
  have "distinct (map fst (kept @ gone))" using dist r(2) by (metis mset_append mset_eq_imp_distinct_iff mset_map)
  then have disj: "fst x \<noteq> fst y" if "x \<in> set kept" "y \<in> set gone" for x y using that by (auto simp: image_iff)
  have paths: "ce_path (snd x) = path_join (cache_root c) (fst x)" if "x \<in> set (cache_ix c)" for x
    using that assms(1) by (auto simp: cache_wf_def)
  have files: "disk (evict_if_needed iter c) (ce_path (snd x)) = disk c (ce_path (snd x))" if x: "x \<in> set kept" for x
  proof -
    have "ce_path (snd x) \<noteq> ce_path (snd y)" if y: "y \<in> set gone" for y
    proof -
      have "x \<in> set (cache_ix c)" "y \<in> set (cache_ix c)" using sub x y by blast+
      then show ?thesis using disj [OF x y] paths by (simp add: path_join_inj)
    qed
    then show ?thesis by (auto simp: r(1) fold_remove_file)
  qed
  have "ce_path e = path_join (cache_root c) k \<and>
      (\<exists>t. disk (evict_if_needed iter c) (ce_path e) = Some t \<and> length t = size_bytes e)" if x: "(k, e) \<in> set kept" for k e
  proof -
    have "(k, e) \<in> set (cache_ix c)" using sub x by blast
    then show ?thesis using files [OF x] assms(1) by (auto simp: cache_wf_def)
  qed
  moreover have ix: "cache_ix (evict_if_needed iter c) = kept" "cache_root (evict_if_needed iter c) = cache_root c"
    by (simp_all add: r(1))
  ultimately have "cache_wf (evict_if_needed iter c)" using r(3) by (intro cache_wfI) metis+
  then show ?thesis using that [of kept gone] ix(1) sub r(4,5,6) files by blast
qed

lemma insert_found:
  assumes "cache_wf c" and "iter_ok iter"
    and "disk c src = Some content" and "src \<noteq> path_join (cache_root c) (key_for sha256 url)"
    and "max_bytes c = 0 \<or> length content \<le> max_bytes c"
    and "\<forall>(k, e) \<in> set (cache_ix c). last_access e < now"
    and "sizes (cache_ix c) + length content < 2 ^ 64"
  shows "\<exists>dst c'. cache_insert sha256 iter now c url src = (Ok dst, c') \<and>
    fst (cache_get sha256 later c' url) = Some dst \<and> disk c' dst = Some content \<and> cache_wf c' \<and>
    (max_bytes c \<noteq> 0 \<longrightarrow> sizes (cache_ix c') \<le> max_bytes c) \<and>
    (\<forall>(k, e) \<in> set (cache_ix c). k \<noteq> key_for sha256 url \<longrightarrow> (k, e) \<in> set (cache_ix c') \<or>
       (\<forall>(k', e') \<in> set (cache_ix c'). last_access e \<le> last_access e'))"
proof -
  define key where "key = key_for sha256 url"
  define new where "new = \<lparr>ce_path = path_join (cache_root c) key, size_bytes = length content, last_access = now\<rparr>"
  define c1 where "c1 = with_entry c key new content"
  have wf1: "cache_wf c1" and set1: "set (cache_ix c1) = insert (key, new) {x \<in> set (cache_ix c). fst x \<noteq> key}"
    and sz1: "sizes (cache_ix c1) < 2 ^ 64" and cap: "max_bytes c1 = max_bytes c"
    using with_entry_wf [OF assms(1), of new key content] assms(7) by (simp_all add: c1_def new_def) (simp add: with_entry_def)
  obtain kept gone where r: "cache_ix (evict_if_needed iter c1) = kept" "set kept \<union> set gone = set (cache_ix c1)"
    "cache_wf (evict_if_needed iter c1)" "max_bytes c1 \<noteq> 0 \<longrightarrow> sizes kept \<le> max_bytes c1"
    "\<forall>g \<in> set gone. \<forall>k \<in> set kept. last_access (snd g) \<le> last_access (snd k)"
    "\<forall>n \<in> set (cache_ix c1). (\<forall>x \<in> set (cache_ix c1). x \<noteq> n \<longrightarrow> last_access (snd x) < last_access (snd n)) \<longrightarrow>
       max_bytes c1 = 0 \<or> size_bytes (snd n) \<le> max_bytes c1 \<longrightarrow> n \<in> set kept"
    "\<forall>x \<in> set kept. disk (evict_if_needed iter c1) (ce_path (snd x)) = disk c1 (ce_path (snd x))"
    by (rule evict_if_needed_wf [OF wf1 assms(2) sz1])
  have new_kept: "(key, new) \<in> set kept"
    by (rule r(6) [rule_format]) (use assms(5,6) set1 cap in \<open>auto simp: new_def\<close>)
  have ins: "cache_insert sha256 iter now c url src = (Ok (ce_path new), evict_if_needed iter c1)"
    using assms(3,4) by (simp add: cache_insert_eq Let_def c1_def with_entry_def new_def key_def)
  have "map_of kept key = Some new" using new_kept r(1,3) by (simp add: cache_wf_def)
  then have got: "fst (cache_get sha256 later (evict_if_needed iter c1) url) = Some (ce_path new)"
    using r(1) by (simp add: cache_get_def Let_def key_def [symmetric])
  have cont: "disk (evict_if_needed iter c1) (ce_path new) = Some content"
    using r(7) new_kept by (auto simp: c1_def with_entry_def)
  have cap': "max_bytes c \<noteq> 0 \<longrightarrow> sizes (cache_ix (evict_if_needed iter c1)) \<le> max_bytes c" using r(1,4) cap by simp
  have lru: "\<forall>(k, e) \<in> set (cache_ix c). k \<noteq> key \<longrightarrow> (k, e) \<in> set (cache_ix (evict_if_needed iter c1)) \<or>
      (\<forall>(k', e') \<in> set (cache_ix (evict_if_needed iter c1)). last_access e \<le> last_access e')"
    unfolding r(1)
  proof (intro ballI, clarify)
    fix k e k' e'
    assume e: "(k, e) \<in> set (cache_ix c)" "k \<noteq> key" "(k', e') \<in> set kept" "(k, e) \<notin> set kept"
    then have "(k, e) \<in> set kept \<union> set gone" unfolding r(2) set1 by simp
    then have "(k, e) \<in> set gone" using e(4) by simp
    then show "last_access e \<le> last_access e'" using bspec [OF bspec [OF r(5)] e(3), of "(k, e)"] by simp
  qed
  show ?thesis unfolding key_def [symmetric]
    by (rule exI [of _ "ce_path new"], rule exI [of _ "evict_if_needed iter c1"]) (intro conjI ins got cont r(3) cap' lru)
qed

text \<open>
  C37. A cached file is found again, when no other caller runs in between, the file fits the cap and the
  clock reads a later second than every recorded access: then \<open>insert\<close> succeeds, a following \<open>get\<close> hits and
  returns the cached path, and the file there has the inserted content. The cache stays within its cap
  and every remaining index entry still names an existing file of the recorded size; an entry that was
  dropped was used no later than every entry that stayed.
\<close>

theorem insert_then_get:
  assumes "cache_wf c" and "iter_ok iter"
    and "disk c src = Some content" and "src \<noteq> path_join (cache_root c) (key_for sha256 url)"
    and "max_bytes c = 0 \<or> length content \<le> max_bytes c"
    and "\<forall>(k, e) \<in> set (cache_ix c). last_access e < now"
    and "sizes (cache_ix c) + length content < 2 ^ 64"
  shows "\<exists>dst c'. cache_insert sha256 iter now c url src = (Ok dst, c') \<and>
    fst (cache_get sha256 later c' url) = Some dst \<and> disk c' dst = Some content \<and> cache_wf c' \<and>
    (max_bytes c \<noteq> 0 \<longrightarrow> sizes (cache_ix c') \<le> max_bytes c) \<and>
    (\<forall>(k, e) \<in> set (cache_ix c). k \<noteq> key_for sha256 url \<longrightarrow> (k, e) \<in> set (cache_ix c') \<or>
       (\<forall>(k', e') \<in> set (cache_ix c'). last_access e \<le> last_access e'))"
  using assms by (rule insert_found)

definition sample_cache :: file_cache where
  "sample_cache = \<lparr>cache_root = ''c'', max_bytes = 3,
     cache_ix = [(''k'', \<lparr>ce_path = ''c/k'', size_bytes = 2, last_access = 5\<rparr>)], cache_hits = 0, cache_misses = 0,
     disk = [''c/k'' \<mapsto> ''ab'', ''s'' \<mapsto> ''xyz'']\<rparr>"

theorem insert_then_get_witness:
  "\<exists>dst c'. cache_insert (\<lambda>u. u) id 9 sample_cache ''u'' ''s'' = (Ok dst, c') \<and>
     fst (cache_get (\<lambda>u. u) 10 c' ''u'') = Some dst \<and> disk c' dst = Some ''xyz'' \<and> sizes (cache_ix c') \<le> 3"
proof -
  have "cache_wf sample_cache" by (simp add: cache_wf_def sample_cache_def path_join_def)
  moreover have "iter_ok id" by (simp add: iter_ok_def)
  moreover have "disk sample_cache ''s'' = Some ''xyz''" by (simp add: sample_cache_def)
  moreover have "''s'' \<noteq> path_join (cache_root sample_cache) (key_for (\<lambda>u. u) ''u'')" by (simp add: sample_cache_def path_join_def)
  moreover have "max_bytes sample_cache = 0 \<or> length ''xyz'' \<le> max_bytes sample_cache"
    "\<forall>(k, e) \<in> set (cache_ix sample_cache). last_access e < 9" "sizes (cache_ix sample_cache) + length ''xyz'' < 2 ^ 64"
    by (simp_all add: sample_cache_def sizes_def)
  ultimately show ?thesis
    using insert_then_get [of sample_cache id "''s''" "''xyz''" "\<lambda>u. u" "''u''" 9 10] by (auto simp: sample_cache_def)
qed

text \<open>
  The hypotheses are needed: a file larger than the cap is evicted by its own insertion, and
  \<open>insert\<close> still returns \<open>Ok\<close> with the path of a file that is no longer there.
\<close>

lemma oversized_insert_dangles:
  "let c = sample_cache\<lparr>max_bytes := 2, cache_ix := []\<rparr>; (r, c') = cache_insert (\<lambda>u. u) id 9 c ''u'' ''s''
   in r = Ok ''c/75'' \<and> disk c' ''c/75'' = None \<and> cache_ix c' = []"
  by (simp add: Let_def sample_cache_def cache_insert_eq evict_if_needed_def key_for_def hex2_def path_join_def
      total_bytes_def remove_file_def wrap64_def char_of_def bit_0)

text \<open>
  And so is the absence of other callers: while one caller inserts a file again, between its reading of
  the size and its update of the index, another caller's eviction removes the entry of the same key and
  with it the file. The first caller's entry then names a file that does not exist, and \<open>get\<close> returns it.
\<close>

lemma racing_insert_dangles:
  fixes sha :: "string \<Rightarrow> string"
  defines "sha \<equiv> (\<lambda>u. u)"
  shows "let c = \<lparr>cache_root = ''c'', max_bytes = 3,
             cache_ix = [(key_for sha ''u'', \<lparr>ce_path = ''c/75'', size_bytes = 2, last_access = 5\<rparr>)], cache_hits = 0, cache_misses = 0,
             disk = [''c/75'' \<mapsto> ''ab'', ''s'' \<mapsto> ''ab'', ''t'' \<mapsto> ''xyz'']\<rparr>;
           c1 = snd (insert_copy ''s'' ''c/75'' c);
           c2 = snd (cache_insert sha id 9 c1 ''v'' ''t'');
           c3 = insert_index (key_for sha ''u'') ''c/75'' 2 9 c2
         in insert_stat ''c/75'' c1 = Ok 2 \<and> fst (cache_get sha 10 c3 ''u'') = Some ''c/75'' \<and> disk c3 ''c/75'' = None"
  unfolding sha_def
  by (simp add: Let_def insert_copy_def insert_stat_def insert_index_def cache_insert_eq evict_if_needed_def key_for_def hex2_def
      path_join_def total_bytes_def remove_file_def wrap64_def char_of_def bit_0 cache_get_def)

end
