(* ===== verification/Asset_Cache.thy ===== *)
theory Asset_Cache
  imports File_Cache
begin

text \<open>
  The download cache that the geo executor uses (\<open>crates/orbit-geo/src/cache.rs\<close>). It is the cache of
  \<open>File_Cache\<close> with the index behind a read-write lock and the counters and access times as atomics: \<open>get\<close>
  holds the shared lock only, so lookups of several callers interleave. The functions below are the
  code's; \<open>as_file_cache\<close> maps the state to the other cache's, and every operation is shown to agree with
  its counterpart, so the facts about that cache carry over.
\<close>

section \<open>State\<close>

record asset_entry =
  ae_path :: string
  ae_bytes :: nat
  ae_access :: nat

type_synonym asset_index = "(string \<times> asset_entry) list"

record asset_cache =
  ac_root :: string
  ac_max_bytes :: nat
  ac_index :: asset_index
  ac_hits :: nat
  ac_misses :: nat
  ac_disk :: "string \<rightharpoonup> string"

record asset_stats =
  as_entries :: nat
  as_total :: nat
  as_hits :: nat
  as_misses :: nat

section \<open>Operations\<close>

definition asset_open ::
  "string \<Rightarrow> nat \<Rightarrow> (string \<rightharpoonup> string) \<Rightarrow> (string \<times> bool \<times> nat \<times> nat) list \<Rightarrow> asset_cache" where
  "asset_open root cap d listing =
     \<lparr>ac_root = root, ac_max_bytes = cap,
      ac_index = fold (\<lambda>(name, is_file, len, atime) ix.
        if is_file then AList.update name \<lparr>ae_path = path_join root name, ae_bytes = len, ae_access = atime\<rparr> ix else ix) listing [],
      ac_hits = 0, ac_misses = 0, ac_disk = d\<rparr>"

text \<open>The atomic accesses of a lookup that has found its entry, or has not.\<close>

definition touch :: "string \<Rightarrow> nat \<Rightarrow> asset_cache \<Rightarrow> asset_cache" where
  "touch key now c = c\<lparr>ac_index := map (\<lambda>(k, e). (k, if k = key then e\<lparr>ae_access := now\<rparr> else e)) (ac_index c)\<rparr>"

definition count_hit :: "asset_cache \<Rightarrow> asset_cache" where
  "count_hit c = c\<lparr>ac_hits := wrap64 (ac_hits c + 1)\<rparr>"

definition count_miss :: "asset_cache \<Rightarrow> asset_cache" where
  "count_miss c = c\<lparr>ac_misses := wrap64 (ac_misses c + 1)\<rparr>"

definition asset_get :: "(string \<Rightarrow> string) \<Rightarrow> nat \<Rightarrow> asset_cache \<Rightarrow> string \<Rightarrow> string option \<times> asset_cache" where
  "asset_get sha256 now c url =
     (let key = key_for sha256 url
      in case map_of (ac_index c) key of
           Some e \<Rightarrow> (Some (ae_path e), count_hit (touch key now c))
         | None \<Rightarrow> (None, count_miss c))"

definition asset_total :: "asset_index \<Rightarrow> nat" where
  "asset_total ix = wrap64 (sum_list (map (\<lambda>(_, e). ae_bytes e) ix))"

fun least_recent :: "asset_index \<Rightarrow> (string \<times> asset_entry) option" where
  "least_recent [] = None"
| "least_recent (x # xs) = (case least_recent xs of
     None \<Rightarrow> Some x
   | Some y \<Rightarrow> if ae_access (snd y) < ae_access (snd x) then Some y else Some x)"

fun asset_evict_loop ::
  "(asset_index \<Rightarrow> asset_index) \<Rightarrow> nat \<Rightarrow> nat \<Rightarrow> asset_index \<Rightarrow> (string \<rightharpoonup> string) \<Rightarrow> asset_index \<times> (string \<rightharpoonup> string)" where
  "asset_evict_loop iter cap 0 ix d = (ix, d)"
| "asset_evict_loop iter cap (Suc fuel) ix d =
     (if asset_total ix \<le> cap then (ix, d)
      else case least_recent (iter ix) of
          None \<Rightarrow> (ix, d)
        | Some (k, _) \<Rightarrow> (case map_of ix k of
            Some e \<Rightarrow> asset_evict_loop iter cap fuel (filter (\<lambda>(k', _). k' \<noteq> k) ix) (remove_file (ae_path e) d)
          | None \<Rightarrow> asset_evict_loop iter cap fuel ix d))"

definition asset_evict :: "(asset_index \<Rightarrow> asset_index) \<Rightarrow> asset_cache \<Rightarrow> asset_cache" where
  "asset_evict iter c =
     (if ac_max_bytes c = 0 then c
      else case asset_evict_loop iter (ac_max_bytes c) (length (ac_index c)) (ac_index c) (ac_disk c) of
          (ix, d) \<Rightarrow> c\<lparr>ac_index := ix, ac_disk := d\<rparr>)"

definition asset_copy :: "string \<Rightarrow> string \<Rightarrow> asset_cache \<Rightarrow> (cache_io_error, unit) result \<times> asset_cache" where
  "asset_copy local_src dst c =
     (case ac_disk c local_src of
        None \<Rightarrow> (Err CopyFailed, c)
      | Some source \<Rightarrow> (Ok (), c\<lparr>ac_disk := (ac_disk c)(dst \<mapsto> (if local_src = dst then [] else source))\<rparr>))"

definition asset_stat :: "string \<Rightarrow> asset_cache \<Rightarrow> (cache_io_error, nat) result" where
  "asset_stat dst c = (case ac_disk c dst of None \<Rightarrow> Err MetadataFailed | Some content \<Rightarrow> Ok (length content))"

definition asset_record :: "string \<Rightarrow> string \<Rightarrow> nat \<Rightarrow> nat \<Rightarrow> asset_cache \<Rightarrow> asset_cache" where
  "asset_record key dst bytes now c =
     c\<lparr>ac_index := AList.update key \<lparr>ae_path = dst, ae_bytes = bytes, ae_access = now\<rparr> (ac_index c)\<rparr>"

definition asset_insert ::
  "(string \<Rightarrow> string) \<Rightarrow> (asset_index \<Rightarrow> asset_index) \<Rightarrow> nat \<Rightarrow> asset_cache \<Rightarrow> string \<Rightarrow> string \<Rightarrow> (cache_io_error, string) result \<times> asset_cache" where
  "asset_insert sha256 iter now c url local_src =
     (let key = key_for sha256 url; dst = path_join (ac_root c) key
      in case asset_copy local_src dst c of
           (Inl e, c1) \<Rightarrow> (Err e, c1)
         | (Inr _, c1) \<Rightarrow> (case asset_stat dst c1 of
             Inl e \<Rightarrow> (Err e, c1)
           | Inr bytes \<Rightarrow> (Ok dst, asset_evict iter (asset_record key dst bytes now c1))))"

definition asset_stats_of :: "asset_cache \<Rightarrow> asset_stats" where
  "asset_stats_of c = \<lparr>as_entries = length (ac_index c), as_total = asset_total (ac_index c),
     as_hits = ac_hits c, as_misses = ac_misses c\<rparr>"

definition asset_clear :: "asset_cache \<Rightarrow> asset_cache" where
  "asset_clear c = c\<lparr>ac_index := [], ac_disk := fold (\<lambda>(_, e) d. remove_file (ae_path e) d) (ac_index c) (ac_disk c)\<rparr>"

section \<open>Concurrent lookups\<close>

text \<open>
  Under the shared lock the index keeps its keys, and the atomic accesses of two lookups commute, except
  that the later one of two touches of the same entry decides its time.
\<close>

lemma lookups_commute:
  "count_hit (touch k t c) = touch k t (count_hit c)" "count_miss (touch k t c) = touch k t (count_miss c)"
  "count_hit (count_miss c) = count_miss (count_hit c)"
  "k \<noteq> k' \<Longrightarrow> touch k t (touch k' t' c) = touch k' t' (touch k t c)"
  "touch k t (touch k t' c) = touch k t c"
  by (cases c; auto simp: count_hit_def count_miss_def touch_def)+

lemma touch_keeps: "map fst (ac_index (touch k t c)) = map fst (ac_index c)"
  "map_option ae_path (map_of (ac_index (touch k t c)) k') = map_option ae_path (map_of (ac_index c) k')"
proof -
  show "map fst (ac_index (touch k t c)) = map fst (ac_index c)" by (simp add: touch_def case_prod_beta comp_def)
  have "map_option ae_path (map_of (map (\<lambda>(k1, e). (k1, if k1 = k then e\<lparr>ae_access := t\<rparr> else e)) ix) k') =
      map_option ae_path (map_of ix k')" for ix :: asset_index by (induction ix) auto
  then show "map_option ae_path (map_of (ac_index (touch k t c)) k') = map_option ae_path (map_of (ac_index c) k')"
    by (simp add: touch_def)
qed

section \<open>Agreement with the other cache\<close>

definition as_entry :: "asset_entry \<Rightarrow> cache_entry" where
  "as_entry e = \<lparr>ce_path = ae_path e, size_bytes = ae_bytes e, last_access = ae_access e\<rparr>"

definition of_entry :: "cache_entry \<Rightarrow> asset_entry" where
  "of_entry e = \<lparr>ae_path = ce_path e, ae_bytes = size_bytes e, ae_access = last_access e\<rparr>"

definition as_index :: "asset_index \<Rightarrow> cache_index" where
  "as_index = map (apsnd as_entry)"

definition of_index :: "cache_index \<Rightarrow> asset_index" where
  "of_index = map (apsnd of_entry)"

definition as_file_cache :: "asset_cache \<Rightarrow> file_cache" where
  "as_file_cache c = \<lparr>cache_root = ac_root c, max_bytes = ac_max_bytes c, cache_ix = as_index (ac_index c),
     cache_hits = ac_hits c, cache_misses = ac_misses c, disk = ac_disk c\<rparr>"

definition as_iter :: "(asset_index \<Rightarrow> asset_index) \<Rightarrow> cache_index \<Rightarrow> cache_index" where
  "as_iter iter = as_index \<circ> iter \<circ> of_index"

lemma entry_inverse [simp]: "of_entry (as_entry e) = e" "as_entry (of_entry e') = e'"
  by (simp_all add: as_entry_def of_entry_def)

lemma index_inverse [simp]: "of_index (as_index ix) = ix" "as_index (of_index ix') = ix'"
  by (simp_all add: as_index_def of_index_def comp_def apsnd_def map_prod_def case_prod_beta)

lemma as_index_simps [simp]:
  "as_index [] = []" "length (as_index ix) = length ix" "map fst (as_index ix) = map fst ix"
  "map_of (as_index ix) k = map_option as_entry (map_of ix k)"
  "AList.update k (as_entry e) (as_index ix) = as_index (AList.update k e ix)"
  "filter (\<lambda>(k', _). k' \<noteq> k) (as_index ix) = as_index (filter (\<lambda>(k', _). k' \<noteq> k) ix)"
  "total_bytes (as_index ix) = asset_total ix"
proof -
  show "map_of (as_index ix) k = map_option as_entry (map_of ix k)" by (induction ix) (auto simp: as_index_def)
  show "AList.update k (as_entry e) (as_index ix) = as_index (AList.update k e ix)" by (induction ix) (auto simp: as_index_def)
  show "filter (\<lambda>(k', _). k' \<noteq> k) (as_index ix) = as_index (filter (\<lambda>(k', _). k' \<noteq> k) ix)"
    by (induction ix) (auto simp: as_index_def)
  have "sum_list (map (\<lambda>(_, e). size_bytes e) (as_index ix)) = sum_list (map (\<lambda>(_, e). ae_bytes e) ix)"
    by (induction ix) (auto simp: as_index_def as_entry_def)
  then show "total_bytes (as_index ix) = asset_total ix" by (simp add: total_bytes_def asset_total_def)
qed (simp_all add: as_index_def)

lemma least_recent_agrees: "min_by_access (as_index ix) = map_option (apsnd as_entry) (least_recent ix)"
  by (induction ix) (auto simp: as_index_def as_entry_def split: option.splits)

lemma evict_loop_agrees:
  "evict_loop (as_iter iter) cap fuel (as_index ix) d = apfst as_index (asset_evict_loop iter cap fuel ix d)"
proof (induction fuel arbitrary: ix d)
  case (Suc fuel)
  show ?case
  proof (cases "least_recent (iter ix)")
    case None
    then show ?thesis by (simp add: as_iter_def least_recent_agrees)
  next
    case (Some x)
    then show ?thesis using Suc by (cases x; cases "map_of ix (fst x)") (simp_all add: as_iter_def least_recent_agrees as_entry_def)
  qed
qed simp

text \<open>Each operation does to the mapped state what its counterpart does.\<close>

lemma asset_get_agrees:
  "distinct (map fst (ac_index c)) \<Longrightarrow>
     cache_get sha256 now (as_file_cache c) url = apsnd as_file_cache (asset_get sha256 now c url)"
proof -
  assume d: "distinct (map fst (ac_index c))"
  have cons: "as_index ((k, e) # ix) = (k, as_entry e) # as_index ix" for k e ix by (simp add: as_index_def)
  have same: "k \<notin> fst ` set ix \<Longrightarrow> map (\<lambda>(k', e). (k', if k' = k then e\<lparr>ae_access := now\<rparr> else e)) ix = ix" for k and ix :: asset_index
    by (intro map_idI) (auto simp: rev_image_eqI)
  have touched: "(as_entry e)\<lparr>last_access := now\<rparr> = as_entry (e\<lparr>ae_access := now\<rparr>)" for e by (simp add: as_entry_def)
  have "map_of ix k = Some e \<Longrightarrow> distinct (map fst ix) \<Longrightarrow>
      AList.update k (as_entry e\<lparr>last_access := now\<rparr>) (as_index ix) =
        as_index (map (\<lambda>(k', e). (k', if k' = k then e\<lparr>ae_access := now\<rparr> else e)) ix)" for ix :: asset_index and k e
  proof (induction ix)
    case (Cons x ix)
    show ?case
    proof (cases "fst x = k")
      case True
      then show ?thesis using Cons.prems same [of k ix] by (cases x) (simp add: cons touched del: as_index_simps(5))
    next
      case False
      then show ?thesis using Cons by (cases x) (simp add: cons touched del: as_index_simps(5))
    qed
  qed simp
  then show ?thesis using d
    by (simp add: cache_get_def asset_get_def Let_def as_file_cache_def count_hit_def count_miss_def touch_def as_entry_def
        split: option.split)
qed

lemma asset_insert_agrees:
  "cache_insert sha256 (as_iter iter) now (as_file_cache c) url src = apsnd as_file_cache (asset_insert sha256 iter now c url src)"
proof -
  have evict: "evict_if_needed (as_iter iter) (as_file_cache c) = as_file_cache (asset_evict iter c)" for c
    by (simp add: evict_if_needed_def asset_evict_def as_file_cache_def evict_loop_agrees split: prod.split)
  have copy: "insert_copy src dst (as_file_cache c) = apsnd as_file_cache (asset_copy src dst c)" for dst
    by (simp add: insert_copy_def asset_copy_def as_file_cache_def split: option.split)
  have stat: "insert_stat dst (as_file_cache c) = asset_stat dst c" for dst c
    by (simp add: insert_stat_def asset_stat_def as_file_cache_def)
  have entry: "\<lparr>ce_path = p, size_bytes = b, last_access = t\<rparr> = as_entry \<lparr>ae_path = p, ae_bytes = b, ae_access = t\<rparr>" for p b t
    by (simp add: as_entry_def)
  have index: "insert_index key dst bytes now (as_file_cache c) = as_file_cache (asset_record key dst bytes now c)" for key dst bytes c
    by (simp add: insert_index_def asset_record_def as_file_cache_def entry)
  have root: "cache_root (as_file_cache c) = ac_root c" by (simp add: as_file_cache_def)
  show ?thesis
    by (simp add: cache_insert_def asset_insert_def Let_def root copy stat index evict split: prod.split sum.split)
qed

lemma asset_others_agree:
  "cache_clear (as_file_cache c) = as_file_cache (asset_clear c)"
  "cache_snapshot_of (as_file_cache c) = \<lparr>snap_entries = as_entries (asset_stats_of c), snap_total = as_total (asset_stats_of c),
     snap_hits = as_hits (asset_stats_of c), snap_misses = as_misses (asset_stats_of c)\<rparr>"
  "open_cache root cap d listing = as_file_cache (asset_open root cap d listing)"
proof -
  have "fold (\<lambda>(_, e) d. remove_file (ce_path e) d) (as_index ix) d = fold (\<lambda>(_, e) d. remove_file (ae_path e) d) ix d" for ix d
    by (induction ix arbitrary: d) (auto simp: as_index_def as_entry_def)
  then show "cache_clear (as_file_cache c) = as_file_cache (asset_clear c)"
    by (simp add: cache_clear_def asset_clear_def as_file_cache_def)
  show "cache_snapshot_of (as_file_cache c) = \<lparr>snap_entries = as_entries (asset_stats_of c), snap_total = as_total (asset_stats_of c),
     snap_hits = as_hits (asset_stats_of c), snap_misses = as_misses (asset_stats_of c)\<rparr>"
    by (simp add: cache_snapshot_of_def asset_stats_of_def as_file_cache_def)
  have entry: "\<lparr>ce_path = p, size_bytes = b, last_access = t\<rparr> = as_entry \<lparr>ae_path = p, ae_bytes = b, ae_access = t\<rparr>" for p b t
    by (simp add: as_entry_def)
  have "fold (\<lambda>(name, is_file, len, atime) ix. if is_file
          then AList.update name \<lparr>ce_path = path_join root name, size_bytes = len, last_access = atime\<rparr> ix else ix) listing (as_index ix) =
      as_index (fold (\<lambda>(name, is_file, len, atime) ix. if is_file
          then AList.update name \<lparr>ae_path = path_join root name, ae_bytes = len, ae_access = atime\<rparr> ix else ix) listing ix)" for ix
    by (induction listing arbitrary: ix) (auto simp: entry)
  from this [of "[]"] show "open_cache root cap d listing = as_file_cache (asset_open root cap d listing)"
    by (simp add: open_cache_def asset_open_def as_file_cache_def)
qed

section \<open>What carries over\<close>

text \<open>A downloaded file is found again under its link, when no other caller runs in between and the clock has moved on.\<close>

lemma asset_insert_found:
  assumes "cache_wf (as_file_cache c)" and "iter_ok (as_iter iter)"
    and "ac_disk c src = Some content" and "src \<noteq> path_join (ac_root c) (key_for sha256 url)"
    and "ac_max_bytes c = 0 \<or> length content \<le> ac_max_bytes c"
    and "\<forall>(k, e) \<in> set (ac_index c). ae_access e < now"
    and "sizes (as_index (ac_index c)) + length content < 2 ^ 64"
  shows "\<exists>dst c'. asset_insert sha256 iter now c url src = (Ok dst, c') \<and>
    fst (asset_get sha256 later c' url) = Some dst \<and> ac_disk c' dst = Some content \<and>
    (ac_max_bytes c \<noteq> 0 \<longrightarrow> sizes (as_index (ac_index c')) \<le> ac_max_bytes c)"
proof -
  have f: "disk (as_file_cache c) src = Some content" "src \<noteq> path_join (cache_root (as_file_cache c)) (key_for sha256 url)"
    "max_bytes (as_file_cache c) = 0 \<or> length content \<le> max_bytes (as_file_cache c)"
    "\<forall>(k, e) \<in> set (cache_ix (as_file_cache c)). last_access e < now"
    "sizes (cache_ix (as_file_cache c)) + length content < 2 ^ 64"
    using assms(3-7) by (auto simp: as_file_cache_def as_index_def as_entry_def)
  obtain dst fc where r: "cache_insert sha256 (as_iter iter) now (as_file_cache c) url src = (Ok dst, fc)"
    "fst (cache_get sha256 later fc url) = Some dst" "disk fc dst = Some content" "cache_wf fc"
    "max_bytes (as_file_cache c) \<noteq> 0 \<longrightarrow> sizes (cache_ix fc) \<le> max_bytes (as_file_cache c)"
    using insert_found [OF assms(1,2) f] by blast
  obtain c' where c': "asset_insert sha256 iter now c url src = (Ok dst, c')" "fc = as_file_cache c'"
    using r(1) unfolding asset_insert_agrees by (cases "asset_insert sha256 iter now c url src") auto
  have "distinct (map fst (ac_index c'))" using r(4) by (simp add: c'(2) cache_wf_def as_file_cache_def)
  then have "fst (asset_get sha256 later c' url) = Some dst" using r(2) by (simp add: c'(2) asset_get_agrees)
  then show ?thesis using c' r(3,5) by (auto simp: as_file_cache_def)
qed

end
