(* ===== verification/Sub_Graph.thy ===== *)
theory Sub_Graph
  imports Local_Executor
begin

text \<open>
  The sub-graph evaluator of \<open>geo_executor/sub_graph.rs\<close>: the checks on a callback's envelope and the
  recursive evaluator with its memo table, its cycle detection and its depth limit. The text that
  \<open>serde_json\<close> and \<open>Debug\<close> print for a value is a parameter, and so are the three points the
  standard library leaves open for \<open>f64\<close>: the zero that \<open>sum\<close> starts from, and which zero \<open>min\<close> and
  \<open>max\<close> return when given both.
\<close>

record kernel_env =
  show_json :: "json \<Rightarrow> string"
  show_keys :: "string list \<Rightarrow> string"
  sum_start :: f64
  fmin :: "f64 \<Rightarrow> f64 \<Rightarrow> f64"
  fmax :: "f64 \<Rightarrow> f64 \<Rightarrow> f64"

section \<open>Envelope checks\<close>

definition require_subgraph :: "json \<Rightarrow> string \<Rightarrow> (exec_error, (string \<times> json) list) result" where
  "require_subgraph v field_name =
     and_then (ok_or (InvalidGraph (field_name @ '': must be a Process with `process_graph` sub-callback''))
       (Option.bind (json_get v ''process_graph'') as_object)) (\<lambda>pg.
     if pg = [] then Err (InvalidGraph (field_name @ '': process_graph is empty'')) else Ok pg)"

definition marked_result :: "json \<Rightarrow> bool" where
  "marked_result node = (case Option.bind (json_get node ''result'') as_bool of Some b \<Rightarrow> b | None \<Rightarrow> False)"

fun find_result_loop ::
  "(string \<times> json) list \<Rightarrow> string \<Rightarrow> (string \<times> json) option \<Rightarrow> (exec_error, (string \<times> json) option) result" where
  "find_result_loop [] field_name r = Ok r"
| "find_result_loop ((i, node) # sub_g) field_name r =
     (if marked_result node
      then if r \<noteq> None then Err (InvalidGraph (field_name @ '': process_graph has multiple result nodes''))
           else find_result_loop sub_g field_name (Some (i, node))
      else find_result_loop sub_g field_name r)"

definition find_unique_result_node :: "(string \<times> json) list \<Rightarrow> string \<Rightarrow> (exec_error, string \<times> json) result" where
  "find_unique_result_node sub_g field_name =
     and_then (find_result_loop sub_g field_name None)
       (ok_or (InvalidGraph (field_name @ '': process_graph has no `result: true` node'')))"

definition result_process_id :: "json \<Rightarrow> string \<Rightarrow> (exec_error, string) result" where
  "result_process_id node field_name =
     ok_or (InvalidGraph (field_name @ '': result node has no `process_id`'')) (Option.bind (json_get node ''process_id'') as_str)"

section \<open>The kernel\<close>

definition data_arr :: "kernel_env \<Rightarrow> string \<Rightarrow> (string, json) btree \<Rightarrow> (exec_error, f64 list) result" where
  "data_arr env pid args =
     and_then (ok_or (InvalidGraph (''subgraph: `'' @ pid @ ''` needs `data`'')) (bt_get args ''data'')) (\<lambda>d.
     and_then (ok_or (InvalidGraph (''subgraph: `'' @ pid @ ''.data` expected array, got '' @ show_json env d)) (as_array d)) (\<lambda>arr.
       traverse (\<lambda>v. ok_or (InvalidGraph (''subgraph: `'' @ pid @ ''.data` element not numeric: '' @ show_json env v)) (as_f64 v)) arr))"

definition f64_sum :: "kernel_env \<Rightarrow> f64 list \<Rightarrow> f64" where
  "f64_sum env xs = foldl f64_add (sum_start env) xs"

definition apply_kernel :: "kernel_env \<Rightarrow> string \<Rightarrow> (string, json) btree \<Rightarrow> (exec_error, json) result" where
  "apply_kernel env pid args =
     (if pid = ''mean'' then and_then (data_arr env pid args) (\<lambda>xs.
        if xs = [] then Err (InvalidGraph ''subgraph: mean of empty array'')
        else Ok (json_from_f64 (f64_div (f64_sum env xs) (f64_of_nat (length xs)))))
      else if pid = ''sum'' then and_then (data_arr env pid args) (\<lambda>xs. Ok (json_from_f64 (f64_sum env xs)))
      else if pid = ''min'' then and_then (data_arr env pid args) (\<lambda>xs.
        if xs = [] then Err (InvalidGraph ''subgraph: min of empty array'')
        else Ok (json_from_f64 (foldl (fmin env) (f64_infinity False) xs)))
      else if pid = ''max'' then and_then (data_arr env pid args) (\<lambda>xs.
        if xs = [] then Err (InvalidGraph ''subgraph: max of empty array'')
        else Ok (json_from_f64 (foldl (fmax env) (f64_infinity True) xs)))
      else if pid = ''count'' then and_then (data_arr env pid args) (\<lambda>xs. Ok (json_from_f64 (f64_of_nat (length xs))))
      else Err (InvalidGraph (''subgraph: unsupported process `'' @ pid @
        ''` in DefaultSubGraphEvaluator (this kernel covers reducer-style processes; per-pixel arithmetic lives in eval_apply's own kernel)'')))"

section \<open>The evaluator\<close>

definition depth_error :: exec_error where
  "depth_error = InvalidGraph (''subgraph: argument/from_node recursion exceeded depth limit ('' @ show_nat MAX_SUBGRAPH_DEPTH @ '')'')"

definition from_key :: "json \<Rightarrow> string \<Rightarrow> string option" where
  "from_key v key = Option.bind (json_get v key) as_str"

definition unbound :: "kernel_env \<Rightarrow> string \<Rightarrow> (string, json) btree \<Rightarrow> exec_error" where
  "unbound env p params = InvalidGraph (''subgraph: unbound parameter `'' @ p @ ''` (bindings: '' @ show_keys env (map fst params) @ '')'')"

definition node_pid :: "(string \<times> json) list \<Rightarrow> string \<Rightarrow> (exec_error, string \<times> (string \<times> json) list) result" where
  "node_pid nodes i =
     and_then (ok_or (InvalidGraph (''subgraph: unknown node reference `'' @ i @ ''`'')) (map_of nodes i)) (\<lambda>node.
     and_then (ok_or (InvalidGraph (''subgraph: node `'' @ i @ ''` has no process_id'')) (Option.bind (json_get node ''process_id'') as_str)) (\<lambda>pid.
     and_then (ok_or (InvalidGraph (''subgraph: node `'' @ i @ ''` has no arguments object'')) (Option.bind (json_get node ''arguments'') as_object)) (\<lambda>args.
       Ok (pid, args))))"

type_synonym sub_state = "(string \<rightharpoonup> json) \<times> string list"

function (sequential)
  eval_node_value :: "kernel_env \<Rightarrow> (string \<times> json) list \<Rightarrow> (string, json) btree \<Rightarrow> string \<Rightarrow> nat \<Rightarrow> sub_state \<Rightarrow>
    (exec_error, json \<times> sub_state) result"
  and resolve_arg :: "kernel_env \<Rightarrow> (string \<times> json) list \<Rightarrow> (string, json) btree \<Rightarrow> json \<Rightarrow> nat \<Rightarrow> sub_state \<Rightarrow>
    (exec_error, json \<times> sub_state) result"
  and resolve_all :: "kernel_env \<Rightarrow> (string \<times> json) list \<Rightarrow> (string, json) btree \<Rightarrow> (string \<times> json) list \<Rightarrow> nat \<Rightarrow>
    (string, json) btree \<Rightarrow> sub_state \<Rightarrow> (exec_error, (string, json) btree \<times> sub_state) result" where
  "eval_node_value env nodes params i depth (memo, in_progress) =
     (if depth > MAX_SUBGRAPH_DEPTH then Err depth_error
      else case memo i of
        Some v \<Rightarrow> Ok (v, memo, in_progress)
      | None \<Rightarrow>
          if list_ex (\<lambda>n. n = i) in_progress then Err (InvalidGraph (''subgraph: cycle detected at node `'' @ i @ ''`''))
          else and_then (node_pid nodes i) (\<lambda>(pid, args).
            and_then (resolve_all env nodes params args (depth + 1) [] (memo, in_progress @ [i])) (\<lambda>(resolved, memo, in_progress).
            and_then (apply_kernel env pid resolved) (\<lambda>v. Ok (v, memo(i \<mapsto> v), butlast in_progress)))))"
| "resolve_arg env nodes params v depth st =
     (if depth > MAX_SUBGRAPH_DEPTH then Err depth_error
      else case from_key v ''from_parameter'' of
        Some p \<Rightarrow> and_then (ok_or (unbound env p params) (bt_get params p)) (\<lambda>r. Ok (r, st))
      | None \<Rightarrow> (case from_key v ''from_node'' of
          Some target \<Rightarrow> eval_node_value env nodes params target (depth + 1) st
        | None \<Rightarrow> Ok (v, st)))"
| "resolve_all env nodes params [] depth resolved st = Ok (resolved, st)"
| "resolve_all env nodes params ((k, v) # args) depth resolved st =
     and_then (resolve_arg env nodes params v depth st) (\<lambda>(r, st').
       resolve_all env nodes params args depth (bt_insert k r resolved) st')"
  by pat_completeness auto
termination
  by (relation "inv_image (measure (\<lambda>d. 200 - 3 * d) <*lex*> measure id <*lex*> measure id)
    (\<lambda>x. case x of Inl (env, nodes, params, i, depth, st) \<Rightarrow> (depth, 0, 0)
      | Inr (Inl (env, nodes, params, v, depth, st)) \<Rightarrow> (depth, 0, 0)
      | Inr (Inr (env, nodes, params, args, depth, resolved, st)) \<Rightarrow> (depth, 1, length args))")
    (auto simp: MAX_SUBGRAPH_DEPTH_def)

definition evaluate_subgraph :: "kernel_env \<Rightarrow> json \<Rightarrow> (string, json) btree \<Rightarrow> (exec_error, json) result" where
  "evaluate_subgraph env sub_g params =
     and_then (case as_object sub_g of
         Some obj \<Rightarrow> if map_of obj ''process_graph'' \<noteq> None then require_subgraph sub_g ''subgraph'' else Ok obj
       | None \<Rightarrow> Err (InvalidGraph ''subgraph: process_graph must be an object'')) (\<lambda>nodes_map.
     and_then (find_unique_result_node nodes_map ''subgraph'') (\<lambda>(result_id, _).
     and_then (eval_node_value env nodes_map params result_id 0 (Map.empty, [])) (\<lambda>(v, _). Ok v)))"

section \<open>What a sub-graph denotes\<close>

text \<open>
  The value of a node without memo, cycle check or depth limit: \<open>sub_val n\<close> follows references through
  at most \<open>n\<close> levels of nodes.
\<close>

definition sub_arg :: "(string \<Rightarrow> json option) \<Rightarrow> (string, json) btree \<Rightarrow> json \<Rightarrow> json option" where
  "sub_arg val params v = (case from_key v ''from_parameter'' of
      Some p \<Rightarrow> bt_get params p
    | None \<Rightarrow> (case from_key v ''from_node'' of Some target \<Rightarrow> val target | None \<Rightarrow> Some v))"

definition node_args ::
  "(string \<Rightarrow> json option) \<Rightarrow> (string, json) btree \<Rightarrow> (string \<times> json) list \<Rightarrow> (string \<times> json) list option" where
  "node_args val params args = those (map (\<lambda>(k, v). map_option (Pair k) (sub_arg val params v)) args)"

definition insert_all :: "(string \<times> json) list \<Rightarrow> (string, json) btree \<Rightarrow> (string, json) btree" where
  "insert_all kvs m = fold (\<lambda>(k, r) m. bt_insert k r m) kvs m"

primrec sub_val :: "kernel_env \<Rightarrow> (string \<times> json) list \<Rightarrow> (string, json) btree \<Rightarrow> nat \<Rightarrow> string \<Rightarrow> json option" where
  "sub_val env nodes params 0 i = None"
| "sub_val env nodes params (Suc n) i = (case node_pid nodes i of
      Inl _ \<Rightarrow> None
    | Inr (pid, args) \<Rightarrow> (case node_args (sub_val env nodes params n) params args of
        None \<Rightarrow> None
      | Some kvs \<Rightarrow> (case apply_kernel env pid (insert_all kvs []) of Inr v \<Rightarrow> Some v | Inl _ \<Rightarrow> None)))"

definition denotes :: "kernel_env \<Rightarrow> (string \<times> json) list \<Rightarrow> (string, json) btree \<Rightarrow> string \<Rightarrow> json \<Rightarrow> bool" where
  "denotes env nodes params i v \<longleftrightarrow> (\<exists>n. sub_val env nodes params n i = Some v)"

lemma node_args_Cons:
  "node_args val params ((k, v) # args) =
     Option.bind (sub_arg val params v) (\<lambda>r. map_option ((#) (k, r)) (node_args val params args))"
  by (cases "sub_arg val params v") (simp_all add: node_args_def)

lemma node_args_Nil [simp]: "node_args val params [] = Some []"
  by (simp add: node_args_def)

lemma sub_arg_mono:
  "(\<And>i v. f i = Some v \<Longrightarrow> g i = Some v) \<Longrightarrow> sub_arg f params v = Some r \<Longrightarrow> sub_arg g params v = Some r"
  by (auto simp: sub_arg_def split: option.splits)

lemma node_args_mono:
  assumes "\<And>i v. f i = Some v \<Longrightarrow> g i = Some v"
  shows "node_args f params args = Some kvs \<Longrightarrow> node_args g params args = Some kvs"
proof (induction args arbitrary: kvs)
  case (Cons a args)
  obtain k v where a: "a = (k, v)" by (cases a)
  then obtain r ks where "sub_arg f params v = Some r" "node_args f params args = Some ks" "kvs = (k, r) # ks"
    using Cons.prems by (auto simp: node_args_Cons bind_eq_Some_conv)
  then show ?case using Cons.IH sub_arg_mono [of f g, OF assms] a by (simp add: node_args_Cons)
qed simp

lemma sub_val_Suc: "sub_val env nodes params n i = Some v \<Longrightarrow> sub_val env nodes params (Suc n) i = Some v"
proof (induction n arbitrary: i v)
  case (Suc n)
  obtain pid args kvs where h: "node_pid nodes i = Inr (pid, args)" "node_args (sub_val env nodes params n) params args = Some kvs"
    "apply_kernel env pid (insert_all kvs []) = Inr v"
    using Suc.prems by (auto split: sum.splits option.splits)
  have "node_args (sub_val env nodes params (Suc n)) params args = Some kvs"
    using h(2) node_args_mono [of "sub_val env nodes params n" "sub_val env nodes params (Suc n)"] Suc.IH by blast
  then show ?case using h by (subst sub_val.simps(2)) simp
qed simp

lemma sub_val_mono: "sub_val env nodes params n i = Some v \<Longrightarrow> n \<le> m \<Longrightarrow> sub_val env nodes params m i = Some v"
  by (induction m) (auto simp: le_Suc_eq sub_val_Suc simp del: sub_val.simps(2))

lemma denotes_unique: "denotes env nodes params i v \<Longrightarrow> denotes env nodes params i w \<Longrightarrow> v = w"
  unfolding denotes_def using sub_val_mono by (metis nat_le_linear option.inject)

lemma denotes_at: "sub_val env nodes params n i = Some v \<Longrightarrow> denotes env nodes params i w \<Longrightarrow> w = v"
  using denotes_unique unfolding denotes_def by blast

definition memo_ok :: "kernel_env \<Rightarrow> (string \<times> json) list \<Rightarrow> (string, json) btree \<Rightarrow> (string \<rightharpoonup> json) \<Rightarrow> bool" where
  "memo_ok env nodes params memo \<longleftrightarrow> (\<forall>i v. memo i = Some v \<longrightarrow> denotes env nodes params i v)"

subsection \<open>The evaluator is sound\<close>

definition arg_denotes :: "kernel_env \<Rightarrow> (string \<times> json) list \<Rightarrow> (string, json) btree \<Rightarrow> json \<Rightarrow> json \<Rightarrow> bool" where
  "arg_denotes env nodes params v r \<longleftrightarrow> (\<exists>n. sub_arg (sub_val env nodes params n) params v = Some r)"

lemma arg_denotes_ref:
  "from_key v ''from_parameter'' = None \<Longrightarrow> from_key v ''from_node'' = Some target \<Longrightarrow>
     arg_denotes env nodes params v r \<longleftrightarrow> denotes env nodes params target r"
  by (simp add: arg_denotes_def denotes_def sub_arg_def)

text \<open>Finitely many arguments have a common level.\<close>

lemma args_level:
  "list_all2 (\<lambda>(k, v) (k', r). k = k' \<and> arg_denotes env nodes params v r) args kvs \<Longrightarrow>
     \<exists>n. node_args (sub_val env nodes params n) params args = Some kvs"
proof (induction rule: list_all2_induct)
  case (Cons x xs y ys)
  obtain k v r where p: "x = (k, v)" "y = (k, r)" using Cons by (cases x; cases y) auto
  then obtain n where n: "sub_arg (sub_val env nodes params n) params v = Some r" using Cons by (auto simp: arg_denotes_def)
  obtain m where m: "node_args (sub_val env nodes params m) params xs = Some ys" using Cons by blast
  have up: "sub_val env nodes params a i = Some w \<Longrightarrow> sub_val env nodes params (max n m) i = Some w" if "a \<le> max n m" for a i w
    using sub_val_mono that by blast
  have "sub_arg (sub_val env nodes params (max n m)) params v = Some r"
    by (rule sub_arg_mono [OF _ n]) (rule up, simp_all)
  moreover have "node_args (sub_val env nodes params (max n m)) params xs = Some ys"
    by (rule node_args_mono [OF _ m]) (rule up, simp_all)
  ultimately show ?case using p by (intro exI [of _ "max n m"]) (simp add: node_args_Cons)
qed simp

lemmas eval_induct = eval_node_value_resolve_arg_resolve_all.induct

lemma eval_sound:
  "memo_ok env nodes params (fst st) \<Longrightarrow> eval_node_value env nodes params i depth st = Ok (v, st') \<Longrightarrow>
     memo_ok env nodes params (fst st') \<and> snd st' = snd st \<and> denotes env nodes params i v"
  "memo_ok env nodes params (fst st) \<Longrightarrow> resolve_arg env nodes params a depth st = Ok (v, st') \<Longrightarrow>
     memo_ok env nodes params (fst st') \<and> snd st' = snd st \<and> arg_denotes env nodes params a v"
  "memo_ok env nodes params (fst st) \<Longrightarrow> resolve_all env nodes params args depth acc st = Ok (res, st') \<Longrightarrow>
     memo_ok env nodes params (fst st') \<and> snd st' = snd st \<and>
     (\<exists>kvs. list_all2 (\<lambda>(k, v) (k', r). k = k' \<and> arg_denotes env nodes params v r) args kvs \<and> res = insert_all kvs acc)"
proof (induction env nodes params i depth st and env nodes params a depth st and env nodes params args depth acc st
    arbitrary: v st' and v st' and res st' rule: eval_induct)
  case (1 env nodes params i depth memo in_progress)
  have d: "\<not> depth > MAX_SUBGRAPH_DEPTH" using "1.prems"(2) by (auto split: if_splits)
  show ?case
  proof (cases "memo i")
    case (Some w)
    then show ?thesis using "1.prems" d by (auto simp: memo_ok_def)
  next
    case None
    have c: "\<not> list_ex (\<lambda>n. n = i) in_progress" using "1.prems"(2) d None by (auto split: if_splits)
    obtain pid args where n: "node_pid nodes i = Ok (pid, args)" using "1.prems"(2) d None c by (cases "node_pid nodes i") auto
    obtain res m p where r: "resolve_all env nodes params args (depth + 1) [] (memo, in_progress @ [i]) = Ok (res, m, p)"
      using "1.prems"(2) d None c n by (cases "resolve_all env nodes params args (depth + 1) [] (memo, in_progress @ [i])") auto
    have k: "apply_kernel env pid res = Ok v" and st': "st' = (m(i \<mapsto> v), butlast p)"
      using "1.prems"(2) d None c n r by (cases "apply_kernel env pid res"; auto)+
    have ih: "memo_ok env nodes params m" "p = in_progress @ [i]"
      "\<exists>kvs. list_all2 (\<lambda>(k, v) (k', r). k = k' \<and> arg_denotes env nodes params v r) args kvs \<and> res = insert_all kvs []"
      using "1.IH" [OF d None c n] "1.prems"(1) r by auto
    then obtain kvs lev where "node_args (sub_val env nodes params lev) params args = Some kvs" "res = insert_all kvs []"
      using args_level by blast
    then have "sub_val env nodes params (Suc lev) i = Some v" using n k by simp
    then have "denotes env nodes params i v" unfolding denotes_def by blast
    then show ?thesis using ih st' by (auto simp: memo_ok_def)
  qed
next
  case (2 env nodes params a depth st)
  have d: "\<not> depth > MAX_SUBGRAPH_DEPTH" using "2.prems"(2) by (auto split: if_splits)
  show ?case
  proof (cases "from_key a ''from_parameter''")
    case (Some q)
    then show ?thesis using "2.prems" d by (cases "bt_get params q") (auto simp: arg_denotes_def sub_arg_def)
  next
    case None
    show ?thesis
    proof (cases "from_key a ''from_node''")
      case (Some t)
      then show ?thesis using "2.IH" [OF d None Some] "2.prems" d None by (simp add: arg_denotes_ref [OF None Some])
    next
      case no: None
      then show ?thesis using "2.prems" d None by (auto simp: arg_denotes_def sub_arg_def)
    qed
  qed
next
  case (3 env nodes params depth acc st)
  then show ?case by (auto simp: insert_all_def)
next
  case (4 env nodes params k a args depth acc st)
  obtain r st1 where r: "resolve_arg env nodes params a depth st = Ok (r, st1)"
    "resolve_all env nodes params args depth (bt_insert k r acc) st1 = Ok (res, st')"
    using "4.prems"(2) by (cases "resolve_arg env nodes params a depth st") auto
  have a1: "memo_ok env nodes params (fst st1)" "snd st1 = snd st" "arg_denotes env nodes params a r"
    using "4.IH"(1) "4.prems"(1) r(1) by blast+
  obtain kvs where "memo_ok env nodes params (fst st')" "snd st' = snd st1" "res = insert_all kvs (bt_insert k r acc)"
    "list_all2 (\<lambda>(k, v) (k', r). k = k' \<and> arg_denotes env nodes params v r) args kvs"
    using "4.IH"(2) [OF r(1) refl a1(1) r(2)] by blast
  then show ?case using a1 by (intro conjI exI [of _ "(k, r) # kvs"]) (simp_all add: insert_all_def)
qed

declare eval_node_value.simps [simp del] resolve_arg.simps [simp del]

subsection \<open>The evaluator finds every value within the depth limit\<close>

text \<open>
  A node in progress lies on a path to the current one, so it has no value at the current level; this
  is why a node that has one is never reported as a cycle.
\<close>

definition evaluates ::
  "kernel_env \<Rightarrow> (string \<times> json) list \<Rightarrow> (string, json) btree \<Rightarrow> nat \<Rightarrow> bool" where
  "evaluates env nodes params n \<longleftrightarrow> (\<forall>i v depth memo ip. sub_val env nodes params n i = Some v \<longrightarrow> memo_ok env nodes params memo \<longrightarrow>
     (\<forall>x \<in> set ip. sub_val env nodes params n x = None) \<longrightarrow> depth + 2 * n \<le> MAX_SUBGRAPH_DEPTH + 1 \<longrightarrow>
     (\<exists>memo'. eval_node_value env nodes params i depth (memo, ip) = Ok (v, memo', ip) \<and> memo_ok env nodes params memo'))"

lemma resolve_arg_complete:
  assumes "evaluates env nodes params n" and "sub_arg (sub_val env nodes params n) params a = Some r"
    and "memo_ok env nodes params memo" and "\<forall>x \<in> set ip. sub_val env nodes params n x = None"
    and "depth + 2 * n \<le> MAX_SUBGRAPH_DEPTH" "depth \<le> MAX_SUBGRAPH_DEPTH"
  shows "\<exists>memo'. resolve_arg env nodes params a depth (memo, ip) = Ok (r, memo', ip) \<and> memo_ok env nodes params memo'"
proof (cases "from_key a ''from_parameter''")
  case (Some q)
  then show ?thesis using assms(2,3,6) by (simp add: sub_arg_def resolve_arg.simps)
next
  case None
  show ?thesis
  proof (cases "from_key a ''from_node''")
    case (Some t)
    then have "sub_val env nodes params n t = Some r" using assms(2) None by (simp add: sub_arg_def)
    then obtain memo' where "eval_node_value env nodes params t (depth + 1) (memo, ip) = Ok (r, memo', ip)" "memo_ok env nodes params memo'"
      using assms(1,3,4,5) unfolding evaluates_def by (metis Suc_eq_plus1 add_Suc add_le_mono1)
    then show ?thesis using None Some assms(6) by (simp add: resolve_arg.simps)
  next
    case no: None
    then show ?thesis using None assms(2,3,6) by (simp add: sub_arg_def resolve_arg.simps)
  qed
qed

lemma resolve_all_complete:
  assumes "evaluates env nodes params n" and "\<forall>x \<in> set ip. sub_val env nodes params n x = None"
    and "depth + 2 * n \<le> MAX_SUBGRAPH_DEPTH" "depth \<le> MAX_SUBGRAPH_DEPTH"
  shows "node_args (sub_val env nodes params n) params args = Some kvs \<Longrightarrow> memo_ok env nodes params memo \<Longrightarrow>
    \<exists>memo'. resolve_all env nodes params args depth acc (memo, ip) = Ok (insert_all kvs acc, memo', ip) \<and> memo_ok env nodes params memo'"
proof (induction args arbitrary: kvs acc memo)
  case (Cons x args)
  obtain k a where x: "x = (k, a)" by (cases x)
  then obtain r ks where r: "sub_arg (sub_val env nodes params n) params a = Some r"
    "node_args (sub_val env nodes params n) params args = Some ks" "kvs = (k, r) # ks"
    using Cons.prems(1) by (auto simp: node_args_Cons bind_eq_Some_conv)
  obtain m where m: "resolve_arg env nodes params a depth (memo, ip) = Ok (r, m, ip)" "memo_ok env nodes params m"
    using resolve_arg_complete [OF assms(1) r(1) Cons.prems(2) assms(2-4)] by blast
  obtain m' where "resolve_all env nodes params args depth (bt_insert k r acc) (m, ip) = Ok (insert_all ks (bt_insert k r acc), m', ip)"
    "memo_ok env nodes params m'" using Cons.IH [OF r(2) m(2)] by blast
  then show ?case using x r m by (simp add: insert_all_def)
qed (simp add: insert_all_def)

lemma eval_complete: "evaluates env nodes params n"
proof (induction n)
  case (Suc n)
  show ?case unfolding evaluates_def
  proof (intro allI impI)
    fix i v depth memo ip
    assume val: "sub_val env nodes params (Suc n) i = Some v" and memo: "memo_ok env nodes params memo"
      and ip: "\<forall>x \<in> set ip. sub_val env nodes params (Suc n) x = None" and depth: "depth + 2 * Suc n \<le> MAX_SUBGRAPH_DEPTH + 1"
    have ip': "\<forall>x \<in> set ip. sub_val env nodes params n x = None" using ip sub_val_Suc by (metis option.exhaust option.distinct(1))
    show "\<exists>memo'. eval_node_value env nodes params i depth (memo, ip) = Ok (v, memo', ip) \<and> memo_ok env nodes params memo'"
    proof (cases "sub_val env nodes params n i")
      case (Some w)
      then have "w = v" using sub_val_Suc [OF Some] val by simp
      then show ?thesis using Suc.IH [unfolded evaluates_def, rule_format, OF Some memo, of ip depth] ip' depth by simp
    next
      case none: None
      have d: "\<not> depth > MAX_SUBGRAPH_DEPTH" "depth + 1 \<le> MAX_SUBGRAPH_DEPTH" using depth by simp_all
      show ?thesis
      proof (cases "memo i")
        case (Some w)
        then have "w = v" using memo denotes_at [OF val] by (auto simp: memo_ok_def)
        then show ?thesis using Some d memo by (simp add: eval_node_value.simps)
      next
        case new: None
        have c: "\<not> list_ex (\<lambda>n. n = i) ip" using ip val by (auto simp: list_ex_iff)
        obtain pid args kvs where h: "node_pid nodes i = Ok (pid, args)"
          "node_args (sub_val env nodes params n) params args = Some kvs" "apply_kernel env pid (insert_all kvs []) = Ok v"
          using val by (auto split: sum.splits option.splits)
        obtain m where m: "resolve_all env nodes params args (depth + 1) [] (memo, ip @ [i]) = Ok (insert_all kvs [], m, ip @ [i])"
          "memo_ok env nodes params m"
          using resolve_all_complete [OF Suc.IH _ _ d(2) h(2) memo, of "ip @ [i]" "[]"] ip' none depth by auto
        have "denotes env nodes params i v" using val unfolding denotes_def by blast
        then have "memo_ok env nodes params (m(i \<mapsto> v))" using m(2) by (auto simp: memo_ok_def)
        then show ?thesis using d(1) new c h m by (simp add: eval_node_value.simps del: resolve_all.simps)
      qed
    qed
  qed
qed (simp add: evaluates_def)

section \<open>Properties\<close>

text \<open>
  C38. The memoising evaluator computes the plain recursive meaning of a sub-graph. On a callback with
  one result node, whatever it returns is the value that the result node denotes, with no memo and no
  cycle check; and if the result node has a value through at most 32 levels of nodes, the evaluator
  returns it: neither the cycle detection nor the depth limit of 64 rejects such a graph. It always
  returns (the recursion is bounded by the depth limit).
\<close>

theorem subgraph_denotation:
  assumes "as_object sub_g = Some nodes" and "map_of nodes ''process_graph'' = None"
    and "find_unique_result_node nodes ''subgraph'' = Ok (res_id, node)"
  shows "(evaluate_subgraph env sub_g params = Ok v \<longrightarrow> denotes env nodes params res_id v) \<and>
    (sub_val env nodes params 32 res_id = Some v \<longrightarrow> evaluate_subgraph env sub_g params = Ok v)"
proof -
  let ?run = "eval_node_value env nodes params res_id 0 (Map.empty, [])"
  have e: "evaluate_subgraph env sub_g params = and_then ?run (\<lambda>(v, _). Ok v)"
    using assms by (simp add: evaluate_subgraph_def)
  have m: "memo_ok env nodes params Map.empty" by (simp add: memo_ok_def)
  have "denotes env nodes params res_id v" if ok: "evaluate_subgraph env sub_g params = Ok v"
  proof -
    obtain st' where "?run = Ok (v, st')" using ok e by (cases ?run) auto
    then show ?thesis using eval_sound(1) [of env nodes params "(Map.empty, [])"] m by simp
  qed
  moreover have "evaluate_subgraph env sub_g params = Ok v" if "sub_val env nodes params 32 res_id = Some v"
    using eval_complete [of env nodes params 32, unfolded evaluates_def, rule_format, OF that m, of "[]" 0]
    unfolding e by (auto simp: MAX_SUBGRAPH_DEPTH_def)
  ultimately show ?thesis by blast
qed

definition sample_env :: kernel_env where
  "sample_env = \<lparr>show_json = (\<lambda>_. []), show_keys = (\<lambda>_. []), sum_start = f64_of_nat 0, fmin = (\<lambda>a b. a), fmax = (\<lambda>a b. a)\<rparr>"

definition sample_nodes :: "(string \<times> json) list" where
  "sample_nodes = [(''n'', JObject [(''process_id'', JString ''count''),
     (''arguments'', JObject [(''data'', JObject [(''from_parameter'', JString ''x'')])]), (''result'', JBool True)])]"

theorem subgraph_denotation_witness:
  "evaluate_subgraph sample_env (JObject sample_nodes) [(''x'', JArray [JNumber (PosInt 7), JNumber (PosInt 8)])] =
     Ok (json_from_f64 (f64_of_nat 2))"
proof -
  let ?p = "[(''x'', JArray [JNumber (PosInt 7), JNumber (PosInt 8)])]"
  have f: "find_unique_result_node sample_nodes ''subgraph'' = Ok (hd sample_nodes)"
    by (simp add: find_unique_result_node_def sample_nodes_def marked_result_def json_get_def)
  have "sub_val sample_env sample_nodes ?p (Suc 0) ''n'' = Some (json_from_f64 (f64_of_nat 2))"
    by (simp add: sample_nodes_def node_pid_def json_get_def node_args_Cons sub_arg_def from_key_def bt_get_def
        insert_all_def apply_kernel_def data_arr_def numeral_2_eq_2)
  then have v: "sub_val sample_env sample_nodes ?p 32 ''n'' = Some (json_from_f64 (f64_of_nat 2))"
    by (rule sub_val_mono) simp
  have h: "hd sample_nodes = (''n'', snd (hd sample_nodes))" "map_of sample_nodes ''process_graph'' = None" by (simp_all add: sample_nodes_def)
  show ?thesis
    using subgraph_denotation [of "JObject sample_nodes" sample_nodes "''n''" "snd (hd sample_nodes)" sample_env ?p "json_from_f64 (f64_of_nat 2)"]
      f h v by simp
qed

end
