(* ===== verification/Edit_Distance.thy ===== *)
theory Edit_Distance
  imports Orbit_Prelude
begin

text \<open>
  The edit distance behind the \<open>did you mean\<close> hints of \<open>geo_executor/registry.rs\<close>: \<open>levenshtein\<close>
  with its two rows, against the least number of single-character edits.
\<close>

section \<open>The two-row program\<close>

text \<open>
  The inner loop over \<open>b\<close> fills \<open>curr[1..]\<close>: \<open>left\<close> is the entry written last, \<open>prev\<close> the rest of the
  previous row from the current column on.
\<close>

fun lev_inner :: "'a \<Rightarrow> 'a list \<Rightarrow> nat list \<Rightarrow> nat \<Rightarrow> nat list" where
  "lev_inner ca (cb # b) (p0 # p1 # prev) left =
     (let cost = (if ca = cb then 0 else 1); v = min (min (p1 + 1) (left + 1)) (p0 + cost)
      in v # lev_inner ca b (p1 # prev) v)"
| "lev_inner ca _ _ left = []"

fun lev_rows :: "'a list \<Rightarrow> 'a list \<Rightarrow> nat \<Rightarrow> nat list \<Rightarrow> nat list" where
  "lev_rows [] b i prev = prev"
| "lev_rows (ca # a) b i prev = lev_rows a b (i + 1) ((i + 1) # lev_inner ca b prev (i + 1))"

definition levenshtein :: "'a list \<Rightarrow> 'a list \<Rightarrow> nat" where
  "levenshtein a b =
     (if a = [] then length b else if b = [] then length a else lev_rows a b 0 [0..<length b + 1] ! length b)"

section \<open>Edits\<close>

text \<open>One edit inserts, deletes or replaces one element.\<close>

inductive edit1 :: "'a list \<Rightarrow> 'a list \<Rightarrow> bool" where
  ins: "edit1 a (x # a)"
| del: "edit1 (x # a) a"
| sub: "edit1 (x # a) (y # a)"
| there: "edit1 a b \<Longrightarrow> edit1 (z # a) (z # b)"

inductive_cases edit1_NilE: "edit1 [] c"

text \<open>An alignment of cost \<open>n\<close>.\<close>

inductive align :: "nat \<Rightarrow> 'a list \<Rightarrow> 'a list \<Rightarrow> bool" where
  nil: "align 0 [] []"
| keep: "align n a b \<Longrightarrow> align n (x # a) (x # b)"
| repl: "align n a b \<Longrightarrow> align (Suc n) (x # a) (y # b)"
| add: "align n a b \<Longrightarrow> align (Suc n) a (y # b)"
| drop: "align n a b \<Longrightarrow> align (Suc n) (x # a) b"

fun edit_dist :: "'a list \<Rightarrow> 'a list \<Rightarrow> nat" where
  "edit_dist [] b = length b"
| "edit_dist a [] = length a"
| "edit_dist (x # a) (y # b) =
     min (min (edit_dist a (y # b) + 1) (edit_dist (x # a) b + 1)) (edit_dist a b + (if x = y then 0 else 1))"

lemma edit1_append: "edit1 a b \<Longrightarrow> edit1 (a @ v) (b @ v)"
  by (induction rule: edit1.induct) (auto intro: edit1.intros)

lemma edit1_prefix: "edit1 a b \<Longrightarrow> edit1 (u @ a) (u @ b)"
  by (induction u) (auto intro: edit1.intros)

lemma edit1_rev: "edit1 a b \<Longrightarrow> edit1 (rev a) (rev b)"
proof (induction rule: edit1.induct)
  case (ins a x)
  then show ?case using edit1_prefix [OF edit1.ins, of "rev a" "[]"] by simp
next
  case (del x a)
  then show ?case using edit1_prefix [OF edit1.del, of "rev a" x "[]"] by simp
next
  case (sub x a y)
  then show ?case using edit1_prefix [OF edit1.sub, of "rev a" x "[]" y] by simp
qed (simp add: edit1_append)

lemma relpowp_map: "(\<And>a b. R a b \<Longrightarrow> R (f a) (f b)) \<Longrightarrow> (R ^^ n) a b \<Longrightarrow> (R ^^ n) (f a) (f b)"
  by (induction n arbitrary: b) (auto simp: OO_def)

lemma align_refl: "align 0 a a"
  by (induction a) (auto intro: align.intros)

lemma align_steps: "align n a b \<Longrightarrow> (edit1 ^^ n) a b"
proof (induction rule: align.induct)
  case (keep n a b x)
  then show ?case by (intro relpowp_map [of edit1 "\<lambda>l. x # l"] edit1.there)
next
  case (repl n a b x y)
  have "(edit1 ^^ n) (y # a) (y # b)" by (intro relpowp_map [of edit1 "\<lambda>l. y # l"] edit1.there repl)
  then show ?case using edit1.sub [of x a y] relpowp_Suc_I2 by metis
next
  case (add n a b y)
  then show ?case using edit1.ins [of b y] by auto
next
  case (drop n a b x)
  then show ?case using edit1.del [of x a] relpowp_Suc_I2 by metis
qed simp

text \<open>A further edit of the target costs at most one more.\<close>

lemma align_edit1:
  assumes "align n a b" and "edit1 b c"
  shows "\<exists>m \<le> Suc n. align m a c"
  using assms
proof (induction arbitrary: c rule: align.induct)
  case nil
  then obtain x where "c = [x]" by (auto elim: edit1_NilE)
  moreover have "align (Suc 0) [] [x]" by (rule align.add) (rule align.nil)
  ultimately show ?case by blast
next
  case (keep n a b x)
  from keep.prems show ?case
  proof (cases rule: edit1.cases)
    case (there b')
    then obtain m where "m \<le> Suc n" "align m a b'" using keep.IH by blast
    then show ?thesis using there by (auto intro: align.keep)
  qed (use keep.hyps in \<open>auto intro: align.intros\<close>)
next
  case (repl n a b x y)
  from repl.prems show ?case
  proof (cases rule: edit1.cases)
    case (there b')
    then obtain m where "m \<le> Suc n" "align m a b'" using repl.IH by blast
    then show ?thesis using there by (auto intro: align.repl)
  next
    case del
    then show ?thesis using align.drop [OF repl.hyps, of x] by (intro exI [of _ "Suc n"]) simp
  qed (use repl.hyps in \<open>auto intro: align.intros\<close>)
next
  case (add n a b y)
  from add.prems show ?case
  proof (cases rule: edit1.cases)
    case (there b')
    then obtain m where "m \<le> Suc n" "align m a b'" using add.IH by blast
    then show ?thesis using there by (auto intro: align.add)
  next
    case del
    then show ?thesis using add.hyps by (intro exI [of _ n]) simp
  next
    case (sub z)
    then show ?thesis using align.add [OF add.hyps, of z] by (intro exI [of _ "Suc n"]) simp
  qed (use add.hyps in \<open>auto intro: align.intros\<close>)
next
  case (drop n a b x)
  then obtain m where "m \<le> Suc n" "align m a c" by blast
  then show ?case by (auto intro: align.drop)
qed

lemma steps_align: "(edit1 ^^ n) a b \<Longrightarrow> \<exists>m \<le> n. align m a b"
proof (induction n arbitrary: b)
  case 0
  then show ?case using align_refl by auto
next
  case (Suc n)
  from Suc.prems obtain c where c: "(edit1 ^^ n) a c" "edit1 c b" by (auto simp: OO_def)
  from Suc.IH [OF c(1)] obtain m where "m \<le> n" "align m a c" by blast
  with c(2) show ?case using align_edit1 [of m a c b] by (meson Suc_le_mono le_trans)
qed

lemma edit_dist_Nil [simp]: "edit_dist a [] = length a"
  by (cases a) simp_all

lemma align_edit_dist: "align (edit_dist a b) a b"
proof (induction a b rule: edit_dist.induct)
  case (1 b)
  show ?case by (induction b) (auto intro: align.intros)
next
  case (2 x a)
  have "align (length l) l []" for l :: "'a list" by (induction l) (auto intro: align.intros)
  from this [of "x # a"] show ?case by simp
next
  case (3 x a y b)
  then show ?case by (auto simp: min_def intro: align.intros)
qed

lemma edit_dist_step:
  "edit_dist a (y # b) \<le> Suc (edit_dist a b)" "edit_dist (x # a) b \<le> Suc (edit_dist a b)"
  by (cases a; simp) (cases b; simp)

lemma edit_dist_le: "align n a b \<Longrightarrow> edit_dist a b \<le> n"
proof (induction rule: align.induct)
  case (add n a b y)
  then show ?case using edit_dist_step(1) [of a y b] by linarith
next
  case (drop n a b x)
  then show ?case using edit_dist_step(2) [of x a b] by linarith
qed auto

text \<open>The recursive distance is the least number of edits, and so does not change under reversal.\<close>

lemma edit_dist_least: "(edit1 ^^ edit_dist a b) a b \<and> (\<forall>n. (edit1 ^^ n) a b \<longrightarrow> edit_dist a b \<le> n)"
  using align_steps [OF align_edit_dist] steps_align edit_dist_le by (meson le_trans)

lemma edit_dist_rev: "edit_dist (rev a) (rev b) = edit_dist a b"
proof -
  have "edit_dist (rev a) (rev b) \<le> edit_dist a b" for a b :: "'a list"
    using edit_dist_least [of a b] edit_dist_least [of "rev a" "rev b"] relpowp_map [of edit1 rev, OF edit1_rev] by blast
  from this [of a b] this [of "rev a" "rev b"] show ?thesis by simp
qed

section \<open>The program computes it\<close>

text \<open>Row \<open>i\<close> holds the distances between the first \<open>i\<close> elements of \<open>a\<close> and the prefixes of \<open>b\<close>.\<close>

definition dist_row :: "'a list \<Rightarrow> 'a list \<Rightarrow> 'a list \<Rightarrow> nat list" where
  "dist_row ra rb b = map (\<lambda>j. edit_dist ra (rev (take j b) @ rb)) [0..<Suc (length b)]"

lemma dist_row_simps [simp]:
  "dist_row ra rb [] = [edit_dist ra rb]"
  "dist_row ra rb (y # b) = edit_dist ra rb # dist_row ra (y # rb) b"
proof -
  have "[0..<Suc (Suc (length b))] = 0 # map Suc [0..<Suc (length b)]" by (metis map_Suc_upt upt_conv_Cons zero_less_Suc)
  then show "dist_row ra rb (y # b) = edit_dist ra rb # dist_row ra (y # rb) b"
    by (simp add: dist_row_def comp_def del: upt_Suc)
qed (simp add: dist_row_def)

lemma dist_row_length: "length (dist_row ra rb b) = Suc (length b)"
  by (simp add: dist_row_def)

lemma dist_row_Cons: "dist_row ra rb b = edit_dist ra rb # tl (dist_row ra rb b)"
  by (cases b) simp_all

lemma lev_inner_row:
  "lev_inner x b (dist_row ra rb b) (edit_dist (x # ra) rb) = tl (dist_row (x # ra) rb b)"
proof (induction b arbitrary: rb)
  case (Cons y b)
  have "dist_row ra (y # rb) b = edit_dist ra (y # rb) # tl (dist_row ra (y # rb) b)" by (rule dist_row_Cons)
  then obtain ps where ps: "dist_row ra (y # rb) b = edit_dist ra (y # rb) # ps" by blast
  have "lev_inner x b (edit_dist ra (y # rb) # ps) (edit_dist (x # ra) (y # rb)) = tl (dist_row (x # ra) (y # rb) b)"
    using Cons.IH [of "y # rb"] ps by simp
  then show ?case using ps dist_row_Cons [of "x # ra" "y # rb" b] by (simp add: Let_def)
qed simp

lemma lev_rows_row: "lev_rows a b (length ra) (dist_row ra [] b) = dist_row (rev a @ ra) [] b"
proof (induction a arbitrary: ra)
  case (Cons x a)
  have "(length ra + 1) # lev_inner x b (dist_row ra [] b) (length ra + 1) = dist_row (x # ra) [] b"
    using lev_inner_row [of x b ra "[]"] dist_row_Cons [of "x # ra" "[]" b] by simp
  then show ?case using Cons.IH [of "x # ra"] by simp
qed simp

lemma levenshtein_eq: "levenshtein a b = edit_dist a b"
proof (cases "a = [] \<or> b = []")
  case False
  have "[0..<length b + 1] = dist_row [] [] b" by (intro nth_equalityI) (simp_all add: dist_row_def del: upt_Suc)
  then have "levenshtein a b = dist_row (rev a) [] b ! length b"
    using False lev_rows_row [of a b "[]"] by (simp add: levenshtein_def)
  also have "\<dots> = edit_dist (rev a) (rev b)" by (simp add: dist_row_def del: upt_Suc)
  finally show ?thesis by (simp add: edit_dist_rev)
qed (auto simp: levenshtein_def)

text \<open>
  C35. The distance \<open>levenshtein\<close> computes with its two rows is the least number of single-character
  insertions, deletions and replacements that turn the one name into the other.
\<close>

theorem levenshtein_least:
  "(edit1 ^^ levenshtein a b) a b \<and> (\<forall>n < levenshtein a b. \<not> (edit1 ^^ n) a b)"
  unfolding levenshtein_eq using edit_dist_least [of a b] not_le by blast

theorem levenshtein_least_witness: "(edit1 ^^ 2) ''nvdi'' ''ndvi'' \<and> \<not> (edit1 ^^ 1) ''nvdi'' ''ndvi''"
proof -
  have two: "levenshtein ''nvdi'' ''ndvi'' = 2" by code_simp
  have "(edit1 ^^ 2) ''nvdi'' ''ndvi'' \<and> (\<forall>n < 2. \<not> (edit1 ^^ n) ''nvdi'' ''ndvi'')"
    by (rule levenshtein_least [of "''nvdi''" "''ndvi''", unfolded two])
  moreover have "(1 :: nat) < 2" by simp
  ultimately show ?thesis by blast
qed

end
