(* ===== verification/Scalar_Processes.thy ===== *)
theory Scalar_Processes
  imports Local_Executor
begin

text \<open>
  The pure process handlers of \<open>geo_executor/registry.rs\<close> (scalar mathematics, comparison, logic) and
  the array processes of \<open>geo_executor/eval_arrays.rs\<close>. A handler returns \<open>None\<close> where the code panics.
  The functions of \<open>f64\<close> whose precision the standard library leaves open (\<open>exp\<close>, \<open>ln\<close>, \<open>powf\<close>,
  the trigonometric ones, \<open>powi\<close>, \<open>log\<close>) are the parameter \<open>libm\<close>; the others are defined on the
  bit patterns.
\<close>

section \<open>More of \<open>f64\<close>\<close>

record libm =
  m_exp :: "f64 \<Rightarrow> f64"
  m_ln :: "f64 \<Rightarrow> f64"
  m_log :: "f64 \<Rightarrow> f64 \<Rightarrow> f64"
  m_powf :: "f64 \<Rightarrow> f64 \<Rightarrow> f64"
  m_powi :: "f64 \<Rightarrow> int \<Rightarrow> f64"
  m_cos :: "f64 \<Rightarrow> f64"
  m_sin :: "f64 \<Rightarrow> f64"
  m_tan :: "f64 \<Rightarrow> f64"
  m_acos :: "f64 \<Rightarrow> f64"
  m_asin :: "f64 \<Rightarrow> f64"
  m_atan :: "f64 \<Rightarrow> f64"
  m_atan2 :: "f64 \<Rightarrow> f64 \<Rightarrow> f64"

definition f64_integral :: "(nat \<Rightarrow> nat \<Rightarrow> nat) \<Rightarrow> f64 \<Rightarrow> f64" where
  "f64_integral q x =
     (if f64_is_nan x then f64_nan else if f64_is_infinite x then x
      else f64_make (f64_neg x) (round_mag (q (mag_units (f64_mag x)) (2 ^ 1074) * 2 ^ 1074) 1))"

definition nat_div_up :: "nat \<Rightarrow> nat \<Rightarrow> nat" where "nat_div_up a b = (a + b - 1) div b"

definition f64_trunc :: "f64 \<Rightarrow> f64" where "f64_trunc = f64_integral (div)"
definition f64_floor :: "f64 \<Rightarrow> f64" where
  "f64_floor x = f64_integral (if f64_neg x then nat_div_up else (div)) x"
definition f64_ceil :: "f64 \<Rightarrow> f64" where
  "f64_ceil x = f64_integral (if f64_neg x then (div) else nat_div_up) x"
definition f64_round_ties_even :: "f64 \<Rightarrow> f64" where "f64_round_ties_even = f64_integral rne"

definition f64_signum :: "f64 \<Rightarrow> f64" where
  "f64_signum x = (if f64_is_nan x then f64_nan else f64_of_int (if f64_neg x then - 1 else 1))"

text \<open>
  The square root, correctly rounded: the integer root of the value scaled by \<open>2 ^ 200\<close>, with a last
  bit that says whether it is exact.
\<close>

definition f64_sqrt :: "f64 \<Rightarrow> f64" where
  "f64_sqrt x =
     (if f64_is_nan x then f64_nan else if f64_mag x = 0 then x else if f64_neg x then f64_nan
      else if f64_is_infinite x then x
      else let n = mag_units (f64_mag x) * 2 ^ 1074 * 2 ^ 200; r = isqrt n
        in f64_make False (round_mag (2 * r + (if r * r = n then 0 else 1)) (2 * 2 ^ 100)))"

text \<open>\<open>f64::EPSILON\<close> is \<open>2 ^ - 52\<close>.\<close>

definition f64_epsilon :: f64 where "f64_epsilon = f64_make False (round_mag (2 ^ 1022) 1)"

section \<open>Arguments\<close>

type_synonym args = "(string, json) btree"
type_synonym outcome = "(exec_error, json) result option"

definition pure_result :: "(exec_error, json) result \<Rightarrow> outcome" where "pure_result r = Some r"

definition arg_number :: "args \<Rightarrow> string \<Rightarrow> (exec_error, f64) result" where
  "arg_number args key =
     ok_or (InvalidGraph (''expected numeric `'' @ key @ ''` argument'')) (Option.bind (bt_get args key) as_f64)"

definition arg_bool :: "args \<Rightarrow> string \<Rightarrow> (exec_error, bool) result" where
  "arg_bool args key =
     ok_or (InvalidGraph (''expected boolean `'' @ key @ ''` argument'')) (Option.bind (bt_get args key) as_bool)"

fun as_i64 :: "json \<Rightarrow> int option" where
  "as_i64 (JNumber (PosInt n)) = (if n < 2 ^ 63 then Some (int n) else None)"
| "as_i64 (JNumber (NegInt i)) = Some i"
| "as_i64 _ = None"

section \<open>The handler macros\<close>

definition unary_num_handler :: "string \<Rightarrow> (f64 \<Rightarrow> f64) \<Rightarrow> args \<Rightarrow> outcome" where
  "unary_num_handler key f args = Some (and_then (arg_number args key) (\<lambda>x. Ok (json_from_f64 (f x))))"

definition binary_num_handler :: "string \<Rightarrow> string \<Rightarrow> (f64 \<Rightarrow> f64 \<Rightarrow> f64) \<Rightarrow> args \<Rightarrow> outcome" where
  "binary_num_handler ka kb f args =
     Some (and_then (arg_number args ka) (\<lambda>a. and_then (arg_number args kb) (\<lambda>b. Ok (json_from_f64 (f a b)))))"

definition cmp_handler :: "(f64 \<Rightarrow> f64 \<Rightarrow> bool) \<Rightarrow> args \<Rightarrow> outcome" where
  "cmp_handler f args =
     Some (and_then (arg_number args ''x'') (\<lambda>x. and_then (arg_number args ''y'') (\<lambda>y. Ok (JBool (f x y)))))"

definition mod_fn :: "f64 \<Rightarrow> f64 \<Rightarrow> f64" where
  "mod_fn x y = f64_sub x (f64_mul y (f64_floor (f64_div x y)))"

section \<open>Handlers with a body of their own\<close>

definition eq_test :: "args \<Rightarrow> f64 \<Rightarrow> f64 \<Rightarrow> bool" where
  "eq_test args x y =
     (case Option.bind (bt_get args ''delta'') as_f64 of
        Some d \<Rightarrow> f64_le (f64_abs (f64_sub x y)) d
      | None \<Rightarrow> f64_eq x y)"

definition eq_handler :: "args \<Rightarrow> outcome" where
  "eq_handler args =
     Some (and_then (arg_number args ''x'') (\<lambda>x. and_then (arg_number args ''y'') (\<lambda>y. Ok (JBool (eq_test args x y)))))"

definition neq_handler :: "args \<Rightarrow> outcome" where
  "neq_handler args =
     Some (and_then (arg_number args ''x'') (\<lambda>x. and_then (arg_number args ''y'') (\<lambda>y. Ok (JBool (\<not> eq_test args x y)))))"

definition log_handler :: "libm \<Rightarrow> args \<Rightarrow> outcome" where
  "log_handler m args =
     Some (and_then (arg_number args ''x'') (\<lambda>x. and_then (arg_number args ''base'') (\<lambda>base.
       if f64_le base (f64_of_nat 0) \<or> f64_lt (f64_abs (f64_sub base (f64_of_nat 1))) f64_epsilon
       then Err (InvalidGraph ''log: base must be > 0 and != 1'')
       else Ok (json_from_f64 (m_log m x base)))))"

text \<open>\<open>p as i32\<close> keeps the low 32 bits.\<close>

definition as_i32 :: "int \<Rightarrow> int" where "as_i32 i = sint (of_int i :: 32 word)"

definition round_handler :: "libm \<Rightarrow> args \<Rightarrow> outcome" where
  "round_handler m args =
     Some (and_then (arg_number args ''x'') (\<lambda>x.
       let p = (case Option.bind (bt_get args ''p'') as_i64 of Some p \<Rightarrow> p | None \<Rightarrow> 0);
           factor = m_powi m (f64_of_nat 10) (as_i32 p)
       in Ok (json_from_f64 (f64_div (f64_round_ties_even (f64_mul x factor)) factor))))"

text \<open>\<open>f64::clamp\<close> panics unless \<open>min <= max\<close>.\<close>

definition clip_handler :: "args \<Rightarrow> outcome" where
  "clip_handler args =
     (case arg_number args ''x'' of Inl e \<Rightarrow> Some (Err e)
      | Inr x \<Rightarrow> (case arg_number args ''min'' of Inl e \<Rightarrow> Some (Err e)
      | Inr lo \<Rightarrow> (case arg_number args ''max'' of Inl e \<Rightarrow> Some (Err e)
      | Inr hi \<Rightarrow> if f64_le lo hi then Some (Ok (json_from_f64 (f64_clamp x lo hi))) else None)))"

definition normalized_difference_handler :: "args \<Rightarrow> outcome" where
  "normalized_difference_handler args =
     Some (and_then (arg_number args ''x'') (\<lambda>x. and_then (arg_number args ''y'') (\<lambda>y.
       let denom = f64_add x y
       in if f64_eq denom (f64_of_nat 0) then Err (InvalidGraph ''normalized_difference: x + y == 0'')
          else Ok (json_from_f64 (f64_div (f64_sub x y) denom)))))"

definition between_handler :: "args \<Rightarrow> outcome" where
  "between_handler args =
     Some (and_then (arg_number args ''x'') (\<lambda>x. and_then (arg_number args ''min'') (\<lambda>lo. and_then (arg_number args ''max'') (\<lambda>hi.
       let exclude_max = (case Option.bind (bt_get args ''exclude_max'') as_bool of Some b \<Rightarrow> b | None \<Rightarrow> False)
       in Ok (JBool (f64_le lo x \<and> (if exclude_max then f64_lt x hi else f64_le x hi)))))))"

text \<open>\<open>&&\<close> and \<open>||\<close> evaluate the second argument only when it decides.\<close>

definition and_handler :: "args \<Rightarrow> outcome" where
  "and_handler args = Some (and_then (arg_bool args ''x'') (\<lambda>x.
     if x then and_then (arg_bool args ''y'') (\<lambda>y. Ok (JBool y)) else Ok (JBool False)))"

definition or_handler :: "args \<Rightarrow> outcome" where
  "or_handler args = Some (and_then (arg_bool args ''x'') (\<lambda>x.
     if x then Ok (JBool True) else and_then (arg_bool args ''y'') (\<lambda>y. Ok (JBool y))))"

definition xor_handler :: "args \<Rightarrow> outcome" where
  "xor_handler args = Some (and_then (arg_bool args ''x'') (\<lambda>x. and_then (arg_bool args ''y'') (\<lambda>y. Ok (JBool (x \<noteq> y)))))"

definition not_handler :: "args \<Rightarrow> outcome" where
  "not_handler args = Some (and_then (arg_bool args ''x'') (\<lambda>x. Ok (JBool (\<not> x))))"

definition divide_handler :: "args \<Rightarrow> outcome" where
  "divide_handler args =
     Some (and_then (arg_number args ''x'') (\<lambda>x. and_then (arg_number args ''y'') (\<lambda>y.
       if f64_eq y (f64_of_nat 0) then Err (InvalidGraph ''divide: y must be non-zero'')
       else Ok (json_from_f64 (f64_div x y)))))"

definition save_result_handler :: "args \<Rightarrow> outcome" where
  "save_result_handler args =
     (let format = (case Option.bind (bt_get args ''format'') as_str of Some f \<Rightarrow> f | None \<Rightarrow> []);
          data = (case bt_get args ''data'' of Some d \<Rightarrow> d | None \<Rightarrow> JNull)
      in Some (Ok (if format = [] then data
        else JObject [(''__save_result'', JObject [(''data'', data), (''format'', JString format)])])))"

section \<open>Array processes\<close>

text \<open>
  Equality of JSON values: numbers of the same representation by value, arrays element by element,
  objects as maps.
\<close>

fun number_eq :: "json_number \<Rightarrow> json_number \<Rightarrow> bool" where
  "number_eq (PosInt a) (PosInt b) = (a = b)"
| "number_eq (NegInt a) (NegInt b) = (a = b)"
| "number_eq (Float a) (Float b) = f64_eq a b"
| "number_eq _ _ = False"

fun json_eq :: "json \<Rightarrow> json \<Rightarrow> bool" where
  "json_eq JNull JNull = True"
| "json_eq (JBool a) (JBool b) = (a = b)"
| "json_eq (JNumber a) (JNumber b) = number_eq a b"
| "json_eq (JString a) (JString b) = (a = b)"
| "json_eq (JArray xs) (JArray ys) = list_all2 json_eq xs ys"
| "json_eq (JObject xs) (JObject ys) =
     (length xs = length ys \<and> list_all (\<lambda>kv. list_ex (\<lambda>lw. fst kv = fst lw \<and> json_eq (snd kv) (snd lw)) ys) xs)"
| "json_eq _ _ = False"

definition MAX_ARRAY_LEN :: nat where "MAX_ARRAY_LEN = 10000000"

definition arr :: "args \<Rightarrow> string \<Rightarrow> (exec_error, json list) result" where
  "arr args key = ok_or (InvalidGraph (''expected array `'' @ key @ ''` argument'')) (Option.bind (bt_get args key) as_array)"

definition bool_arg :: "args \<Rightarrow> string \<Rightarrow> bool \<Rightarrow> bool" where
  "bool_arg args key dflt = (case Option.bind (bt_get args key) as_bool of Some b \<Rightarrow> b | None \<Rightarrow> dflt)"

definition show_int :: "int \<Rightarrow> string" where
  "show_int i = (if i < 0 then CHR ''-'' # show_nat (nat (- i)) else show_nat (nat i))"

definition array_element :: "args \<Rightarrow> (exec_error, json) result" where
  "array_element args =
     and_then (arr args ''data'') (\<lambda>data.
     let return_nodata = bool_arg args ''return_nodata'' False in
     and_then (ok_or (InvalidGraph ''array_element: `index` (integer) required (label lookup unsupported on raw arrays)'')
         (Option.bind (bt_get args ''index'') as_i64)) (\<lambda>index.
       if index < 0 then Err (InvalidGraph ''array_element: index must be >= 0'')
       else if nat index < length data then Ok (data ! nat index)
       else if return_nodata then Ok JNull
       else Err (InvalidGraph (''array_element: index '' @ show_int index @ '' out of bounds (len '' @ show_nat (length data) @ '')''))))"

text \<open>The UTF-8 bytes of the multiplication sign in the message.\<close>

definition times_sign :: string where "times_sign = [CHR 0xC3, CHR 0x97]"

definition array_create :: "args \<Rightarrow> (exec_error, json) result" where
  "array_create args =
     (let data = (case Option.bind (bt_get args ''data'') as_array of Some d \<Rightarrow> d | None \<Rightarrow> []);
          repeat = max (case Option.bind (bt_get args ''repeat'') as_u64 of Some r \<Rightarrow> r | None \<Rightarrow> 1) 1
      in if data = [] then Ok (JArray [])
         else if length data * repeat < 2 ^ 64 \<and> length data * repeat \<le> MAX_ARRAY_LEN
         then Ok (JArray (concat (replicate repeat data)))
         else Err (InvalidGraph (''array_create: result length '' @ show_nat (length data) @ times_sign @ show_nat repeat @
           '' exceeds the '' @ show_nat MAX_ARRAY_LEN @ ''-element cap'')))"

definition array_concat :: "args \<Rightarrow> (exec_error, json) result" where
  "array_concat args = and_then (arr args ''array1'') (\<lambda>a. and_then (arr args ''array2'') (\<lambda>b. Ok (JArray (a @ b))))"

definition array_append :: "args \<Rightarrow> (exec_error, json) result" where
  "array_append args =
     and_then (arr args ''data'') (\<lambda>data.
     and_then (ok_or (InvalidGraph ''array_append: missing `value`'') (bt_get args ''value'')) (\<lambda>v. Ok (JArray (data @ [v]))))"

definition array_contains :: "args \<Rightarrow> (exec_error, json) result" where
  "array_contains args =
     and_then (arr args ''data'') (\<lambda>data.
     and_then (ok_or (InvalidGraph ''array_contains: missing `value`'') (bt_get args ''value'')) (\<lambda>v.
       Ok (JBool (list_ex (\<lambda>x. json_eq x v) data))))"

fun position_from :: "nat \<Rightarrow> ('a \<Rightarrow> bool) \<Rightarrow> 'a list \<Rightarrow> nat option" where
  "position_from i P [] = None"
| "position_from i P (x # xs) = (if P x then Some i else position_from (Suc i) P xs)"

definition array_find :: "args \<Rightarrow> (exec_error, json) result" where
  "array_find args =
     and_then (arr args ''data'') (\<lambda>data.
     and_then (ok_or (InvalidGraph ''array_find: missing `value`'') (bt_get args ''value'')) (\<lambda>v.
       Ok (case position_from 0 (\<lambda>x. json_eq x v) data of Some i \<Rightarrow> JNumber (PosInt i) | None \<Rightarrow> JNull)))"

text \<open>Both branches of the condition count the elements that are not null.\<close>

definition array_count :: "args \<Rightarrow> (exec_error, json) result" where
  "array_count args = and_then (arr args ''data'') (\<lambda>data. Ok (JNumber (PosInt (length (filter (\<lambda>v. v \<noteq> JNull) data)))))"

text \<open>Each element with its position and its value, \<open>None\<close> for nodata.\<close>

definition numeric_with_index :: "json list \<Rightarrow> (nat \<times> f64 option) list" where
  "numeric_with_index data =
     map (\<lambda>(i, v). (i, case as_f64 v of Some f \<Rightarrow> if f64_is_finite f then Some f else None | None \<Rightarrow> None))
       (zip [0..<length data] data)"

text \<open>
  \<open>sort_by\<close> is stable. On finite numbers \<open>partial_cmp\<close> compares the values, so the result is that of
  the stable sort by value, or by its negation when the comparison is reversed.
\<close>

definition sort_key_of :: "bool \<Rightarrow> f64 \<Rightarrow> int" where
  "sort_key_of asc f = (if asc then f64_units f else - f64_units f)"

definition array_order :: "args \<Rightarrow> (exec_error, json) result" where
  "array_order args =
     and_then (arr args ''data'') (\<lambda>data.
     let asc = bool_arg args ''asc'' True;
         nodata = Option.bind (bt_get args ''nodata'') as_bool;
         items = numeric_with_index data;
         valid = sort_key (\<lambda>(i, f). sort_key_of asc f) (List.map_filter (\<lambda>(i, f). map_option (Pair i) f) items);
         nodata_idx = map fst (filter (\<lambda>(i, f). f = None) items);
         index = (\<lambda>i. JNumber (PosInt i))
     in Ok (JArray ((if nodata = Some False then map index nodata_idx else []) @ map (\<lambda>(i, f). index i) valid @
          (if nodata = Some True then map index nodata_idx else []))))"

definition array_sort :: "args \<Rightarrow> (exec_error, json) result" where
  "array_sort args =
     and_then (arr args ''data'') (\<lambda>data.
     let asc = bool_arg args ''asc'' True;
         nodata = Option.bind (bt_get args ''nodata'') as_bool;
         items = numeric_with_index data;
         valid = sort_key (sort_key_of asc) (List.map_filter snd items);
         nodata_vals = replicate (length (filter (\<lambda>(i, f). f = None) items)) JNull;
         numbers = map (\<lambda>f. JNumber (Float f)) (filter f64_is_finite valid)
     in Ok (JArray ((if nodata = Some False then nodata_vals else []) @ numbers @
          (if nodata = Some True then nodata_vals else []))))"

section \<open>Stable sorting\<close>

lemma sort_key_map: "sort_key f (map h xs) = map h (sort_key (f \<circ> h) xs)"
proof -
  have "insort_key f (h x) (map h ys) = map h (insort_key (f \<circ> h) x ys)" for x ys by (induction ys) simp_all
  then show ?thesis by (induction xs) simp_all
qed

lemma insort_key_lex:
  "sorted_wrt (\<lambda>x y. f x < f y \<or> f x = f y \<and> g x < (g y :: nat)) ys \<Longrightarrow> \<forall>y \<in> set ys. g x < g y \<Longrightarrow>
   sorted_wrt (\<lambda>x y. f x < f y \<or> f x = f y \<and> g x < g y) (insort_key (f :: 'a \<Rightarrow> int) x ys)"
  by (induction ys) (auto simp: set_insort_key)

lemma sort_key_lex:
  "sorted_wrt (\<lambda>x y. g x < (g y :: nat)) xs \<Longrightarrow>
   sorted_wrt (\<lambda>x y. f x < f y \<or> f x = f y \<and> g x < g y) (sort_key (f :: 'a \<Rightarrow> int) xs)"
  by (induction xs) (auto intro!: insort_key_lex)

section \<open>Order and sort\<close>

definition finite_number :: "json \<Rightarrow> f64 option" where
  "finite_number v = (case as_f64 v of Some f \<Rightarrow> if f64_is_finite f then Some f else None | None \<Rightarrow> None)"

definition number_at :: "json list \<Rightarrow> nat \<Rightarrow> f64" where "number_at data i = the (finite_number (data ! i))"

definition valid_positions :: "json list \<Rightarrow> nat list" where
  "valid_positions data = filter (\<lambda>i. finite_number (data ! i) \<noteq> None) [0..<length data]"

definition nodata_positions :: "json list \<Rightarrow> nat list" where
  "nodata_positions data = filter (\<lambda>i. finite_number (data ! i) = None) [0..<length data]"

lemma numeric_with_index_eq: "numeric_with_index data = map (\<lambda>i. (i, finite_number (data ! i))) [0..<length data]"
  by (rule nth_equalityI) (simp_all add: numeric_with_index_def finite_number_def)

lemma valid_pairs:
  "List.map_filter (\<lambda>(i, f). map_option (Pair i) f) (numeric_with_index data) = map (\<lambda>i. (i, number_at data i)) (valid_positions data)"
  "List.map_filter snd (numeric_with_index data) = map (number_at data) (valid_positions data)"
  by (simp_all add: numeric_with_index_eq valid_positions_def map_filter_def filter_map comp_def number_at_def case_prod_beta)
    (auto intro!: map_cong)

lemma nodata_pairs: "map fst (filter (\<lambda>(i, f). f = None) (numeric_with_index data)) = nodata_positions data"
  by (simp add: numeric_with_index_eq nodata_positions_def filter_map comp_def)

definition order_of :: "bool \<Rightarrow> json list \<Rightarrow> nat list" where
  "order_of asc data = sort_key (\<lambda>i. sort_key_of asc (number_at data i)) (valid_positions data)"

lemma sorted_pairs:
  "sort_key (\<lambda>(i, f). sort_key_of asc f) (List.map_filter (\<lambda>(i, f). map_option (Pair i) f) (numeric_with_index data)) =
     map (\<lambda>i. (i, number_at data i)) (order_of asc data)"
  "sort_key (sort_key_of asc) (List.map_filter snd (numeric_with_index data)) = map (number_at data) (order_of asc data)"
  by (simp_all add: valid_pairs sort_key_map comp_def order_of_def)

lemma order_of_spec:
  shows "set (order_of asc data) = {i. i < length data \<and> finite_number (data ! i) \<noteq> None}"
    and "sorted_wrt (\<lambda>i j. sort_key_of asc (number_at data i) < sort_key_of asc (number_at data j) \<or>
      sort_key_of asc (number_at data i) = sort_key_of asc (number_at data j) \<and> i < j) (order_of asc data)"
    and "distinct (order_of asc data)"
proof -
  have "sorted_wrt (<) (valid_positions data)" by (simp add: valid_positions_def sorted_wrt_filter)
  then show "sorted_wrt (\<lambda>i j. sort_key_of asc (number_at data i) < sort_key_of asc (number_at data j) \<or>
      sort_key_of asc (number_at data i) = sort_key_of asc (number_at data j) \<and> i < j) (order_of asc data)"
    using sort_key_lex [of "\<lambda>i. i"] by (simp add: order_of_def)
qed (simp_all add: order_of_def valid_positions_def)

definition placed :: "bool option \<Rightarrow> 'a list \<Rightarrow> 'a list \<Rightarrow> 'a list" where
  "placed nodata nod vals = (if nodata = Some False then nod else []) @ vals @ (if nodata = Some True then nod else [])"

lemma array_order_eq:
  "bt_get args ''data'' = Some (JArray data) \<Longrightarrow> array_order args = Ok (JArray (map (\<lambda>i. JNumber (PosInt i))
     (placed (Option.bind (bt_get args ''nodata'') as_bool) (nodata_positions data) (order_of (bool_arg args ''asc'' True) data))))"
  by (simp add: array_order_def arr_def Let_def sorted_pairs nodata_pairs placed_def)

lemma number_at_finite: "finite_number (data ! i) \<noteq> None \<Longrightarrow> f64_is_finite (number_at data i)"
  by (auto simp: number_at_def finite_number_def split: option.splits if_splits)

lemma array_sort_eq:
  assumes "bt_get args ''data'' = Some (JArray data)"
  shows "array_sort args = Ok (JArray (placed (Option.bind (bt_get args ''nodata'') as_bool)
     (map (\<lambda>_. JNull) (nodata_positions data))
     (map (\<lambda>i. JNumber (Float (number_at data i))) (order_of (bool_arg args ''asc'' True) data))))"
proof -
  have "filter f64_is_finite (map (number_at data) (order_of asc data)) = map (number_at data) (order_of asc data)" for asc
    using number_at_finite order_of_spec(1) by (auto simp: filter_id_conv)
  moreover have "length (filter (\<lambda>(i, f). f = None) (numeric_with_index data)) = length (nodata_positions data)"
    using nodata_pairs [of data] by (metis length_map)
  ultimately show ?thesis using assms
    by (simp add: array_sort_def arr_def Let_def sorted_pairs placed_def map_replicate_const comp_def)
qed

text \<open>
  C17. \<open>order\<close> returns the permutation that sorts the finite numbers of an array, in the requested
  direction and with equal numbers in their original order; \<open>sort\<close> returns those numbers in exactly
  that order. Elements that are null or no numbers are dropped, placed first or placed last as
  \<open>nodata\<close> says, by \<open>order\<close> with their positions and by \<open>sort\<close> as nulls.
\<close>

theorem order_and_sort:
  assumes "bt_get args ''data'' = Some (JArray data)"
  shows "\<exists>perm. distinct perm \<and> set perm = {i. i < length data \<and> finite_number (data ! i) \<noteq> None} \<and>
    sorted_wrt (\<lambda>i j. let a = number_at data i; b = number_at data j in
      (if bool_arg args ''asc'' True then f64_lt a b else f64_lt b a) \<or> f64_eq a b \<and> i < j) perm \<and>
    array_order args = Ok (JArray (map (\<lambda>i. JNumber (PosInt i))
      (placed (Option.bind (bt_get args ''nodata'') as_bool) (nodata_positions data) perm))) \<and>
    array_sort args = Ok (JArray (placed (Option.bind (bt_get args ''nodata'') as_bool)
      (map (\<lambda>_. JNull) (nodata_positions data)) (map (\<lambda>i. JNumber (Float (number_at data i))) perm)))"
proof -
  let ?perm = "order_of (bool_arg args ''asc'' True) data"
  have fin: "\<not> f64_is_nan (number_at data i)" if "i \<in> set ?perm" for i
    using that order_of_spec(1) number_at_finite [of data i] by (auto simp: f64_is_finite_def f64_is_nan_def)
  have "sorted_wrt (\<lambda>i j. let a = number_at data i; b = number_at data j in
      (if bool_arg args ''asc'' True then f64_lt a b else f64_lt b a) \<or> f64_eq a b \<and> i < j) ?perm"
    by (rule sorted_wrt_mono_rel [OF _ order_of_spec(2)])
      (use fin in \<open>auto simp: sort_key_of_def f64_lt_def f64_eq_def Let_def split: if_splits\<close>)
  then show ?thesis
    using order_of_spec(1,3) array_order_eq [OF assms] array_sort_eq [OF assms] by blast
qed

lemma distinct_pair_cases:
  assumes "distinct xs" and "set xs = {a, b}" and "a \<noteq> b"
  shows "xs = [a, b] \<or> xs = [b, a]"
proof -
  have "length xs = 2" using assms by (metis card_2_iff distinct_card)
  then obtain x y where "xs = [x, y]" by (auto simp: numeral_2_eq_2 length_Suc_conv)
  then show ?thesis using assms by (auto simp: doubleton_eq_iff)
qed

definition sample_array :: "json list" where
  "sample_array = [JNumber (Float 4), JNull, JNumber (Float 2)]"

lemma sample_numbers: "finite_number (JNumber (Float 4)) = Some 4" "finite_number (JNumber (Float 2)) = Some 2"
  by (simp_all add: finite_number_def f64_is_finite_def f64_mag_def inf_mag_def)

theorem order_and_sort_witness:
  "array_order [(''data'', JArray sample_array)] = Ok (JArray [JNumber (PosInt 2), JNumber (PosInt 0)]) \<and>
   array_sort [(''data'', JArray sample_array)] = Ok (JArray [JNumber (Float 2), JNumber (Float 4)])"
proof -
  let ?args = "[(''data'', JArray sample_array)]"
  obtain perm where p: "distinct perm" "set perm = {i. i < length sample_array \<and> finite_number (sample_array ! i) \<noteq> None}"
    "sorted_wrt (\<lambda>i j. let a = number_at sample_array i; b = number_at sample_array j in
      (if bool_arg ?args ''asc'' True then f64_lt a b else f64_lt b a) \<or> f64_eq a b \<and> i < j) perm"
    "array_order ?args = Ok (JArray (map (\<lambda>i. JNumber (PosInt i))
      (placed (Option.bind (bt_get ?args ''nodata'') as_bool) (nodata_positions sample_array) perm)))"
    "array_sort ?args = Ok (JArray (placed (Option.bind (bt_get ?args ''nodata'') as_bool)
      (map (\<lambda>_. JNull) (nodata_positions sample_array)) (map (\<lambda>i. JNumber (Float (number_at sample_array i))) perm)))"
    using order_and_sort [of ?args sample_array] by (auto simp: bt_get_def)
  have "{i. i < length sample_array \<and> finite_number (sample_array ! i) \<noteq> None} = {0, 2}"
    using sample_numbers by (auto simp: sample_array_def less_Suc_eq finite_number_def nth_Cons')
  then have "perm = [0, 2] \<or> perm = [2, 0]" using p(1,2) distinct_pair_cases [of perm 0 2] by simp
  moreover have "perm \<noteq> [0, 2]"
  proof
    assume "perm = [0, 2]"
    then show False using p(3) sample_numbers
      by (simp add: number_at_def sample_array_def bool_arg_def bt_get_def f64_lt_def f64_eq_def f64_units_def
          f64_neg_def f64_mag_def mag_units_def f64_is_nan_def inf_mag_def)
  qed
  ultimately have "perm = [2, 0]" by blast
  then show ?thesis using p(4,5) sample_numbers by (simp add: placed_def bt_get_def number_at_def sample_array_def)
qed

end
