(* ===== verification/Data_Cube.thy ===== *)
theory Data_Cube
  imports Local_Executor
begin

text \<open>
  The cube envelope of \<open>apps/orbit-openeo/src/data_cube.rs\<close> that the processes of the raster executor
  pass to each other: the typed record, its JSON form and the two envelopes. A path is its text; the
  message of a failed decoding is the parameter \<open>decode_msg\<close>.
\<close>

section \<open>The record\<close>

datatype cube_error = MissingBand string | MissingEnvelope | Decode string

fun cube_error_display :: "cube_error \<Rightarrow> string" where
  "cube_error_display (MissingBand b) = ''DataCube missing required band: '' @ b"
| "cube_error_display MissingEnvelope = ''DataCube envelope missing `__cube` key''"
| "cube_error_display (Decode m) = ''DataCube decode failed: '' @ m"

record data_cube =
  c_bands :: "(string, string list) btree"
  c_band_scales :: "(string, f64 \<times> f64) btree"
  c_collection :: "string option"
  c_bbox :: "f64 list option"
  c_scene_count :: "nat option"
  c_datetimes :: "string list option"
  c_times :: "nat option"
  c_layers :: "nat option"
  c_layer_names :: "string list option"
  c_source_band :: "string option"
  c_masked_bands :: "string list option"
  c_masked_by :: "string option"
  c_replacement :: "int option"
  c_extras :: "(string, json) btree"

definition cube_new :: data_cube where
  "cube_new = \<lparr>c_bands = [], c_band_scales = [], c_collection = None, c_bbox = None, c_scene_count = None,
     c_datetimes = None, c_times = None, c_layers = None, c_layer_names = None, c_source_band = None,
     c_masked_bands = None, c_masked_by = None, c_replacement = None, c_extras = []\<rparr>"

definition cube_band :: "data_cube \<Rightarrow> string \<Rightarrow> string list option" where
  "cube_band c b = bt_get (c_bands c) b"

definition band_required :: "data_cube \<Rightarrow> string \<Rightarrow> (cube_error, string list) result" where
  "band_required c b = ok_or (MissingBand b) (cube_band c b)"

definition take_band :: "data_cube \<Rightarrow> string \<Rightarrow> (cube_error, string list) result \<times> data_cube" where
  "take_band c b = (ok_or (MissingBand b) (bt_get (c_bands c) b), c\<lparr>c_bands := bt_remove b (c_bands c)\<rparr>)"

section \<open>The JSON form\<close>

text \<open>Element codecs. \<open>None\<close> is a value of the wrong type or length.\<close>

fun opt_all :: "('a \<Rightarrow> 'b option) \<Rightarrow> 'a list \<Rightarrow> 'b list option" where
  "opt_all f [] = Some []"
| "opt_all f (x # xs) = Option.bind (f x) (\<lambda>y. Option.bind (opt_all f xs) (\<lambda>ys. Some (y # ys)))"

definition dec_list :: "(json \<Rightarrow> 'a option) \<Rightarrow> json \<Rightarrow> 'a list option" where
  "dec_list f v = Option.bind (as_array v) (opt_all f)"

definition dec_map :: "(json \<Rightarrow> 'a option) \<Rightarrow> json \<Rightarrow> (string, 'a) btree option" where
  "dec_map f v = Option.bind (as_object v) (\<lambda>kvs.
     map_option (\<lambda>xs. fold (\<lambda>(k, x). bt_insert k x) xs []) (opt_all (\<lambda>(k, w). map_option (Pair k) (f w)) kvs))"

definition dec_pair :: "json \<Rightarrow> (f64 \<times> f64) option" where
  "dec_pair v = Option.bind (dec_list as_f64 v) (\<lambda>xs. case xs of [a, b] \<Rightarrow> Some (a, b) | _ \<Rightarrow> None)"

fun dec_i64 :: "json \<Rightarrow> int option" where
  "dec_i64 (JNumber (PosInt n)) = (if n < 2 ^ 63 then Some (int n) else None)"
| "dec_i64 (JNumber (NegInt i)) = Some i"
| "dec_i64 _ = None"

text \<open>A field with \<open>serde(default)\<close>; for an \<open>Option\<close>, \<open>null\<close> is \<open>None\<close>.\<close>

definition dec_default :: "'a \<Rightarrow> (json \<Rightarrow> 'a option) \<Rightarrow> (string \<times> json) list \<Rightarrow> string \<Rightarrow> 'a option" where
  "dec_default d f kvs k = (case map_of kvs k of None \<Rightarrow> Some d | Some v \<Rightarrow> f v)"

definition dec_opt :: "(json \<Rightarrow> 'a option) \<Rightarrow> json \<Rightarrow> 'a option option" where
  "dec_opt f v = (if v = JNull then Some None else map_option Some (f v))"

definition field_names :: "string list" where
  "field_names = [''bands'', ''band_scales'', ''collection'', ''bbox'', ''scene_count'', ''datetimes'', ''times'', ''layers'',
     ''layer_names'', ''source_band'', ''masked_bands'', ''masked_by'', ''replacement'']"

text \<open>The derived decoder, with every other key collected by \<open>serde(flatten)\<close>.\<close>

definition decode_cube :: "json \<Rightarrow> data_cube option" where
  "decode_cube v =
     Option.bind (as_object v) (\<lambda>kvs.
     let num = dec_default None (dec_opt as_u64) kvs;
         str = dec_default None (dec_opt as_str) kvs; strs = dec_default None (dec_opt (dec_list as_str)) kvs in
     Option.bind (dec_default [] (dec_map (dec_list as_str)) kvs ''bands'') (\<lambda>bands.
     Option.bind (dec_default [] (dec_map dec_pair) kvs ''band_scales'') (\<lambda>scales.
     Option.bind (str ''collection'') (\<lambda>collection.
     Option.bind (dec_default None (dec_opt (dec_list as_f64)) kvs ''bbox'') (\<lambda>bbox.
     Option.bind (num ''scene_count'') (\<lambda>scene_count.
     Option.bind (strs ''datetimes'') (\<lambda>datetimes.
     Option.bind (num ''times'') (\<lambda>times.
     Option.bind (num ''layers'') (\<lambda>layers.
     Option.bind (strs ''layer_names'') (\<lambda>layer_names.
     Option.bind (str ''source_band'') (\<lambda>source_band.
     Option.bind (strs ''masked_bands'') (\<lambda>masked_bands.
     Option.bind (str ''masked_by'') (\<lambda>masked_by.
     Option.bind (dec_default None (dec_opt dec_i64) kvs ''replacement'') (\<lambda>replacement.
       Some \<lparr>c_bands = bands, c_band_scales = scales, c_collection = collection, c_bbox = bbox, c_scene_count = scene_count,
         c_datetimes = datetimes, c_times = times, c_layers = layers, c_layer_names = layer_names, c_source_band = source_band,
         c_masked_bands = masked_bands, c_masked_by = masked_by, c_replacement = replacement,
         c_extras = fold (\<lambda>(k, x). bt_insert k x) (filter (\<lambda>kx. fst kx \<notin> set field_names) kvs) []\<rparr>))))))))))))))"

definition enc_paths :: "string list \<Rightarrow> json" where "enc_paths ps = JArray (map JString ps)"
definition enc_int :: "int \<Rightarrow> json" where
  "enc_int i = JNumber (if i < 0 then NegInt i else PosInt (nat i))"
definition enc_f64s :: "f64 list \<Rightarrow> json" where "enc_f64s xs = JArray (map json_from_f64 xs)"
definition enc_map :: "('a \<Rightarrow> json) \<Rightarrow> (string, 'a) btree \<Rightarrow> json" where
  "enc_map f m = JObject (map (\<lambda>(k, x). (k, f x)) m)"
definition enc_num :: "nat \<Rightarrow> json" where "enc_num n = JNumber (PosInt n)"

text \<open>The fields in the order of the struct; \<open>None\<close> where \<open>skip_serializing_if\<close> leaves one out.\<close>

definition cube_fields :: "data_cube \<Rightarrow> (string \<times> json option) list" where
  "cube_fields c =
    [(''bands'', Some (enc_map enc_paths (c_bands c))),
     (''band_scales'', if c_band_scales c = [] then None else Some (enc_map (\<lambda>(a, b). enc_f64s [a, b]) (c_band_scales c))),
     (''collection'', map_option JString (c_collection c)),
     (''bbox'', map_option enc_f64s (c_bbox c)),
     (''scene_count'', map_option enc_num (c_scene_count c)),
     (''datetimes'', map_option enc_paths (c_datetimes c)),
     (''times'', map_option enc_num (c_times c)),
     (''layers'', map_option enc_num (c_layers c)),
     (''layer_names'', map_option enc_paths (c_layer_names c)),
     (''source_band'', map_option JString (c_source_band c)),
     (''masked_bands'', map_option enc_paths (c_masked_bands c)),
     (''masked_by'', map_option JString (c_masked_by c)),
     (''replacement'', map_option enc_int (c_replacement c))]"

definition present :: "(string \<times> json option) list \<Rightarrow> (string \<times> json) list" where
  "present = List.map_filter (\<lambda>(k, v). map_option (Pair k) v)"

definition encode_cube :: "data_cube \<Rightarrow> json" where
  "encode_cube c = JObject (fold (\<lambda>(k, v). AList.update k v) (present (cube_fields c) @ c_extras c) [])"

definition to_envelope :: "data_cube \<Rightarrow> json" where
  "to_envelope c = JObject [(''__cube'', encode_cube c)]"

definition decode_or_err :: "(json \<Rightarrow> string) \<Rightarrow> json \<Rightarrow> (cube_error, data_cube) result" where
  "decode_or_err decode_msg inner =
     (if inner = JNull then Err MissingEnvelope else ok_or (Decode (decode_msg inner)) (decode_cube inner))"

definition from_envelope :: "(json \<Rightarrow> string) \<Rightarrow> json \<Rightarrow> (cube_error, data_cube) result" where
  "from_envelope decode_msg v =
     decode_or_err decode_msg (case json_get v ''__cube'' of Some inner \<Rightarrow> inner | None \<Rightarrow> v)"

definition from_raster_envelope :: "json \<Rightarrow> (cube_error, data_cube) result" where
  "from_raster_envelope raster =
     and_then (ok_or (Decode ''__raster envelope: missing `path` (string)'') (Option.bind (json_get raster ''path'') as_str)) (\<lambda>path.
       Ok (cube_new\<lparr>c_bands := [(''result'', [path])], c_scene_count := Some 1\<rparr>))"

definition from_envelope_owned :: "(json \<Rightarrow> string) \<Rightarrow> json \<Rightarrow> (cube_error, data_cube) result" where
  "from_envelope_owned decode_msg v =
     (case json_get v ''__raster'' of
        Some raster \<Rightarrow> from_raster_envelope raster
      | None \<Rightarrow> from_envelope decode_msg v)"

section \<open>The codec\<close>

lemma opt_all_map: "(\<And>x. x \<in> set xs \<Longrightarrow> f (g x) = Some (h x)) \<Longrightarrow> opt_all f (map g xs) = Some (map h xs)"
  by (induction xs) auto

lemma dec_paths [simp]: "dec_list as_str (enc_paths ps) = Some ps"
  using opt_all_map [of ps as_str JString "\<lambda>x. x"] by (simp add: dec_list_def enc_paths_def)

lemma dec_f64s: "\<forall>x \<in> set xs. f64_is_finite x \<Longrightarrow> dec_list as_f64 (enc_f64s xs) = Some xs"
  using opt_all_map [of xs as_f64 json_from_f64 "\<lambda>x. x"] as_f64_from_f64 by (simp add: dec_list_def enc_f64s_def)

lemma dec_map_enc: "bt_wf m \<Longrightarrow> \<forall>kx \<in> set m. f (g (snd kx)) = Some (snd kx) \<Longrightarrow> dec_map f (enc_map g m) = Some m"
  using opt_all_map [of m "\<lambda>(k, w). map_option (Pair k) (f w)" "\<lambda>(k, x). (k, g x)" "\<lambda>x. x"]
  by (auto simp: dec_map_def enc_map_def case_prod_beta bt_of_sorted)

lemma dec_pair_enc: "f64_is_finite a \<Longrightarrow> f64_is_finite b \<Longrightarrow> dec_pair (enc_f64s [a, b]) = Some (a, b)"
  using dec_f64s [of "[a, b]"] by (simp add: dec_pair_def)

lemma dec_int [simp]: "- (2 ^ 63) \<le> i \<Longrightarrow> i < 2 ^ 63 \<Longrightarrow> dec_i64 (enc_int i) = Some i"
  by (auto simp: enc_int_def)

lemma enc_not_null [simp]:
  "enc_paths ps \<noteq> JNull" "enc_f64s xs \<noteq> JNull" "enc_num n \<noteq> JNull" "enc_int i \<noteq> JNull" "as_u64 (enc_num n) = Some n"
  by (simp_all add: enc_paths_def enc_f64s_def enc_num_def enc_int_def)

lemma dec_default_opt:
  "map_of kvs k = map_option g x \<Longrightarrow> (\<And>a. x = Some a \<Longrightarrow> g a \<noteq> JNull \<and> f (g a) = Some a) \<Longrightarrow>
   dec_default None (dec_opt f) kvs k = Some x"
  by (cases x) (simp_all add: dec_default_def dec_opt_def)

lemma map_of_present: "distinct (map fst fs) \<Longrightarrow> map_of (present fs) k = Option.bind (map_of fs k) (\<lambda>v. v)"
proof (induction fs)
  case (Cons f fs)
  obtain k' v where f: "f = (k', v)" by (cases f)
  have "k = k' \<Longrightarrow> map_of fs k = None" using Cons.prems f by (auto simp: map_of_eq_None_iff)
  then show ?case using Cons f by (cases v) (auto simp: present_def map_filter_simps)
qed (simp add: present_def map_filter_simps)

lemma present_keys: "set (map fst (present fs)) \<subseteq> set (map fst fs)" "distinct (map fst fs) \<Longrightarrow> distinct (map fst (present fs))"
proof -
  show sub: "set (map fst (present fs)) \<subseteq> set (map fst fs)" for fs
    by (induction fs) (auto simp: present_def map_filter_simps split: option.splits)
  show "distinct (map fst fs) \<Longrightarrow> distinct (map fst (present fs))"
  proof (induction fs)
    case (Cons f fs)
    then show ?case using sub [of fs] by (cases f) (auto simp: present_def map_filter_simps split: option.splits)
  qed (simp add: present_def map_filter_simps)
qed

lemma field_keys: "map fst (cube_fields c) = field_names"
  by (simp add: cube_fields_def field_names_def)

lemma field_names_distinct: "distinct field_names"
  by (simp add: field_names_def)

text \<open>The cubes whose JSON form carries all of them: finite numbers, and no extra key that names a field.\<close>

definition cube_wf :: "data_cube \<Rightarrow> bool" where
  "cube_wf c \<longleftrightarrow> bt_wf (c_bands c) \<and> bt_wf (c_band_scales c) \<and> bt_wf (c_extras c) \<and>
     list_all (\<lambda>(k, a, b). f64_is_finite a \<and> f64_is_finite b) (c_band_scales c) \<and>
     (case c_bbox c of None \<Rightarrow> True | Some xs \<Rightarrow> list_all f64_is_finite xs) \<and>
     (case c_replacement c of None \<Rightarrow> True | Some i \<Rightarrow> - (2 ^ 63) \<le> i \<and> i < 2 ^ 63) \<and>
     list_all (\<lambda>(k, v). k \<notin> set field_names) (c_extras c)"

lemma encode_cube_entries:
  assumes "cube_wf c"
  shows "encode_cube c = JObject (present (cube_fields c) @ c_extras c)"
    and "k \<in> set field_names \<Longrightarrow> map_of (present (cube_fields c) @ c_extras c) k = Option.bind (map_of (cube_fields c) k) (\<lambda>v. v)"
    and "filter (\<lambda>kx. fst kx \<notin> set field_names) (present (cube_fields c) @ c_extras c) = c_extras c"
proof -
  have fields: "distinct (map fst (cube_fields c))" unfolding field_keys by (rule field_names_distinct)
  have keys: "set (map fst (present (cube_fields c))) \<subseteq> set field_names" using present_keys(1) [of "cube_fields c"] by (simp add: field_keys)
  have ex: "bt_wf (c_extras c)" "\<forall>kx \<in> set (c_extras c). fst kx \<notin> set field_names"
    using assms by (auto simp: cube_wf_def list_all_iff)
  have "distinct (map fst (present (cube_fields c)) @ map fst (c_extras c))"
    using present_keys(2) [OF fields] bt_wf_distinct [OF ex(1)] keys ex(2) by (fastforce simp: image_iff)
  then show "encode_cube c = JObject (present (cube_fields c) @ c_extras c)"
    using al_of_distinct [of "[]" "present (cube_fields c) @ c_extras c"] by (simp add: encode_cube_def)
  show "map_of (present (cube_fields c) @ c_extras c) k = Option.bind (map_of (cube_fields c) k) (\<lambda>v. v)" if "k \<in> set field_names"
  proof -
    have "map_of (c_extras c) k = None" using ex(2) that by (force simp: map_of_eq_None_iff)
    then show ?thesis using map_of_present [OF fields, of k] by (simp add: map_add_def split: option.splits)
  qed
  show "filter (\<lambda>kx. fst kx \<notin> set field_names) (present (cube_fields c) @ c_extras c) = c_extras c"
    using keys ex(2) by (force simp: filter_empty_conv filter_id_conv)
qed

lemma cube_lookup:
  assumes "cube_wf c" and "k \<in> set field_names" and "map_of (cube_fields c) k = Some v"
  shows "map_of (present (cube_fields c) @ c_extras c) k = v"
  using encode_cube_entries(2) [OF assms(1,2)] assms(3) by simp

lemma decode_optional:
  assumes "cube_wf c" and "k \<in> set field_names" and "map_of (cube_fields c) k = Some (map_option g x)"
    and "\<And>a. x = Some a \<Longrightarrow> g a \<noteq> JNull \<and> f (g a) = Some a"
  shows "dec_default None (dec_opt f) (present (cube_fields c) @ c_extras c) k = Some x"
  by (rule dec_default_opt [OF cube_lookup [OF assms(1-3)] assms(4)])

lemma decode_encode:
  assumes "cube_wf c"
  shows "decode_cube (encode_cube c) = Some c"
proof -
  let ?kvs = "present (cube_fields c) @ c_extras c"
  note opt = decode_optional [OF assms]
  have "map_of ?kvs ''bands'' = Some (enc_map enc_paths (c_bands c))"
    by (rule cube_lookup [OF assms]) (simp_all add: field_names_def cube_fields_def)
  then have bands: "dec_default [] (dec_map (dec_list as_str)) ?kvs ''bands'' = Some (c_bands c)"
    using assms dec_map_enc [of "c_bands c" "dec_list as_str" enc_paths] by (simp add: dec_default_def cube_wf_def)
  have "map_of ?kvs ''band_scales'' = (if c_band_scales c = [] then None
      else Some (enc_map (\<lambda>(a, b). enc_f64s [a, b]) (c_band_scales c)))"
    by (rule cube_lookup [OF assms]) (simp_all add: field_names_def cube_fields_def)
  moreover have "bt_wf (c_band_scales c)" "\<forall>kx \<in> set (c_band_scales c). dec_pair ((\<lambda>(a, b). enc_f64s [a, b]) (snd kx)) = Some (snd kx)"
    using assms dec_pair_enc by (auto simp: cube_wf_def list_all_iff)
  ultimately have scales: "dec_default [] (dec_map dec_pair) ?kvs ''band_scales'' = Some (c_band_scales c)"
    using dec_map_enc [of "c_band_scales c" dec_pair "\<lambda>(a, b). enc_f64s [a, b]"] by (simp add: dec_default_def)
  have strs: "dec_default None (dec_opt as_str) ?kvs ''collection'' = Some (c_collection c)"
      "dec_default None (dec_opt as_str) ?kvs ''source_band'' = Some (c_source_band c)"
      "dec_default None (dec_opt as_str) ?kvs ''masked_by'' = Some (c_masked_by c)"
    by (rule opt [where g = JString]; simp add: field_names_def cube_fields_def)+
  have nums: "dec_default None (dec_opt as_u64) ?kvs ''scene_count'' = Some (c_scene_count c)"
      "dec_default None (dec_opt as_u64) ?kvs ''times'' = Some (c_times c)"
      "dec_default None (dec_opt as_u64) ?kvs ''layers'' = Some (c_layers c)"
    by (rule opt [where g = enc_num]; simp add: field_names_def cube_fields_def)+
  have lists: "dec_default None (dec_opt (dec_list as_str)) ?kvs ''datetimes'' = Some (c_datetimes c)"
      "dec_default None (dec_opt (dec_list as_str)) ?kvs ''layer_names'' = Some (c_layer_names c)"
      "dec_default None (dec_opt (dec_list as_str)) ?kvs ''masked_bands'' = Some (c_masked_bands c)"
    by (rule opt [where g = enc_paths]; simp add: field_names_def cube_fields_def)+
  have bbox: "dec_default None (dec_opt (dec_list as_f64)) ?kvs ''bbox'' = Some (c_bbox c)"
    by (rule opt [where g = enc_f64s]; use assms in \<open>simp add: field_names_def cube_fields_def cube_wf_def list_all_iff dec_f64s\<close>)
  have repl: "dec_default None (dec_opt dec_i64) ?kvs ''replacement'' = Some (c_replacement c)"
    by (rule opt [where g = enc_int]; use assms in \<open>simp add: field_names_def cube_fields_def cube_wf_def\<close>)
  have extras: "fold (\<lambda>(k, x). bt_insert k x) (filter (\<lambda>kx. fst kx \<notin> set field_names) ?kvs) [] = c_extras c"
    using encode_cube_entries(3) [OF assms] assms by (simp add: cube_wf_def bt_of_sorted)
  show ?thesis unfolding encode_cube_entries(1) [OF assms] decode_cube_def as_object.simps Option.bind_lunit Let_def
      bands scales strs nums lists bbox repl extras by simp
qed

section \<open>Decoded cubes\<close>

text \<open>What every \<open>serde_json\<close> value satisfies: integers in range and finite floats.\<close>

fun json_ok :: "json \<Rightarrow> bool" where
  "json_ok (JNumber (PosInt n)) = (n < 2 ^ 64)"
| "json_ok (JNumber (NegInt i)) = (- (2 ^ 63) \<le> i \<and> i < 0)"
| "json_ok (JNumber (Float x)) = f64_is_finite x"
| "json_ok (JArray xs) = list_all json_ok xs"
| "json_ok (JObject kvs) = list_all (\<lambda>kv. json_ok (snd kv)) kvs"
| "json_ok _ = True"

lemma opt_all_set: "opt_all f xs = Some ys \<Longrightarrow> y \<in> set ys \<Longrightarrow> \<exists>x \<in> set xs. f x = Some y"
  by (induction xs arbitrary: ys) (auto simp: bind_eq_Some_conv)

lemma dec_map_wf: "dec_map f v = Some m \<Longrightarrow> bt_wf m"
  by (auto simp: dec_map_def bind_eq_Some_conv intro!: bt.wf_fold_update bt.wf_empty)

lemma json_ok_lookup: "json_ok (JObject kvs) \<Longrightarrow> map_of kvs k = Some v \<Longrightarrow> json_ok v"
  by (fastforce simp: list_all_iff dest: map_of_SomeD)

lemma dec_map_values:
  assumes "dec_map f v = Some m" and "json_ok v" and "(k, x) \<in> set m"
  shows "\<exists>w. json_ok w \<and> f w = Some x"
proof -
  obtain kvs xs where kvs: "as_object v = Some kvs" "opt_all (\<lambda>(k, w). map_option (Pair k) (f w)) kvs = Some xs"
    "m = fold (\<lambda>(k, x). bt_insert k x) xs []" using assms(1) by (auto simp: dec_map_def bind_eq_Some_conv)
  have "(k, x) \<in> set xs" using fold_bt_insert_subset [of xs "[]"] assms(3) kvs(3) by auto
  then obtain w where "(k, w) \<in> set kvs" "f w = Some x" using opt_all_set [OF kvs(2)] by fastforce
  moreover have "v = JObject kvs" using kvs(1) by (cases v) auto
  ultimately show ?thesis using assms(2) by (auto simp: list_all_iff)
qed

lemma f64_of_int_finite: "nat \<bar>i\<bar> < 2 ^ 64 \<Longrightarrow> f64_is_finite (f64_of_int i)"
  using f64_of_nat_finite(1) [of "nat \<bar>i\<bar>"]
  unfolding f64_is_finite_def f64_of_int_def f64_of_nat_def f64_make_parts(2) [OF round_mag_less] .

lemma as_f64_finite: "json_ok v \<Longrightarrow> as_f64 v = Some x \<Longrightarrow> f64_is_finite x"
  by (induction v rule: as_f64.induct) (auto simp: f64_is_finite_def f64_of_nat_finite, auto simp: f64_is_finite_def [symmetric] intro!: f64_of_int_finite)

lemma dec_list_finite: "json_ok v \<Longrightarrow> dec_list as_f64 v = Some xs \<Longrightarrow> list_all f64_is_finite xs"
proof -
  assume ok: "json_ok v" and dec: "dec_list as_f64 v = Some xs"
  obtain vs where vs: "v = JArray vs" "opt_all as_f64 vs = Some xs" using dec by (cases v) (auto simp: dec_list_def)
  show ?thesis using opt_all_set [OF vs(2)] ok vs(1) as_f64_finite by (fastforce simp: list_all_iff)
qed

lemma dec_pair_Some: "dec_pair v = Some (a, b) \<longleftrightarrow> dec_list as_f64 v = Some [a, b]"
proof
  assume "dec_pair v = Some (a, b)"
  then obtain xs where "dec_list as_f64 v = Some xs" "(case xs of [a, b] \<Rightarrow> Some (a, b) | _ \<Rightarrow> None) = Some (a, b)"
    by (auto simp: dec_pair_def bind_eq_Some_conv)
  then show "dec_list as_f64 v = Some [a, b]" by (cases xs; cases "tl xs"; cases "tl (tl xs)") auto
qed (simp add: dec_pair_def)

lemma dec_opt_None: "dec_opt f v = Some (Some x) \<Longrightarrow> f v = Some x"
  by (auto simp: dec_opt_def split: if_splits)

lemma dec_default_Some:
  "dec_default d f kvs k = Some x \<Longrightarrow> x = d \<or> (\<exists>v. map_of kvs k = Some v \<and> f v = Some x)"
  by (auto simp: dec_default_def split: option.splits)

lemma decode_cube_wf:
  assumes "decode_cube v = Some c" and "json_ok v"
  shows "cube_wf c"
proof -
  obtain kvs where kvs: "v = JObject kvs" using assms(1) by (cases v) (auto simp: decode_cube_def)
  have at: "json_ok w" if "map_of kvs k = Some w" for k w using json_ok_lookup assms(2) kvs that by blast
  have dec: "dec_default [] (dec_map (dec_list as_str)) kvs ''bands'' = Some (c_bands c)"
      "dec_default [] (dec_map dec_pair) kvs ''band_scales'' = Some (c_band_scales c)"
      "dec_default None (dec_opt (dec_list as_f64)) kvs ''bbox'' = Some (c_bbox c)"
      "dec_default None (dec_opt dec_i64) kvs ''replacement'' = Some (c_replacement c)"
      "c_extras c = fold (\<lambda>(k, x). bt_insert k x) (filter (\<lambda>kx. fst kx \<notin> set field_names) kvs) []"
    using assms(1) unfolding kvs decode_cube_def by (auto simp: bind_eq_Some_conv Let_def)
  have "bt_wf (c_bands c)" using dec_default_Some [OF dec(1)] dec_map_wf bt.wf_empty by metis
  moreover have "bt_wf (c_band_scales c)" using dec_default_Some [OF dec(2)] dec_map_wf bt.wf_empty by metis
  moreover have "bt_wf (c_extras c)" unfolding dec(5) by (intro bt.wf_fold_update bt.wf_empty)
  moreover have "list_all (\<lambda>(k, v). k \<notin> set field_names) (c_extras c)"
    unfolding dec(5) using fold_bt_insert_subset [of "filter (\<lambda>kx. fst kx \<notin> set field_names) kvs" "[]"] by (auto simp: list_all_iff)
  moreover have "f64_is_finite a \<and> f64_is_finite b" if kx: "(k, a, b) \<in> set (c_band_scales c)" for k a b
  proof -
    obtain w where "map_of kvs ''band_scales'' = Some w" "dec_map dec_pair w = Some (c_band_scales c)"
      using dec_default_Some [OF dec(2)] kx by auto
    from dec_map_values [OF this(2) at [OF this(1)] kx] obtain u where u: "json_ok u" "dec_pair u = Some (a, b)" by blast
    then have "dec_list as_f64 u = Some [a, b]" by (simp add: dec_pair_Some)
    then show ?thesis using dec_list_finite [OF u(1)] by simp
  qed
  moreover have "list_all f64_is_finite xs" if "c_bbox c = Some xs" for xs
    using dec_default_Some [OF dec(3)] that at dec_list_finite dec_opt_None by fastforce
  moreover have "- (2 ^ 63) \<le> i \<and> i < 2 ^ 63" if r: "c_replacement c = Some i" for i
  proof -
    obtain w where w: "map_of kvs ''replacement'' = Some w" "dec_i64 w = Some i"
      using dec_default_Some [OF dec(4)] r by (auto dest: dec_opt_None)
    show ?thesis using w(2) at [OF w(1)] by (induction w rule: dec_i64.induct) (auto split: if_splits)
  qed
  ultimately show ?thesis by (auto simp: cube_wf_def list_all_iff split: option.split)
qed


lemma input_cube_wf:
  assumes "from_envelope_owned msg data = Ok c" and "json_ok data"
  shows "cube_wf c"
proof (cases "json_get data ''__raster''")
  case None
  let ?inner = "case json_get data ''__cube'' of Some w \<Rightarrow> w | None \<Rightarrow> data"
  have "decode_cube ?inner = Some c"
    using assms(1) None by (auto simp: from_envelope_owned_def from_envelope_def decode_or_err_def split: if_splits)
  moreover have "json_ok ?inner"
  proof (cases "json_get data ''__cube''")
    case (Some v)
    obtain kvs where "data = JObject kvs" using Some by (cases data) (auto simp: json_get_def)
    then show ?thesis using json_ok_lookup [of kvs "''__cube''" v] Some assms(2) by (simp add: json_get_def)
  qed (simp add: assms(2))
  ultimately show ?thesis by (rule decode_cube_wf)
next
  case (Some raster)
  then obtain path where "c = cube_new\<lparr>c_bands := [(''result'', [path])], c_scene_count := Some 1\<rparr>"
    using assms(1) by (auto simp: from_envelope_owned_def from_raster_envelope_def and_then_Inr_iff)
  then show ?thesis by (simp add: cube_wf_def cube_new_def bt_wf_def)
qed

lemma envelope_round_trip: "cube_wf c \<Longrightarrow> from_envelope msg (to_envelope c) = Ok c"
  using decode_encode [of c] encode_cube_entries(1) [of c]
  by (simp add: from_envelope_def to_envelope_def decode_or_err_def json_get_def)

lemma envelope_owned_round_trip: "cube_wf c \<Longrightarrow> from_envelope_owned msg (to_envelope c) = Ok c"
proof -
  have "json_get (to_envelope c) ''__raster'' = None" by (simp add: json_get_def to_envelope_def)
  then show "cube_wf c \<Longrightarrow> ?thesis" using envelope_round_trip by (simp add: from_envelope_owned_def)
qed

end
