(* ===== verification/Extents.thy ===== *)
theory Extents
  imports "HOL-Library.Sublist" Runner Url_Policy Scalar_Processes Data_Cube
begin

text \<open>
  What a process graph may name: the identifier check of \<open>geo_executor/identifier.rs\<close>, the CRS check of
  \<open>orbit-geo/src/providers.rs\<close>, and the argument parsers and the asset link guard of
  \<open>geo_executor/eval_load.rs\<close>. Strings are UTF-8 bytes. The printed forms that appear in error messages
  only are the parameter \<open>fmt\<close>.
\<close>

record fmt =
  f_char :: "string \<Rightarrow> string"
  f_f64 :: "f64 \<Rightarrow> string"
  f_json :: "json \<Rightarrow> string"
  f_keys :: "string list \<Rightarrow> string"
  f_decode :: "json \<Rightarrow> string"

text \<open>\<open>str::contains\<close>, \<open>starts_with\<close> and \<open>char::is_ascii_alphanumeric\<close>.\<close>

definition str_contains :: "string \<Rightarrow> string \<Rightarrow> bool" where "str_contains s sub = sublist sub s"

definition str_starts :: "string \<Rightarrow> string \<Rightarrow> bool" where "str_starts p s = prefix p s"

definition ascii_alnum :: "char \<Rightarrow> bool" where
  "ascii_alnum c = (let n = of_char c :: nat in 48 \<le> n \<and> n \<le> 57 \<or> 65 \<le> n \<and> n \<le> 90 \<or> 97 \<le> n \<and> n \<le> 122)"

definition ascii_digit :: "char \<Rightarrow> bool" where
  "ascii_digit c = (let n = of_char c :: nat in 48 \<le> n \<and> n \<le> 57)"

section \<open>Identifiers\<close>

definition ident_char :: "char \<Rightarrow> bool" where
  "ident_char c \<longleftrightarrow> ascii_alnum c \<or> c = CHR ''_'' \<or> c = CHR ''-'' \<or> c = CHR ''.''"

text \<open>A byte outside ASCII belongs to a character the loop rejects, so the bytes may be tested one by one.\<close>

definition validate_identifier :: "fmt \<Rightarrow> string \<Rightarrow> string \<Rightarrow> (exec_error, unit) result" where
  "validate_identifier fm name field =
     (if name = [] \<or> 64 < length name then
        Err (InvalidGraph (field @ '': identifier length must be 1..=64 (got '' @ show_nat (length name) @ '')''))
      else if hd name = CHR ''-'' \<or> hd name = CHR ''.'' then
        Err (InvalidGraph (field @ '': identifier may not start with '' @ [CHR 0x27] @ ''-'' @ [CHR 0x27] @ '' or '' @ [CHR 0x27] @ ''.'' @ [CHR 0x27]))
      else if dropWhile ident_char name \<noteq> [] then
        Err (InvalidGraph (field @ '': identifier may only contain [A-Za-z0-9_.-]; found '' @ f_char fm (dropWhile ident_char name)))
      else if str_contains name ''..'' then
        Err (InvalidGraph (field @ '': identifier may not contain '' @ [CHR 0x27] @ ''..'' @ [CHR 0x27]))
      else Ok ())"

section \<open>Coordinate reference systems\<close>

definition crs_char :: "char \<Rightarrow> bool" where
  "crs_char c \<longleftrightarrow> ascii_alnum c \<or> c \<in> set ''+-_=.:/, ''"

definition crs_bad_tokens :: "string list" where "crs_bad_tokens = [''+nadgrids'', ''@'', ''+wktext'']"

definition shell_chars :: "char list" where
  "shell_chars = [CHR ''$'', CHR 0x60, CHR '';'', CHR ''|'', CHR ''&'', CHR 0x0A, CHR 0x0D, CHR 0x00]"

definition validate_crs_spec :: "fmt \<Rightarrow> string \<Rightarrow> (string, unit) result" where
  "validate_crs_spec fm crs =
     (if crs = [] \<or> 128 < length crs then Err ''CRS spec length must be 1..=128''
      else case find (str_contains crs) crs_bad_tokens of
        Some bad \<Rightarrow> Err (''CRS spec contains disallowed token: '' @ bad)
      | None \<Rightarrow> if dropWhile crs_char crs \<noteq> [] then Err (''CRS spec contains disallowed character: '' @ f_char fm (dropWhile crs_char crs))
        else case find (\<lambda>c. c \<in> set crs) shell_chars of
          Some bad \<Rightarrow> Err (''CRS spec contains shell metacharacter: '' @ f_char fm [bad])
        | None \<Rightarrow> Ok ())"

definition crs_invalid :: "string \<Rightarrow> (exec_error, string) result" where
  "crs_invalid why = Err (InvalidGraph (''spatial_extent.crs invalid: '' @ why))"

fun parse_bbox_crs :: "fmt \<Rightarrow> json option \<Rightarrow> (exec_error, string) result" where
  "parse_bbox_crs fm None = Ok ''EPSG:4326''"
| "parse_bbox_crs fm (Some JNull) = Ok ''EPSG:4326''"
| "parse_bbox_crs fm (Some (JNumber (PosInt u))) = Ok (''EPSG:'' @ show_nat u)"
| "parse_bbox_crs fm (Some (JNumber (NegInt i))) =
     (if i < 0 then crs_invalid (''negative EPSG code '' @ show_int i) else Ok (''EPSG:'' @ show_int i))"
| "parse_bbox_crs fm (Some (JNumber (Float x))) = crs_invalid (''non-integer numeric '' @ f_json fm (JNumber (Float x)))"
| "parse_bbox_crs fm (Some (JString s0)) =
     (let s = trim s0
      in if s = [] then crs_invalid ''empty string''
         else if CHR '':'' \<in> set s then Ok s
         else if list_all ascii_digit s then Ok (''EPSG:'' @ s)
         else crs_invalid (''unqualified non-numeric string `'' @ s @ ''`''))"
| "parse_bbox_crs fm (Some other) = crs_invalid (''expected integer or string, got '' @ f_json fm other)"

type_synonym bbox = "f64 \<times> f64 \<times> f64 \<times> f64"

definition bbox_number :: "json \<Rightarrow> string \<Rightarrow> f64 option" where
  "bbox_number v k = Option.bind (json_get v k) as_f64"

definition parse_bbox :: "fmt \<Rightarrow> json \<Rightarrow> (exec_error, bbox \<times> string) result" where
  "parse_bbox fm v =
     (case (bbox_number v ''west'', bbox_number v ''south'', bbox_number v ''east'', bbox_number v ''north'') of
        (Some w, Some s, Some e, Some n) \<Rightarrow>
          if \<not> f64_lt w e then
            Err (InvalidGraph (''spatial_extent: west ('' @ f_f64 fm w @ '') must be < east ('' @ f_f64 fm e @ '')''))
          else if \<not> f64_lt s n then
            Err (InvalidGraph (''spatial_extent: south ('' @ f_f64 fm s @ '') must be < north ('' @ f_f64 fm n @ '')''))
          else and_then (parse_bbox_crs fm (json_get v ''crs'')) (\<lambda>crs. Ok ((w, s, e, n), crs))
      | _ \<Rightarrow> Err (InvalidGraph ''spatial_extent must have numeric west/south/east/north''))"

section \<open>Time\<close>

definition normalise_iso :: "string \<Rightarrow> bool \<Rightarrow> string" where
  "normalise_iso s is_start =
     (if s = ''..'' \<or> CHR ''T'' \<in> set s \<or> CHR '':'' \<in> set s then s
      else if length s = 10 \<and> length (filter (\<lambda>c. c = CHR ''-'') s) = 2
      then s @ (if is_start then ''T00:00:00Z'' else ''T23:59:59Z'')
      else s)"

definition parse_temporal :: "json \<Rightarrow> (exec_error, string) result" where
  "parse_temporal v =
     and_then (ok_or (InvalidGraph ''temporal_extent must be an array'') (as_array v)) (\<lambda>arr.
     case arr of
       [a, b] \<Rightarrow> let text = (\<lambda>x. case as_str x of Some s \<Rightarrow> s | None \<Rightarrow> ''..'')
                in Ok (normalise_iso (text a) True @ ''/'' @ normalise_iso (text b) False)
     | _ \<Rightarrow> Err (InvalidGraph ''temporal_extent must have two entries''))"

section \<open>The cloud cover predicate\<close>

text \<open>Every \<open>?\<close> in the loop leaves the function, not only the round.\<close>

fun cloud_nodes :: "json list \<Rightarrow> f64 option" where
  "cloud_nodes [] = None"
| "cloud_nodes (node # rest) =
     Option.bind (Option.bind (json_get node ''process_id'') as_str) (\<lambda>pid.
     if pid \<noteq> ''lt'' \<and> pid \<noteq> ''lte'' then cloud_nodes rest
     else Option.bind (Option.bind (json_get node ''arguments'') as_object) (\<lambda>args.
       let x_ok = (Option.bind (Option.bind (map_of args ''x'') (\<lambda>x. json_get x ''from_parameter'')) as_str = Some ''value'')
       in Option.bind (Option.bind (map_of args ''y'') as_f64) (\<lambda>y. if x_ok then Some y else cloud_nodes rest)))"

definition parse_eo_cloud_cover_lt :: "json \<Rightarrow> f64 option" where
  "parse_eo_cloud_cover_lt props =
     Option.bind (Option.bind (Option.bind (json_get props ''eo:cloud_cover'') (\<lambda>p. json_get p ''process_graph'')) as_object)
       (\<lambda>pg. cloud_nodes (map snd pg))"

section \<open>Asset links\<close>

definition parse_u8 :: "string \<Rightarrow> nat option" where
  "parse_u8 s = Option.bind (parse_u64 s) (\<lambda>n. if n \<le> 255 then Some n else None)"

definition is_private_172 :: "string \<Rightarrow> bool" where
  "is_private_172 h =
     (str_starts ''172.'' h \<and>
      (case parse_u8 (takeWhile (\<lambda>c. c \<noteq> CHR ''.'') (drop 4 h)) of Some n \<Rightarrow> 16 \<le> n \<and> n \<le> 31 | None \<Rightarrow> False))"

definition href_host :: "string \<Rightarrow> string" where
  "href_host href =
     (let after = (case split_once_str scheme_sep href of Some (_, r) \<Rightarrow> r | None \<Rightarrow> []);
          authority = takeWhile (\<lambda>c. c \<notin> {CHR ''/'', CHR ''?'', CHR ''#''}) after;
          host = (case rsplit_once (CHR ''@'') authority of Some (_, h) \<Rightarrow> h | None \<Rightarrow> authority)
      in takeWhile (\<lambda>c. c \<noteq> CHR '':'') host)"

definition href_blocked :: "bool \<Rightarrow> string \<Rightarrow> bool" where
  "href_blocked is_s3 h \<longleftrightarrow>
     h = [] \<or> h = ''localhost'' \<or> h = ''169.254.169.254'' \<or> h = ''metadata.google.internal'' \<or>
     str_starts ''127.'' h \<or> str_starts ''0.'' h \<or> str_starts ''10.'' h \<or> str_starts ''192.168.'' h \<or>
     str_starts ''169.254.'' h \<or> str_starts ''['' h \<or> is_private_172 h \<or> (\<not> is_s3 \<and> CHR ''.'' \<notin> set h)"

definition validate_asset_href :: "string \<Rightarrow> (exec_error, unit) result" where
  "validate_asset_href href =
     (let lower = to_ascii_lowercase href; is_s3 = str_starts ''s3://'' lower; host = href_host href
      in if \<not> (str_starts ''https://'' lower \<or> str_starts ''http://'' lower \<or> is_s3) then
           Err (InvalidGraph (''load_collection: asset href scheme not allowed (only http/https/s3): '' @ href))
         else if href_blocked is_s3 (to_ascii_lowercase (trim host)) then
           Err (InvalidGraph (''load_collection: asset href host '' @ [CHR 0x27] @ host @ [CHR 0x27] @ '' is blocked by the SSRF guard''))
         else Ok ())"

section \<open>The guard on dotted addresses\<close>

lemma href_host_parts:
  assumes "colon \<notin> set scheme" and "set user \<inter> url_delims = {}" and "set host \<inter> (url_delims \<union> {at_sign, colon}) = {}"
    and "set port \<inter> (url_delims \<union> {at_sign}) = {}" and "tail = [] \<or> hd tail \<in> url_delims"
    and "pre = [] \<or> pre = user @ [at_sign]" and "post = [] \<or> post = colon # port"
  shows "href_host (scheme @ scheme_sep @ pre @ host @ post @ tail) = host"
proof -
  have nd: "colon \<notin> url_delims" "colon \<noteq> at_sign" by (simp_all add: at_sign_def url_delims_def colon_def)
  have h: "set host \<inter> (url_delims \<union> {at_sign}) = {}" using assms(3) by blast
  have p: "set post \<inter> (url_delims \<union> {at_sign}) = {}" using assms(4,7) nd by auto
  note parts = url_authority [OF assms(2) h p assms(5,6)]
  have co: "takeWhile (\<lambda>c. c \<noteq> colon) (host @ post) = host" by (rule takeWhile_stop) (use assms(3,7) in auto)
  show ?thesis
    unfolding href_host_def split_once_str_first [OF assms(1)] Let_def option.case prod.case
      url_delims_def [symmetric] at_sign_def [symmetric] colon_def [symmetric] parts co ..
qed

definition dot :: char where "dot = CHR ''.''"

lemma dot_not_digit: "dot \<notin> set (show_nat n)"
  using show_nat_digits [of dot n] by (auto simp: dot_def)

lemma prefix_field: "c \<notin> set x \<Longrightarrow> c \<notin> set y \<Longrightarrow> prefix (x @ c # p) (y @ c # r) \<longleftrightarrow> x = y \<and> prefix p r"
proof (induction x arbitrary: y)
  case Nil
  then show ?case by (cases y) auto
next
  case (Cons a x)
  then show ?case by (cases y) auto
qed

lemma show_nat_inj: "show_nat m = show_nat n \<longleftrightarrow> m = n"
proof
  assume "show_nat m = show_nat n"
  then have "read_dec (show_nat m) = read_dec (show_nat n)" by (rule arg_cong)
  then show "m = n" unfolding read_dec_show_nat by simp
qed simp

lemma octet_prefix:
  "prefix (show_nat m @ [dot]) (show_nat a @ dot # r) \<longleftrightarrow> a = m"
  "prefix (show_nat m @ dot # show_nat n @ [dot]) (show_nat a @ dot # show_nat b @ dot # r) \<longleftrightarrow> a = m \<and> b = n"
  using prefix_field [OF dot_not_digit [of m] dot_not_digit [of a]] prefix_field [OF dot_not_digit [of n] dot_not_digit [of b]]
  by (auto simp: show_nat_inj)

lemma parse_u64_show: "n \<le> u64_max \<Longrightarrow> parse_u64 (show_nat n) = Some n"
proof -
  assume "n \<le> u64_max"
  have val: "foldl (\<lambda>a c. 10 * a + (of_char c - 48)) 0 (show_nat k) = (k :: nat)" for k
  proof (induction k rule: show_nat.induct)
    case (1 n)
    then show ?case by (subst show_nat.simps) (simp add: of_char_of)
  qed
  have digits: "list_all (\<lambda>c. CHR ''0'' \<le> c \<and> c \<le> CHR ''9'') (show_nat n)"
    using show_nat_digits by (auto simp: list_all_iff less_eq_char_def)
  have plus: "c \<noteq> CHR ''+''" if "show_nat n = c # r" for c r using show_nat_digits [of c n] that by auto
  have "(case show_nat n of c # r \<Rightarrow> if c = CHR ''+'' then r else show_nat n | [] \<Rightarrow> []) = show_nat n"
    using plus by (cases "show_nat n") auto
  then show ?thesis using digits val [of n] \<open>n \<le> u64_max\<close> show_nat_ne by (simp add: parse_u64_def Let_def)
qed

lemma strip_seqs_none:
  assumes "\<forall>w \<in> set ws. w \<noteq> [] \<and> hd w \<noteq> hd s" and "s \<noteq> []"
  shows "strip_seqs n ws s = s"
proof (cases n)
  case (Suc m)
  have "take (length w) s \<noteq> w" if "w \<in> set ws" for w
    using assms that by (cases w; cases s) auto
  then have "find (\<lambda>w. take (length w) s = w) ws = None" by (simp add: find_None_iff)
  then show ?thesis by (simp add: Suc)
qed simp

lemma white_space_heads:
  "\<forall>w \<in> set white_space. w \<noteq> [] \<and> ((of_char (hd w) :: nat) \<le> 32 \<or> 128 \<le> (of_char (hd w) :: nat))"
  "\<forall>w \<in> set (map rev white_space). w \<noteq> [] \<and> ((of_char (hd w) :: nat) \<le> 32 \<or> 128 \<le> (of_char (hd w) :: nat))"
  by (simp_all add: white_space_def of_char_of)

lemma trim_plain:
  assumes "\<forall>c \<in> set s. 32 < (of_char c :: nat) \<and> (of_char c :: nat) < 128" and "s \<noteq> []"
  shows "trim s = s"
proof -
  have "hd s \<in> set s" "hd (rev s) \<in> set s" using assms(2) by (simp_all add: hd_rev)
  then have ends: "32 < (of_char (hd s) :: nat)" "(of_char (hd s) :: nat) < 128" "32 < (of_char (hd (rev s)) :: nat)" "(of_char (hd (rev s)) :: nat) < 128"
    using assms(1) by blast+
  have front: "\<forall>w \<in> set white_space. w \<noteq> [] \<and> hd w \<noteq> hd s"
  proof (intro ballI conjI notI)
    fix w assume w: "w \<in> set white_space"
    show "w = [] \<Longrightarrow> False" "hd w = hd s \<Longrightarrow> False" using bspec [OF white_space_heads(1) w] ends(1,2) by auto
  qed
  have rear: "\<forall>w \<in> set (map rev white_space). w \<noteq> [] \<and> hd w \<noteq> hd (rev s)"
  proof (intro ballI conjI notI)
    fix w assume w: "w \<in> set (map rev white_space)"
    show "w = [] \<Longrightarrow> False" "hd w = hd (rev s) \<Longrightarrow> False" using bspec [OF white_space_heads(2) w] ends(3,4) by auto
  qed
  have "rev s \<noteq> []" using assms(2) by simp
  then show ?thesis
    unfolding trim_def trim_start_def Let_def strip_seqs_none [OF front assms(2)] strip_seqs_none [OF rear \<open>rev s \<noteq> []\<close>] by simp
qed

lemma lowercase_plain: "\<forall>c \<in> set s. (of_char c :: nat) < 65 \<Longrightarrow> to_ascii_lowercase s = s"
  unfolding to_ascii_lowercase_def Let_def by (rule map_idI) auto

lemma ipv4_text_dots:
  "ipv4_text a b c d = show_nat (unat a) @ dot # show_nat (unat b) @ dot # show_nat (unat c) @ dot # show_nat (unat d)"
  by (simp add: ipv4_text_def dot_def)

lemma ipv4_text_unchanged: "trim (ipv4_text a b c d) = ipv4_text a b c d" "to_ascii_lowercase (ipv4_text a b c d) = ipv4_text a b c d"
proof -
  have chars: "32 < (of_char x :: nat) \<and> (of_char x :: nat) < 128 \<and> (of_char x :: nat) < 65" if "x \<in> set (ipv4_text a b c d)" for x
    using octet_text_chars [OF that] by simp
  show "trim (ipv4_text a b c d) = ipv4_text a b c d" by (rule trim_plain) (use chars in \<open>simp_all add: ipv4_text_dots\<close>)
  show "to_ascii_lowercase (ipv4_text a b c d) = ipv4_text a b c d" by (rule lowercase_plain) (use chars in simp)
qed

lemma ipv4_text_not:
  assumes "\<exists>c \<in> set s. 57 < (of_char c :: nat)"
  shows "ipv4_text a b c d \<noteq> s" "str_starts s (ipv4_text a b c d) = False"
proof -
  show "str_starts s (ipv4_text a b c d) = False"
  proof (rule ccontr)
    assume "str_starts s (ipv4_text a b c d) \<noteq> False"
    then have "set s \<subseteq> set (ipv4_text a b c d)" by (auto simp: str_starts_def prefix_def)
    then show False using assms octet_text_chars by fastforce
  qed
  then show "ipv4_text a b c d \<noteq> s" by (auto simp: str_starts_def)
qed

lemma octet_literals:
  "''127.'' = show_nat 127 @ [dot]" "''0.'' = show_nat 0 @ [dot]" "''10.'' = show_nat 10 @ [dot]" "''172.'' = show_nat 172 @ [dot]"
  "''192.168.'' = show_nat 192 @ dot # show_nat 168 @ [dot]" "''169.254.'' = show_nat 169 @ dot # show_nat 254 @ [dot]"
  "''169.254.169.254'' = ipv4_text 169 254 169 254"
  by code_simp+
lemma second_octet_range: "b AND 0xF0 = 16 \<longleftrightarrow> 16 \<le> unat b \<and> unat b \<le> 31" for b :: "8 word"
proof -
  have "drop_bit 4 b = drop_bit 4 16 \<longleftrightarrow> unat (drop_bit 4 b) = unat (drop_bit 4 (16 :: 8 word))" by (rule word_unat_eq_iff)
  also have "\<dots> \<longleftrightarrow> unat b div 16 = 1" by (simp add: drop_bit_eq_div unat_div_distrib)
  also have "\<dots> \<longleftrightarrow> 16 \<le> unat b \<and> unat b \<le> 31" by presburger
  finally show ?thesis by (simp add: masked_nibbles(1))
qed

lemma blocked_address: "href_blocked s3 (ipv4_text a b c d) \<longleftrightarrow> is_internal_v4 a b c d \<and> a \<noteq> 100"
proof -
  let ?r = "show_nat (unat c) @ dot # show_nat (unat d)"
  have octets: "unat a = 127 \<longleftrightarrow> a = 127" "unat a = 0 \<longleftrightarrow> a = 0" "unat a = 10 \<longleftrightarrow> a = 10" "unat a = 172 \<longleftrightarrow> a = 172"
    "unat a = 192 \<longleftrightarrow> a = 192" "unat a = 169 \<longleftrightarrow> a = 169" "unat b = 168 \<longleftrightarrow> b = 168" "unat b = 254 \<longleftrightarrow> b = 254"
    by (simp_all add: word_unat_eq_iff)
  have start: "str_starts ''127.'' (ipv4_text a b c d) \<longleftrightarrow> a = 127" "str_starts ''0.'' (ipv4_text a b c d) \<longleftrightarrow> a = 0"
      "str_starts ''10.'' (ipv4_text a b c d) \<longleftrightarrow> a = 10" "str_starts ''172.'' (ipv4_text a b c d) \<longleftrightarrow> a = 172"
      "str_starts ''192.168.'' (ipv4_text a b c d) \<longleftrightarrow> a = 192 \<and> b = 168"
      "str_starts ''169.254.'' (ipv4_text a b c d) \<longleftrightarrow> a = 169 \<and> b = 254"
    unfolding str_starts_def ipv4_text_dots
    by (simp only: octet_literals(1) octet_prefix octets, simp only: octet_literals(2) octet_prefix octets,
        simp only: octet_literals(3) octet_prefix octets, simp only: octet_literals(4) octet_prefix octets,
        simp only: octet_literals(5) octet_prefix octets, simp only: octet_literals(6) octet_prefix octets)
  have names: "ipv4_text a b c d \<noteq> ''localhost''" "ipv4_text a b c d \<noteq> ''metadata.google.internal''" "\<not> str_starts ''['' (ipv4_text a b c d)"
    using ipv4_text_not [of "''localhost''"] ipv4_text_not [of "''metadata.google.internal''"] ipv4_text_not [of "''[''"] by simp_all
  have metadata: "a = 169 \<and> b = 254" if "ipv4_text a b c d = ''169.254.169.254''"
    unfolding start(6) [symmetric] that by (simp add: str_starts_def)
  have dotted: "CHR ''.'' \<in> set (ipv4_text a b c d)" "ipv4_text a b c d \<noteq> []" by (simp_all add: ipv4_text_def)
  have p172: "is_private_172 (ipv4_text a b c d) \<longleftrightarrow> a = 172 \<and> 16 \<le> unat b \<and> unat b \<le> 31"
  proof (cases "a = 172")
    case True
    have "drop 4 (ipv4_text a b c d) = show_nat (unat b) @ dot # ?r"
    proof -
      have "show_nat 172 = ''172''" by code_simp
      then show ?thesis by (simp add: ipv4_text_dots True)
    qed
    moreover have "takeWhile (\<lambda>x. x \<noteq> CHR ''.'') (show_nat (unat b) @ dot # ?r) = show_nat (unat b)"
      by (rule takeWhile_stop) (use dot_not_digit [of "unat b"] in \<open>auto simp: dot_def\<close>)
    moreover have "parse_u8 (show_nat (unat b)) = Some (unat b)"
    proof -
      have "unat b \<le> 255" using unsigned_less [of b, where 'a = nat] by simp
      then show ?thesis by (simp add: parse_u8_def parse_u64_show u64_max_def)
    qed
    ultimately show ?thesis using True start(4) by (simp add: is_private_172_def)
  qed (simp add: is_private_172_def start(4))
  define m where "m \<longleftrightarrow> ipv4_text a b c d = ''169.254.169.254''"
  have "href_blocked s3 (ipv4_text a b c d) \<longleftrightarrow> m \<or> a = 127 \<or> a = 0 \<or> a = 10 \<or> a = 192 \<and> b = 168 \<or> a = 169 \<and> b = 254 \<or>
      a = 172 \<and> 16 \<le> unat b \<and> unat b \<le> 31"
    by (simp only: href_blocked_def start p172 names dotted m_def simp_thms)
  moreover have "m \<Longrightarrow> a = 169 \<and> b = 254" using metadata by (simp only: m_def)
  ultimately show ?thesis by (auto simp: is_internal_v4_def second_octet_range)
qed

lemma lowercase_append: "to_ascii_lowercase (x @ y) = to_ascii_lowercase x @ to_ascii_lowercase y"
  by (simp add: to_ascii_lowercase_def)

lemma scheme_no_colon: "to_ascii_lowercase scheme \<in> {''http'', ''https'', ''s3''} \<Longrightarrow> colon \<notin> set scheme"
proof
  assume s: "to_ascii_lowercase scheme \<in> {''http'', ''https'', ''s3''}" and c: "colon \<in> set scheme"
  have "colon = (let n = (of_char colon :: nat) in if 65 \<le> n \<and> n \<le> 90 then char_of (n + 32) else colon)"
    by (simp add: colon_def)
  then have "colon \<in> set (to_ascii_lowercase scheme)" unfolding to_ascii_lowercase_def set_map by (rule rev_image_eqI [OF c])
  then show False using s by (auto simp: colon_def)
qed

lemma scheme_accepted:
  assumes "to_ascii_lowercase scheme \<in> {''http'', ''https'', ''s3''}"
  shows "str_starts ''https://'' (to_ascii_lowercase (scheme @ scheme_sep @ r)) \<or>
    str_starts ''http://'' (to_ascii_lowercase (scheme @ scheme_sep @ r)) \<or>
    str_starts ''s3://'' (to_ascii_lowercase (scheme @ scheme_sep @ r))"
proof -
  have "to_ascii_lowercase scheme_sep = ''://''" by code_simp
  then show ?thesis using assms by (auto simp: str_starts_def lowercase_append)
qed

text \<open>
  C4. The guard reads addresses exactly: a link to a dotted IPv4 address, under any scheme it allows, in
  any letter case, and with any user information, port and path around the address, is refused exactly
  when the address lies in one of the internal ranges of the URL policy, the carrier-grade range
  100.64.0.0/10 left out.
\<close>

theorem asset_guard_exact:
  assumes "to_ascii_lowercase scheme \<in> {''http'', ''https'', ''s3''}"
    and "pre = [] \<or> (\<exists>user. pre = user @ [at_sign] \<and> set user \<inter> url_delims = {})"
    and "post = [] \<or> (\<exists>port. post = colon # port \<and> set port \<inter> (url_delims \<union> {at_sign}) = {})"
    and "tail = [] \<or> hd tail \<in> url_delims"
  shows "validate_asset_href (scheme @ scheme_sep @ pre @ ipv4_text a b c d @ post @ tail) = Ok () \<longleftrightarrow>
    \<not> (is_internal_v4 a b c d \<and> a \<noteq> 100)"
proof -
  obtain user where user: "set user \<inter> url_delims = {}" "pre = [] \<or> pre = user @ [at_sign]"
    using assms(2) by (metis Int_empty_left empty_set)
  obtain port where port: "set port \<inter> (url_delims \<union> {at_sign}) = {}" "post = [] \<or> post = colon # port"
    using assms(3) by (metis Int_empty_left empty_set)
  have ip: "set (ipv4_text a b c d) \<inter> (url_delims \<union> {at_sign, colon}) = {}" using ipv4_text_plain by blast
  have host: "href_host (scheme @ scheme_sep @ pre @ ipv4_text a b c d @ post @ tail) = ipv4_text a b c d"
    by (rule href_host_parts [OF scheme_no_colon [OF assms(1)] user(1) ip port(1) assms(4) user(2) port(2)])
  show ?thesis
    unfolding validate_asset_href_def Let_def host ipv4_text_unchanged blocked_address
    using scheme_accepted [OF assms(1), of "pre @ ipv4_text a b c d @ post @ tail"] by simp
qed

theorem asset_guard_exact_witness:
  "validate_asset_href (''HTTPS'' @ scheme_sep @ (''user'' @ [at_sign]) @ ipv4_text 172 20 0 1 @ (colon # ''80'') @ ''/latest'') \<noteq> Ok () \<and>
   validate_asset_href (''HTTPS'' @ scheme_sep @ (''user'' @ [at_sign]) @ ipv4_text 172 32 0 1 @ (colon # ''80'') @ ''/latest'') = Ok ()"
proof -
  have pre: "''user'' @ [at_sign] = [] \<or> (\<exists>user. ''user'' @ [at_sign] = user @ [at_sign] \<and> set user \<inter> url_delims = {})"
    by (rule disjI2, rule exI [of _ "''user''"]) (simp add: url_delims_def)
  have post: "colon # ''80'' = [] \<or> (\<exists>port. colon # ''80'' = colon # port \<and> set port \<inter> (url_delims \<union> {at_sign}) = {})"
    by (rule disjI2, rule exI [of _ "''80''"]) (simp add: url_delims_def at_sign_def)
  have tail: "''/latest'' = [] \<or> hd ''/latest'' \<in> url_delims" by (simp add: url_delims_def)
  have "to_ascii_lowercase ''HTTPS'' = ''https''" by code_simp
  then have scheme: "to_ascii_lowercase ''HTTPS'' \<in> {''http'', ''https'', ''s3''}" by simp
  have "is_internal_v4 172 20 0 1" "\<not> is_internal_v4 172 32 0 1" by (simp_all add: is_internal_v4_def)
  then show ?thesis
    using asset_guard_exact [OF scheme pre post tail, of 172 20 0 1] asset_guard_exact [OF scheme pre post tail, of 172 32 0 1] by simp
qed

text \<open>A fully qualified name with its final dot is not recognised.\<close>

lemma trailing_dot_passes: "validate_asset_href ''http://localhost./x'' = Ok ()"
  by code_simp

section \<open>Accepted identifiers and reference systems\<close>

lemma validate_identifier_Ok_iff:
  "validate_identifier fm name field = Ok () \<longleftrightarrow>
     name \<noteq> [] \<and> length name \<le> 64 \<and> hd name \<notin> {CHR ''-'', CHR ''.''} \<and> list_all ident_char name \<and> \<not> str_contains name ''..''"
  by (auto simp: validate_identifier_def list_all_iff dropWhile_eq_Nil_conv)

lemma validate_identifier_plain:
  assumes "validate_identifier fm name field = Ok ()"
  shows "CHR ''/'' \<notin> set name" "CHR 0x5C \<notin> set name" "CHR 0x00 \<notin> set name" "name \<noteq> ''..''" "name \<noteq> ''.''"
proof -
  have "list_all ident_char name" "hd name \<noteq> CHR ''.''" using assms by (simp_all add: validate_identifier_Ok_iff)
  then show "CHR ''/'' \<notin> set name" "CHR 0x5C \<notin> set name" "CHR 0x00 \<notin> set name" "name \<noteq> ''..''" "name \<noteq> ''.''"
    by (auto simp: list_all_iff ident_char_def ascii_alnum_def)
qed
end
