(* ===== verification/Cube_Ops.thy ===== *)
theory Cube_Ops
  imports Extents File_Cache
begin

text \<open>
  The cube processes of \<open>geo_executor/eval_cube_ops.rs\<close>: \<open>filter_temporal\<close>, \<open>filter_bbox\<close>,
  \<open>filter_spatial\<close>, \<open>filter_bands\<close>, \<open>rename_labels\<close>, \<open>add_dimension\<close> and \<open>drop_dimension\<close>. Cropping one
  raster is GDAL's work and a parameter, as is the clock in the names of the files it writes.
\<close>

section \<open>Arguments\<close>

definition input_cube :: "fmt \<Rightarrow> string \<Rightarrow> json \<Rightarrow> (exec_error, data_cube) result" where
  "input_cube fm who data =
     map_err (\<lambda>e. InvalidGraph (who @ '': input is not a cube: '' @ cube_error_display e)) (from_envelope_owned (f_decode fm) data)"

definition take_data :: "args \<Rightarrow> string \<Rightarrow> (exec_error, json) result" where
  "take_data args who = ok_or (InvalidGraph (who @ '': missing `data`'')) (bt_get args ''data'')"

text \<open>\<open>filter_map(as_str)\<close> over an array.\<close>

definition strings_of :: "json list \<Rightarrow> string list" where "strings_of = List.map_filter as_str"

section \<open>filter_temporal\<close>

definition in_extent :: "string option \<Rightarrow> string option \<Rightarrow> string \<Rightarrow> bool" where
  "in_extent start end dt =
     ((case start of Some s \<Rightarrow> s \<le> dt | None \<Rightarrow> True) \<and> (case end of Some e \<Rightarrow> dt \<le> e | None \<Rightarrow> True))"

definition surviving :: "string option \<Rightarrow> string option \<Rightarrow> string list \<Rightarrow> nat list" where
  "surviving start end datetimes = filter (\<lambda>i. in_extent start end (datetimes ! i)) [0..<length datetimes]"

definition prune :: "nat list \<Rightarrow> nat \<Rightarrow> string list \<Rightarrow> string list" where
  "prune keep n paths = (if length paths = n then map (\<lambda>i. paths ! i) keep else paths)"

definition eval_filter_temporal :: "fmt \<Rightarrow> args \<Rightarrow> (exec_error, json) result" where
  "eval_filter_temporal fm args =
     and_then (take_data args ''filter_temporal'') (\<lambda>data.
     and_then (ok_or (InvalidGraph ''filter_temporal: `extent` must be a 2-element array'')
         (Option.bind (bt_get args ''extent'') as_array)) (\<lambda>extent.
     case extent of
       [a, b] \<Rightarrow>
         let start = map_option (\<lambda>s. normalise_iso s True) (as_str a);
             end = map_option (\<lambda>s. normalise_iso s False) (as_str b)
         in and_then (input_cube fm ''filter_temporal'' data) (\<lambda>cube.
            and_then (ok_or (InvalidGraph (''filter_temporal: cube has no per-scene datetimes (load_collection did not '' @
                ''supply STAC `properties.datetime`); cannot filter by time'')) (c_datetimes cube)) (\<lambda>datetimes.
            let keep = surviving start end datetimes
            in if keep = [] then Err (Backend ''filter_temporal: no scenes fall within the requested extent'')
               else Ok (to_envelope (cube\<lparr>c_bands := map (\<lambda>(k, ps). (k, prune keep (length datetimes) ps)) (c_bands cube),
                 c_datetimes := Some (map (\<lambda>i. datetimes ! i) keep), c_scene_count := Some (length keep)\<rparr>))))
     | _ \<Rightarrow> Err (InvalidGraph ''filter_temporal: `extent` must have exactly two elements'')))"

section \<open>filter_bands and rename_labels\<close>

fun keep_bands :: "string list \<Rightarrow> (string, string list) btree \<Rightarrow> (string, string list) btree \<Rightarrow> (string, string list) btree" where
  "keep_bands [] bands kept = kept"
| "keep_bands (b # bs) bands kept =
     (case bt_get bands b of
        Some paths \<Rightarrow> keep_bands bs (bt_remove b bands) (bt_insert b paths kept)
      | None \<Rightarrow> keep_bands bs bands kept)"

definition eval_filter_bands :: "fmt \<Rightarrow> args \<Rightarrow> (exec_error, json) result" where
  "eval_filter_bands fm args =
     and_then (take_data args ''filter_bands'') (\<lambda>data.
     and_then (ok_or (InvalidGraph ''filter_bands: `bands` must be an array of band names'')
         (Option.bind (bt_get args ''bands'') as_array)) (\<lambda>dims.
     let requested = strings_of dims
     in if requested = [] then Err (InvalidGraph ''filter_bands: `bands` array is empty'')
        else and_then (input_cube fm ''filter_bands'' data) (\<lambda>cube.
          case find (\<lambda>b. bt_get (c_bands cube) b = None) requested of
            Some b \<Rightarrow> Err (InvalidGraph (''filter_bands: band `'' @ b @ ''` not available (have: '' @ f_keys fm (map fst (c_bands cube)) @ '')''))
          | None \<Rightarrow> Ok (to_envelope (cube\<lparr>c_bands := keep_bands requested (c_bands cube) [],
              c_layers := Some (length requested), c_layer_names := Some requested\<rparr>)))))"

fun move_bands ::
  "fmt \<Rightarrow> (string \<times> string) list \<Rightarrow> (string, string list) btree \<Rightarrow> (string, string list) btree \<Rightarrow>
   (exec_error, (string, string list) btree \<times> (string, string list) btree) result" where
  "move_bands fm [] bands renamed = Ok (bands, renamed)"
| "move_bands fm ((old, new) # rest) bands renamed =
     and_then (validate_identifier fm new ''rename_labels.target'') (\<lambda>_.
     and_then (ok_or (InvalidGraph (''rename_labels: source band `'' @ old @ ''` not found'')) (bt_get bands old)) (\<lambda>paths.
       move_bands fm rest (bt_remove old bands) (bt_insert new paths renamed)))"

definition or_insert :: "(string \<times> string list) \<Rightarrow> (string, string list) btree \<Rightarrow> (string, string list) btree" where
  "or_insert kv m = (if bt_get m (fst kv) = None then bt_insert (fst kv) (snd kv) m else m)"

definition old_keys :: "string list option \<Rightarrow> string list \<Rightarrow> data_cube \<Rightarrow> (exec_error, string list) result" where
  "old_keys source target cube =
     (case source of
        Some src \<Rightarrow>
          if length src \<noteq> length target then Err (InvalidGraph (''rename_labels: source ('' @ show_nat (length src) @
            '') and target ('' @ show_nat (length target) @ '') length mismatch''))
          else Ok src
      | None \<Rightarrow>
          let existing = map fst (c_bands cube)
          in if length existing \<noteq> length target then Err (InvalidGraph (''rename_labels: cube has '' @ show_nat (length existing) @
               '' bands but target has '' @ show_nat (length target) @ '' labels (omit source only for full rename)''))
             else Ok existing)"

definition eval_rename_labels :: "fmt \<Rightarrow> args \<Rightarrow> (exec_error, json) result" where
  "eval_rename_labels fm args =
     and_then (take_data args ''rename_labels'') (\<lambda>data.
     let dimension = (case Option.bind (bt_get args ''dimension'') as_str of Some d \<Rightarrow> d | None \<Rightarrow> ''bands'')
     in if dimension \<notin> {''bands'', ''band''} then
          Err (InvalidGraph (''rename_labels: only `bands` dimension supported (got `'' @ dimension @ ''`)''))
        else and_then (ok_or (InvalidGraph ''rename_labels: `target` must be an array'')
            (Option.bind (bt_get args ''target'') as_array)) (\<lambda>dims.
          let target = strings_of dims;
              source = map_option strings_of (Option.bind (bt_get args ''source'') as_array)
          in and_then (input_cube fm ''rename_labels'' data) (\<lambda>cube.
             and_then (old_keys source target cube) (\<lambda>olds.
             and_then (move_bands fm (zip olds target) (c_bands cube) []) (\<lambda>(rest, renamed).
               let bands = fold or_insert rest renamed
               in Ok (to_envelope (cube\<lparr>c_bands := bands, c_layer_names := Some (map fst bands)\<rparr>)))))))"

section \<open>add_dimension and drop_dimension\<close>

definition added_key :: string where "added_key = ''added_dimensions''"

definition eval_add_dimension :: "fmt \<Rightarrow> args \<Rightarrow> (exec_error, json) result" where
  "eval_add_dimension fm args =
     and_then (take_data args ''add_dimension'') (\<lambda>data.
     and_then (ok_or (InvalidGraph ''add_dimension: missing `name`'') (Option.bind (bt_get args ''name'') as_str)) (\<lambda>name.
     let label = (case bt_get args ''label'' of Some l \<Rightarrow> l | None \<Rightarrow> JNull);
         dim_type = (case Option.bind (bt_get args ''type'') as_str of Some t \<Rightarrow> t | None \<Rightarrow> ''other'')
     in and_then (validate_identifier fm name ''add_dimension.name'') (\<lambda>_.
        and_then (input_cube fm ''add_dimension'' data) (\<lambda>cube.
          let added = (case bt_get (c_extras cube) added_key of Some v \<Rightarrow> v | None \<Rightarrow> JArray []);
              added' = (case added of
                  JArray dims \<Rightarrow> JArray (dims @ [JObject [(''name'', JString name), (''label'', label), (''type'', JString dim_type)]])
                | _ \<Rightarrow> added)
          in Ok (to_envelope (cube\<lparr>c_extras := bt_insert added_key added' (c_extras cube)\<rparr>))))))"

definition load_bearing :: "string list" where
  "load_bearing = [''bands'', ''band'', ''t'', ''time'', ''x'', ''y'', ''spatial'']"

definition dim_name :: "json \<Rightarrow> string option" where "dim_name d = Option.bind (json_get d ''name'') as_str"

definition eval_drop_dimension :: "fmt \<Rightarrow> args \<Rightarrow> (exec_error, json) result" where
  "eval_drop_dimension fm args =
     and_then (take_data args ''drop_dimension'') (\<lambda>data.
     and_then (ok_or (InvalidGraph ''drop_dimension: missing `name`'') (Option.bind (bt_get args ''name'') as_str)) (\<lambda>name.
     if name \<in> set load_bearing then
       Err (InvalidGraph (''drop_dimension: cannot drop load-bearing dimension `'' @ name @
         ''` (only metadata dimensions added via add_dimension may be dropped)''))
     else and_then (input_cube fm ''drop_dimension'' data) (\<lambda>cube.
       let missing = Err (InvalidGraph (''drop_dimension: dimension `'' @ name @
             ''` not found (only metadata dimensions added via add_dimension can be dropped)''))
       in case bt_get (c_extras cube) added_key of
            Some (JArray dims) \<Rightarrow>
              let dims' = filter (\<lambda>d. dim_name d \<noteq> Some name) dims
              in if length dims' = length dims then missing
                 else Ok (to_envelope (cube\<lparr>c_extras := bt_insert added_key (JArray dims') (c_extras cube)\<rparr>))
          | _ \<Rightarrow> missing)))"

section \<open>Cropping\<close>

datatype crop_failure = Semaphore string | JoinError string | CropError string

type_synonym crop = "string \<Rightarrow> string \<Rightarrow> bbox \<Rightarrow> string \<Rightarrow> (crop_failure, string) result"

fun crop_failure_text :: "string \<Rightarrow> string \<Rightarrow> nat \<Rightarrow> crop_failure \<Rightarrow> string" where
  "crop_failure_text who band t (Semaphore m) = who @ '': semaphore: '' @ m"
| "crop_failure_text who band t (JoinError m) = who @ '': spawn_blocking join: '' @ m"
| "crop_failure_text who band t (CropError m) = who @ '': crop '' @ band @ '' t='' @ show_nat t @ '': '' @ m"

definition crop_name :: "string \<Rightarrow> string \<Rightarrow> nat \<Rightarrow> nat \<Rightarrow> string" where
  "crop_name who band t nanos = who @ ''_'' @ band @ ''_t'' @ show_nat t @ ''_'' @ show_nat nanos @ ''.tif''"

fun crop_scenes :: "crop \<Rightarrow> (string \<Rightarrow> nat \<Rightarrow> nat) \<Rightarrow> string \<Rightarrow> bbox \<Rightarrow> string \<Rightarrow> string \<Rightarrow> string \<Rightarrow> nat \<Rightarrow> string list \<Rightarrow>
    (exec_error, string list) result" where
  "crop_scenes crop nanos scratch box crs who band t [] = Ok []"
| "crop_scenes crop nanos scratch box crs who band t (p # ps) =
     and_then (map_err (\<lambda>f. Backend (crop_failure_text who band t f))
         (crop p (path_join scratch (crop_name who band t (nanos band t))) box crs)) (\<lambda>out.
     and_then (crop_scenes crop nanos scratch box crs who band (t + 1) ps) (\<lambda>outs. Ok (out # outs)))"

fun crop_bands :: "fmt \<Rightarrow> crop \<Rightarrow> (string \<Rightarrow> nat \<Rightarrow> nat) \<Rightarrow> string \<Rightarrow> bbox \<Rightarrow> string \<Rightarrow> string \<Rightarrow> string list \<Rightarrow> data_cube \<Rightarrow>
    (exec_error, data_cube) result" where
  "crop_bands fm crop nanos scratch box crs who [] cube = Ok cube"
| "crop_bands fm crop nanos scratch box crs who (k # ks) cube =
     and_then (validate_identifier fm k (who @ ''.band_key'')) (\<lambda>_.
     let (taken, cube') = take_band cube k
     in and_then (map_err (\<lambda>_. Backend (who @ '': band `'' @ k @ ''` vanished'')) taken) (\<lambda>paths.
        and_then (crop_scenes crop nanos scratch box crs who k 0 paths) (\<lambda>outs.
          crop_bands fm crop nanos scratch box crs who ks (cube'\<lparr>c_bands := bt_insert k outs (c_bands cube')\<rparr>))))"

definition recrop_cube_to_bbox ::
  "fmt \<Rightarrow> crop \<Rightarrow> (string \<Rightarrow> nat \<Rightarrow> nat) \<Rightarrow> string \<Rightarrow> json \<Rightarrow> bbox \<Rightarrow> string \<Rightarrow> string \<Rightarrow> (exec_error, json) result" where
  "recrop_cube_to_bbox fm crop nanos scratch data box crs who =
     and_then (input_cube fm who data) (\<lambda>cube.
     if c_bands cube = [] then Err (InvalidGraph (who @ '': cube has no bands''))
     else and_then (crop_bands fm crop nanos scratch box crs who (map fst (c_bands cube)) cube) (\<lambda>cube'.
       let (w, s, e, n) = box in Ok (to_envelope (cube'\<lparr>c_bbox := Some [w, s, e, n]\<rparr>))))"

definition eval_filter_bbox :: "fmt \<Rightarrow> crop \<Rightarrow> (string \<Rightarrow> nat \<Rightarrow> nat) \<Rightarrow> string \<Rightarrow> args \<Rightarrow> (exec_error, json) result" where
  "eval_filter_bbox fm crop nanos scratch args =
     and_then (take_data args ''filter_bbox'') (\<lambda>data.
     and_then (ok_or (InvalidGraph ''filter_bbox: missing `extent` bounding box'') (bt_get args ''extent'')) (\<lambda>extent.
     and_then (parse_bbox fm extent) (\<lambda>(box, crs).
     and_then (map_err (\<lambda>e. InvalidGraph (''filter_bbox.extent.crs: '' @ e)) (validate_crs_spec fm crs)) (\<lambda>_.
       recrop_cube_to_bbox fm crop nanos scratch data box crs ''filter_bbox''))))"

section \<open>The box of a geometry\<close>

text \<open>
  The corners so far and whether a coordinate was found. \<open>f64::min\<close> and \<open>max\<close> leave the sign of a zero
  open and are parameters.
\<close>

type_synonym box_acc = "f64 \<times> f64 \<times> f64 \<times> f64 \<times> bool"

definition is_number :: "json \<Rightarrow> bool" where "is_number v = (case v of JNumber _ \<Rightarrow> True | _ \<Rightarrow> False)"

definition widen :: "(f64 \<Rightarrow> f64 \<Rightarrow> f64) \<Rightarrow> (f64 \<Rightarrow> f64 \<Rightarrow> f64) \<Rightarrow> f64 \<Rightarrow> f64 \<Rightarrow> box_acc \<Rightarrow> box_acc" where
  "widen mn mx x y acc = (let (x0, y0, x1, y1, found) = acc in (mn x0 x, mn y0 y, mx x1 x, mx y1 y, True))"

definition pair_of :: "json list \<Rightarrow> (f64 \<times> f64) option" where
  "pair_of dims = (case dims of
      a # b # _ \<Rightarrow> if is_number a \<and> is_number b
        then (case (as_f64 a, as_f64 b) of (Some x, Some y) \<Rightarrow> Some (x, y) | _ \<Rightarrow> None) else None
    | _ \<Rightarrow> None)"

fun box_walk :: "(f64 \<Rightarrow> f64 \<Rightarrow> f64) \<Rightarrow> (f64 \<Rightarrow> f64 \<Rightarrow> f64) \<Rightarrow> json \<Rightarrow> box_acc \<Rightarrow> box_acc" where
  "box_walk mn mx (JArray dims) acc =
     (case pair_of dims of Some (x, y) \<Rightarrow> widen mn mx x y acc | None \<Rightarrow> fold (box_walk mn mx) dims acc)"
| "box_walk mn mx (JObject kvs) acc = fold (\<lambda>kv. box_walk mn mx (snd kv)) kvs acc"
| "box_walk mn mx _ acc = acc"

definition geojson_bbox :: "(f64 \<Rightarrow> f64 \<Rightarrow> f64) \<Rightarrow> (f64 \<Rightarrow> f64 \<Rightarrow> f64) \<Rightarrow> json \<Rightarrow> bbox option" where
  "geojson_bbox mn mx v =
     (case (bbox_number v ''west'', bbox_number v ''south'', bbox_number v ''east'', bbox_number v ''north'') of
        (Some w, Some s, Some e, Some n) \<Rightarrow> Some (w, s, e, n)
      | _ \<Rightarrow>
          let (x0, y0, x1, y1, found) = box_walk mn mx v
                (f64_infinity False, f64_infinity False, f64_infinity True, f64_infinity True, False)
          in if found \<and> f64_lt x0 x1 \<and> f64_lt y0 y1 then Some (x0, y0, x1, y1) else None)"

definition eval_filter_spatial ::
  "fmt \<Rightarrow> (f64 \<Rightarrow> f64 \<Rightarrow> f64) \<Rightarrow> (f64 \<Rightarrow> f64 \<Rightarrow> f64) \<Rightarrow> crop \<Rightarrow> (string \<Rightarrow> nat \<Rightarrow> nat) \<Rightarrow> string \<Rightarrow> args \<Rightarrow> (exec_error, json) result" where
  "eval_filter_spatial fm mn mx crop nanos scratch args =
     and_then (take_data args ''filter_spatial'') (\<lambda>data.
     and_then (ok_or (InvalidGraph ''filter_spatial: missing `geometries`'') (bt_get args ''geometries'')) (\<lambda>geometries.
     and_then (ok_or (InvalidGraph (''filter_spatial: could not derive a bbox from `geometries` '' @
         ''(expected GeoJSON with numeric coordinates)'')) (geojson_bbox mn mx geometries)) (\<lambda>box.
       recrop_cube_to_bbox fm crop nanos scratch data box ''EPSG:4326'' ''filter_spatial'')))"

section \<open>Filtering by time\<close>

lemma keep_zip:
  assumes "length ps = length ds"
  shows "map (\<lambda>i. ps ! i) (filter (\<lambda>i. P (ds ! i)) [0..<length ds]) = map fst (filter (\<lambda>x. P (snd x)) (zip ps ds))"
proof -
  have "zip ps ds = map (\<lambda>i. (ps ! i, ds ! i)) [0..<length ds]" using assms by (intro nth_equalityI) auto
  then show ?thesis by (simp add: filter_map comp_def)
qed

lemma kept_scenes:
  "map (\<lambda>i. ds ! i) (surviving st en ds) = filter (in_extent st en) ds"
  "length (surviving st en ds) = length (filter (in_extent st en) ds)"
proof -
  have "map (\<lambda>i. ds ! i) (filter (\<lambda>i. P (ds ! i)) [0..<length ds]) = filter P ds" for P
    using filter_map [of P "\<lambda>i. ds ! i" "[0..<length ds]"] by (simp add: map_nth comp_def)
  then show "map (\<lambda>i. ds ! i) (surviving st en ds) = filter (in_extent st en) ds" unfolding surviving_def .
  then show "length (surviving st en ds) = length (filter (in_extent st en) ds)" by (metis length_map)
qed

lemma cube_wf_update:
  assumes "cube_wf c" and "bt_wf bands"
  shows "cube_wf (c\<lparr>c_bands := bands\<rparr>)" "cube_wf (c\<lparr>c_bands := bands, c_datetimes := ds, c_scene_count := n\<rparr>)"
    "cube_wf (c\<lparr>c_bands := bands, c_layers := l, c_layer_names := ns\<rparr>)" "cube_wf (c\<lparr>c_bands := bands, c_layer_names := ns\<rparr>)"
  using assms by (simp_all add: cube_wf_def)

lemma prune_zip:
  assumes "length ps = length ds"
  shows "length (prune (surviving st en ds) (length ds) ps) = length (filter (in_extent st en) ds)"
    "zip (prune (surviving st en ds) (length ds) ps) (filter (in_extent st en) ds) = filter (\<lambda>x. in_extent st en (snd x)) (zip ps ds)"
proof -
  let ?z = "filter (\<lambda>x. in_extent st en (snd x)) (zip ps ds)"
  have times: "filter (in_extent st en) ds = map snd ?z"
    using filter_map [of "in_extent st en" snd "zip ps ds"] assms by (simp add: comp_def)
  have paths: "prune (surviving st en ds) (length ds) ps = map fst ?z"
    using keep_zip [OF assms, of "in_extent st en"] assms by (simp add: prune_def surviving_def)
  show "length (prune (surviving st en ds) (length ds) ps) = length (filter (in_extent st en) ds)" unfolding paths times by simp
  show "zip (prune (surviving st en ds) (length ds) ps) (filter (in_extent st en) ds) = ?z"
    unfolding paths times by (rule zip_map_fst_snd)
qed

lemma filter_temporal_inside:
  assumes "bt_get args ''data'' = Some data" and "json_ok data" and "from_envelope_owned (f_decode fm) data = Ok c"
    and "c_datetimes c = Some ds" and "bt_get args ''extent'' = Some (JArray [a, b])"
  shows "let inside = in_extent (map_option (\<lambda>s. normalise_iso s True) (as_str a)) (map_option (\<lambda>s. normalise_iso s False) (as_str b))
    in if filter inside ds = []
       then eval_filter_temporal fm args = Err (Backend ''filter_temporal: no scenes fall within the requested extent'')
       else \<exists>env bands. eval_filter_temporal fm args = Ok env \<and>
         from_envelope (f_decode fm) env =
           Ok (c\<lparr>c_bands := bands, c_datetimes := Some (filter inside ds), c_scene_count := Some (length (filter inside ds))\<rparr>) \<and>
         map fst bands = map fst (c_bands c) \<and>
         (\<forall>k ps. bt_get (c_bands c) k = Some ps \<longrightarrow> (\<exists>ps'. bt_get bands k = Some ps' \<and>
            (if length ps = length ds then length ps' = length (filter inside ds) \<and>
               zip ps' (filter inside ds) = filter (\<lambda>x. inside (snd x)) (zip ps ds) else ps' = ps)))"
proof -
  let ?st = "map_option (\<lambda>s. normalise_iso s True) (as_str a)" and ?en = "map_option (\<lambda>s. normalise_iso s False) (as_str b)"
  let ?in = "in_extent ?st ?en" and ?keep = "surviving ?st ?en ds"
  let ?bands = "map (\<lambda>(k, ps). (k, prune ?keep (length ds) ps)) (c_bands c)"
  let ?c = "c\<lparr>c_bands := ?bands, c_datetimes := Some (filter ?in ds), c_scene_count := Some (length (filter ?in ds))\<rparr>"
  have wf: "cube_wf c" by (rule input_cube_wf [OF assms(3,2)])
  have eval: "eval_filter_temporal fm args = (if filter ?in ds = []
      then Err (Backend ''filter_temporal: no scenes fall within the requested extent'') else Ok (to_envelope ?c))"
    unfolding kept_scenes [symmetric] using assms(1,3-5)
    by (simp add: eval_filter_temporal_def take_data_def input_cube_def Let_def)
  have keys: "map fst ?bands = map fst (c_bands c)" by (simp add: comp_def case_prod_beta)
  have "bt_wf ?bands" unfolding bt_wf_def keys using wf by (simp add: cube_wf_def bt_wf_def)
  then have again: "from_envelope (f_decode fm) (to_envelope ?c) = Ok ?c"
    by (intro envelope_round_trip cube_wf_update(2) wf)
  have band: "\<exists>ps'. bt_get ?bands k = Some ps' \<and> (if length ps = length ds then length ps' = length (filter ?in ds) \<and>
      zip ps' (filter ?in ds) = filter (\<lambda>x. ?in (snd x)) (zip ps ds) else ps' = ps)" if "bt_get (c_bands c) k = Some ps" for k ps
    using prune_zip [of ps ds ?st ?en] that by (cases "length ps = length ds") (simp_all add: bt_get_map, simp add: prune_def)
  show ?thesis
  proof (cases "filter ?in ds = []")
    case False
    have "eval_filter_temporal fm args = Ok (to_envelope ?c)" using False by (simp add: eval)
    then show ?thesis unfolding Let_def if_not_P [OF False] using again keys band by blast
  qed (simp add: eval)
qed

lemma in_extent_alt:
  "in_extent (map_option f x) (map_option g y) = (\<lambda>dt. (\<forall>s. x = Some s \<longrightarrow> f s \<le> dt) \<and> (\<forall>s. y = Some s \<longrightarrow> dt \<le> g s))"
  by (cases x; cases y) (auto simp: in_extent_def fun_eq_iff)

text \<open>
  C12. \<open>filter_temporal\<close> keeps exactly the scenes whose time lies in the extent. On a cube with times it
  fails when no scene is inside; otherwise its answer decodes to the cube whose times are the times inside,
  in their order, and in which every band that has one path per scene keeps each path with its time;
  bands without a time axis and all other fields are unchanged.
\<close>

theorem filter_temporal_exact:
  assumes "bt_get args ''data'' = Some data" and "json_ok data" and "from_envelope_owned (f_decode fm) data = Ok c"
    and "c_datetimes c = Some ds" and "bt_get args ''extent'' = Some (JArray [a, b])"
  shows "let inside = (\<lambda>dt. (\<forall>s. as_str a = Some s \<longrightarrow> normalise_iso s True \<le> dt) \<and> (\<forall>s. as_str b = Some s \<longrightarrow> dt \<le> normalise_iso s False))
    in if filter inside ds = []
       then eval_filter_temporal fm args = Err (Backend ''filter_temporal: no scenes fall within the requested extent'')
       else \<exists>env bands. eval_filter_temporal fm args = Ok env \<and>
         from_envelope (f_decode fm) env =
           Ok (c\<lparr>c_bands := bands, c_datetimes := Some (filter inside ds), c_scene_count := Some (length (filter inside ds))\<rparr>) \<and>
         map fst bands = map fst (c_bands c) \<and>
         (\<forall>k ps. bt_get (c_bands c) k = Some ps \<longrightarrow> (\<exists>ps'. bt_get bands k = Some ps' \<and>
            (if length ps = length ds then length ps' = length (filter inside ds) \<and>
               zip ps' (filter inside ds) = filter (\<lambda>x. inside (snd x)) (zip ps ds) else ps' = ps)))"
  using filter_temporal_inside [OF assms] unfolding in_extent_alt .

definition sample_fmt :: fmt where
  "sample_fmt = \<lparr>f_char = (\<lambda>_. []), f_f64 = (\<lambda>_. []), f_json = (\<lambda>_. []), f_keys = (\<lambda>_. []), f_decode = (\<lambda>_. [])\<rparr>"

definition june_scene :: string where "june_scene = ''2024-06-11T10:00:00Z''"
definition july_scene :: string where "july_scene = ''2024-07-11T10:00:00Z''"

definition sample_envelope :: json where
  "sample_envelope = JObject [(''__cube'', JObject [(''bands'', JObject [(''B04'', JArray [JString ''r0'', JString ''r1''])]),
     (''datetimes'', JArray [JString june_scene, JString july_scene])])]"

definition sample_cube :: data_cube where
  "sample_cube = cube_new\<lparr>c_bands := [(''B04'', [''r0'', ''r1''])], c_datetimes := Some [june_scene, july_scene]\<rparr>"

lemma sample_envelope_decodes: "from_envelope_owned msg sample_envelope = Ok sample_cube" "json_ok sample_envelope"
  by (simp_all add: sample_envelope_def sample_cube_def from_envelope_owned_def from_envelope_def json_get_def decode_or_err_def
    decode_cube_def dec_default_def dec_map_def dec_list_def cube_new_def field_names_def dec_opt_def)

theorem filter_temporal_exact_witness:
  "\<exists>env c. eval_filter_temporal sample_fmt [(''data'', sample_envelope), (''extent'', JArray [JString ''2024-06-01'', JString ''2024-06-30''])] = Ok env \<and>
     from_envelope (f_decode sample_fmt) env = Ok c \<and> bt_get (c_bands c) ''B04'' = Some [''r0''] \<and> c_datetimes c = Some [june_scene]"
proof -
  let ?args = "[(''data'', sample_envelope), (''extent'', JArray [JString ''2024-06-01'', JString ''2024-06-30''])]"
  have args: "bt_get ?args ''data'' = Some sample_envelope"
      "bt_get ?args ''extent'' = Some (JArray [JString ''2024-06-01'', JString ''2024-06-30''])" by (simp_all add: bt_get_def)
  have times: "c_datetimes sample_cube = Some [june_scene, july_scene]" and band: "bt_get (c_bands sample_cube) ''B04'' = Some [''r0'', ''r1'']"
    by (simp_all add: sample_cube_def bt_get_def)
  have iso: "map_option (\<lambda>s. normalise_iso s True) (as_str (JString ''2024-06-01'')) = Some ''2024-06-01T00:00:00Z''"
    "map_option (\<lambda>s. normalise_iso s False) (as_str (JString ''2024-06-30'')) = Some ''2024-06-30T23:59:59Z''" by code_simp+
  have kept: "filter (in_extent (Some ''2024-06-01T00:00:00Z'') (Some ''2024-06-30T23:59:59Z'')) [june_scene, july_scene] = [june_scene]" by code_simp
  have pairs: "filter (\<lambda>x. in_extent (Some ''2024-06-01T00:00:00Z'') (Some ''2024-06-30T23:59:59Z'') (snd x))
      (zip [''r0'', ''r1''] [june_scene, july_scene]) = [(''r0'', june_scene)]" by code_simp
  obtain env bands where ev: "eval_filter_temporal sample_fmt ?args = Ok env"
      "from_envelope (f_decode sample_fmt) env = Ok (sample_cube\<lparr>c_bands := bands, c_datetimes := Some [june_scene], c_scene_count := Some (length [june_scene])\<rparr>)"
    and bs: "\<forall>k ps. bt_get (c_bands sample_cube) k = Some ps \<longrightarrow> (\<exists>ps'. bt_get bands k = Some ps' \<and>
      (if length ps = length [june_scene, july_scene] then length ps' = length [june_scene] \<and> zip ps' [june_scene] =
        filter (\<lambda>x. in_extent (Some ''2024-06-01T00:00:00Z'') (Some ''2024-06-30T23:59:59Z'') (snd x)) (zip ps [june_scene, july_scene]) else ps' = ps))"
    using filter_temporal_exact [OF args(1) sample_envelope_decodes(2) sample_envelope_decodes(1) times args(2), where fm = sample_fmt,
        folded in_extent_alt, unfolded iso Let_def kept if_not_P [OF list.distinct(2)]] by blast
  obtain ps' where "bt_get bands ''B04'' = Some ps'" "length ps' = 1" "zip ps' [june_scene] = [(''r0'', june_scene)]"
    using bs [rule_format, OF band] pairs by auto
  then have "bt_get bands ''B04'' = Some [''r0'']" by (cases ps') auto
  then show ?thesis using ev by auto
qed

text \<open>
  Times are compared as text. A scene with a fraction of a second is taken to lie before the whole second:
  it is dropped when the extent starts at that second.
\<close>

lemma fraction_before_second: "\<not> in_extent (Some ''2024-06-11T10:00:00Z'') None ''2024-06-11T10:00:00.500Z''"
  by code_simp

section \<open>Renaming\<close>

lemma or_insert_get: "bt_get (fold or_insert rest m) k = (case bt_get m k of Some v \<Rightarrow> Some v | None \<Rightarrow> bt_get rest k)"
proof (induction rest arbitrary: m)
  case (Cons kv rest)
  have "bt_get (kv # rest) k = (if k = fst kv then Some (snd kv) else bt_get rest k)" by (cases kv) (simp add: bt_get_def)
  then show ?case using Cons [of "or_insert kv m"] by (auto simp: or_insert_def bt_get_insert split: option.splits)
qed (simp add: bt_get_def split: option.split)

lemma or_insert_wf: "bt_wf m \<Longrightarrow> bt_wf (fold or_insert rest m)"
  by (induction rest arbitrary: m) (auto simp: or_insert_def bt_wf_insert)

lemma move_bands_spec:
  assumes "length olds = length news" and "distinct olds" and "distinct news"
    and "\<forall>n \<in> set news. validate_identifier fm n ''rename_labels.target'' = Ok ()"
    and "\<forall>old \<in> set olds. bt_get bands old \<noteq> None" and "bt_wf bands" and "bt_wf renamed"
  shows "\<exists>rest renamed'. move_bands fm (zip olds news) bands renamed = Ok (rest, renamed') \<and> bt_wf rest \<and> bt_wf renamed' \<and>
    (\<forall>k. bt_get rest k = (if k \<in> set olds then None else bt_get bands k)) \<and>
    (\<forall>k. bt_get renamed' k = (case map_of (zip news olds) k of Some old \<Rightarrow> bt_get bands old | None \<Rightarrow> bt_get renamed k))"
  using assms
proof (induction olds news arbitrary: bands renamed rule: list_induct2)
  case (Cons old olds new news)
  obtain ps where ps: "bt_get bands old = Some ps" using Cons.prems(4) by auto
  let ?b = "bt_remove old bands" and ?r = "bt_insert new ps renamed"
  have "\<forall>o' \<in> set olds. bt_get ?b o' \<noteq> None" using Cons.prems(1,4) by (auto simp: bt_get_remove)
  then obtain rest renamed' where mv: "move_bands fm (zip olds news) ?b ?r = Ok (rest, renamed')" "bt_wf rest" "bt_wf renamed'"
    "\<forall>k. bt_get rest k = (if k \<in> set olds then None else bt_get ?b k)"
    "\<forall>k. bt_get renamed' k = (case map_of (zip news olds) k of Some old \<Rightarrow> bt_get ?b old | None \<Rightarrow> bt_get ?r k)"
    using Cons.IH [of ?b ?r] Cons.prems(1-3) bt_wf_remove [OF Cons.prems(5)] bt_wf_insert [OF Cons.prems(6)] by force
  have "bt_get renamed' k = (case map_of (zip (new # news) (old # olds)) k of Some old \<Rightarrow> bt_get bands old | None \<Rightarrow> bt_get renamed k)" for k
  proof (cases "k = new")
    case True
    have "map_of (zip news olds) new = None" using Cons.prems(2) Cons.hyps by (simp add: map_of_zip_is_None)
    then show ?thesis using mv(5) True ps by (simp add: bt_get_insert)
  next
    case False
    have "o' \<noteq> old" if "map_of (zip news olds) k = Some o'" for o'
      using that Cons.prems(1) by (metis distinct.simps(2) in_set_zipE map_of_SomeD)
    then show ?thesis using mv(5) False by (auto simp: bt_get_insert bt_get_remove split: option.split)
  qed
  moreover have "bt_get rest k = (if k \<in> set (old # olds) then None else bt_get bands k)" for k
    using mv(4) by (simp add: bt_get_remove)
  ultimately show ?case using mv(1-3) Cons.prems(3) ps by simp
qed simp

definition rename_args :: "json \<Rightarrow> string list \<Rightarrow> string list \<Rightarrow> args" where
  "rename_args data source target =
     [(''data'', data), (''source'', JArray (map JString source)), (''target'', JArray (map JString target))]"

lemma strings_of_JString [simp]: "strings_of (map JString xs) = xs"
  by (induction xs) (simp_all add: strings_of_def map_filter_simps)

text \<open>The lookup after a rename.\<close>

definition renamed_get :: "string list \<Rightarrow> string list \<Rightarrow> (string \<Rightarrow> 'a option) \<Rightarrow> string \<Rightarrow> 'a option" where
  "renamed_get source target f k =
     (case map_of (zip target source) k of Some old \<Rightarrow> f old | None \<Rightarrow> if k \<in> set source then None else f k)"

lemma renamed_get_simps:
  assumes "length source = length target" and "distinct target"
  shows "\<And>i f. i < length source \<Longrightarrow> renamed_get source target f (target ! i) = f (source ! i)"
    and "\<And>k f. k \<notin> set source \<union> set target \<Longrightarrow> renamed_get source target f k = f k"
proof -
  show "renamed_get source target f (target ! i) = f (source ! i)" if "i < length source" for i f
    using map_of_zip_nth [of target source i] assms that by (simp add: renamed_get_def)
  show "renamed_get source target f k = f k" if "k \<notin> set source \<union> set target" for k f
  proof -
    have "map_of (zip target source) k = None" using assms(1) that by (simp add: map_of_zip_is_None)
    then show ?thesis using that by (simp add: renamed_get_def)
  qed
qed

lemma renamed_get_inverse:
  assumes "length source = length target" and "distinct source" and "distinct target"
    and "\<forall>k. f k \<noteq> None \<and> k \<notin> set source \<longrightarrow> k \<notin> set target"
  shows "renamed_get target source (renamed_get source target f) k = f k"
proof (cases "map_of (zip source target) k")
  case None
  then have out: "k \<notin> set source" using assms(1) by (simp add: map_of_zip_is_None)
  show ?thesis
  proof (cases "k \<in> set target")
    case True
    then have "f k = None" using assms(4) out by blast
    then show ?thesis using None True by (simp add: renamed_get_def)
  next
    case False
    then have "renamed_get source target f k = f k" using out by (intro renamed_get_simps(2) [OF assms(1,3)]) simp
    then show ?thesis using None False by (simp add: renamed_get_def [of target])
  qed
next
  case (Some n)
  then have "map_of (zip target source) n = Some k" using map_of_zip_swap [OF assms(1-3)] by simp
  then show ?thesis using Some by (simp add: renamed_get_def)
qed

lemma rename_eval:
  assumes "from_envelope_owned (f_decode fm) data = Ok c" and "cube_wf c" and "length source = length target"
    and "distinct source" and "distinct target" and "\<forall>n \<in> set target. validate_identifier fm n ''rename_labels.target'' = Ok ()"
    and "\<forall>old \<in> set source. bt_get (c_bands c) old \<noteq> None"
  obtains bands where "eval_rename_labels fm (rename_args data source target) =
      Ok (to_envelope (c\<lparr>c_bands := bands, c_layer_names := Some (map fst bands)\<rparr>))"
    and "bt_wf bands"
    and "\<And>k. bt_get bands k = renamed_get source target (bt_get (c_bands c)) k"
proof -
  have wf: "bt_wf (c_bands c)" using assms(2) by (simp add: cube_wf_def)
  obtain rest renamed where mv: "move_bands fm (zip source target) (c_bands c) [] = Ok (rest, renamed)" "bt_wf renamed"
    "\<forall>k. bt_get rest k = (if k \<in> set source then None else bt_get (c_bands c) k)"
    "\<forall>k. bt_get renamed k = (case map_of (zip target source) k of Some old \<Rightarrow> bt_get (c_bands c) old | None \<Rightarrow> bt_get [] k)"
    using move_bands_spec [OF assms(3-7) wf bt.wf_empty] by blast
  let ?bands = "fold or_insert rest renamed"
  have "eval_rename_labels fm (rename_args data source target) =
      Ok (to_envelope (c\<lparr>c_bands := ?bands, c_layer_names := Some (map fst ?bands)\<rparr>))"
    using mv(1) assms(1,3)
    by (simp add: eval_rename_labels_def rename_args_def take_data_def bt_get_def Let_def input_cube_def old_keys_def)
  moreover have "bt_get ?bands k = renamed_get source target (bt_get (c_bands c)) k" for k 
  proof (cases "map_of (zip target source) k")
    case (Some old)
    then have "old \<in> set source" by (metis in_set_zipE map_of_SomeD)
    then show ?thesis using assms(7) Some mv(4) by (auto simp: or_insert_get renamed_get_def)
  qed (use mv(3,4) in \<open>simp add: or_insert_get bt.lookup_empty renamed_get_def\<close>)
  ultimately show ?thesis using that or_insert_wf [OF mv(2)] by blast
qed

text \<open>
  C14. \<open>rename_labels\<close> renames without loss, under its side conditions: the source bands exist, no source and
  no target is given twice, every label is a valid identifier, and no target is the name of a band that
  is not renamed. Then every band is found under its new name with its paths, the other bands stay, and
  renaming back restores the bands of the cube and every other field except \<open>layer_names\<close>, which each
  renaming replaces by the names of the bands. The reflectance scales stay under the old names. Without
  the conditions bands can be lost: of two bands that end up under one name one is kept.
\<close>

theorem rename_labels_roundtrip:
  assumes "from_envelope_owned (f_decode fm) data = Ok c" and "json_ok data" and "length source = length target"
    and "distinct source" and "distinct target"
    and "\<forall>n \<in> set source \<union> set target. validate_identifier fm n ''rename_labels.target'' = Ok ()"
    and "\<forall>old \<in> set source. bt_get (c_bands c) old \<noteq> None"
    and "\<forall>k. bt_get (c_bands c) k \<noteq> None \<and> k \<notin> set source \<longrightarrow> k \<notin> set target"
  shows "\<exists>env c'. eval_rename_labels fm (rename_args data source target) = Ok env \<and> from_envelope_owned (f_decode fm) env = Ok c' \<and>
    (\<forall>i < length source. bt_get (c_bands c') (target ! i) = bt_get (c_bands c) (source ! i)) \<and>
    (\<forall>k. k \<notin> set source \<union> set target \<longrightarrow> bt_get (c_bands c') k = bt_get (c_bands c) k) \<and>
    c_band_scales c' = c_band_scales c \<and>
    (\<exists>env'. eval_rename_labels fm (rename_args env target source) = Ok env' \<and>
      from_envelope_owned (f_decode fm) env' = Ok (c\<lparr>c_layer_names := Some (map fst (c_bands c))\<rparr>))"
proof -
  have wf: "cube_wf c" by (rule input_cube_wf [OF assms(1,2)])
  have ids: "\<forall>n \<in> set target. validate_identifier fm n ''rename_labels.target'' = Ok ()"
    "\<forall>n \<in> set source. validate_identifier fm n ''rename_labels.target'' = Ok ()" using assms(6) by auto
  obtain bands where ev: "eval_rename_labels fm (rename_args data source target) =
      Ok (to_envelope (c\<lparr>c_bands := bands, c_layer_names := Some (map fst bands)\<rparr>))" and bw: "bt_wf bands"
    and get: "\<And>k. bt_get bands k = renamed_get source target (bt_get (c_bands c)) k"
    by (rule rename_eval [OF assms(1) wf assms(3-5) ids(1) assms(7)]) blast
  let ?c = "c\<lparr>c_bands := bands, c_layer_names := Some (map fst bands)\<rparr>"
  have wf': "cube_wf ?c" by (rule cube_wf_update(4) [OF wf bw])
  note dec = envelope_owned_round_trip [OF wf', of "f_decode fm"] and look = renamed_get_simps [OF assms(3,5), of _ "bt_get (c_bands c)"]
  have "\<forall>n \<in> set target. bt_get bands n \<noteq> None" using look(1) get assms(3,7) by (metis in_set_conv_nth)
  then have "\<forall>n \<in> set target. bt_get (c_bands ?c) n \<noteq> None" by simp
  then obtain bands' where ev': "eval_rename_labels fm (rename_args (to_envelope ?c) target source) =
      Ok (to_envelope (?c\<lparr>c_bands := bands', c_layer_names := Some (map fst bands')\<rparr>))" and bw': "bt_wf bands'"
    and get': "\<And>k. bt_get bands' k = renamed_get target source (bt_get (c_bands ?c)) k"
    using rename_eval [OF dec wf' assms(3) [symmetric] assms(5,4) ids(2)] by blast
  have "bt_get (c_bands ?c) = renamed_get source target (bt_get (c_bands c))" using get by auto
  then have "bt_get bands' k = bt_get (c_bands c) k" for k
    using get' [of k] renamed_get_inverse [OF assms(3-5,8)] by simp
  then have "bands' = c_bands c" using bt_ext [OF bw'] wf by (simp add: cube_wf_def)
  then have there: "?c\<lparr>c_bands := bands', c_layer_names := Some (map fst bands')\<rparr> = c\<lparr>c_layer_names := Some (map fst (c_bands c))\<rparr>" by simp
  have "cube_wf (c\<lparr>c_layer_names := Some (map fst (c_bands c))\<rparr>)" using wf by (simp add: cube_wf_def)
  note restored = envelope_owned_round_trip [OF this, of "f_decode fm"]
  show ?thesis
  proof (intro exI conjI)
    show "eval_rename_labels fm (rename_args data source target) = Ok (to_envelope ?c)" by (rule ev)
    show "from_envelope_owned (f_decode fm) (to_envelope ?c) = Ok ?c" by (rule dec)
    show "eval_rename_labels fm (rename_args (to_envelope ?c) target source) = Ok (to_envelope (c\<lparr>c_layer_names := Some (map fst (c_bands c))\<rparr>))"
      using ev' unfolding there .
  qed (use look get restored in simp_all)
qed

theorem rename_labels_roundtrip_witness:
  "\<exists>env c'. eval_rename_labels sample_fmt (rename_args sample_envelope [''B04''] [''red'']) = Ok env \<and>
     from_envelope_owned (f_decode sample_fmt) env = Ok c' \<and> bt_get (c_bands c') ''red'' = Some [''r0'', ''r1'']"
proof -
  have ids: "\<forall>n \<in> set [''B04''] \<union> set [''red'']. validate_identifier sample_fmt n ''rename_labels.target'' = Ok ()"
  proof -
    have "validate_identifier sample_fmt ''B04'' ''rename_labels.target'' = Ok ()" by code_simp
    moreover have "validate_identifier sample_fmt ''red'' ''rename_labels.target'' = Ok ()" by code_simp
    ultimately show ?thesis by simp
  qed
  have bands: "c_bands sample_cube = [(''B04'', [''r0'', ''r1''])]" by (simp add: sample_cube_def)
  have old: "\<forall>old \<in> set [''B04'']. bt_get (c_bands sample_cube) old \<noteq> None" by (simp add: bands bt_get_def)
  have free: "\<forall>k. bt_get (c_bands sample_cube) k \<noteq> None \<and> k \<notin> set [''B04''] \<longrightarrow> k \<notin> set [''red'']"
    by (simp add: bands bt_get_def)
  obtain env c' where "eval_rename_labels sample_fmt (rename_args sample_envelope [''B04''] [''red'']) = Ok env"
      "from_envelope_owned (f_decode sample_fmt) env = Ok c'"
      "\<forall>i < length [''B04'']. bt_get (c_bands c') ([''red''] ! i) = bt_get (c_bands sample_cube) ([''B04''] ! i)"
    using rename_labels_roundtrip [OF sample_envelope_decodes(1,2) _ _ _ ids old free] by auto
  moreover from this(3) have "bt_get (c_bands c') ''red'' = Some [''r0'', ''r1'']" by (simp add: bands bt_get_def)
  ultimately show ?thesis by blast
qed

section \<open>Where cropping writes\<close>

definition in_scratch :: "string \<Rightarrow> string \<Rightarrow> bool" where
  "in_scratch scratch dst \<longleftrightarrow> (\<exists>name. dst = path_join scratch name \<and> 4 < length name \<and> CHR ''/'' \<notin> set name \<and> CHR 0x00 \<notin> set name)"

lemma crop_name_plain:
  assumes "\<And>x. x \<in> set who \<union> set band \<Longrightarrow> x \<noteq> CHR ''/'' \<and> x \<noteq> CHR 0x00"
  shows "in_scratch scratch (path_join scratch (crop_name who band t n))"
proof -
  have "x \<noteq> CHR ''/'' \<and> x \<noteq> CHR 0x00" if "x \<in> set (show_nat m)" for x m using show_nat_digits [OF that] by auto
  then have "CHR ''/'' \<notin> set (crop_name who band t n) \<and> CHR 0x00 \<notin> set (crop_name who band t n)"
    using assms by (auto simp: crop_name_def)
  then show ?thesis unfolding in_scratch_def by (intro exI [of _ "crop_name who band t n"]) (simp add: crop_name_def)
qed

lemma crop_scenes_local:
  assumes "\<And>src dst. in_scratch scratch dst \<Longrightarrow> crop src dst box crs = crop' src dst box crs"
    and "\<And>x. x \<in> set who \<union> set band \<Longrightarrow> x \<noteq> CHR ''/'' \<and> x \<noteq> CHR 0x00"
  shows "crop_scenes crop nanos scratch box crs who band t ps = crop_scenes crop' nanos scratch box crs who band t ps"
  using assms(1) [OF crop_name_plain [OF assms(2)]] by (induction ps arbitrary: t) simp_all

lemma crop_bands_local:
  assumes "\<And>src dst. in_scratch scratch dst \<Longrightarrow> crop src dst box crs = crop' src dst box crs"
    and "\<And>x. x \<in> set who \<Longrightarrow> x \<noteq> CHR ''/'' \<and> x \<noteq> CHR 0x00"
  shows "crop_bands fm crop nanos scratch box crs who ks cube = crop_bands fm crop' nanos scratch box crs who ks cube"
proof (induction ks arbitrary: cube)
  case (Cons k ks)
  show ?case
  proof (cases "validate_identifier fm k (who @ ''.band_key'')")
    case (Inr u)
    then have ok: "validate_identifier fm k (who @ ''.band_key'') = Ok ()" by simp
    have "crop_scenes crop nanos scratch box crs who k 0 ps = crop_scenes crop' nanos scratch box crs who k 0 ps" for ps
    proof (rule crop_scenes_local)
      show "crop src dst box crs = crop' src dst box crs" if "in_scratch scratch dst" for src dst by (rule assms(1) [OF that])
      show "x \<noteq> CHR ''/'' \<and> x \<noteq> CHR 0x00" if "x \<in> set who \<union> set k" for x
        using that assms(2) [of x] validate_identifier_plain(1,3) [OF ok] by auto
    qed
    then show ?thesis using Cons ok by simp
  qed simp
qed simp

text \<open>
  C26. Cropping touches files of the scratch directory only. Whatever the graph names as bands, geometry and
  reference system, \<open>filter_bbox\<close> and \<open>filter_spatial\<close> hand the raster library no destination
  outside: two libraries that agree on destinations whose file name is a single component of the
  scratch directory give the same answer.
\<close>

theorem crop_stays_in_scratch:
  assumes "\<And>src dst box crs. in_scratch scratch dst \<Longrightarrow> crop src dst box crs = crop' src dst box crs"
  shows "eval_filter_bbox fm crop nanos scratch args = eval_filter_bbox fm crop' nanos scratch args \<and>
    eval_filter_spatial fm mn mx crop nanos scratch args = eval_filter_spatial fm mn mx crop' nanos scratch args"
proof -
  have same: "recrop_cube_to_bbox fm crop nanos scratch data box crs who = recrop_cube_to_bbox fm crop' nanos scratch data box crs who"
    if "\<And>x. x \<in> set who \<Longrightarrow> x \<noteq> CHR ''/'' \<and> x \<noteq> CHR 0x00" for data box crs who
  proof -
    have "crop_bands fm crop nanos scratch box crs who ks cube = crop_bands fm crop' nanos scratch box crs who ks cube" for ks cube
    proof (rule crop_bands_local)
      show "crop src dst box crs = crop' src dst box crs" if "in_scratch scratch dst" for src dst by (rule assms [OF that])
    qed (rule that)
    then show ?thesis unfolding recrop_cube_to_bbox_def by (simp only:)
  qed
  have "recrop_cube_to_bbox fm crop nanos scratch data box crs ''filter_bbox'' = recrop_cube_to_bbox fm crop' nanos scratch data box crs ''filter_bbox''"
    "recrop_cube_to_bbox fm crop nanos scratch data box crs ''filter_spatial'' = recrop_cube_to_bbox fm crop' nanos scratch data box crs ''filter_spatial''"
    for data box crs by (rule same; auto)+
  then show ?thesis by (simp add: eval_filter_bbox_def eval_filter_spatial_def)
qed

text \<open>A library that writes below \<open>/tmp\<close> only, and requests that crop the two files of a band.\<close>

definition strict_crop :: crop where
  "strict_crop src dst box crs = (if in_scratch ''/tmp'' dst then Ok dst else Err (CropError []))"

definition crop_box :: json where
  "crop_box = JObject [(''east'', JNumber (Float 4)), (''north'', JNumber (Float 4)), (''south'', JNumber (Float 2)), (''west'', JNumber (Float 2))]"

definition crop_points :: json where
  "crop_points = JArray [JArray [JNumber (Float 2), JNumber (Float 2)], JArray [JNumber (Float 4), JNumber (Float 4)]]"

definition cropped_cube :: "string \<Rightarrow> data_cube" where
  "cropped_cube who = sample_cube\<lparr>c_bands := [(''B04'', [''/tmp/'' @ who @ ''_B04_t0_7.tif'', ''/tmp/'' @ who @ ''_B04_t1_7.tif''])],
     c_bbox := Some [2, 2, 4, 4]\<rparr>"

lemma sample_recrop:
  assumes "validate_identifier sample_fmt ''B04'' (who @ ''.band_key'') = Ok ()"
  shows "recrop_cube_to_bbox sample_fmt (\<lambda>src dst box crs. Ok dst) (\<lambda>band t. 7) ''/tmp'' sample_envelope (2, 2, 4, 4) crs who =
    Ok (to_envelope (cropped_cube who))"
proof -
  have digits: "show_nat 0 = ''0''" "show_nat 1 = ''1''" "show_nat 7 = ''7''" by code_simp+
  have names: "path_join ''/tmp'' (crop_name who ''B04'' 0 7) = ''/tmp/'' @ who @ ''_B04_t0_7.tif''"
    "path_join ''/tmp'' (crop_name who ''B04'' 1 7) = ''/tmp/'' @ who @ ''_B04_t1_7.tif''"
    unfolding crop_name_def digits by (simp_all add: path_join_def)
  have taken: "take_band sample_cube ''B04'' = (Ok [''r0'', ''r1''], sample_cube\<lparr>c_bands := []\<rparr>)"
    by (simp add: take_band_def sample_cube_def bt_get_def bt_remove_def)
  have "crop_scenes (\<lambda>src dst box crs. Ok dst) (\<lambda>band t. 7) ''/tmp'' (2, 2, 4, 4) crs who ''B04'' 0 [''r0'', ''r1''] =
      Ok [''/tmp/'' @ who @ ''_B04_t0_7.tif'', ''/tmp/'' @ who @ ''_B04_t1_7.tif'']"
    using names by simp
  then have "crop_bands sample_fmt (\<lambda>src dst box crs. Ok dst) (\<lambda>band t. 7) ''/tmp'' (2, 2, 4, 4) crs who [''B04''] sample_cube =
      Ok (sample_cube\<lparr>c_bands := [(''B04'', [''/tmp/'' @ who @ ''_B04_t0_7.tif'', ''/tmp/'' @ who @ ''_B04_t1_7.tif''])]\<rparr>)"
    by (simp add: assms taken)
  then show ?thesis
    by (simp add: recrop_cube_to_bbox_def input_cube_def sample_envelope_decodes cropped_cube_def) (simp add: sample_cube_def)
qed

theorem crop_stays_in_scratch_witness:
  "eval_filter_bbox sample_fmt strict_crop (\<lambda>band t. 7) ''/tmp'' [(''data'', sample_envelope), (''extent'', crop_box)] =
     Ok (to_envelope (cropped_cube ''filter_bbox'')) \<and>
   eval_filter_spatial sample_fmt f64_min f64_max strict_crop (\<lambda>band t. 7) ''/tmp'' [(''data'', sample_envelope), (''geometries'', crop_points)] =
     Ok (to_envelope (cropped_cube ''filter_spatial''))"
proof -
  have agree: "strict_crop src dst box crs = Ok dst" if "in_scratch ''/tmp'' dst" for src dst box crs
    using that by (simp add: strict_crop_def)
  have box: "parse_bbox sample_fmt crop_box = Ok ((2, 2, 4, 4), ''EPSG:4326'')"
    by (simp add: parse_bbox_def crop_box_def bbox_number_def json_get_def f64_lt_def f64_units_def
        f64_neg_def f64_mag_def mag_units_def f64_is_nan_def inf_mag_def)
  have points: "geojson_bbox f64_min f64_max crop_points = Some (2, 2, 4, 4)"
    by (simp add: geojson_bbox_def crop_points_def bbox_number_def json_get_def pair_of_def is_number_def widen_def f64_infinity_def
        f64_make_def f64_min_def f64_max_def f64_lt_def f64_units_def f64_neg_def f64_mag_def mag_units_def f64_is_nan_def inf_mag_def)
  have ids: "validate_identifier sample_fmt ''B04'' (''filter_bbox'' @ ''.band_key'') = Ok ()"
    "validate_identifier sample_fmt ''B04'' (''filter_spatial'' @ ''.band_key'') = Ok ()" by code_simp+
  have crs: "validate_crs_spec sample_fmt ''EPSG:4326'' = Ok ()" by code_simp
  have "eval_filter_bbox sample_fmt (\<lambda>src dst box crs. Ok dst) (\<lambda>band t. 7) ''/tmp'' [(''data'', sample_envelope), (''extent'', crop_box)] =
      Ok (to_envelope (cropped_cube ''filter_bbox''))"
    by (simp add: eval_filter_bbox_def take_data_def bt_get_def box crs sample_recrop [OF ids(1)])
  moreover have "eval_filter_spatial sample_fmt f64_min f64_max (\<lambda>src dst box crs. Ok dst) (\<lambda>band t. 7) ''/tmp''
      [(''data'', sample_envelope), (''geometries'', crop_points)] = Ok (to_envelope (cropped_cube ''filter_spatial''))"
    by (simp add: eval_filter_spatial_def take_data_def bt_get_def points sample_recrop [OF ids(2)])
  ultimately show ?thesis
    using crop_stays_in_scratch [of "''/tmp''" strict_crop "\<lambda>src dst box crs. Ok dst", OF agree] by simp
qed

section \<open>Boxes of geometries\<close>

text \<open>The coordinate pairs of a value, in the order of the walk.\<close>

fun coordinates :: "json \<Rightarrow> (f64 \<times> f64) list" where
  "coordinates (JArray xs) = (case pair_of xs of Some p \<Rightarrow> [p] | None \<Rightarrow> concat (map coordinates xs))"
| "coordinates (JObject kvs) = concat (map (\<lambda>kv. coordinates (snd kv)) kvs)"
| "coordinates _ = []"

lemma box_walk_coordinates: "box_walk mn mx v acc = fold (\<lambda>(x, y). widen mn mx x y) (coordinates v) acc"
proof (induction v arbitrary: acc rule: coordinates.induct)
  case (1 xs)
  show ?case
  proof (cases "pair_of xs")
    case None
    have "fold (box_walk mn mx) ys acc = fold (\<lambda>(x, y). widen mn mx x y) (concat (map coordinates ys)) acc" if "set ys \<subseteq> set xs" for ys acc
      using that 1 [OF None] by (induction ys arbitrary: acc) simp_all
    then show ?thesis using None by simp
  qed (simp add: case_prod_beta)
next
  case (2 kvs)
  have "fold (\<lambda>kv. box_walk mn mx (snd kv)) ys acc = fold (\<lambda>(x, y). widen mn mx x y) (concat (map (\<lambda>kv. coordinates (snd kv)) ys)) acc"
    if "set ys \<subseteq> set kvs" for ys acc
    using that 2 by (induction ys arbitrary: acc) simp_all
  then show ?case by simp
qed simp_all

lemma coordinates_finite: "json_ok v \<Longrightarrow> (x, y) \<in> set (coordinates v) \<Longrightarrow> f64_is_finite x \<and> f64_is_finite y"
proof (induction v rule: coordinates.induct)
  case (1 xs)
  show ?case
  proof (cases "pair_of xs")
    case (Some p)
    then obtain a b r where "xs = a # b # r" "as_f64 a = Some x" "as_f64 b = Some y"
      using 1(3) by (auto simp: pair_of_def split: list.splits if_splits option.splits)
    then show ?thesis using 1(2) as_f64_finite by auto
  qed (use 1 in \<open>auto simp: list_all_iff\<close>)
qed (auto simp: list_all_iff)

text \<open>What is documented of \<open>f64::min\<close> and \<open>f64::max\<close> on numbers.\<close>

definition min_ok :: "(f64 \<Rightarrow> f64 \<Rightarrow> f64) \<Rightarrow> bool" where
  "min_ok mn \<longleftrightarrow> (\<forall>a b. \<not> f64_is_nan a \<longrightarrow> \<not> f64_is_nan b \<longrightarrow> mn a b \<in> {a, b} \<and> f64_units (mn a b) = min (f64_units a) (f64_units b))"
definition max_ok :: "(f64 \<Rightarrow> f64 \<Rightarrow> f64) \<Rightarrow> bool" where
  "max_ok mx \<longleftrightarrow> (\<forall>a b. \<not> f64_is_nan a \<longrightarrow> \<not> f64_is_nan b \<longrightarrow> mx a b \<in> {a, b} \<and> f64_units (mx a b) = max (f64_units a) (f64_units b))"

lemma fold_min:
  assumes "min_ok mn" and "\<not> f64_is_nan a" and "\<forall>x \<in> set xs. \<not> f64_is_nan x"
  shows "let m = fold (\<lambda>x m. mn m x) xs a in m \<in> insert a (set xs) \<and> \<not> f64_is_nan m \<and>
    (\<forall>x \<in> insert a (set xs). f64_units m \<le> f64_units x)"
  using assms(2,3)
proof (induction xs arbitrary: a)
  case (Cons x xs)
  have s: "mn a x \<in> {a, x}" "f64_units (mn a x) = min (f64_units a) (f64_units x)"
    using assms(1) Cons.prems by (auto simp: min_ok_def)
  then have "\<not> f64_is_nan (mn a x)" using Cons.prems by auto
  then show ?case using Cons.IH [of "mn a x"] Cons.prems s by (auto simp: Let_def)
qed simp

lemma fold_max:
  assumes "max_ok mx" and "\<not> f64_is_nan a" and "\<forall>x \<in> set xs. \<not> f64_is_nan x"
  shows "let m = fold (\<lambda>x m. mx m x) xs a in m \<in> insert a (set xs) \<and> \<not> f64_is_nan m \<and>
    (\<forall>x \<in> insert a (set xs). f64_units x \<le> f64_units m)"
  using assms(2,3)
proof (induction xs arbitrary: a)
  case (Cons x xs)
  have s: "mx a x \<in> {a, x}" "f64_units (mx a x) = max (f64_units a) (f64_units x)"
    using assms(1) Cons.prems by (auto simp: max_ok_def)
  then have "\<not> f64_is_nan (mx a x)" using Cons.prems by auto
  then show ?case using Cons.IH [of "mx a x"] Cons.prems s by (auto simp: Let_def)
qed simp

lemma fold_widen:
  "fold (\<lambda>(x, y). widen mn mx x y) ps (x0, y0, x1, y1, b) =
     (fold (\<lambda>x m. mn m x) (map fst ps) x0, fold (\<lambda>y m. mn m y) (map snd ps) y0,
      fold (\<lambda>x m. mx m x) (map fst ps) x1, fold (\<lambda>y m. mx m y) (map snd ps) y1, b \<or> ps \<noteq> [])"
  by (induction ps arbitrary: x0 y0 x1 y1 b) (auto simp: widen_def)

lemma infinity_facts: "\<not> f64_is_nan (f64_infinity s)" "f64_units (f64_infinity False) = int (mag_units inf_mag)"
    "f64_units (f64_infinity True) = - int (mag_units inf_mag)"
  unfolding f64_infinity_def f64_is_nan_def f64_units_def f64_make_parts [OF inf_mag_less] by simp_all

lemma finite_units: "f64_is_finite x \<Longrightarrow> \<bar>f64_units x\<bar> < int (mag_units inf_mag)"
proof -
  assume "f64_is_finite x"
  then have m: "f64_mag x < inf_mag" by (simp add: f64_is_finite_def)
  then have "mag_units (f64_mag x) \<le> mag_units inf_mag" by (intro mag_units_mono) simp_all
  moreover have "mag_units (f64_mag x) \<noteq> mag_units inf_mag" using m mag_units_inj [of "f64_mag x" inf_mag] by auto
  ultimately show ?thesis by (auto simp: f64_units_def)
qed

lemma least_coordinate:
  assumes "min_ok mn" and "xs \<noteq> []" and "\<forall>x \<in> set xs. f64_is_finite x"
  shows "let m = fold (\<lambda>x m. mn m x) xs (f64_infinity False) in m \<in> set xs \<and> (\<forall>x \<in> set xs. f64_le m x)"
proof -
  let ?m = "fold (\<lambda>x m. mn m x) xs (f64_infinity False)"
  have nan: "\<forall>x \<in> set xs. \<not> f64_is_nan x" using assms(3) by (auto simp: f64_is_finite_def f64_is_nan_def)
  have m: "?m \<in> insert (f64_infinity False) (set xs)" "\<not> f64_is_nan ?m" "\<forall>x \<in> set xs. f64_units ?m \<le> f64_units x"
    using fold_min [OF assms(1) infinity_facts(1) nan] by (auto simp: Let_def)
  obtain x where "x \<in> set xs" using assms(2) by (cases xs) auto
  then have "f64_units ?m < f64_units (f64_infinity False)" using m(3) finite_units [of x] assms(3) by (fastforce simp: infinity_facts)
  then have "?m \<in> set xs" using m(1) by auto
  then show ?thesis using m nan by (auto simp: f64_le_def Let_def)
qed

lemma greatest_coordinate:
  assumes "max_ok mx" and "xs \<noteq> []" and "\<forall>x \<in> set xs. f64_is_finite x"
  shows "let m = fold (\<lambda>x m. mx m x) xs (f64_infinity True) in m \<in> set xs \<and> (\<forall>x \<in> set xs. f64_le x m)"
proof -
  let ?m = "fold (\<lambda>x m. mx m x) xs (f64_infinity True)"
  have nan: "\<forall>x \<in> set xs. \<not> f64_is_nan x" using assms(3) by (auto simp: f64_is_finite_def f64_is_nan_def)
  have m: "?m \<in> insert (f64_infinity True) (set xs)" "\<not> f64_is_nan ?m" "\<forall>x \<in> set xs. f64_units x \<le> f64_units ?m"
    using fold_max [OF assms(1) infinity_facts(1) nan] by (auto simp: Let_def)
  obtain x where "x \<in> set xs" using assms(2) by (cases xs) auto
  then have "f64_units (f64_infinity True) < f64_units ?m" using m(3) finite_units [of x] assms(3) by (fastforce simp: infinity_facts)
  then have "?m \<in> set xs" using m(1) by auto
  then show ?thesis using m nan by (auto simp: f64_le_def Let_def)
qed

text \<open>
  The box of a geometry is the smallest one. Unless the value is itself a box, \<open>geojson_bbox\<close> returns a
  box exactly when the coordinate pairs it finds differ in both directions; then every pair lies in
  the box and each of the four sides is the coordinate of some pair.
\<close>

lemma geojson_bbox_tight:
  assumes "min_ok mn" and "max_ok mx" and "json_ok v" and "\<exists>k \<in> {''west'', ''south'', ''east'', ''north''}. bbox_number v k = None"
  shows "case geojson_bbox mn mx v of
      Some (x0, y0, x1, y1) \<Rightarrow> f64_lt x0 x1 \<and> f64_lt y0 y1 \<and> {x0, x1} \<subseteq> fst ` set (coordinates v) \<and> {y0, y1} \<subseteq> snd ` set (coordinates v) \<and>
        (\<forall>(x, y) \<in> set (coordinates v). f64_le x0 x \<and> f64_le x x1 \<and> f64_le y0 y \<and> f64_le y y1)
    | None \<Rightarrow> (\<forall>p \<in> set (coordinates v). \<forall>q \<in> set (coordinates v). f64_eq (fst p) (fst q)) \<or>
        (\<forall>p \<in> set (coordinates v). \<forall>q \<in> set (coordinates v). f64_eq (snd p) (snd q))"
proof (cases "coordinates v = []")
  case True
  then have "geojson_bbox mn mx v = None"
    using assms(4) by (auto simp: geojson_bbox_def box_walk_coordinates split: option.split)
  then show ?thesis using True by simp
next
  case False
  let ?xs = "map fst (coordinates v)" and ?ys = "map snd (coordinates v)"
  have fin: "\<forall>x \<in> set ?xs. f64_is_finite x" "\<forall>y \<in> set ?ys. f64_is_finite y" using coordinates_finite [OF assms(3)] by auto
  define x0 where "x0 = fold (\<lambda>x m. mn m x) ?xs (f64_infinity False)"
  define y0 where "y0 = fold (\<lambda>x m. mn m x) ?ys (f64_infinity False)"
  define x1 where "x1 = fold (\<lambda>x m. mx m x) ?xs (f64_infinity True)"
  define y1 where "y1 = fold (\<lambda>x m. mx m x) ?ys (f64_infinity True)"
  have val: "geojson_bbox mn mx v = (if f64_lt x0 x1 \<and> f64_lt y0 y1 then Some (x0, y0, x1, y1) else None)"
    using assms(4) False by (auto simp: geojson_bbox_def box_walk_coordinates fold_widen x0_def y0_def x1_def y1_def split: option.split)
  have lo: "x0 \<in> set ?xs" "\<forall>x \<in> set ?xs. f64_le x0 x" "y0 \<in> set ?ys" "\<forall>y \<in> set ?ys. f64_le y0 y"
    using least_coordinate [OF assms(1) _ fin(1)] least_coordinate [OF assms(1) _ fin(2)] False by (simp_all add: Let_def x0_def y0_def)
  have hi: "x1 \<in> set ?xs" "\<forall>x \<in> set ?xs. f64_le x x1" "y1 \<in> set ?ys" "\<forall>y \<in> set ?ys. f64_le y y1"
    using greatest_coordinate [OF assms(2) _ fin(1)] greatest_coordinate [OF assms(2) _ fin(2)] False by (simp_all add: Let_def x1_def y1_def)
  show ?thesis
  proof (cases "f64_lt x0 x1 \<and> f64_lt y0 y1")
    case True
    then show ?thesis using lo hi by (auto simp: val)
  next
    case flat: False
    have eq: "f64_eq a b" if "f64_le l a" "f64_le a h" "f64_le l b" "f64_le b h" "\<not> f64_lt l h" for a b l h
      using that by (auto simp: f64_eq_def f64_le_def f64_lt_def)
    have "\<forall>p \<in> set (coordinates v). \<forall>q \<in> set (coordinates v). f64_eq (fst p) (fst q)" if "\<not> f64_lt x0 x1"
      using lo(2) hi(2) that by (intro ballI eq [of x0 _ x1]) auto
    moreover have "\<forall>p \<in> set (coordinates v). \<forall>q \<in> set (coordinates v). f64_eq (snd p) (snd q)" if "\<not> f64_lt y0 y1"
      using lo(4) hi(4) that by (intro ballI eq [of y0 _ y1]) auto
    moreover have "geojson_bbox mn mx v = None" using flat by (simp add: val)
    ultimately show ?thesis using flat by (simp only: option.case) blast
  qed
qed

end
