(* ===== verification/Stac_Scenes.thy ===== *)
theory Stac_Scenes
  imports Resilience Url_Policy Scalar_Processes
begin

text \<open>
  The STAC search of \<open>geo_executor/stac.rs\<close> and the band lookup of \<open>geo_executor/eval_load.rs\<close>: the request,
  the retry loop over the server's replies, the scenes read from the answer, and how a requested band
  is found on a scene. The HTTP client is a parameter: the reply to each attempt.
\<close>

section \<open>Scenes\<close>

record band_metadata =
  bm_epsg :: "nat option"
  bm_geo_transform :: "f64 list option"
  bm_raster_size :: "(nat \<times> nat) option"
  bm_dtype :: "string option"
  bm_nodata :: "f64 option"
  bm_scale :: "f64 option"
  bm_offset :: "f64 option"

record stac_scene =
  sc_id :: string
  sc_bands :: "(string, string) btree"
  sc_metadata :: "(string, band_metadata) btree"
  sc_datetime :: "string option"

definition canonical_table :: "(string \<times> string) list" where
  "canonical_table =
    [(''red'', ''B04''), (''Red'', ''B04''), (''nir'', ''B08''), (''Nir'', ''B08''), (''NIR'', ''B08''), (''scl'', ''SCL''),
     (''blue'', ''B02''), (''green'', ''B03''), (''swir16'', ''B11''), (''SWIR16'', ''B11''), (''swir22'', ''B12''),
     (''SWIR22'', ''B12''), (''b02'', ''B02''), (''b03'', ''B03''), (''b04'', ''B04''), (''b05'', ''B05''), (''b06'', ''B06''),
     (''b07'', ''B07''), (''b08'', ''B08''), (''b8a'', ''B8A''), (''b09'', ''B09''), (''b11'', ''B11''), (''b12'', ''B12'')]"

definition canonical_band_name :: "string \<Rightarrow> string" where
  "canonical_band_name k = (case map_of canonical_table k of Some c \<Rightarrow> c | None \<Rightarrow> k)"

definition or_insert_with :: "'v \<Rightarrow> string \<Rightarrow> (string, 'v) btree \<Rightarrow> (string, 'v) btree" where
  "or_insert_with v k m = (if bt_get m k = None then bt_insert k v m else m)"

definition asset_href :: "json \<Rightarrow> string option" where
  "asset_href v = Option.bind (json_get v ''href'') as_str"

definition collect_band_hrefs :: "json \<Rightarrow> (string, string) btree" where
  "collect_band_hrefs assets =
     (case as_object assets of None \<Rightarrow> []
      | Some m \<Rightarrow> fold (\<lambda>(k, v) out. case asset_href v of
            Some href \<Rightarrow> or_insert_with href (canonical_band_name k) out
          | None \<Rightarrow> out) m [])"

definition stac_transform_to_gdal :: "json list \<Rightarrow> f64 list option" where
  "stac_transform_to_gdal ts =
     (if length ts < 6 then None
      else let nums = List.map_filter as_f64 (take 6 ts)
        in if length nums \<noteq> 6 then None
           else Some [nums ! 2, nums ! 0, nums ! 1, nums ! 5, nums ! 3, nums ! 4])"

definition dtype_table :: "(string \<times> string) list" where
  "dtype_table =
    [(''uint8'', ''Byte''), (''int8'', ''Int8''), (''uint16'', ''UInt16''), (''int16'', ''Int16''), (''uint32'', ''UInt32''),
     (''int32'', ''Int32''), (''uint64'', ''UInt64''), (''int64'', ''Int64''), (''float32'', ''Float32''), (''float64'', ''Float64'')]"

definition stac_dtype_to_gdal_name :: "string \<Rightarrow> string" where
  "stac_dtype_to_gdal_name s = (case map_of dtype_table s of Some n \<Rightarrow> n | None \<Rightarrow> s)"

text \<open>\<open>as u32\<close> keeps the low 32 bits.\<close>

definition as_u32 :: "nat \<Rightarrow> nat" where "as_u32 n = n mod 2 ^ 32"

definition nth_opt :: "'a list \<Rightarrow> nat \<Rightarrow> 'a option" where "nth_opt xs i = (if i < length xs then Some (xs ! i) else None)"

definition parse_asset_band_metadata :: "json \<Rightarrow> nat option \<Rightarrow> band_metadata" where
  "parse_asset_band_metadata asset item_epsg =
     (let first_band = Option.bind (Option.bind (json_get asset ''raster:bands'') as_array) (\<lambda>a. nth_opt a 0);
          number = (\<lambda>k. Option.bind (Option.bind first_band (\<lambda>b. json_get b k)) as_f64)
      in \<lparr>bm_epsg = (case Option.bind (json_get asset ''proj:epsg'') as_u64 of Some u \<Rightarrow> Some (as_u32 u) | None \<Rightarrow> item_epsg),
          bm_geo_transform = Option.bind (Option.bind (json_get asset ''proj:transform'') as_array) stac_transform_to_gdal,
          bm_raster_size = Option.bind (Option.bind (json_get asset ''proj:shape'') as_array) (\<lambda>shape.
            Option.bind (Option.bind (nth_opt shape 0) as_u64) (\<lambda>rows.
            Option.bind (Option.bind (nth_opt shape 1) as_u64) (\<lambda>cols. Some (cols, rows)))),
          bm_dtype = map_option stac_dtype_to_gdal_name (Option.bind (Option.bind first_band (\<lambda>b. json_get b ''data_type'')) as_str),
          bm_nodata = number ''nodata'', bm_scale = number ''scale'', bm_offset = number ''offset''\<rparr>)"

definition collect_band_metadata :: "json \<Rightarrow> nat option \<Rightarrow> (string, band_metadata) btree" where
  "collect_band_metadata assets item_epsg =
     (case as_object assets of None \<Rightarrow> []
      | Some m \<Rightarrow> fold (\<lambda>(k, v) out. case asset_href v of
            Some _ \<Rightarrow> or_insert_with (parse_asset_band_metadata v item_epsg) (canonical_band_name k) out
          | None \<Rightarrow> out) m [])"

section \<open>The search\<close>

definition property_of :: "json \<Rightarrow> string \<Rightarrow> json option" where
  "property_of f k = Option.bind (json_get f ''properties'') (\<lambda>p. json_get p k)"

text \<open>\<open>sort_by\<close> is stable and the keys are numbers, so it sorts by value.\<close>

definition cloud_cover :: "json \<Rightarrow> f64" where
  "cloud_cover f = (case Option.bind (property_of f ''eo:cloud_cover'') as_f64 of Some x \<Rightarrow> x | None \<Rightarrow> f64_of_nat 101)"

definition scene_of :: "json \<Rightarrow> stac_scene option" where
  "scene_of f =
     (let assets = (case json_get f ''assets'' of Some a \<Rightarrow> a | None \<Rightarrow> JNull);
          item_epsg = map_option as_u32 (Option.bind (property_of f ''proj:epsg'') as_u64);
          bands = collect_band_hrefs assets
      in if bands = [] then None
         else Some \<lparr>sc_id = (case Option.bind (json_get f ''id'') as_str of Some s \<Rightarrow> s | None \<Rightarrow> ''<no-id>''),
           sc_bands = bands, sc_metadata = collect_band_metadata assets item_epsg,
           sc_datetime = Option.bind (property_of f ''datetime'') as_str\<rparr>)"

definition scenes_of_payload :: "json \<Rightarrow> stac_scene list" where
  "scenes_of_payload payload =
     (let features = (case Option.bind (json_get payload ''features'') as_array of Some fs \<Rightarrow> fs | None \<Rightarrow> [])
      in List.map_filter scene_of (sort_key (\<lambda>f. f64_units (cloud_cover f)) features))"

definition search_body :: "string \<Rightarrow> f64 list \<Rightarrow> string option \<Rightarrow> nat \<Rightarrow> f64 option \<Rightarrow> json" where
  "search_body collection_id bbox datetime limit max_cloud_cover =
     JObject ([(''collections'', JArray [JString collection_id]), (''bbox'', JArray (map json_from_f64 bbox)),
         (''limit'', JNumber (PosInt limit))] @
       (case datetime of Some dt \<Rightarrow> [(''datetime'', JString dt)] | None \<Rightarrow> []) @
       (case max_cloud_cover of Some cc \<Rightarrow> [(''query'', JObject [(''eo:cloud_cover'', JObject [(''lt'', json_from_f64 cc)])])] | None \<Rightarrow> []))"

text \<open>One attempt: no answer, or a status with its printed form and the outcome of decoding the body.\<close>

datatype stac_reply = NoReply string | Reply nat string "(string, json) result"

fun judge_reply :: "string \<Rightarrow> stac_reply \<Rightarrow> (string \<times> bool, json) result" where
  "judge_reply url (NoReply e) = Err (''STAC search '' @ url @ '': '' @ e, True)"
| "judge_reply url (Reply status text body) =
     (if 200 \<le> status \<and> status < 300 then map_err (\<lambda>e. (''STAC search decode: '' @ e, True)) body
      else Err (''STAC search '' @ url @ '': HTTP '' @ text, 500 \<le> status \<and> status < 600))"

function search_loop :: "retry_policy \<Rightarrow> string \<Rightarrow> (nat \<Rightarrow> stac_reply) \<Rightarrow> nat \<Rightarrow> (exec_error, json) result" where
  "search_loop p url replies attempt =
     (case judge_reply url (replies attempt) of
        Inr payload \<Rightarrow> Ok payload
      | Inl (msg, transient) \<Rightarrow>
          if \<not> transient \<or> \<not> should_retry p (attempt + 1) then Err (Backend msg)
          else search_loop p url replies (attempt + 1))"
  by pat_completeness auto
termination by (relation "measure (\<lambda>(p, _, _, attempt). max_attempts p - attempt)") (auto simp: should_retry_def)

declare search_loop.simps [simp del]

fun policy_error_text :: "url_policy_error \<Rightarrow> string" where
  "policy_error_text (SchemeNotAllowed s) = ''scheme not allowed: '' @ s"
| "policy_error_text (DeniedRange h) = ''host '' @ h @ '' resolves into denied range''"
| "policy_error_text (Malformed u) = ''malformed url: '' @ u"
| "policy_error_text (OptionInjection u) = ''href starts with '' @ [CHR 0x27] @ ''-'' @ [CHR 0x27] @ '' (option-injection): '' @ u"

text \<open>
  The replies depend on the request: the URL and its body.
\<close>

definition stac_search ::
  "url_policy \<Rightarrow> retry_policy \<Rightarrow> string \<Rightarrow> (string \<Rightarrow> json \<Rightarrow> nat \<Rightarrow> stac_reply) \<Rightarrow>
   string \<Rightarrow> f64 list \<Rightarrow> string option \<Rightarrow> nat \<Rightarrow> f64 option \<Rightarrow> (exec_error, stac_scene list) result" where
  "stac_search policy retry base_url http collection_id bbox datetime limit max_cloud_cover =
     (let body = search_body collection_id bbox datetime limit max_cloud_cover; url = base_url @ ''/search''
      in and_then (map_err (\<lambda>e. Backend (''url_policy: '' @ policy_error_text e)) (check_url policy url)) (\<lambda>_.
         and_then (search_loop retry url (http url body) 0) (\<lambda>payload. Ok (scenes_of_payload payload))))"

section \<open>Bands of a scene\<close>

definition alias_table :: "(string \<times> string list) list" where
  "alias_table =
    [(''B01'', [''coastal'', ''B1'']), (''B02'', [''blue'', ''B2'']), (''B03'', [''green'', ''B3'']),
     (''B04'', [''red'', ''Red'', ''B4'']), (''B05'', [''rededge1'', ''rededge'', ''B5'']), (''B06'', [''rededge2'', ''B6'']),
     (''B07'', [''rededge3'', ''B7'']), (''B08'', [''nir'', ''Nir'', ''NIR'', ''B8'']), (''B8A'', [''nir08'', ''B8a'']),
     (''B09'', [''nir09'', ''watervapor'', ''B9'']), (''B11'', [''swir16'', ''SWIR16'', ''B11_swir'']),
     (''B12'', [''swir22'', ''SWIR22'', ''B12_swir'']), (''SCL'', [''scl''])]"

definition band_aliases :: "string \<Rightarrow> string list" where
  "band_aliases band = (case map_of alias_table band of Some as \<Rightarrow> as | None \<Rightarrow> [])"

fun first_present :: "(string, 'v) btree \<Rightarrow> string list \<Rightarrow> 'v option" where
  "first_present m [] = None"
| "first_present m (k # ks) = (case bt_get m k of Some v \<Rightarrow> Some v | None \<Rightarrow> first_present m ks)"

definition resolve_band_href :: "stac_scene \<Rightarrow> string \<Rightarrow> string option" where
  "resolve_band_href scene band = first_present (sc_bands scene) (band # band_aliases band)"

definition resolve_band_metadata :: "stac_scene \<Rightarrow> string \<Rightarrow> band_metadata option" where
  "resolve_band_metadata scene band = first_present (sc_metadata scene) (band # band_aliases band)"

section \<open>Which asset a band comes from\<close>

text \<open>The assets with a link, under their canonical names, in the order of the item.\<close>

definition linked_assets :: "(string \<times> json) list \<Rightarrow> (string \<times> json) list" where
  "linked_assets m = map (\<lambda>(k, v). (canonical_band_name k, v)) (filter (\<lambda>(k, v). asset_href v \<noteq> None) m)"

lemma or_insert_with_get: "bt_get (or_insert_with v k m) x = (case bt_get m x of Some w \<Rightarrow> Some w | None \<Rightarrow> if x = k then Some v else None)"
  by (auto simp: or_insert_with_def bt_get_insert split: option.split)

lemma fold_linked:
  assumes "\<And>k v out. asset_href v = None \<Longrightarrow> step (k, v) out = out"
    and "\<And>k v out. asset_href v \<noteq> None \<Longrightarrow> step (k, v) out = or_insert_with (g v) (canonical_band_name k) out"
  shows "bt_get (fold step m out) x = (case bt_get out x of Some w \<Rightarrow> Some w | None \<Rightarrow> map_option g (map_of (linked_assets m) x))"
proof (induction m arbitrary: out)
  case (Cons kv m)
  obtain k v where [simp]: "kv = (k, v)" by (cases kv)
  show ?case
  proof (cases "asset_href v")
    case None
    then show ?thesis using Cons [of out] assms(1) by (auto simp: linked_assets_def split: option.split)
  next
    case (Some h)
    then show ?thesis using Cons [of "or_insert_with (g v) (canonical_band_name k) out"] assms(2)
      by (auto simp: linked_assets_def or_insert_with_get split: option.split)
  qed
qed (simp add: linked_assets_def split: option.split)

lemma collected_bands:
  "bt_get (collect_band_hrefs (JObject m)) x = map_option (\<lambda>a. the (asset_href a)) (map_of (linked_assets m) x)"
  "bt_get (collect_band_metadata (JObject m) e) x = map_option (\<lambda>a. parse_asset_band_metadata a e) (map_of (linked_assets m) x)"
  unfolding collect_band_hrefs_def collect_band_metadata_def as_object.simps option.case
  by (subst fold_linked; auto simp: bt_get_def)+

lemma first_present_map:
  "(\<And>k. bt_get m k = map_option g (map_of l k)) \<Longrightarrow> first_present m ks = map_option g (first_present l ks)"
  by (induction ks) (auto simp: bt_get_def split: option.split)

lemma first_present_Some: "first_present l ks = Some v \<Longrightarrow> \<exists>k \<in> set ks. map_of l k = Some v"
  by (induction ks) (auto simp: bt_get_def split: option.splits)

lemma first_present_None: "first_present l ks = None \<longleftrightarrow> (\<forall>k \<in> set ks. map_of l k = None)"
  by (induction ks) (auto simp: bt_get_def split: option.split)

lemma no_linked: "(\<forall>c \<in> K. \<forall>a. \<nexists>k. (k, a) \<in> M \<and> c = f k \<and> h a \<noteq> None) \<longleftrightarrow> (\<forall>(k, a) \<in> M. f k \<in> K \<longrightarrow> h a = None)"
  by auto

text \<open>
  C32. A band is found on a scene exactly when some asset with a link carries one of its spellings
  (the canonical name of its key is the requested name or one of that name's aliases), and the
  link and the metadata (scale, offset, grid) the loader uses for the band come from the same asset.
\<close>

theorem band_resolution:
  assumes "json_get f ''assets'' = Some (JObject m)" and "scene_of f = Some s"
  shows "(resolve_band_href s band = None \<longleftrightarrow>
      (\<forall>(k, a) \<in> set m. canonical_band_name k \<in> set (band # band_aliases band) \<longrightarrow> asset_href a = None)) \<and>
    (\<forall>h. resolve_band_href s band = Some h \<longrightarrow>
      (\<exists>k a. (k, a) \<in> set m \<and> canonical_band_name k \<in> set (band # band_aliases band) \<and> asset_href a = Some h \<and>
        resolve_band_metadata s band =
          Some (parse_asset_band_metadata a (map_option as_u32 (Option.bind (property_of f ''proj:epsg'') as_u64)))))"
proof -
  let ?e = "map_option as_u32 (Option.bind (property_of f ''proj:epsg'') as_u64)" and ?ks = "band # band_aliases band"
  have s: "sc_bands s = collect_band_hrefs (JObject m)" "sc_metadata s = collect_band_metadata (JObject m) ?e"
    using assms by (auto simp: scene_of_def Let_def split: if_splits)
  have href: "resolve_band_href s band = map_option (\<lambda>a. the (asset_href a)) (first_present (linked_assets m) ?ks)"
    unfolding resolve_band_href_def s by (rule first_present_map) (rule collected_bands)
  have meta: "resolve_band_metadata s band = map_option (\<lambda>a. parse_asset_band_metadata a ?e) (first_present (linked_assets m) ?ks)"
    unfolding resolve_band_metadata_def s by (rule first_present_map) (rule collected_bands)
  have member: "(c, a) \<in> set (linked_assets m) \<longleftrightarrow> (\<exists>k. (k, a) \<in> set m \<and> c = canonical_band_name k \<and> asset_href a \<noteq> None)" for c a
    by (auto simp: linked_assets_def)
  have "resolve_band_href s band = None \<longleftrightarrow> (\<forall>c \<in> set ?ks. \<forall>a. (c, a) \<notin> set (linked_assets m))"
    unfolding href option.map_disc_iff first_present_None map_of_eq_None_iff by (auto simp: image_iff)
  also have "\<dots> \<longleftrightarrow> (\<forall>(k, a) \<in> set m. canonical_band_name k \<in> set ?ks \<longrightarrow> asset_href a = None)"
    unfolding member by (rule no_linked)
  finally have none: "resolve_band_href s band = None \<longleftrightarrow> (\<forall>(k, a) \<in> set m. canonical_band_name k \<in> set ?ks \<longrightarrow> asset_href a = None)" .
  have "\<exists>k a. (k, a) \<in> set m \<and> canonical_band_name k \<in> set ?ks \<and> asset_href a = Some h \<and>
      resolve_band_metadata s band = Some (parse_asset_band_metadata a ?e)" if h: "resolve_band_href s band = Some h" for h
  proof -
    obtain a where a: "first_present (linked_assets m) ?ks = Some a" "h = the (asset_href a)" using h unfolding href by auto
    obtain c where c: "c \<in> set ?ks" "(c, a) \<in> set (linked_assets m)" using first_present_Some [OF a(1)] map_of_SomeD by metis
    obtain k where k: "(k, a) \<in> set m" "c = canonical_band_name k" "asset_href a \<noteq> None" using c(2) unfolding member by blast
    have "canonical_band_name k \<in> set ?ks" "asset_href a = Some h" using c(1) k(2,3) a(2) by simp_all
    moreover have "resolve_band_metadata s band = Some (parse_asset_band_metadata a ?e)" unfolding meta a(1) by simp
    moreover note k(1)
    ultimately show ?thesis by blast
  qed
  then show ?thesis using none by blast
qed

definition sample_item :: json where
  "sample_item = JObject [(''id'', JString ''S2A''), (''assets'', JObject [(''red'', JObject [(''href'', JString ''r.tif'')])])]"

lemma sample_item_scene:
  "scene_of sample_item = Some \<lparr>sc_id = ''S2A'', sc_bands = [(''B04'', ''r.tif'')],
     sc_metadata = [(''B04'', parse_asset_band_metadata (JObject [(''href'', JString ''r.tif'')]) None)], sc_datetime = None\<rparr>"
proof -
  have "canonical_band_name ''red'' = ''B04''" by code_simp
  then show ?thesis
    by (simp add: sample_item_def scene_of_def json_get_def Let_def collect_band_hrefs_def collect_band_metadata_def
      asset_href_def or_insert_with_def property_of_def bt_get_def)
qed

theorem band_resolution_witness:
  "\<exists>s. scene_of sample_item = Some s \<and> resolve_band_href s ''B04'' \<noteq> None"
proof -
  have assets: "json_get sample_item ''assets'' = Some (JObject [(''red'', JObject [(''href'', JString ''r.tif'')])])"
    by (simp add: sample_item_def json_get_def)
  have "canonical_band_name ''red'' \<in> set (''B04'' # band_aliases ''B04'')" by code_simp
  then show ?thesis
    using band_resolution [OF assets sample_item_scene, of "''B04''"] sample_item_scene by (auto simp: asset_href_def json_get_def)
qed

text \<open>
  The names are normalised when the scene is read but not when a band is looked up: a request for \<open>red\<close> finds
  nothing on an item whose asset is called \<open>red\<close>.
\<close>

lemma common_name_lost: "\<exists>s. scene_of sample_item = Some s \<and> resolve_band_href s ''red'' = None"
proof -
  have "band_aliases ''red'' = []" by code_simp
  then show ?thesis by (simp add: sample_item_scene resolve_band_href_def bt_get_def)
qed

end
