(* ===== verification/Load_Collection.thy ===== *)
theory Load_Collection
  imports Cube_Ops Stac_Scenes Asset_Cache
begin

text \<open>
  \<open>load_collection\<close> of \<open>geo_executor/eval_load.rs\<close> and the cached download of \<open>geo_executor/mod.rs\<close>. The STAC
  search is an argument (\<open>Stac_Scenes\<close> has the one the service uses), and so are the outcome of each
  download task and the order in which the tasks complete.
\<close>

section \<open>Downloads through the cache\<close>

record fetcher =
  fe_policy :: url_policy
  fe_sign :: "string \<Rightarrow> (exec_error, string) result"
  fe_download :: "string \<Rightarrow> bbox \<Rightarrow> string option \<Rightarrow> (exec_error, string) result"
  fe_sha256 :: "string \<Rightarrow> string"
  fe_iter :: "asset_index \<Rightarrow> asset_index"
  fe_cached :: bool
  fe_io_text :: "cache_io_error \<Rightarrow> string"

text \<open>
  The downloader writes the cropped window to \<open>dst\<close>. The download semaphore is never closed, so its error
  does not occur; a panic of the downloader is not modelled.
\<close>

definition fetch_blocking :: "fetcher \<Rightarrow> nat \<Rightarrow> string \<Rightarrow> string \<Rightarrow> bbox \<Rightarrow> string option \<Rightarrow> asset_cache \<Rightarrow> (exec_error, string) result \<times> asset_cache" where
  "fetch_blocking fe now href dst box crs c =
     (case fe_sign fe href of
        Inl e \<Rightarrow> (Err e, c)
      | Inr signed_url \<Rightarrow> (case fe_download fe signed_url box crs of
          Inl e \<Rightarrow> (Err e, c)
        | Inr bytes \<Rightarrow>
            let c1 = c\<lparr>ac_disk := (ac_disk c)(dst \<mapsto> bytes)\<rparr>
            in if fe_cached fe
               then (case asset_insert (fe_sha256 fe) (fe_iter fe) now c1 href dst of
                   (Inl e, c2) \<Rightarrow> (Err (Backend (''FileCache insert '' @ href @ '': '' @ fe_io_text fe e)), c2)
                 | (Inr p, c2) \<Rightarrow> (Ok p, c2))
               else (Ok dst, c1)))"

definition fetch_with_cache :: "fetcher \<Rightarrow> nat \<Rightarrow> string \<Rightarrow> string \<Rightarrow> bbox \<Rightarrow> string option \<Rightarrow> asset_cache \<Rightarrow> (exec_error, string) result \<times> asset_cache" where
  "fetch_with_cache fe now href dst box crs c =
     (case check_url (fe_policy fe) href of
        Inl e \<Rightarrow> (Err (Backend (''url_policy: '' @ policy_error_text e)), c)
      | Inr _ \<Rightarrow>
          if fe_cached fe
          then (case asset_get (fe_sha256 fe) now c href of
              (Some p, c1) \<Rightarrow> (Ok p, c1)
            | (None, c1) \<Rightarrow> fetch_blocking fe now href dst box crs c1)
          else fetch_blocking fe now href dst box crs c)"

section \<open>Tasks\<close>

type_synonym task = "nat \<times> string \<times> string"

definition wanted :: "stac_scene list \<Rightarrow> string list \<Rightarrow> task list" where
  "wanted scenes bands =
     concat (map (\<lambda>(i, s). List.map_filter (\<lambda>b. map_option (\<lambda>h. (i, b, h)) (resolve_band_href s b)) bands) (zip [0..<length scenes] scenes))"

definition vsicurl_path :: "string \<Rightarrow> (exec_error, string) result" where
  "vsicurl_path href =
     (if str_starts ''https://'' href \<or> str_starts ''http://'' href then Ok (''/vsicurl/'' @ href)
      else Err (InvalidGraph (''P3 (ORBIT_VSICURL_STREAM): refusing non-http(s) href `'' @ href @ ''`'')))"

definition checked_task :: "bool \<Rightarrow> task \<Rightarrow> (exec_error, task) result" where
  "checked_task stream t = (case t of (i, b, h) \<Rightarrow>
     and_then (validate_asset_href h) (\<lambda>_. if stream then and_then (vsicurl_path h) (\<lambda>vsi. Ok (i, b, vsi)) else Ok (i, b, h)))"

definition task_dst :: "bool \<Rightarrow> string \<Rightarrow> string \<Rightarrow> nat \<Rightarrow> string" where
  "task_dst stream scratch band i = path_join scratch (band @ ''_'' @ show_nat i @ (if stream then ''_p3.vrt'' else ''.tif''))"

text \<open>The slots of each band, and the loop over the completed tasks.\<close>

definition empty_slots :: "nat \<Rightarrow> string list \<Rightarrow> (string, string option list) btree" where
  "empty_slots n bands = fold (\<lambda>b. bt_insert b (replicate n None)) bands []"

definition fill_slot :: "nat \<Rightarrow> string \<Rightarrow> string \<Rightarrow> (string, string option list) btree \<Rightarrow> (string, string option list) btree" where
  "fill_slot i b p m = (case bt_get m b of Some slots \<Rightarrow> bt_insert b (slots[i := Some p]) m | None \<Rightarrow> m)"

fun drain :: "(exec_error, nat \<times> string \<times> string) result list \<Rightarrow> (string, string option list) btree \<Rightarrow>
    (exec_error, (string, string option list) btree) result" where
  "drain [] m = Ok m"
| "drain (r # rs) m = and_then r (\<lambda>(i, b, p). drain rs (fill_slot i b p m))"

definition full_bands :: "(string, string option list) btree \<Rightarrow> (string, string list) btree" where
  "full_bands m = List.map_filter (\<lambda>(b, slots). if list_all (\<lambda>s. s \<noteq> None) slots then Some (b, map the slots) else None) m"

section \<open>load_collection\<close>

record loader =
  l_catalog :: "catalog_get option"
  l_search :: "(string \<Rightarrow> f64 list \<Rightarrow> string option \<Rightarrow> nat \<Rightarrow> f64 option \<Rightarrow> (exec_error, stac_scene list) result) option"
  l_scratch :: string
  l_stream :: bool
  l_box_text :: "bbox \<Rightarrow> string"
  l_task :: "string \<Rightarrow> string \<Rightarrow> bbox \<Rightarrow> string \<Rightarrow> (exec_error, string) result"
  l_order :: "task list \<Rightarrow> task list"

definition catalog_check :: "catalog_get option \<Rightarrow> string \<Rightarrow> (exec_error, unit) result" where
  "catalog_check catalog i =
     (case catalog of None \<Rightarrow> Ok ()
      | Some get \<Rightarrow> (case get i of
          Inr _ \<Rightarrow> Ok ()
        | Inl (NotFound i') \<Rightarrow> Err (Backend (''CollectionNotFound: '' @ i'))
        | Inl e \<Rightarrow> Err (Backend (''catalog: '' @ catalog_error_display e))))"

definition requested_bands :: "args \<Rightarrow> string list" where
  "requested_bands args =
     (case Option.bind (bt_get args ''bands'') as_array of
        Some vs \<Rightarrow> strings_of vs | None \<Rightarrow> [''B04'', ''B08'', ''SCL''])"

definition scene_limit :: "args \<Rightarrow> nat" where
  "scene_limit args = min (max (case Option.bind (bt_get args ''limit'') as_u64 of Some n \<Rightarrow> n | None \<Rightarrow> 3) 1) 50"

definition run_tasks :: "loader \<Rightarrow> bbox \<Rightarrow> string \<Rightarrow> stac_scene list \<Rightarrow> string list \<Rightarrow> (exec_error, (string, string option list) btree) result" where
  "run_tasks l box crs scenes bands =
     and_then (traverse (checked_task (l_stream l)) (wanted scenes bands)) (\<lambda>tasks.
       drain (map (\<lambda>(i, b, h). and_then (l_task l h (task_dst (l_stream l) (l_scratch l) b i) box crs) (\<lambda>p. Ok (i, b, p))) (l_order l tasks))
         (empty_slots (length scenes) bands))"

text \<open>The scale and offset of a band, when they change its values.\<close>

definition band_scale :: "stac_scene \<Rightarrow> string \<Rightarrow> (f64 \<times> f64) option" where
  "band_scale first b = Option.bind (resolve_band_metadata first b) (\<lambda>m.
     let scale = (case bm_scale m of Some x \<Rightarrow> x | None \<Rightarrow> f64_of_nat 1);
         offset = (case bm_offset m of Some x \<Rightarrow> x | None \<Rightarrow> f64_of_nat 0)
     in if \<not> f64_eq scale (f64_of_nat 1) \<or> \<not> f64_eq offset (f64_of_nat 0) then Some (scale, offset) else None)"

definition harvest_scales :: "stac_scene list \<Rightarrow> string list \<Rightarrow> (string \<times> (f64 \<times> f64)) list" where
  "harvest_scales scenes bands =
     (case scenes of [] \<Rightarrow> []
      | first # _ \<Rightarrow> List.map_filter (\<lambda>b. map_option (Pair b) (band_scale first b)) bands)"

definition scene_times :: "stac_scene list \<Rightarrow> string list option" where
  "scene_times scenes = (if list_all (\<lambda>s. sc_datetime s \<noteq> None) scenes then Some (map (\<lambda>s. the (sc_datetime s)) scenes) else None)"

definition eager_cube :: "string \<Rightarrow> bbox \<Rightarrow> stac_scene list \<Rightarrow> (string, string list) btree \<Rightarrow> json" where
  "eager_cube i box scenes bands =
     (let (w, s, e, n) = box; scales = harvest_scales scenes (map fst bands)
      in JObject [(''__cube'', JObject
        ([(''collection'', JString i)] @
         (if scales = [] then [] else [(''band_scales'', enc_map (\<lambda>(a, b). enc_f64s [a, b]) scales)]) @
         [(''bbox'', enc_f64s [w, s, e, n]), (''scene_count'', enc_num (length scenes))] @
         (case scene_times scenes of Some ts \<Rightarrow> [(''datetimes'', enc_paths ts)] | None \<Rightarrow> []) @
         [(''bands'', enc_map enc_paths bands)]))])"

definition stream_cube :: "string \<Rightarrow> bbox \<Rightarrow> string \<Rightarrow> stac_scene list \<Rightarrow> (string, string list) btree \<Rightarrow> json" where
  "stream_cube i box crs scenes bands =
     (let (w, s, e, n) = box
      in JObject [(''__cube'', JObject
        [(''collection'', JString i), (''bbox'', enc_f64s [w, s, e, n]), (''scene_count'', enc_num (length scenes)),
         (''bands'', enc_map enc_paths bands), (''crs'', JString crs), (''p3_vsicurl_stream'', JBool True)])])"

definition load_scenes :: "fmt \<Rightarrow> loader \<Rightarrow> string \<Rightarrow> bbox \<Rightarrow> string \<Rightarrow> stac_scene list \<Rightarrow> string list \<Rightarrow> (exec_error, json) result" where
  "load_scenes fm l i box crs scenes bands =
     and_then (run_tasks l box crs scenes bands) (\<lambda>slots.
     let full = full_bands slots
     in if full = [] then
          Err (Backend ((if l_stream l then ''load_collection (P3): none of the requested bands '' else ''load_collection: none of the requested bands '') @
            f_keys fm bands @ '' are present on every scene''))
        else Ok (if l_stream l then stream_cube i box crs scenes full else eager_cube i box scenes full))"

definition eval_load_collection :: "fmt \<Rightarrow> loader \<Rightarrow> args \<Rightarrow> (exec_error, json) result" where
  "eval_load_collection fm l args =
     and_then (ok_or (InvalidGraph ''load_collection: `id` argument must be a string'') (Option.bind (bt_get args ''id'') as_str)) (\<lambda>i.
     and_then (catalog_check (l_catalog l) i) (\<lambda>_.
     case (l_search l, bt_get args ''spatial_extent'') of
       (Some search, Some spatial) \<Rightarrow>
         and_then (parse_bbox fm spatial) (\<lambda>((w, s, e, n), crs).
         let datetime = Option.bind (bt_get args ''temporal_extent'') (\<lambda>v. case parse_temporal v of Inr t \<Rightarrow> Some t | Inl _ \<Rightarrow> None)
         in and_then (search i [w, s, e, n] datetime (scene_limit args) (Option.bind (bt_get args ''properties'') parse_eo_cloud_cover_lt)) (\<lambda>scenes.
         if scenes = [] then Err (Backend (''STAC search returned no scenes for collection `'' @ i @ ''` in bbox '' @ l_box_text l (w, s, e, n)))
         else let bands = requested_bands args
         in if bands = [] then Err (InvalidGraph ''load_collection: `bands` argument must contain at least one band'')
         else and_then (traverse (\<lambda>b. validate_identifier fm b ''load_collection.bands'') bands) (\<lambda>_.
         and_then (map_err (\<lambda>e. InvalidGraph (''load_collection.spatial_extent.crs: '' @ e)) (validate_crs_spec fm crs)) (\<lambda>_.
           load_scenes fm l i (w, s, e, n) crs scenes bands))))
     | _ \<Rightarrow> Ok (JObject [(''type'', JString ''DataCube''), (''collection'', JString i)])))"

section \<open>Completion order\<close>

lemma empty_slots_get: "bt_get (empty_slots n bands) b = (if b \<in> set bands then Some (replicate n None) else None)"
proof -
  have "bt_get (fold (\<lambda>b. bt_insert b (replicate n (None :: string option))) bands m) b = (if b \<in> set bands then Some (replicate n None) else bt_get m b)" for m
    by (induction bands arbitrary: m) (auto simp: bt_get_insert)
  then show ?thesis by (simp add: empty_slots_def bt.lookup_empty)
qed

lemma empty_slots_wf: "bt_wf (empty_slots n bands)"
proof -
  have "bt_wf m \<Longrightarrow> bt_wf (fold (\<lambda>b. bt_insert b (replicate n (None :: string option))) bands m)" for m
    by (induction bands arbitrary: m) (auto simp: bt_wf_insert)
  then show ?thesis by (simp add: empty_slots_def bt.wf_empty)
qed

text \<open>The slots of a band after the positions \<open>done\<close> have been filled.\<close>

definition filled :: "(nat \<Rightarrow> string \<Rightarrow> string) \<Rightarrow> (nat \<times> string) set \<Rightarrow> string \<Rightarrow> string option list \<Rightarrow> string option list" where
  "filled path ended b slots = map (\<lambda>i. if (i, b) \<in> ended then Some (path i b) else slots ! i) [0..<length slots]"

lemma filled_simps: "filled path {} b slots = slots" "length (filled path ended b slots) = length slots"
  by (simp_all add: filled_def map_nth)

lemma filled_fill: "filled path ended b (slots[i := Some (path i b)]) = filled path (insert (i, b) ended) b slots"
  by (auto simp: filled_def nth_list_update)

lemma filled_other: "b' \<noteq> b \<Longrightarrow> filled path (insert (i, b') ended) b slots = filled path ended b slots"
  by (auto simp: filled_def)

lemma drain_all:
  assumes "bt_wf m"
  shows "\<exists>m'. drain (map (\<lambda>(i, b). Ok (i, b, path i b)) ts) m = Ok m' \<and> bt_wf m' \<and>
    (\<forall>b. bt_get m' b = map_option (filled path (set ts) b) (bt_get m b))"
  using assms
proof (induction ts arbitrary: m)
  case Nil
  have "filled path {} b = (\<lambda>s. s)" for b by (rule ext) (simp add: filled_simps)
  then show ?case using Nil by (simp add: option.map_ident)
next
  case (Cons t ts)
  obtain i b where t: "t = (i, b)" by (cases t)
  let ?m = "fill_slot i b (path i b) m"
  have "bt_wf ?m" using Cons.prems by (auto simp: fill_slot_def bt_wf_insert split: option.split)
  from Cons.IH [OF this] obtain m' where m': "drain (map (\<lambda>(i, b). Ok (i, b, path i b)) ts) ?m = Ok m'" "bt_wf m'"
    "\<And>k. bt_get m' k = map_option (filled path (set ts) k) (bt_get ?m k)" by blast
  have "map_option (filled path (set ts) k) (bt_get ?m k) = map_option (filled path (set (t # ts)) k) (bt_get m k)" for k
    by (cases "bt_get m b"; cases "k = b"; cases "bt_get m k") (simp_all add: fill_slot_def bt_get_insert t filled_fill filled_other)
  then show ?case using m' t by simp
qed

lemma full_bands_get:
  assumes "bt_wf m"
  shows "bt_get (full_bands m) b =
    (case bt_get m b of Some slots \<Rightarrow> if list_all (\<lambda>s. s \<noteq> None) slots then Some (map the slots) else None | None \<Rightarrow> None)"
  using bt_wf_distinct [OF assms]
proof (induction m)
  case (Cons kv m)
  obtain k slots where kv: "kv = (k, slots)" by (cases kv)
  have "bt_get (full_bands m) k = None" using Cons.prems kv
    by (force simp: bt_get_def full_bands_def map_filter_def map_of_eq_None_iff split: if_splits)
  moreover have "full_bands (kv # m) = (if list_all (\<lambda>s. s \<noteq> None) slots then (k, map the slots) # full_bands m else full_bands m)"
    by (simp add: full_bands_def map_filter_simps kv)
  moreover have "map_of m k = None" using Cons.prems kv by (simp add: map_of_eq_None_iff)
  ultimately show ?case using Cons kv by (auto simp: bt_get_def split: option.splits if_splits)
qed (simp add: full_bands_def map_filter_simps bt_get_def)

lemma full_bands_wf: "bt_wf m \<Longrightarrow> bt_wf (full_bands m)"
proof -
  have "set (map fst (full_bands m)) \<subseteq> set (map fst m)" for m
    by (force simp: full_bands_def map_filter_def split: if_splits)
  then show "bt_wf m \<Longrightarrow> bt_wf (full_bands m)"
  proof (induction m)
    case (Cons kv m)
    then show ?case by (cases kv) (fastforce simp: bt_wf_def full_bands_def map_filter_simps)
  qed (simp add: full_bands_def map_filter_simps bt_wf_def)
qed

lemma set_wanted:
  "(i, b, h) \<in> set (wanted scenes bands) \<longleftrightarrow> i < length scenes \<and> b \<in> set bands \<and> resolve_band_href (scenes ! i) b = Some h"
proof -
  have mf: "x \<in> set (List.map_filter f xs) \<longleftrightarrow> (\<exists>y \<in> set xs. f y = Some x)" for f :: "'a \<Rightarrow> 'b option" and xs x
    by (force simp: map_filter_def image_iff)
  show ?thesis by (auto simp: wanted_def set_zip mf intro!: exI [of _ "scenes ! i"] exI [of _ i])
qed

lemma traverse_Ok: "(\<And>x. x \<in> set xs \<Longrightarrow> f x = Ok (g x)) \<Longrightarrow> traverse f xs = Ok (map g xs)"
  by (induction xs) simp_all

text \<open>The bands that every scene has.\<close>

definition common_bands :: "stac_scene list \<Rightarrow> string list \<Rightarrow> string set" where
  "common_bands scenes bands = {b \<in> set bands. \<forall>s \<in> set scenes. resolve_band_href s b \<noteq> None}"

lemma full_slots:
  assumes "\<And>i b. (i, b) \<in> ended \<longleftrightarrow> i < length scenes \<and> b \<in> set bands \<and> resolve_band_href (scenes ! i) b \<noteq> None"
    and "bt_wf slots" and "\<And>b. bt_get slots b = map_option (filled path ended b) (bt_get (empty_slots (length scenes) bands) b)"
  shows "bt_get (full_bands slots) b = (if b \<in> common_bands scenes bands then Some (map (\<lambda>i. path i b) [0..<length scenes]) else None)"
proof (cases "b \<in> set bands")
  case True
  let ?f = "filled path ended b (replicate (length scenes) None)"
  have got: "bt_get slots b = Some ?f" using assms(3) [of b] True by (simp add: empty_slots_get)
  have "list_all (\<lambda>s. s \<noteq> None) ?f \<longleftrightarrow> (\<forall>i < length scenes. resolve_band_href (scenes ! i) b \<noteq> None)"
  proof -
    have "list_all (\<lambda>s. s \<noteq> None) ?f \<longleftrightarrow> (\<forall>i < length scenes. (i, b) \<in> ended)"
      by (auto simp: list_all_length filled_def)
    then show ?thesis using assms(1) True by simp
  qed
  also have "\<dots> \<longleftrightarrow> b \<in> common_bands scenes bands" using True by (simp add: common_bands_def all_set_conv_all_nth)
  finally have full: "list_all (\<lambda>s. s \<noteq> None) ?f \<longleftrightarrow> b \<in> common_bands scenes bands" .
  moreover have "map the ?f = map (\<lambda>i. path i b) [0..<length scenes]" if "b \<in> common_bands scenes bands"
  proof -
    have "(i, b) \<in> ended" if "i < length scenes" for i
      using that assms(1) [of i b] True \<open>b \<in> common_bands scenes bands\<close> by (simp add: common_bands_def)
    then show ?thesis by (simp add: filled_def)
  qed
  ultimately show ?thesis using got by (simp add: full_bands_get [OF assms(2)])
next
  case False
  then have "bt_get slots b = None" using assms(3) [of b] by (simp add: empty_slots_get)
  then show ?thesis using False by (simp add: full_bands_get [OF assms(2)] common_bands_def)
qed

lemma run_tasks_slots:
  assumes "\<And>ts. mset (l_order l ts) = mset ts"
    and "\<And>i b h. (i, b, h) \<in> set (wanted scenes bands) \<Longrightarrow> \<exists>h'. checked_task (l_stream l) (i, b, h) = Ok (i, b, h') \<and>
      l_task l h' (task_dst (l_stream l) (l_scratch l) b i) box crs = Ok (path i b)"
  shows "\<exists>slots. run_tasks l box crs scenes bands = Ok slots \<and> bt_wf slots \<and>
    (\<forall>b. bt_get (full_bands slots) b =
      (if b \<in> common_bands scenes bands then Some (map (\<lambda>i. path i b) [0..<length scenes]) else None))"
proof -
  let ?check = "checked_task (l_stream l)" and ?w = "wanted scenes bands"
  let ?run = "\<lambda>(i, b, h). and_then (l_task l h (task_dst (l_stream l) (l_scratch l) b i) box crs) (\<lambda>p. Ok (i, b, p))"
  let ?g = "\<lambda>x. projr (?check x)" and ?key = "\<lambda>x. (fst x, fst (snd x))"
  have ok: "?check x = Ok (?g x)" "?key (?g x) = ?key x" "?run (?g x) = Ok (fst x, fst (snd x), path (fst x) (fst (snd x)))"
    if w: "x \<in> set ?w" for x
  proof -
    obtain i b h where x: "x = (i, b, h)" by (cases x)
    obtain h' where "?check x = Ok (i, b, h')" "l_task l h' (task_dst (l_stream l) (l_scratch l) b i) box crs = Ok (path i b)"
      using assms(2) [of i b h] w x by blast
    then show "?check x = Ok (?g x)" "?key (?g x) = ?key x" "?run (?g x) = Ok (fst x, fst (snd x), path (fst x) (fst (snd x)))"
      using x by simp_all
  qed
  let ?tasks = "map ?g ?w"
  let ?ts = "map ?key (l_order l ?tasks)"
  have so: "set (l_order l ?tasks) = ?g ` set ?w" using assms(1) [of ?tasks] by (metis set_map set_mset_mset)
  have "?run t = (\<lambda>(i, b). Ok (i, b, path i b)) (?key t)" if t: "t \<in> set (l_order l ?tasks)" for t
  proof -
    obtain x where "x \<in> set ?w" "t = ?g x" using t so by blast
    then show ?thesis using ok(2,3) [of x] by (simp only: prod.case)
  qed
  then have ran: "map ?run (l_order l ?tasks) = map (\<lambda>(i, b). Ok (i, b, path i b)) ?ts" by (simp only: map_map comp_def cong: map_cong)
  have checked: "traverse ?check ?w = Ok ?tasks" by (rule traverse_Ok) (rule ok(1))
  have "run_tasks l box crs scenes bands = drain (map (\<lambda>(i, b). Ok (i, b, path i b)) ?ts) (empty_slots (length scenes) bands)"
    unfolding run_tasks_def checked and_then_simps ran ..
  then obtain slots where slots: "run_tasks l box crs scenes bands = Ok slots" "bt_wf slots"
    "\<And>b. bt_get slots b = map_option (filled path (set ?ts) b) (bt_get (empty_slots (length scenes) bands) b)"
    using drain_all [OF empty_slots_wf, of path ?ts "length scenes" bands] by metis
  have "set ?ts = ?key ` set ?w" unfolding set_map so image_image using ok(2) by (rule image_cong [OF refl])
  then have "(i, b) \<in> set ?ts \<longleftrightarrow> i < length scenes \<and> b \<in> set bands \<and> resolve_band_href (scenes ! i) b \<noteq> None" for i b
  proof -
    assume ts: "set ?ts = ?key ` set ?w"
    have "(i, b) \<in> ?key ` set ?w \<longleftrightarrow> (\<exists>h. (i, b, h) \<in> set ?w)" by (force simp: image_iff)
    then show ?thesis unfolding ts using set_wanted [of i b _ scenes bands] by auto
  qed
  then have "bt_get (full_bands slots) b = (if b \<in> common_bands scenes bands then Some (map (\<lambda>i. path i b) [0..<length scenes]) else None)" for b
    using slots(2,3) by (intro full_slots)
  then show ?thesis using slots by blast
qed

section \<open>The loaded cube\<close>

lemma harvest_scales_keys:
  "map fst (harvest_scales scenes bands) = filter (\<lambda>b. scenes \<noteq> [] \<and> band_scale (hd scenes) b \<noteq> None) bands"
proof (cases scenes)
  case (Cons first rest)
  have "map fst (List.map_filter (\<lambda>b. map_option (Pair b) (g b)) bs) = filter (\<lambda>b. g b \<noteq> None) bs" for g :: "string \<Rightarrow> (f64 \<times> f64) option" and bs
    by (induction bs) (auto simp: map_filter_simps split: option.split)
  then show ?thesis by (simp add: harvest_scales_def Cons)
qed (simp add: harvest_scales_def)

lemma harvest_scales_wf: "bt_wf bands \<Longrightarrow> bt_wf (harvest_scales scenes (map fst bands))"
  unfolding bt_wf_def harvest_scales_keys by (rule sorted_wrt_filter)

definition loaded_cube :: "string \<Rightarrow> bbox \<Rightarrow> stac_scene list \<Rightarrow> (string, string list) btree \<Rightarrow> data_cube" where
  "loaded_cube i box scenes bands =
     (let (w, s, e, n) = box in
      cube_new\<lparr>c_bands := bands, c_band_scales := harvest_scales scenes (map fst bands), c_collection := Some i,
        c_bbox := Some [w, s, e, n], c_scene_count := Some (length scenes), c_datetimes := scene_times scenes\<rparr>)"

lemma eager_cube_decodes:
  assumes "bt_wf bands" and "\<forall>x \<in> {w, s, e, n}. f64_is_finite x"
    and "\<forall>(k, a, b) \<in> set (harvest_scales scenes (map fst bands)). f64_is_finite a \<and> f64_is_finite b"
  shows "from_envelope msg (eager_cube i (w, s, e, n) scenes bands) = Ok (loaded_cube i (w, s, e, n) scenes bands)"
proof -
  let ?sc = "harvest_scales scenes (map fst bands)"
  have b: "dec_map (dec_list as_str) (enc_map enc_paths bands) = Some bands"
    by (rule dec_map_enc [OF assms(1)]) simp
  have sc: "dec_map dec_pair (enc_map (\<lambda>(a, b). enc_f64s [a, b]) ?sc) = Some ?sc"
    by (rule dec_map_enc [OF harvest_scales_wf [OF assms(1)]]) (use assms(3) dec_pair_enc in auto)
  have bb: "dec_list as_f64 (enc_f64s [w, s, e, n]) = Some [w, s, e, n]" by (rule dec_f64s) (use assms(2) in auto)
  show ?thesis
    by (cases "?sc = []"; cases "scene_times scenes")
      (simp_all add: eager_cube_def loaded_cube_def from_envelope_def json_get_def decode_or_err_def decode_cube_def dec_default_def
        b sc bb dec_opt_def cube_new_def field_names_def)
qed

text \<open>Scales and offsets read from JSON are finite.\<close>

definition finite_scales :: "stac_scene \<Rightarrow> bool" where
  "finite_scales s = list_all (\<lambda>(k, m). pred_option f64_is_finite (bm_scale m) \<and> pred_option f64_is_finite (bm_offset m)) (sc_metadata s)"

lemma harvest_scales_finite:
  assumes "list_all finite_scales scenes" and "(k, a, b) \<in> set (harvest_scales scenes bands)"
  shows "f64_is_finite a \<and> f64_is_finite b"
proof (cases scenes)
  case (Cons first rest)
  have one: "f64_is_finite (f64_of_nat 1)" "f64_is_finite (f64_of_nat 0)" using f64_of_nat_finite(1) [of 1] f64_of_nat_finite(1) [of 0] by (simp_all add: f64_is_finite_def)
  have "band_scale first k = Some (a, b)" using assms(2) Cons by (auto simp: harvest_scales_def map_filter_def)
  then obtain m where m: "resolve_band_metadata first k = Some m"
    "a = (case bm_scale m of Some x \<Rightarrow> x | None \<Rightarrow> f64_of_nat 1)" "b = (case bm_offset m of Some x \<Rightarrow> x | None \<Rightarrow> f64_of_nat 0)"
    by (auto simp: band_scale_def Let_def bind_eq_Some_conv split: if_splits)
  have "\<exists>n. (n, m) \<in> set (sc_metadata first)"
    using first_present_Some [OF m(1) [unfolded resolve_band_metadata_def]] map_of_SomeD by fast
  then have "pred_option f64_is_finite (bm_scale m)" "pred_option f64_is_finite (bm_offset m)"
    using assms(1) Cons by (auto simp: finite_scales_def list_all_iff)
  then show ?thesis using one m(2,3) by (auto split: option.split)
qed (use assms in \<open>simp add: harvest_scales_def\<close>)

lemma parse_bbox_finite:
  assumes "parse_bbox fm v = Ok ((w, s, e, n), crs)" and "json_ok v"
  shows "\<forall>x \<in> {w, s, e, n}. f64_is_finite x"
proof -
  have "f64_is_finite x" if "bbox_number v k = Some x" for k x
  proof -
    obtain y where y: "json_get v k = Some y" "as_f64 y = Some x" using \<open>bbox_number v k = Some x\<close>
      by (auto simp: bbox_number_def bind_eq_Some_conv)
    have "json_ok y"
    proof (cases v)
      case (JObject kvs)
      then show ?thesis using json_ok_lookup [of kvs k y] assms(2) y(1) by (simp add: json_get_def)
    qed (use y(1) in \<open>simp_all add: json_get_def\<close>)
    then show ?thesis using y(2) as_f64_finite by blast
  qed
  then show ?thesis using assms(1)
    by (auto simp: parse_bbox_def and_then_Inr_iff split: option.splits if_splits)
qed

lemma no_full_bands: "(\<And>b. bt_get bands b = None) \<Longrightarrow> bands = []"
proof (cases bands)
  case (Cons kv rest)
  moreover assume "\<And>b. bt_get bands b = None"
  then have "map_of bands (fst kv) = None" by (simp add: bt_get_def)
  ultimately show "bands = []" by (simp add: map_of_eq_None_iff)
qed

text \<open>
  C5. With the files of every requested band fetched, in whatever order the downloads complete,
  \<open>load_collection\<close> answers a cube whose bands are exactly the requested ones that every scene has, each
  with its files in scene order; when no band is on every scene it answers an error.
\<close>

theorem load_collection_cube:
  assumes "Option.bind (bt_get args ''id'') as_str = Some i" and "catalog_check (l_catalog l) i = Ok ()"
    and "l_search l = Some search" and "bt_get args ''spatial_extent'' = Some spatial" and "json_ok spatial"
    and "parse_bbox fm spatial = Ok ((w, s, e, n), crs)" and "validate_crs_spec fm crs = Ok ()"
    and "\<And>datetime cloud. search i [w, s, e, n] datetime (scene_limit args) cloud = Ok scenes" and "scenes \<noteq> []"
    and "list_all finite_scales scenes"
    and "requested_bands args \<noteq> []" and "\<And>b. b \<in> set (requested_bands args) \<Longrightarrow> validate_identifier fm b ''load_collection.bands'' = Ok ()"
    and "\<not> l_stream l" and "\<And>ts. mset (l_order l ts) = mset ts"
    and "\<And>k b h. (k, b, h) \<in> set (wanted scenes (requested_bands args)) \<Longrightarrow>
      validate_asset_href h = Ok () \<and> l_task l h (task_dst False (l_scratch l) b k) (w, s, e, n) crs = Ok (path k b)"
  shows "if common_bands scenes (requested_bands args) = {}
    then \<exists>msg. eval_load_collection fm l args = Err (Backend msg)
    else \<exists>env bands. eval_load_collection fm l args = Ok env \<and>
      from_envelope msg env = Ok (loaded_cube i (w, s, e, n) scenes bands) \<and>
      (\<forall>b. bt_get bands b = (if b \<in> common_bands scenes (requested_bands args)
         then Some (map (\<lambda>k. path k b) [0..<length scenes]) else None))"
proof -
  let ?bands = "requested_bands args"
  have "\<exists>h'. checked_task (l_stream l) (k, b, h) = Ok (k, b, h') \<and>
      l_task l h' (task_dst (l_stream l) (l_scratch l) b k) (w, s, e, n) crs = Ok (path k b)" if "(k, b, h) \<in> set (wanted scenes ?bands)" for k b h
    using assms(15) [OF that] assms(13) by (simp add: checked_task_def)
  from run_tasks_slots [OF assms(14) this] obtain slots where slots: "run_tasks l (w, s, e, n) crs scenes ?bands = Ok slots" "bt_wf slots"
    "\<And>b. bt_get (full_bands slots) b = (if b \<in> common_bands scenes ?bands then Some (map (\<lambda>k. path k b) [0..<length scenes]) else None)"
    by blast
  have ids: "traverse (\<lambda>b. validate_identifier fm b ''load_collection.bands'') ?bands = Ok (map (\<lambda>_. ()) ?bands)"
    by (rule traverse_Ok) (rule assms(12))
  have ev: "eval_load_collection fm l args = load_scenes fm l i (w, s, e, n) crs scenes ?bands"
    unfolding eval_load_collection_def assms(1-4,6-8) and_then_simps ok_or_simps option.case prod.case Let_def ids map_err_simps
    using assms(9,11) by simp
  have empty: "full_bands slots = [] \<longleftrightarrow> common_bands scenes ?bands = {}"
  proof
    assume "full_bands slots = []"
    then have "bt_get (full_bands slots) b = None" for b by (simp add: bt_get_def)
    then have "b \<notin> common_bands scenes ?bands" for b using slots(3) [of b] by fastforce
    then show "common_bands scenes ?bands = {}" by blast
  next
    assume "common_bands scenes ?bands = {}"
    then show "full_bands slots = []" using slots(3) by (intro no_full_bands) simp
  qed
  show ?thesis
  proof (cases "common_bands scenes ?bands = {}")
    case True
    then show ?thesis unfolding ev load_scenes_def slots(1) and_then_simps Let_def using empty by simp
  next
    case False
    have "eval_load_collection fm l args = Ok (eager_cube i (w, s, e, n) scenes (full_bands slots))"
      unfolding ev load_scenes_def slots(1) and_then_simps Let_def using empty False assms(13) by simp
    moreover have "from_envelope msg (eager_cube i (w, s, e, n) scenes (full_bands slots)) = Ok (loaded_cube i (w, s, e, n) scenes (full_bands slots))"
      by (rule eager_cube_decodes [OF full_bands_wf [OF slots(2)] parse_bbox_finite [OF assms(6,5)]])
        (use harvest_scales_finite [OF assms(10)] in blast)
    ultimately show ?thesis using slots(3) False by auto
  qed
qed

definition sample_scene :: stac_scene where
  "sample_scene = \<lparr>sc_id = ''S2A'', sc_bands = [(''B04'', ''https://data.example/r.tif'')], sc_metadata = [], sc_datetime = None\<rparr>"

definition sample_spatial :: json where
  "sample_spatial = JObject [(''east'', JNumber (Float 4)), (''north'', JNumber (Float 4)), (''south'', JNumber (Float 2)), (''west'', JNumber (Float 2))]"

definition sample_load :: args where
  "sample_load = [(''bands'', JArray [JString ''B04'', JString ''B99'']), (''id'', JString ''s2''), (''spatial_extent'', sample_spatial)]"

definition sample_loader :: loader where
  "sample_loader = \<lparr>l_catalog = None, l_search = Some (\<lambda>_ _ _ _ _. Ok [sample_scene]), l_scratch = ''/scratch'', l_stream = False,
     l_box_text = (\<lambda>_. []), l_task = (\<lambda>_ dst _ _. Ok dst), l_order = rev\<rparr>"

lemma sample_requested: "requested_bands sample_load = [''B04'', ''B99'']"
  by (simp add: requested_bands_def sample_load_def bt_get_def strings_of_def map_filter_simps)

lemma sample_common: "common_bands [sample_scene] [''B04'', ''B99''] = {''B04''}"
proof -
  have "resolve_band_href sample_scene ''B04'' = Some ''https://data.example/r.tif''" "resolve_band_href sample_scene ''B99'' = None"
    by code_simp+
  then show ?thesis by (auto simp: common_bands_def)
qed

lemma sample_box: "parse_bbox sample_fmt sample_spatial = Ok ((2, 2, 4, 4), ''EPSG:4326'')"
  by (simp add: parse_bbox_def sample_spatial_def bbox_number_def json_get_def f64_lt_def f64_units_def
      f64_neg_def f64_mag_def mag_units_def f64_is_nan_def inf_mag_def)

lemma sample_tasks:
  "(k, b, h) \<in> set (wanted [sample_scene] [''B04'', ''B99'']) \<Longrightarrow> validate_asset_href h = Ok ()"
proof -
  assume "(k, b, h) \<in> set (wanted [sample_scene] [''B04'', ''B99''])"
  moreover have "wanted [sample_scene] [''B04'', ''B99''] = [(0, ''B04'', ''https://data.example/r.tif'')]" by code_simp
  moreover have "validate_asset_href ''https://data.example/r.tif'' = Ok ()" by code_simp
  ultimately show ?thesis by simp
qed

theorem load_collection_cube_witness:
  "\<exists>env c. eval_load_collection sample_fmt sample_loader sample_load = Ok env \<and> from_envelope (f_decode sample_fmt) env = Ok c \<and>
     bt_get (c_bands c) ''B04'' = Some [''/scratch/B04_0.tif''] \<and> bt_get (c_bands c) ''B99'' = None"
proof -
  let ?path = "\<lambda>k b. task_dst False ''/scratch'' b k"
  have crs: "validate_crs_spec sample_fmt ''EPSG:4326'' = Ok ()" by code_simp
  have "validate_identifier sample_fmt ''B04'' ''load_collection.bands'' = Ok ()" by code_simp
  moreover have "validate_identifier sample_fmt ''B99'' ''load_collection.bands'' = Ok ()" by code_simp
  ultimately have ids: "validate_identifier sample_fmt b ''load_collection.bands'' = Ok ()" if "b \<in> set (requested_bands sample_load)" for b
    using that by (auto simp: sample_requested)
  have dst: "?path 0 ''B04'' = ''/scratch/B04_0.tif''" by code_simp
  have ok: "json_ok sample_spatial" by (simp add: sample_spatial_def f64_is_finite_def f64_mag_def inf_mag_def)
  have loader: "l_search sample_loader = Some (\<lambda>_ _ _ _ _. Ok [sample_scene])" "catalog_check (l_catalog sample_loader) ''s2'' = Ok ()"
    "\<not> l_stream sample_loader" "\<And>ts. mset (l_order sample_loader ts) = mset ts" "l_scratch sample_loader = ''/scratch''"
    "\<And>h dst box crs. l_task sample_loader h dst box crs = Ok dst"
    by (simp_all add: sample_loader_def catalog_check_def)
  have args: "Option.bind (bt_get sample_load ''id'') as_str = Some ''s2''" "bt_get sample_load ''spatial_extent'' = Some sample_spatial"
    by (simp_all add: sample_load_def bt_get_def)
  have "list_all finite_scales [sample_scene]" by (simp add: finite_scales_def sample_scene_def)
  from load_collection_cube [OF args(1) loader(2,1) args(2) ok sample_box crs refl _ this _ ids loader(3,4), of ?path "f_decode sample_fmt"]
  obtain env bands where "eval_load_collection sample_fmt sample_loader sample_load = Ok env"
    "from_envelope (f_decode sample_fmt) env = Ok (loaded_cube ''s2'' (2, 2, 4, 4) [sample_scene] bands)"
    "\<And>b. bt_get bands b = (if b = ''B04'' then Some [?path 0 b] else None)"
    using sample_tasks by (auto simp: sample_requested sample_common loader)
  then show ?thesis using dst by (auto simp: loaded_cube_def)
qed

section \<open>The cache ignores the window\<close>

text \<open>
  A download is stored under its link alone, while the stored file is the window cut out for the request's
  box: after one request, a request for any other box is answered with the first one's file.
\<close>

lemma cached_crop_reused:
  assumes "fe_cached fe" and "ac_max_bytes c = 0" and "fetch_with_cache fe now href dst box crs c = (Ok p, c1)"
  shows "\<exists>c2. fetch_with_cache fe now' href dst' box' crs' c1 = (Ok p, c2) \<and> ac_disk c2 = ac_disk c1"
proof -
  have allowed: "\<exists>u. check_url (fe_policy fe) href = Ok u" using assms(3)
    by (auto simp: fetch_with_cache_def split: sum.splits)
  let ?k = "key_for (fe_sha256 fe) href"
  have touched: "\<exists>e'. map_of (map (\<lambda>(k, e). (k, if k = key then e\<lparr>ae_access := t\<rparr> else e)) ix) key = Some e' \<and> ae_path e' = ae_path e"
    if "map_of ix key = Some e" for ix :: asset_index and key t e using that by (induction ix) auto
  have "\<exists>e. map_of (ac_index c1) ?k = Some e \<and> ae_path e = p"
  proof (cases "map_of (ac_index c) ?k")
    case None
    then show ?thesis using assms
      by (auto simp: fetch_with_cache_def fetch_blocking_def asset_get_def asset_insert_def asset_copy_def asset_stat_def asset_record_def
          asset_evict_def count_miss_def Let_def update_conv' split: sum.splits option.splits prod.splits if_splits)
  next
    case (Some e)
    then show ?thesis using assms allowed touched [OF Some]
      by (auto simp: fetch_with_cache_def asset_get_def count_hit_def touch_def Let_def)
  qed
  then show ?thesis using allowed assms(1)
    by (auto simp: fetch_with_cache_def asset_get_def Let_def count_hit_def touch_def split: sum.splits)
qed

end
