(* ===== verification/Png_Pixel.thy ===== *)
theory Png_Pixel
  imports Ieee_F64
begin

text \<open>
  The PNG encoder for a single grey pixel of \<open>geo_executor/mod.rs\<close>, with its CRC-32 and the stored
  deflate block, against a reader of the format: chunks with verified checksums, a zlib stream of stored
  blocks with its Adler-32, and one scan line with filter 0.
\<close>

unbundle bit_operations_syntax

type_synonym bytes = "8 word list"

section \<open>The encoder\<close>

definition to_be_bytes :: "32 word \<Rightarrow> bytes" where
  "to_be_bytes w = [ucast (drop_bit 24 w), ucast (drop_bit 16 w), ucast (drop_bit 8 w), ucast w]"

definition to_le_bytes16 :: "16 word \<Rightarrow> bytes" where
  "to_le_bytes16 w = [ucast w, ucast (drop_bit 8 w)]"

definition crc_bit :: "32 word \<Rightarrow> 32 word" where
  "crc_bit c = (if c AND 1 \<noteq> 0 then 0xEDB88320 XOR drop_bit 1 c else drop_bit 1 c)"

definition crc_byte :: "32 word \<Rightarrow> 8 word \<Rightarrow> 32 word" where
  "crc_byte crc b = drop_bit 8 crc XOR (crc_bit ^^ 8) ((crc XOR ucast b) AND 0xFF)"

definition png_crc32 :: "bytes \<Rightarrow> 32 word" where
  "png_crc32 buf = foldl crc_byte 0xFFFFFFFF buf XOR 0xFFFFFFFF"

definition write_png_chunk :: "bytes \<Rightarrow> bytes \<Rightarrow> bytes \<Rightarrow> bytes" where
  "write_png_chunk out tag data =
     out @ to_be_bytes (of_nat (length data)) @ tag @ data @ to_be_bytes (png_crc32 (tag @ data))"

definition PNG_SIGNATURE :: bytes where "PNG_SIGNATURE = [0x89, 0x50, 0x4E, 0x47, 0x0D, 0x0A, 0x1A, 0x0A]"
definition IHDR :: bytes where "IHDR = [0x49, 0x48, 0x44, 0x52]"
definition IDAT :: bytes where "IDAT = [0x49, 0x44, 0x41, 0x54]"
definition IEND :: bytes where "IEND = [0x49, 0x45, 0x4E, 0x44]"

text \<open>\<open>as u8\<close>: truncation towards zero, saturating, with 0 for a NaN. A unit is \<open>2 ^ -1074\<close>.\<close>

definition f64_as_u8 :: "f64 \<Rightarrow> 8 word" where
  "f64_as_u8 x = (if f64_is_nan x then 0 else of_nat (nat (min 255 (max 0 (f64_units x div 2 ^ 1074)))))"

fun adler_step :: "32 word \<times> 32 word \<Rightarrow> 8 word \<Rightarrow> 32 word \<times> 32 word" where
  "adler_step (a, b) x = (let a' = (a + ucast x) mod 65521 in (a', (b + a') mod 65521))"

definition ihdr_data :: bytes where
  "ihdr_data = to_be_bytes 1 @ to_be_bytes 1 @ [8, 0, 0, 0, 0]"

definition idat_data :: "8 word \<Rightarrow> bytes" where
  "idat_data v =
     (let raw = [0, v]; len = of_nat (length raw) :: 16 word; (a, b) = foldl adler_step (1, 0) raw
      in [0x78, 0x01] @ [0x01] @ to_le_bytes16 len @ to_le_bytes16 (NOT len) @ raw @ to_be_bytes (push_bit 16 b OR a))"

definition write_png_1x1 :: "f64 \<Rightarrow> bytes" where
  "write_png_1x1 pixel =
     (let v = f64_as_u8 (f64_clamp pixel (f64_of_nat 0) (f64_of_nat 255))
      in write_png_chunk (write_png_chunk (write_png_chunk PNG_SIGNATURE IHDR ihdr_data) IDAT (idat_data v)) IEND [])"

section \<open>CRC-32\<close>

text \<open>The checksum as it is defined: one bit at a time, lowest first, through the shift register.\<close>

definition crc_in :: "32 word \<Rightarrow> bool \<Rightarrow> 32 word" where
  "crc_in c b = (if bit c 0 \<noteq> b then 0xEDB88320 XOR drop_bit 1 c else drop_bit 1 c)"

definition bits_of :: "8 word \<Rightarrow> bool list" where "bits_of b = map (bit b) [0..<8]"

definition crc32_spec :: "bytes \<Rightarrow> 32 word" where
  "crc32_spec buf = NOT (foldl crc_in (NOT 0) (concat (map bits_of buf)))"

lemma crc_bit_alt: "crc_bit c = drop_bit 1 c XOR (if bit c 0 then 0xEDB88320 else 0)"
proof -
  have "c AND 1 \<noteq> 0 \<longleftrightarrow> bit c 0" by (simp add: and_one_eq bit_0 odd_iff_mod_2_eq_one)
  then show ?thesis by (simp add: crc_bit_def xor.commute)
qed

lemma crc_bit_xor: "crc_bit (x XOR y) = crc_bit x XOR crc_bit y"
proof -
  have "(a XOR p) XOR (b XOR q) = (a XOR b) XOR (p XOR q)" for a b p q :: "32 word" by (simp add: xor.left_commute xor.assoc)
  then show ?thesis by (simp add: crc_bit_alt drop_bit_xor bit_xor_iff del: drop_bit_xor) (simp add: drop_bit_xor xor.left_commute xor.assoc)
qed

lemma crc_bits_xor: "(crc_bit ^^ n) (x XOR y) = (crc_bit ^^ n) x XOR (crc_bit ^^ n) y"
  by (induction n) (simp_all add: crc_bit_xor)

text \<open>Bits that have not reached the bottom only move down.\<close>

lemma crc_bits_shift: "(\<And>k. k < n \<Longrightarrow> \<not> bit x k) \<Longrightarrow> (crc_bit ^^ n) x = drop_bit n x"
proof (induction n)
  case (Suc n)
  then have "(crc_bit ^^ n) x = drop_bit n x" "\<not> bit (drop_bit n x) 0" by (simp_all add: bit_drop_bit_eq)
  then show ?case by (simp add: crc_bit_alt [of "drop_bit n x"] add.commute)
qed simp

lemma crc_byte_eq: "crc_byte c b = (crc_bit ^^ 8) (c XOR ucast b)"
proof -
  let ?x = "c XOR ucast b"
  define m :: "32 word" where "m = 0xFF"
  have bm: "bit m k \<longleftrightarrow> k < 8" for k
  proof -
    have "m = mask 8" by (simp add: m_def mask_eq_exp_minus_1)
    then show ?thesis by (simp only: bit_mask_iff) auto
  qed
  have split: "?x = (?x AND m) XOR (?x AND NOT m)" by (rule bit_word_eqI) (auto simp: bit_simps)
  have low: "\<not> bit (?x AND NOT m) k" if "k < 8" for k using that by (simp add: bit_and_iff bit_not_iff bm)
  have "drop_bit 8 (?x AND NOT m) = drop_bit 8 c"
    by (rule bit_word_eqI) (auto simp: bit_simps bm dest: bit_imp_le_length)
  then have "(crc_bit ^^ 8) (?x AND NOT m) = drop_bit 8 c" using crc_bits_shift [OF low] by simp
  then show ?thesis unfolding crc_byte_def m_def [symmetric] by (subst (2) split) (simp add: crc_bits_xor xor.commute)
qed

lemma crc_in_eq: "crc_in c b = crc_bit (c XOR of_bool b)"
proof -
  have "bit (c XOR of_bool b) 0 \<longleftrightarrow> bit c 0 \<noteq> b" by (simp add: bit_xor_iff bit_of_bool_iff)
  moreover have "drop_bit 1 (c XOR of_bool b) = drop_bit 1 c" by (rule bit_word_eqI) (auto simp: bit_simps)
  ultimately show ?thesis unfolding crc_bit_alt crc_in_def by (simp only: xor.commute xor.right_neutral split: if_split) simp
qed

lemma crc_in_bits: "n \<le> 8 \<Longrightarrow> foldl crc_in c (map (bit b) [0..<n]) = (crc_bit ^^ n) (c XOR take_bit n (ucast b))" for b :: "8 word"
proof (induction n)
  case (Suc n)
  have tb: "take_bit (Suc n) (ucast b :: 32 word) = take_bit n (ucast b) XOR push_bit n (of_bool (bit b n))"
    by (rule bit_word_eqI) (use Suc.prems in \<open>auto simp: bit_simps less_Suc_eq\<close>)
  have "\<not> bit (push_bit n (of_bool (bit b n)) :: 32 word) k" if "k < n" for k using that by (simp add: bit_push_bit_iff)
  then have "(crc_bit ^^ n) (push_bit n (of_bool (bit b n)) :: 32 word) = drop_bit n (push_bit n (of_bool (bit b n)))" by (rule crc_bits_shift)
  also have "\<dots> = of_bool (bit b n)" by (rule bit_word_eqI) (use Suc.prems in \<open>auto simp: bit_simps\<close>)
  finally show ?case using Suc by (simp add: crc_in_eq tb xor.assoc [symmetric] crc_bits_xor)
qed simp

lemma crc_in_byte: "foldl crc_in c (bits_of b) = crc_byte c b"
proof -
  have "take_bit 8 (ucast b :: 32 word) = ucast b" by (rule bit_word_eqI) (auto simp: bit_simps dest: bit_imp_le_length)
  then show ?thesis by (simp add: bits_of_def crc_in_bits crc_byte_eq)
qed

lemma png_crc32_spec: "png_crc32 buf = crc32_spec buf"
proof -
  have "foldl crc_in c (concat (map bits_of buf)) = foldl crc_byte c buf" for c
    by (induction buf arbitrary: c) (simp_all add: crc_in_byte)
  moreover have ones: "(0xFFFFFFFF :: 32 word) = NOT 0" by simp
  moreover have "x XOR NOT 0 = NOT x" for x :: "32 word" by (rule bit_word_eqI) (auto simp: bit_simps)
  ultimately show ?thesis unfolding png_crc32_def crc32_spec_def ones by simp
qed

section \<open>A reader\<close>

definition of_be :: "bytes \<Rightarrow> nat" where "of_be bs = foldl (\<lambda>n b. n * 256 + unat b) 0 bs"

text \<open>A chunk: length, tag, data and the checksum over tag and data.\<close>

definition read_chunk :: "bytes \<Rightarrow> (bytes \<times> bytes \<times> bytes) option" where
  "read_chunk bs =
     (let len = of_be (take 4 bs); tag = take 4 (drop 4 bs); data = take len (drop 8 bs)
      in if length bs < len + 12 \<or> of_be (take 4 (drop (len + 8) bs)) \<noteq> unat (crc32_spec (tag @ data)) then None
         else Some (tag, data, drop (len + 12) bs))"

function read_chunks :: "bytes \<Rightarrow> (bytes \<times> bytes) list option" where
  "read_chunks bs =
     (case read_chunk bs of None \<Rightarrow> None
      | Some (tag, data, rest) \<Rightarrow>
          if tag = IEND then (if rest = [] then Some [(tag, data)] else None)
          else map_option (Cons (tag, data)) (read_chunks rest))"
  by pat_completeness auto
termination by (relation "measure length") (auto simp: read_chunk_def Let_def split: if_splits)

declare read_chunks.simps [simp del]

text \<open>Stored deflate blocks, and the zlib wrapper around them.\<close>

fun inflate_stored :: "nat \<Rightarrow> bytes \<Rightarrow> (bytes \<times> bytes) option" where
  "inflate_stored (Suc fuel) (h # l0 # l1 # n0 # n1 # rest) =
     (let len = of_be [l1, l0]
      in if 1 < h \<or> of_be [n1, n0] \<noteq> 65535 - len \<or> length rest < len then None
         else if h = 1 then Some (take len rest, drop len rest)
         else map_option (\<lambda>(d, r). (take len rest @ d, r)) (inflate_stored fuel (drop len rest)))"
| "inflate_stored _ _ = None"

definition adler32_spec :: "bytes \<Rightarrow> nat" where
  "adler32_spec bs =
     (let a = 1 + sum_list (map unat bs);
          b = length bs + sum_list (map (\<lambda>i. (length bs - i) * unat (bs ! i)) [0..<length bs])
      in (b mod 65521) * 65536 + a mod 65521)"

definition zlib_stored :: "bytes \<Rightarrow> bytes option" where
  "zlib_stored bs =
     (if length bs < 2 \<or> hd bs AND 0x0F \<noteq> 8 \<or> of_be (take 2 bs) mod 31 \<noteq> 0 then None
      else case inflate_stored (length bs) (drop 2 bs) of
          Some (d, r) \<Rightarrow> if length r = 4 \<and> of_be r = adler32_spec d then Some d else None
        | None \<Rightarrow> None)"

fun scan_lines :: "nat \<Rightarrow> nat \<Rightarrow> bytes \<Rightarrow> bytes list option" where
  "scan_lines w 0 bs = (if bs = [] then Some [] else None)"
| "scan_lines w (Suc h) bs =
     (if length bs < Suc w \<or> hd bs \<noteq> 0 then None
      else map_option (Cons (take w (tl bs))) (scan_lines w h (drop (Suc w) bs)))"

text \<open>An 8-bit grey image without interlacing: its width, height and rows.\<close>

definition read_png :: "bytes \<Rightarrow> (nat \<times> nat \<times> bytes list) option" where
  "read_png bs =
     (if take 8 bs \<noteq> PNG_SIGNATURE then None
      else case read_chunks (drop 8 bs) of
          Some ((tag, hdr) # chunks) \<Rightarrow>
            if tag \<noteq> IHDR \<or> length hdr \<noteq> 13 \<or> drop 8 hdr \<noteq> [8, 0, 0, 0, 0] then None
            else let w = of_be (take 4 hdr); h = of_be (take 4 (drop 4 hdr))
              in Option.bind (zlib_stored (concat (map snd (filter (\<lambda>c. fst c = IDAT) chunks)))) (\<lambda>raw.
                   map_option (\<lambda>rows. (w, h, rows)) (scan_lines w h raw))
        | _ \<Rightarrow> None)"

lemma of_be_to_be: "of_be (to_be_bytes w) = unat w"
proof -
  let ?n = "unat w"
  have "unat (ucast (drop_bit k w) :: 8 word) = ?n div 2 ^ k mod 256" for k
    unfolding unsigned_ucast_eq unsigned_drop_bit_eq using unsigned_less [of w, where ?'a = nat] by (simp add: drop_bit_eq_div take_bit_eq_mod)
  from this [of 24] this [of 16] this [of 8] this [of 0]
  have "of_be (to_be_bytes w) = ((?n div 2 ^ 24 mod 256 * 256 + ?n div 2 ^ 16 mod 256) * 256 + ?n div 2 ^ 8 mod 256) * 256 + ?n mod 256"
    by (simp add: of_be_def to_be_bytes_def)
  moreover have "?n < 2 ^ 32" using unsigned_less [of w, where ?'a = nat] by simp
  then have "?n div 2 ^ 24 mod 256 = ?n div 2 ^ 24" by simp
  moreover have "?n div 2 ^ (k + 8) * 256 + ?n div 2 ^ k mod 256 = ?n div 2 ^ k" for k
    using div_mult_mod_eq [of "?n div 2 ^ k" 256] by (simp add: power_add div_mult2_eq)
  from this [of 16] this [of 8] this [of 0] have "?n div 2 ^ 24 * 256 + ?n div 2 ^ 16 mod 256 = ?n div 2 ^ 16"
    "?n div 2 ^ 16 * 256 + ?n div 2 ^ 8 mod 256 = ?n div 2 ^ 8" "?n div 2 ^ 8 * 256 + ?n mod 256 = ?n" by simp_all
  ultimately show ?thesis by (simp only:)
qed

lemma to_be_length: "length (to_be_bytes w) = 4" by (simp add: to_be_bytes_def)

lemma read_written_chunk:
  assumes "length tag = 4" and "length data < 2 ^ 32"
  shows "read_chunk (write_png_chunk [] tag data @ rest) = Some (tag, data, rest)"
proof -
  have len: "unat (of_nat (length data) :: 32 word) = length data" using assms(2) by (simp add: unat_of_nat)
  have drops: "drop (length data + 8) (a @ tag @ data @ b) = b" "take 4 (drop 4 (a @ tag @ data @ b)) = tag"
    "take (length data) (drop 8 (a @ tag @ data @ b)) = data" if "length a = 4" for a b
    using that assms(1) by simp_all
  have end_of: "drop (length data + 12) (a @ tag @ data @ b @ c) = c" if "length a = 4" "length b = 4" for a b c
    using that assms(1) by simp
  show ?thesis
    using assms(1) by (simp add: read_chunk_def write_png_chunk_def Let_def to_be_length of_be_to_be len drops end_of png_crc32_spec)
qed

lemma written_prefix: "write_png_chunk out tag data = out @ write_png_chunk [] tag data"
  by (simp add: write_png_chunk_def)

lemma tags: "length IHDR = 4" "length IDAT = 4" "length IEND = 4" "IHDR \<noteq> IEND" "IDAT \<noteq> IEND" "IHDR \<noteq> IDAT" "IEND \<noteq> IDAT"
  by (simp_all add: IHDR_def IDAT_def IEND_def)

lemma unat_join: "unat (push_bit 16 b OR a :: 32 word) = unat b * 65536 + unat a" if "unat a < 65536" "unat b < 65536" for a b :: "32 word"
proof -
  have "push_bit 16 (unat b) AND unat a = 0"
  proof (rule bit_eqI)
    fix k
    have "\<not> bit (unat a) k" if "16 \<le> k"
    proof -
      have "take_bit 16 (unat a) = unat a" using \<open>unat a < 65536\<close> by (simp add: take_bit_nat_eq_self_iff)
      then show ?thesis using that by (metis bit_take_bit_iff not_le)
    qed
    then show "bit (push_bit 16 (unat b) AND unat a) k = bit 0 k" by (auto simp: bit_and_iff bit_push_bit_iff)
  qed
  then have "push_bit 16 (unat b) OR unat a = push_bit 16 (unat b) + unat a" by (simp add: disjunctive_add_eq_or)
  moreover have "take_bit 32 (push_bit 16 (unat b)) = push_bit 16 (unat b)" using that(2) by (simp add: take_bit_nat_eq_self_iff push_bit_eq_mult)
  ultimately show ?thesis unfolding unsigned_or_eq unsigned_push_bit_eq by (simp add: push_bit_eq_mult)
qed

lemma unat_small_add: "unat (of_nat k + ucast v :: 32 word) = k + unat v" if "k < 1000" for v :: "8 word"
proof -
  have "unat v < 256" using unsigned_less [of v, where ?'a = nat] by simp
  then have "unat (of_nat (k + unat v) :: 32 word) = k + unat v" using that by (simp add: unat_of_nat del: of_nat_add)
  moreover have "(of_nat (k + unat v) :: 32 word) = of_nat k + ucast v" by (simp add: unsigned_ucast_eq)
  ultimately show ?thesis by simp
qed

lemma idat_inflates: "zlib_stored (idat_data v) = Some [0, v]"
proof -
  have v: "unat v < 256" using unsigned_less [of v, where ?'a = nat] by simp
  have a: "unat ((1 + ucast v) mod 65521 :: 32 word) = 1 + unat v"
    using unat_small_add [of 1 v] v by (simp add: unat_mod)
  have b: "unat ((1 + (1 + ucast v) mod 65521) mod 65521 :: 32 word) = 2 + unat v"
  proof -
    have "(1 + ucast v) mod 65521 = (1 + ucast v :: 32 word)"
      using a unat_small_add [of 1 v] by (simp add: word_unat_eq_iff)
    then show ?thesis using unat_small_add [of 2 v] v by (simp add: unat_mod add.assoc [symmetric])
  qed
  have "unat (push_bit 16 ((1 + (1 + ucast v) mod 65521) mod 65521) OR (1 + ucast v) mod 65521 :: 32 word) = (2 + unat v) * 65536 + (1 + unat v)"
    using unat_join a b v by simp
  moreover have "adler32_spec [0, v] = (2 + unat v) * 65536 + (1 + unat v)" using v by (simp add: adler32_spec_def)
  ultimately have "of_be (to_be_bytes (push_bit 16 ((1 + (1 + ucast v) mod 65521) mod 65521) OR (1 + ucast v) mod 65521)) = adler32_spec [0, v]"
    by (simp only: of_be_to_be)
  moreover have "idat_data v = [0x78, 1, 1, 2, 0, 0xFD, 0xFF, 0, v] @
      to_be_bytes (push_bit 16 ((1 + (1 + ucast v) mod 65521) mod 65521) OR (1 + ucast v) mod 65521)"
    by (simp add: idat_data_def Let_def to_le_bytes16_def)
  moreover have "zlib_stored ([0x78, 1, 1, 2, 0, 0xFD, 0xFF, 0, v] @ r) = Some [0, v]" if "length r = 4" "of_be r = adler32_spec [0, v]" for r
  proof -
    have two: "of_be [0, 2] = 2" "of_be [255, 253] = 65533" "of_be [120, 1] mod 31 = 0" by (simp_all add: of_be_def)
    have "inflate_stored (Suc 12) (1 # 2 # 0 # 253 # 255 # 0 # v # r) = Some ([0, v], r)" unfolding inflate_stored.simps two Let_def by simp
    then show ?thesis using that two by (simp add: zlib_stored_def)
  qed
  ultimately show ?thesis by (simp only: to_be_length)
qed

lemma written_chunks:
  assumes "length idat < 2 ^ 32"
  shows "read_chunks (write_png_chunk (write_png_chunk (write_png_chunk [] IHDR ihdr_data) IDAT idat) IEND []) =
    Some [(IHDR, ihdr_data), (IDAT, idat), (IEND, [])]"
proof -
  have h: "length ihdr_data < 2 ^ 32" by (simp add: ihdr_data_def to_be_length)
  have e: "length ([] :: bytes) < 2 ^ 32" by simp
  have "read_chunks (write_png_chunk [] IEND []) = Some [(IEND, [])]"
    using read_written_chunk [OF tags(3) e, of "[]"] by (subst read_chunks.simps) (simp del: One_nat_def)
  then have "read_chunks (write_png_chunk [] IDAT idat @ write_png_chunk [] IEND []) = Some [(IDAT, idat), (IEND, [])]"
    by (subst read_chunks.simps) (simp add: read_written_chunk [OF tags(2) assms] tags)
  then have "read_chunks (write_png_chunk [] IHDR ihdr_data @ write_png_chunk [] IDAT idat @ write_png_chunk [] IEND []) =
      Some [(IHDR, ihdr_data), (IDAT, idat), (IEND, [])]"
    by (subst read_chunks.simps) (simp add: read_written_chunk [OF tags(1) h] tags)
  moreover have "write_png_chunk (write_png_chunk (write_png_chunk [] IHDR ihdr_data) IDAT idat) IEND [] =
      write_png_chunk [] IHDR ihdr_data @ write_png_chunk [] IDAT idat @ write_png_chunk [] IEND []"
    by (simp add: write_png_chunk_def)
  ultimately show ?thesis by simp
qed

lemma f64_of_nat_exact:
  assumes "mag_units m = n * 2 ^ 1074" and "m \<le> inf_mag"
  shows "f64_units (f64_of_nat n) = int n * 2 ^ 1074" and "\<not> f64_is_nan (f64_of_nat n)"
proof -
  have "round_mag (n * 2 ^ 1074) 1 = m" using round_mag_units [OF assms(2)] assms(1) by (simp only:)
  then have "f64_units (f64_of_nat n) = int (n * 2 ^ 1074)"
    using assms(1) f64_make_parts [OF round_mag_less, of False "n * 2 ^ 1074" 1] by (simp only: f64_units_def f64_of_nat_def if_False)
  then show "f64_units (f64_of_nat n) = int n * 2 ^ 1074" by (simp only: of_nat_mult of_nat_power of_nat_numeral)
  show "\<not> f64_is_nan (f64_of_nat n)" unfolding f64_of_nat_def by (rule f64_make_round_not_nan)
qed

lemma f64_as_u8_unat: "unat (f64_as_u8 x) = (if f64_is_nan x then 0 else nat (min 255 (max 0 (f64_units x div 2 ^ 1074))))"
proof -
  have "unat (of_nat k :: 8 word) = k" if "k \<le> 255" for k using that by (simp add: unat_of_nat)
  then have "unat (of_nat (nat (min 255 (max 0 i))) :: 8 word) = nat (min 255 (max 0 i))" for i
    using nat_le_iff [of "min 255 (max 0 i)" 255] by fastforce
  then show ?thesis by (cases "f64_is_nan x") (simp_all only: f64_as_u8_def unsigned_0 if_True if_False)
qed

lemma clamp_as_u8:
  "unat (f64_as_u8 (f64_clamp x (f64_of_nat 0) (f64_of_nat 255))) =
     (if f64_is_nan x then 0 else nat (min 255 (max 0 (f64_units x div 2 ^ 1074))))"
proof -
  define D :: int where "D = 2 ^ 1074"
  have D: "D > 0" by (simp add: D_def)
  have "mag_units (1030 * 2 ^ 52 + 127 * 2 ^ 45) = 255 * 2 ^ 1074" "1030 * 2 ^ 52 + 127 * 2 ^ 45 \<le> inf_mag"
    by (simp_all add: mag_units_def inf_mag_def)
  from f64_of_nat_exact [OF this] have hi: "f64_units (f64_of_nat 255) = 255 * D" "\<not> f64_is_nan (f64_of_nat 255)" by (simp_all only: D_def of_nat_numeral not_False_eq_True)
  have lo: "f64_units (f64_of_nat 0) = 0" "\<not> f64_is_nan (f64_of_nat 0)"
    using f64_of_nat_exact [of 0 0] by (simp_all add: mag_units_def)
  show ?thesis
  proof (cases "f64_is_nan x")
    case True
    then show ?thesis by (simp add: f64_clamp_def f64_lt_def f64_as_u8_def)
  next
    case False
    let ?u = "f64_units x"
    have "?u div D < 0" if "?u < 0" using that D div_neg_pos_less0 by blast
    moreover have "255 \<le> ?u div D" if "255 * D < ?u" using that D zdiv_mono1 [of "255 * D" ?u D] by simp
    ultimately show ?thesis using False hi lo D
      unfolding f64_as_u8_unat D_def [symmetric] by (auto simp: f64_clamp_def f64_lt_def Let_def)
  qed
qed

text \<open>
  C8. The hand-written PNG is a PNG: a reader that verifies the chunk checksums, the stored deflate block and
  its Adler-32 finds one grey pixel, and its value is the input rounded down into 0..255 (0 for a NaN).
\<close>

theorem png_pixel_roundtrip:
  "\<exists>v. read_png (write_png_1x1 pixel) = Some (1, 1, [[v]]) \<and>
     unat v = (if f64_is_nan pixel then 0 else nat (min 255 (max 0 (f64_units pixel div 2 ^ 1074))))"
proof -
  define v where "v = f64_as_u8 (f64_clamp pixel (f64_of_nat 0) (f64_of_nat 255))"
  have sig: "take 8 (PNG_SIGNATURE @ r) = PNG_SIGNATURE" "drop 8 (PNG_SIGNATURE @ r) = r" for r by (simp_all add: PNG_SIGNATURE_def)
  have w: "write_png_1x1 pixel = PNG_SIGNATURE @ write_png_chunk (write_png_chunk (write_png_chunk [] IHDR ihdr_data) IDAT (idat_data v)) IEND []"
    by (simp add: write_png_1x1_def v_def write_png_chunk_def Let_def)
  have hdr: "length ihdr_data = 13" "drop 8 ihdr_data = [8, 0, 0, 0, 0]" "of_be (take 4 ihdr_data) = 1" "of_be (take 4 (drop 4 ihdr_data)) = 1"
    by (simp_all add: ihdr_data_def of_be_to_be to_be_length)
  have "length (idat_data v) < 2 ^ 32" by (simp add: idat_data_def Let_def to_le_bytes16_def to_be_length)
  then have "read_png (write_png_1x1 pixel) = Some (1, 1, [[v]])"
    unfolding w read_png_def sig using hdr by (simp add: written_chunks tags idat_inflates)
  then show ?thesis using clamp_as_u8 [of pixel] v_def by blast
qed

end
