(* ===== verification/Process_Catalog.thy ===== *)
theory Process_Catalog
  imports Local_Executor File_Store Edit_Distance "HOL-Library.Multiset" "HOL-Library.Product_Lexorder"
begin

text \<open>
  The advertised processes (\<open>process_catalog.rs\<close>), the registry of process handlers (\<open>geo_executor/registry.rs\<close>)
  with its suggestions for misspelt names, and the registry of JSON schemas (\<open>schema.rs\<close>).
\<close>

section \<open>The catalogue\<close>

record process_spec =
  ps_id :: string
  ps_summary :: string
  ps_categories :: "string list"
  ps_parameters :: "string list"
  ps_returns :: string

definition spec :: "string \<Rightarrow> string \<Rightarrow> string list \<Rightarrow> string list \<Rightarrow> string \<Rightarrow> process_spec" where
  "spec i s c p r = \<lparr>ps_id = i, ps_summary = s, ps_categories = c, ps_parameters = p, ps_returns = r\<rparr>"

definition SPECS :: "process_spec list" where
  "SPECS = [
    spec ''load_collection'' ''Load a collection into a data cube, filtered by space/time/bands.'' [''cubes'', ''import''] [''id'', ''spatial_extent'', ''temporal_extent'', ''*bands'', ''*properties''] ''A data cube.'',
    spec ''save_result'' ''Save processing results to the requested output format.'' [''cubes'', ''export''] [''data'', ''format'', ''*options''] ''Always true.'',
    spec ''reduce_dimension'' ''Reduce a cube dimension to a single value with a reducer callback.'' [''cubes'', ''reducer''] [''data'', ''reducer'', ''dimension'', ''*context''] ''A data cube with the dimension removed.'',
    spec ''apply'' ''Apply a unary per-pixel process to every value in the cube.'' [''cubes''] [''data'', ''process'', ''*context''] ''A data cube with the same dimensions.'',
    spec ''mask'' ''Mask a cube with a truthy mask cube (replace masked values).'' [''cubes'', ''masks''] [''data'', ''mask'', ''*replacement''] ''The masked data cube.'',
    spec ''merge_cubes'' ''Merge two data cubes (band-axis join, overlap resolver, or spatial mosaic).'' [''cubes''] [''cube1'', ''cube2'', ''*overlap_resolver'', ''*context''] ''The merged data cube.'',
    spec ''ndvi'' ''Normalized Difference Vegetation Index from nir/red bands.'' [''cubes'', ''vegetation indices''] [''data'', ''*nir'', ''*red'', ''*target_band''] ''A data cube with an NDVI band.'',
    spec ''filter_temporal'' ''Limit a cube to the given temporal interval.'' [''cubes'', ''filter''] [''data'', ''extent'', ''*dimension''] ''A temporally-filtered data cube.'',
    spec ''filter_spatial'' ''Limit a cube to the given spatial geometries.'' [''cubes'', ''filter''] [''data'', ''geometries''] ''A spatially-filtered data cube.'',
    spec ''filter_bbox'' ''Limit a cube to the given bounding box.'' [''cubes'', ''filter''] [''data'', ''extent''] ''A spatially-filtered data cube.'',
    spec ''filter_bands'' ''Keep only the requested bands.'' [''cubes'', ''filter''] [''data'', ''bands''] ''A band-subset data cube.'',
    spec ''rename_labels'' ''Rename labels (band names) along a dimension.'' [''cubes''] [''data'', ''dimension'', ''target'', ''*source''] ''A data cube with renamed labels.'',
    spec ''add_dimension'' ''Add a new singleton dimension.'' [''cubes''] [''data'', ''name'', ''label'', ''*type''] ''A data cube with the added dimension.'',
    spec ''drop_dimension'' ''Remove a singleton dimension.'' [''cubes''] [''data'', ''name''] ''A data cube without the dimension.'',
    spec ''resample_spatial'' ''Reproject/resample a cube to a target CRS and resolution.'' [''cubes'', ''reproject''] [''data'', ''*projection'', ''*resolution'', ''*method''] ''A resampled data cube.'',
    spec ''aggregate_spatial'' ''Aggregate cube values over geometries with a reducer.'' [''cubes'', ''aggregate''] [''data'', ''geometries'', ''reducer'', ''*target_dimension'', ''*context''] ''A vector cube of aggregated values.'',
    spec ''mask_scl_dilation'' ''Mask Sentinel-2 clouds/shadows using the SCL band (dilated).'' [''cubes'', ''masks''] [''data'', ''*scl_band_name'', ''*kernel_size''] ''A cloud-masked data cube.'',
    spec ''mask_from_values'' ''Build a binary mask from a band by listing the mask-out class values.'' [''cubes'', ''masks''] [''data'', ''band'', ''values''] ''A masked data cube.'',
    spec ''aggregate_spatial_polygon'' ''(extension) Per-polygon mean of raster values.'' [''cubes'', ''aggregate''] [''data'', ''geometries''] ''Per-polygon means.'',
    spec ''aggregate_spatial_point'' ''(extension) Sample raster values at points.'' [''cubes'', ''aggregate''] [''data'', ''points''] ''Per-point samples.'',
    spec ''zonal_histogram'' ''(extension) Per-zone pixel counts from a data + mask raster.'' [''cubes'', ''aggregate''] [''data'', ''mask''] ''Per-zone counts.'',
    spec ''fit_classifier'' ''(extension) Train a binary logistic classifier.'' [''machine learning''] [''x'', ''y'', ''*iterations'', ''*lr''] ''A model object.'',
    spec ''predict_classifier'' ''(extension) Apply a fitted classifier to features.'' [''machine learning''] [''model'', ''x''] ''Predictions.'',
    spec ''add'' ''x + y.'' [''math''] [''x'', ''y''] ''The sum.'',
    spec ''subtract'' ''x - y.'' [''math''] [''x'', ''y''] ''The difference.'',
    spec ''multiply'' ''x * y.'' [''math''] [''x'', ''y''] ''The product.'',
    spec ''divide'' ''x / y.'' [''math''] [''x'', ''y''] ''The quotient.'',
    spec ''absolute'' ''Absolute value.'' [''math''] [''x''] ''|x|.'',
    spec ''sqrt'' ''Square root.'' [''math''] [''x''] ''sqrt(x).'',
    spec ''power'' ''base raised to p.'' [''math''] [''base'', ''p''] ''base^p.'',
    spec ''exp'' ''e raised to p.'' [''math''] [''p''] ''e^p.'',
    spec ''ln'' ''Natural logarithm.'' [''math''] [''x''] ''ln(x).'',
    spec ''log'' ''Logarithm to a base.'' [''math''] [''x'', ''base''] ''log_base(x).'',
    spec ''sgn'' ''Sign of x.'' [''math''] [''x''] ''-1, 0 or 1.'',
    spec ''floor'' ''Round down.'' [''math'', ''rounding''] [''x''] ''floor(x).'',
    spec ''ceil'' ''Round up.'' [''math'', ''rounding''] [''x''] ''ceil(x).'',
    spec ''int'' ''Truncate to integer.'' [''math'', ''rounding''] [''x''] ''trunc(x).'',
    spec ''round'' ''Round half to even to p decimals.'' [''math'', ''rounding''] [''x'', ''*p''] ''The rounded value.'',
    spec ''mod'' ''Modulo (sign of divisor).'' [''math''] [''x'', ''y''] ''x mod y.'',
    spec ''clip'' ''Clamp x to [min, max].'' [''math''] [''x'', ''min'', ''max''] ''The clamped value.'',
    spec ''normalized_difference'' ''(x - y) / (x + y).'' [''math''] [''x'', ''y''] ''The normalized difference.'',
    spec ''cos'' ''Cosine.'' [''math'', ''trigonometric''] [''x''] ''cos(x).'',
    spec ''sin'' ''Sine.'' [''math'', ''trigonometric''] [''x''] ''sin(x).'',
    spec ''tan'' ''Tangent.'' [''math'', ''trigonometric''] [''x''] ''tan(x).'',
    spec ''arccos'' ''Inverse cosine.'' [''math'', ''trigonometric''] [''x''] ''acos(x).'',
    spec ''arcsin'' ''Inverse sine.'' [''math'', ''trigonometric''] [''x''] ''asin(x).'',
    spec ''arctan'' ''Inverse tangent.'' [''math'', ''trigonometric''] [''x''] ''atan(x).'',
    spec ''arctan2'' ''Two-argument inverse tangent.'' [''math'', ''trigonometric''] [''y'', ''x''] ''atan2(y, x).'',
    spec ''eq'' ''Equality (optional delta).'' [''comparison''] [''x'', ''y'', ''*delta'', ''*case_sensitive''] ''Boolean.'',
    spec ''neq'' ''Inequality (optional delta).'' [''comparison''] [''x'', ''y'', ''*delta'', ''*case_sensitive''] ''Boolean.'',
    spec ''gt'' ''Greater than.'' [''comparison''] [''x'', ''y''] ''Boolean.'',
    spec ''gte'' ''Greater than or equal.'' [''comparison''] [''x'', ''y''] ''Boolean.'',
    spec ''lt'' ''Less than.'' [''comparison''] [''x'', ''y''] ''Boolean.'',
    spec ''lte'' ''Less than or equal.'' [''comparison''] [''x'', ''y''] ''Boolean.'',
    spec ''between'' ''Test min <= x <= max.'' [''comparison''] [''x'', ''min'', ''max'', ''*exclude_max''] ''Boolean.'',
    spec ''and'' ''Logical AND.'' [''logic''] [''x'', ''y''] ''Boolean.'',
    spec ''or'' ''Logical OR.'' [''logic''] [''x'', ''y''] ''Boolean.'',
    spec ''xor'' ''Logical XOR.'' [''logic''] [''x'', ''y''] ''Boolean.'',
    spec ''not'' ''Logical NOT.'' [''logic''] [''x''] ''Boolean.'',
    spec ''array_element'' ''Get an array element by index or label.'' [''arrays''] [''data'', ''*index'', ''*label'', ''*return_nodata''] ''The element.'',
    spec ''array_create'' ''Create an array from values.'' [''arrays''] [''*data'', ''*repeat''] ''An array.'',
    spec ''array_concat'' ''Concatenate two arrays.'' [''arrays''] [''array1'', ''array2''] ''The concatenated array.'',
    spec ''array_append'' ''Append a value to an array.'' [''arrays''] [''data'', ''value''] ''The extended array.'',
    spec ''array_contains'' ''Test array membership.'' [''arrays''] [''data'', ''value''] ''Boolean.'',
    spec ''array_find'' ''Find the index of a value.'' [''arrays''] [''data'', ''value''] ''The index or null.'',
    spec ''count'' ''Count elements (optionally by condition).'' [''arrays'', ''reducer''] [''data'', ''*condition''] ''The count.'',
    spec ''order'' ''Permutation that would sort the array.'' [''arrays'', ''sorting''] [''data'', ''*asc'', ''*nodata''] ''The order indices.'',
    spec ''sort'' ''Sort the array.'' [''arrays'', ''sorting''] [''data'', ''*asc'', ''*nodata''] ''The sorted array.''
  ]"

text \<open>\<open>Vec::dedup\<close> drops repeated neighbours.\<close>

definition process_ids :: "string list" where
  "process_ids = remdups_adj (sort (map ps_id SPECS))"

definition is_known_process :: "string \<Rightarrow> bool" where
  "is_known_process i = list_ex (\<lambda>s. ps_id s = i) SPECS"

definition parameter_json :: "string \<Rightarrow> json" where
  "parameter_json raw =
     (let optional = (raw \<noteq> [] \<and> hd raw = CHR ''*''); name = dropWhile (\<lambda>c. c = CHR ''*'') raw
      in JObject [(''name'', JString name), (''description'', JString name), (''schema'', JObject []), (''optional'', JBool optional)])"

definition to_process_json :: "process_spec \<Rightarrow> json" where
  "to_process_json s =
     JObject [(''id'', JString (ps_id s)), (''summary'', JString (ps_summary s)), (''description'', JString (ps_summary s)),
       (''categories'', JArray (map JString (ps_categories s))), (''parameters'', JArray (map parameter_json (ps_parameters s))),
       (''returns'', JObject [(''description'', JString (ps_returns s)), (''schema'', JObject [])])]"

definition process_descriptions :: "json list" where
  "process_descriptions = map to_process_json (sort_key ps_id SPECS)"

section \<open>The handler registry\<close>

text \<open>The entries of the \<open>HashMap\<close> in its iteration order.\<close>

type_synonym 'h proc_registry = "(string \<times> 'h) list"

definition proc_registry_new :: "'h proc_registry" where "proc_registry_new = []"

definition reg_handler :: "string \<Rightarrow> 'h \<Rightarrow> 'h proc_registry \<Rightarrow> 'h proc_registry" where
  "reg_handler name h r = AList.update name h r"

definition handler_get :: "'h proc_registry \<Rightarrow> string \<Rightarrow> 'h option" where "handler_get r name = map_of r name"

definition handler_contains :: "'h proc_registry \<Rightarrow> string \<Rightarrow> bool" where
  "handler_contains r name \<longleftrightarrow> name \<in> set (map fst r)"

definition registered_processes :: "'h proc_registry \<Rightarrow> string list" where "registered_processes r = sort (map fst r)"

text \<open>\<open>str::len\<close> counts bytes and \<open>str::chars\<close> decodes them.\<close>

definition candidates :: "'h proc_registry \<Rightarrow> string \<Rightarrow> (nat \<times> string) list" where
  "candidates r name =
     filter (\<lambda>(d, _). d \<le> max (length name div 3) 2) (map (\<lambda>p. (levenshtein (chars name) (chars p), p)) (map fst r))"

definition suggest :: "'h proc_registry \<Rightarrow> string \<Rightarrow> nat \<Rightarrow> string list" where
  "suggest r name most = map snd (take most (sort (candidates r name)))"

definition default_names :: "string list" where
  "default_names =
    [''load_collection'', ''ndvi'', ''mask'', ''mask_from_values'', ''mask_scl_dilation'', ''reduce_dimension'', ''apply'',
     ''save_result'', ''resample_spatial'', ''zonal_histogram'', ''aggregate_spatial_polygon'', ''aggregate_spatial_point'',
     ''merge_cubes'', ''aggregate_spatial'', ''fit_classifier'', ''predict_classifier'', ''add'', ''subtract'', ''multiply'',
     ''divide'', ''filter_temporal'', ''filter_spatial'', ''filter_bbox'', ''filter_bands'', ''rename_labels'',
     ''add_dimension'', ''drop_dimension'', ''absolute'', ''sqrt'', ''exp'', ''ln'', ''log'', ''power'', ''sgn'', ''floor'',
     ''ceil'', ''int'', ''round'', ''mod'', ''clip'', ''normalized_difference'', ''cos'', ''sin'', ''tan'', ''arccos'',
     ''arcsin'', ''arctan'', ''arctan2'', ''eq'', ''neq'', ''gt'', ''gte'', ''lt'', ''lte'', ''between'', ''and'', ''or'',
     ''xor'', ''not'', ''array_element'', ''array_create'', ''array_concat'', ''array_append'', ''array_contains'',
     ''array_find'', ''count'', ''order'', ''sort'']"

definition register_defaults :: "(string \<Rightarrow> 'h) \<Rightarrow> 'h proc_registry \<Rightarrow> 'h proc_registry" where
  "register_defaults handler r = fold (\<lambda>n. reg_handler n (handler n)) default_names r"

section \<open>The schema registry\<close>

text \<open>A compiled schema gives the messages of the errors it finds; compiling is the schema library's part.\<close>

type_synonym validator = "json \<Rightarrow> string list"
type_synonym schema_registry = "(string \<times> validator) list"

datatype schema_error = SchemaParse string | SchemaNotFound string | SchemaInvalid string string

fun schema_error_text :: "schema_error \<Rightarrow> string" where
  "schema_error_text (SchemaParse e) = ''parse openapi.json: '' @ e"
| "schema_error_text (SchemaNotFound n) = ''schema not found: '' @ n"
| "schema_error_text (SchemaInvalid s e) = ''validation failed for '' @ s @ '': '' @ e"

definition from_openapi_json :: "(json \<Rightarrow> validator option) \<Rightarrow> (string, json) result \<Rightarrow> (schema_error, schema_registry) result" where
  "from_openapi_json compile parsed =
     and_then (map_err SchemaParse parsed) (\<lambda>s.
     and_then (ok_or (SchemaParse ''missing components.schemas'')
       (Option.bind (Option.bind (json_get s ''components'') (\<lambda>c. json_get c ''schemas'')) as_object)) (\<lambda>schemas.
     Ok (fold (\<lambda>(name, schema) by_name. case compile schema of Some v \<Rightarrow> AList.update name v by_name | None \<Rightarrow> by_name) schemas [])))"

definition schema_has :: "schema_registry \<Rightarrow> string \<Rightarrow> bool" where "schema_has r name \<longleftrightarrow> map_of r name \<noteq> None"

fun join_text :: "string \<Rightarrow> string list \<Rightarrow> string" where
  "join_text sep [] = []"
| "join_text sep [x] = x"
| "join_text sep (x # xs) = x @ sep @ join_text sep xs"

definition schema_validate :: "schema_registry \<Rightarrow> string \<Rightarrow> json \<Rightarrow> (schema_error, unit) result" where
  "schema_validate r name v =
     and_then (ok_or (SchemaNotFound name) (map_of r name)) (\<lambda>check.
       let errors = check v in if errors = [] then Ok () else Err (SchemaInvalid name (join_text ''; '' errors)))"

section \<open>Catalogue and registry agree\<close>

lemma register_all:
  assumes "distinct ns" and "set ns \<inter> fst ` set r = {}"
  shows "fold (\<lambda>n. reg_handler n (handler n)) ns r = r @ map (\<lambda>n. (n, handler n)) ns"
  using assms by (induction ns arbitrary: r) (auto simp: reg_handler_def alist_update_new)

lemma default_names_distinct: "distinct default_names" by code_simp

lemma catalogue_is_registry: "process_ids = sort default_names" by code_simp

lemma defaults_registered:
  "handler_get (register_defaults handler proc_registry_new) name = (if is_known_process name then Some (handler name) else None)"
  "registered_processes (register_defaults handler proc_registry_new) = process_ids"
proof -
  have reg: "register_defaults handler proc_registry_new = map (\<lambda>n. (n, handler n)) default_names"
    using register_all [OF default_names_distinct, of proc_registry_new handler] by (simp add: register_defaults_def proc_registry_new_def)
  have "set default_names = set process_ids" unfolding catalogue_is_registry by simp
  then have "is_known_process name \<longleftrightarrow> name \<in> set default_names" by (auto simp: is_known_process_def process_ids_def list_ex_iff)
  moreover have "map_of (map (\<lambda>n. (n, handler n)) ns) name = (if name \<in> set ns then Some (handler name) else None)" for ns
    by (induction ns) auto
  ultimately show "handler_get (register_defaults handler proc_registry_new) name = (if is_known_process name then Some (handler name) else None)"
    by (simp add: handler_get_def reg)
  show "registered_processes (register_defaults handler proc_registry_new) = process_ids"
    by (simp add: registered_processes_def reg comp_def catalogue_is_registry)
qed

section \<open>Suggestions\<close>

lemma sort_same_mset: "mset xs = mset ys \<Longrightarrow> sort xs = sort ys" for xs ys :: "'a::linorder list"
  by (rule properties_for_sort) simp_all

lemma candidates_mset: "mset r = mset r' \<Longrightarrow> mset (candidates r name) = mset (candidates r' name)"
  by (simp add: candidates_def)

lemma candidates_set:
  "(d, p) \<in> set (candidates r name) \<longleftrightarrow>
     p \<in> set (map fst r) \<and> d = levenshtein (chars name) (chars p) \<and> d \<le> max (length name div 3) 2"
  by (auto simp: candidates_def)

text \<open>
  The suggestions for a name are registered names within the threshold, the nearest ones, by distance and
  then by name, whatever order the hash map lists its keys in.
\<close>

lemma first_of_sorted:
  fixes f :: "'a \<Rightarrow> 'b::linorder"
  assumes "sorted_wrt (\<lambda>p q. f p < f q) xs" and "p \<in> set xs" and "p \<notin> set (take n xs)"
  shows "length (take n xs) = n \<and> (\<forall>q \<in> set (take n xs). f q < f p)"
proof -
  have "set xs = set (take n xs) \<union> set (drop n xs)" by (metis append_take_drop_id set_append)
  then have d: "p \<in> set (drop n xs)" using assms(2,3) by blast
  then have "n < length xs" by (cases "n < length xs") simp_all
  moreover have "sorted_wrt (\<lambda>p q. f p < f q) (take n xs @ drop n xs)" using assms(1) by simp
  then have "\<forall>q \<in> set (take n xs). f q < f p" using d unfolding sorted_wrt_append by blast
  ultimately show ?thesis by simp
qed

lemma suggest_nearest:
  fixes r :: "'h proc_registry" and name :: string
  assumes "distinct (map fst r)"
  defines "lev p \<equiv> levenshtein (chars name) (chars p)" and "near \<equiv> max (length name div 3) 2"
  shows "length (suggest r name most) \<le> most \<and>
    set (suggest r name most) \<subseteq> {p \<in> set (map fst r). lev p \<le> near} \<and>
    sorted_wrt (\<lambda>p q. (lev p, p) < (lev q, q)) (suggest r name most) \<and>
    (\<forall>p \<in> set (map fst r). lev p \<le> near \<longrightarrow> p \<notin> set (suggest r name most) \<longrightarrow>
      length (suggest r name most) = most \<and> (\<forall>q \<in> set (suggest r name most). (lev q, q) < (lev p, p)))"
proof -
  let ?c = "candidates r name"
  define xs where "xs = map snd (sort ?c)"
  have cset: "(d, p) \<in> set ?c \<longleftrightarrow> p \<in> set (map fst r) \<and> d = lev p \<and> d \<le> near" for d p
    by (simp only: candidates_set lev_def near_def)
  have "fst x = lev (snd x)" if "x \<in> set (sort ?c)" for x using that cset [of "fst x" "snd x"] by simp
  then have pairs: "sort ?c = map (\<lambda>p. (lev p, p)) xs"
    unfolding xs_def map_map by (intro map_idI [symmetric]) (simp add: prod_eq_iff)
  have dist: "distinct ?c" using assms(1) by (auto simp: candidates_def distinct_map inj_on_def)
  then have "distinct (sort ?c)" "sorted (sort ?c)" by simp_all
  then have "sorted_wrt (<) (sort ?c)" by (simp only: strict_sorted_iff)
  then have strict: "sorted_wrt (\<lambda>p q. (lev p, p) < (lev q, q)) xs" unfolding pairs sorted_wrt_map .
  have s: "suggest r name most = take most xs" by (simp only: suggest_def xs_def take_map)
  have mem: "p \<in> set xs \<longleftrightarrow> p \<in> set (map fst r) \<and> lev p \<le> near" for p
  proof -
    have "p \<in> set xs \<longleftrightarrow> (\<exists>d. (d, p) \<in> set ?c)" by (force simp: xs_def)
    then show ?thesis by (simp only: cset) blast
  qed
  have sub: "set (take most xs) \<subseteq> {p \<in> set (map fst r). lev p \<le> near}"
  proof
    fix p assume "p \<in> set (take most xs)"
    then have "p \<in> set xs" by (rule in_set_takeD)
    then show "p \<in> {p \<in> set (map fst r). lev p \<le> near}" by (simp only: mem mem_Collect_eq)
  qed
  have rest: "\<forall>p \<in> set (map fst r). lev p \<le> near \<longrightarrow> p \<notin> set (take most xs) \<longrightarrow>
      length (take most xs) = most \<and> (\<forall>q \<in> set (take most xs). (lev q, q) < (lev p, p))"
  proof (intro ballI impI)
    fix p assume "p \<in> set (map fst r)" "lev p \<le> near" and out: "p \<notin> set (take most xs)"
    then have "p \<in> set xs" by (simp only: mem simp_thms)
    then show "length (take most xs) = most \<and> (\<forall>q \<in> set (take most xs). (lev q, q) < (lev p, p))"
      using out by (rule first_of_sorted [OF strict])
  qed
  show ?thesis unfolding s
    by (rule conjI [OF _ conjI [OF sub conjI [OF sorted_wrt_take [OF strict] rest]]]) simp
qed

lemma suggest_order_irrelevant: "mset r = mset r' \<Longrightarrow> suggest r name most = suggest r' name most"
  using sort_same_mset [OF candidates_mset [of r r' name]] by (simp add: suggest_def)

end
