(* ===== verification/Geo_Executor.thy ===== *)
theory Geo_Executor
  imports Load_Collection Process_Catalog Png_Pixel Masks
begin

text \<open>
  The executor of the service (\<open>geo_executor/mod.rs\<close>): the handlers behind the registered names, the evaluation
  loop over the analysed graph, and how the value of the result node becomes bytes. What the handlers leave
  behind (files, the download cache) is a world of any type that the loop threads through them.
\<close>

section \<open>Handlers\<close>

text \<open>\<open>None\<close> is a panic.\<close>

type_synonym 'w handler = "args \<Rightarrow> 'w \<Rightarrow> ((exec_error, json) result \<times> 'w) option"

text \<open>
  What the handlers reach through the executor. The raster processes (\<open>ge_raster\<close>) work through GDAL.
  \<open>ge_left\<close> is what a download or a crop leaves behind.
\<close>

record 'w geo_env =
  ge_fmt :: fmt
  ge_libm :: libm
  ge_min :: "f64 \<Rightarrow> f64 \<Rightarrow> f64"
  ge_max :: "f64 \<Rightarrow> f64 \<Rightarrow> f64"
  ge_loader :: "'w \<Rightarrow> loader"
  ge_crop :: "'w \<Rightarrow> crop"
  ge_nanos :: "'w \<Rightarrow> string \<Rightarrow> nat \<Rightarrow> nat"
  ge_scratch :: string
  ge_left :: "string \<Rightarrow> args \<Rightarrow> 'w \<Rightarrow> 'w"
  ge_raster :: "string \<Rightarrow> 'w handler"

definition scalar_table :: "libm \<Rightarrow> (string \<times> (args \<Rightarrow> outcome)) list" where
  "scalar_table m =
    [(''add'', binary_num_handler ''x'' ''y'' f64_add), (''subtract'', binary_num_handler ''x'' ''y'' f64_sub),
     (''multiply'', binary_num_handler ''x'' ''y'' f64_mul), (''divide'', divide_handler),
     (''absolute'', unary_num_handler ''x'' f64_abs), (''sqrt'', unary_num_handler ''x'' f64_sqrt),
     (''exp'', unary_num_handler ''p'' (m_exp m)), (''ln'', unary_num_handler ''x'' (m_ln m)), (''log'', log_handler m),
     (''power'', binary_num_handler ''base'' ''p'' (m_powf m)), (''sgn'', unary_num_handler ''x'' f64_signum),
     (''floor'', unary_num_handler ''x'' f64_floor), (''ceil'', unary_num_handler ''x'' f64_ceil),
     (''int'', unary_num_handler ''x'' f64_trunc), (''round'', round_handler m), (''mod'', binary_num_handler ''x'' ''y'' mod_fn),
     (''clip'', clip_handler), (''normalized_difference'', normalized_difference_handler),
     (''cos'', unary_num_handler ''x'' (m_cos m)), (''sin'', unary_num_handler ''x'' (m_sin m)), (''tan'', unary_num_handler ''x'' (m_tan m)),
     (''arccos'', unary_num_handler ''x'' (m_acos m)), (''arcsin'', unary_num_handler ''x'' (m_asin m)),
     (''arctan'', unary_num_handler ''x'' (m_atan m)), (''arctan2'', binary_num_handler ''y'' ''x'' (m_atan2 m)),
     (''eq'', eq_handler), (''neq'', neq_handler), (''gt'', cmp_handler (\<lambda>x y. f64_lt y x)), (''gte'', cmp_handler (\<lambda>x y. f64_le y x)),
     (''lt'', cmp_handler f64_lt), (''lte'', cmp_handler f64_le), (''between'', between_handler),
     (''and'', and_handler), (''or'', or_handler), (''xor'', xor_handler), (''not'', not_handler)]"

definition array_table :: "(string \<times> (args \<Rightarrow> outcome)) list" where
  "array_table = map (\<lambda>(n, f). (n, \<lambda>args. Some (f args)))
    [(''array_element'', array_element), (''array_create'', array_create), (''array_concat'', array_concat),
     (''array_append'', array_append), (''array_contains'', array_contains), (''array_find'', array_find),
     (''count'', array_count), (''order'', array_order), (''sort'', array_sort)]"

definition cube_table :: "fmt \<Rightarrow> (string \<times> (args \<Rightarrow> outcome)) list" where
  "cube_table fm =
    (''save_result'', save_result_handler) # map (\<lambda>(n, f). (n, \<lambda>args. Some (f fm args)))
    [(''filter_temporal'', eval_filter_temporal), (''filter_bands'', eval_filter_bands), (''rename_labels'', eval_rename_labels),
     (''add_dimension'', eval_add_dimension), (''drop_dimension'', eval_drop_dimension)]"

definition apply_handler :: "'w handler \<Rightarrow> 'w handler" where
  "apply_handler eval_apply args w =
     (if bt_get args ''process'' \<noteq> None then eval_apply args w
      else Some (Ok (case bt_get args ''data'' of Some d \<Rightarrow> d | None \<Rightarrow> JNull), w))"

definition geo_handler :: "'w geo_env \<Rightarrow> string \<Rightarrow> 'w handler" where
  "geo_handler e name args w =
     (case map_of (scalar_table (ge_libm e) @ array_table @ cube_table (ge_fmt e)) name of
        Some h \<Rightarrow> map_option (\<lambda>r. (r, w)) (h args)
      | None \<Rightarrow>
          if name = ''load_collection'' then Some (eval_load_collection (ge_fmt e) (ge_loader e w) args, ge_left e name args w)
          else if name = ''filter_bbox'' then
            Some (eval_filter_bbox (ge_fmt e) (ge_crop e w) (ge_nanos e w) (ge_scratch e) args, ge_left e name args w)
          else if name = ''filter_spatial'' then
            Some (eval_filter_spatial (ge_fmt e) (ge_min e) (ge_max e) (ge_crop e w) (ge_nanos e w) (ge_scratch e) args, ge_left e name args w)
          else if name = ''apply'' then apply_handler (ge_raster e name) args w
          else ge_raster e name args w)"

definition geo_registry :: "'w geo_env \<Rightarrow> 'w handler proc_registry" where
  "geo_registry e = register_defaults (geo_handler e) proc_registry_new"

section \<open>Evaluation\<close>

definition unknown_process :: "'h proc_registry \<Rightarrow> string \<Rightarrow> exec_error" where
  "unknown_process reg name =
     (let hints = suggest reg name 3
      in UnknownProcess (if hints = [] then name else name @ '' (did you mean: '' @ join_text '', '' hints @ '')''))"

fun geo_loop :: "'w handler proc_registry \<Rightarrow> process_graph \<Rightarrow> string list \<Rightarrow> memo \<Rightarrow> 'w \<Rightarrow>
    ((exec_error, memo) result \<times> 'w) option" where
  "geo_loop reg g [] memo w = Some (Ok memo, w)"
| "geo_loop reg g (i # rest) memo w =
     (case bt_get (pg_nodes g) i of
        None \<Rightarrow> Some (Err (InvalidGraph (''unknown node `'' @ i @ ''`'')), w)
      | Some node \<Rightarrow> (case resolve_args (arguments node) memo [] of
          Inl e \<Rightarrow> Some (Err e, w)
        | Inr args \<Rightarrow> (case handler_get reg (process_id node) of
            None \<Rightarrow> Some (Err (unknown_process reg (process_id node)), w)
          | Some h \<Rightarrow> (case h args w of
              None \<Rightarrow> None
            | Some (Inl e, w') \<Rightarrow> Some (Err e, w')
            | Some (Inr out, w') \<Rightarrow> geo_loop reg g rest (memo(i \<mapsto> out)) w'))))"

definition geo_result :: "process_graph \<Rightarrow> string \<Rightarrow> memo \<Rightarrow> (exec_error, string \<times> json) result" where
  "geo_result g r memo =
     and_then (ok_or (InvalidGraph ''result node was not visited during topo walk'') (memo r)) (\<lambda>v.
       Ok (case bt_get (pg_nodes g) r of Some p \<Rightarrow> process_id p | None \<Rightarrow> [], v))"

definition geo_evaluate :: "(digraph \<Rightarrow> bool) \<Rightarrow> (digraph \<Rightarrow> nat list option) \<Rightarrow> 'w handler proc_registry \<Rightarrow>
    process_graph \<Rightarrow> 'w \<Rightarrow> ((exec_error, string \<times> json) result \<times> 'w) option" where
  "geo_evaluate is_cyclic toposort reg g w =
     (case build is_cyclic g of
        Inl e \<Rightarrow> Some (Err (InvalidGraph (graph_error_display e)), w)
      | Inr a \<Rightarrow> Option.bind (evaluation_order toposort a) (\<lambda>order.
          map_option (\<lambda>(r, w'). (and_then r (geo_result g (result_id a)), w')) (geo_loop reg g order Map.empty w)))"

section \<open>Output\<close>

datatype save_format = GTiff | Cog | Json_Format | Png | NetCdf

definition to_ascii_uppercase :: "string \<Rightarrow> string" where
  "to_ascii_uppercase = map (\<lambda>c. let n = of_char c :: nat in if 97 \<le> n \<and> n \<le> 122 then char_of (n - 32) else c)"

definition format_parse :: "string \<Rightarrow> save_format" where
  "format_parse s =
     (let u = to_ascii_uppercase s
      in if u \<in> {''GTIFF'', ''TIFF'', ''GEOTIFF''} then GTiff
         else if u \<in> {''COG'', ''CLOUD_OPTIMIZED_GEOTIFF''} then Cog
         else if u = ''JSON'' then Json_Format
         else if u = ''PNG'' then Png
         else if u \<in> {''NETCDF'', ''NC''} then NetCdf
         else GTiff)"

definition format_media_type :: "save_format \<Rightarrow> string" where
  "format_media_type f = (case f of Json_Format \<Rightarrow> ''application/json'' | Png \<Rightarrow> ''image/png'' | _ \<Rightarrow> ''image/tiff'')"

definition F32_INDEX_BANDS :: "string list" where
  "F32_INDEX_BANDS = [''ndvi'', ''ndmi'', ''ndwi'', ''evi'', ''savi'', ''msavi'']"

definition pick_band :: "(string \<times> json) list \<Rightarrow> string option" where
  "pick_band bands =
     (case find (\<lambda>k. map_of bands k \<noteq> None) F32_INDEX_BANDS of
        Some k \<Rightarrow> Some k
      | None \<Rightarrow> find (\<lambda>k. k \<noteq> ''SCL'') (map fst bands))"

definition first_path :: "(string \<times> json) list \<Rightarrow> string option" where
  "first_path bands = Option.bind (pick_band bands) (\<lambda>k. Option.bind (Option.bind (map_of bands k) as_array)
     (\<lambda>paths. Option.bind (nth_opt paths 0) as_str))"

definition extract_save_path :: "json \<Rightarrow> string option" where
  "extract_save_path v =
     (case json_get v ''__raster'' of
        Some raster \<Rightarrow> Option.bind (json_get raster ''path'') as_str
      | None \<Rightarrow> (case json_get v ''__cube'' of
          Some cube \<Rightarrow> Option.bind (Option.bind (json_get cube ''bands'') as_object) first_path
        | None \<Rightarrow> None))"

definition extract_raster_path :: "fmt \<Rightarrow> json option \<Rightarrow> string \<Rightarrow> (exec_error, string) result" where
  "extract_raster_path fm v0 name =
     and_then (ok_or (InvalidGraph (''missing `'' @ name @ ''`'')) v0) (\<lambda>v.
     case json_get v ''__raster'' of
       Some raster \<Rightarrow>
         let path = (case json_get raster ''path'' of Some p \<Rightarrow> p | None \<Rightarrow> JNull)
         in ok_or (InvalidGraph (name @ '': bad __raster.path: '' @ f_decode fm path)) (as_str path)
     | None \<Rightarrow> (case Option.bind (Option.bind (json_get v ''__cube'') (\<lambda>c. json_get c ''bands'')) as_object of
         Some bands \<Rightarrow> ok_or (InvalidGraph (name @ '': __cube has no usable band path'')) (first_path bands)
       | None \<Rightarrow> ok_or (InvalidGraph (name @ '' must be a __raster handle, __cube envelope, or a string path'')) (as_str v)))"

text \<open>File reading, the GDAL and TIFF encoders and the JSON printer.\<close>

record 'w output_env =
  oe_read :: "'w \<Rightarrow> string \<Rightarrow> (string, string) result"
  oe_png :: "'w \<Rightarrow> string \<Rightarrow> (exec_error, string) result"
  oe_tiff :: "f64 \<Rightarrow> (exec_error, string) result"
  oe_to_vec :: "json \<Rightarrow> string option"

definition bytes_text :: "bytes \<Rightarrow> string" where "bytes_text = map (\<lambda>b. char_of (unat b))"

definition saved_value :: "json \<Rightarrow> json \<times> save_format" where
  "saved_value v =
     (case json_get v ''__save_result'' of
        Some env \<Rightarrow>
          (case json_get env ''data'' of Some d \<Rightarrow> d | None \<Rightarrow> JNull,
           format_parse (case Option.bind (json_get env ''format'') as_str of Some f \<Rightarrow> f | None \<Rightarrow> ''GTiff''))
      | None \<Rightarrow> (v, if json_get v ''__raster'' \<noteq> None then GTiff else if is_number v then GTiff else Json_Format))"

definition pixel_of :: "json \<Rightarrow> f64" where
  "pixel_of v = (case as_f64 v of Some x \<Rightarrow> x | None \<Rightarrow> f64_of_nat 0)"

definition finalise_save_result :: "'w output_env \<Rightarrow> json \<Rightarrow> 'w \<Rightarrow> (exec_error, sync_result) result" where
  "finalise_save_result o_env v w =
     (let (data, format) = saved_value v
      in case format of
        Json_Format \<Rightarrow> Ok (sync_result_json (oe_to_vec o_env) data)
      | Png \<Rightarrow> (case extract_save_path data of
            Some path \<Rightarrow> and_then (oe_png o_env w path) (\<lambda>b. Ok \<lparr>content_type = ''image/png'', result_body = b\<rparr>)
          | None \<Rightarrow> Ok \<lparr>content_type = ''image/png'', result_body = bytes_text (write_png_1x1 (pixel_of data))\<rparr>)
      | _ \<Rightarrow> (case extract_save_path data of
            Some path \<Rightarrow> and_then (map_err (\<lambda>e. Backend (''save_result: read '' @ path @ '': '' @ e)) (oe_read o_env w path))
              (\<lambda>b. Ok \<lparr>content_type = format_media_type format, result_body = b\<rparr>)
          | None \<Rightarrow> and_then (oe_tiff o_env (pixel_of data)) (\<lambda>b. Ok \<lparr>content_type = format_media_type format, result_body = b\<rparr>)))"

definition geo_run_sync ::
  "(serde_error \<Rightarrow> string) \<Rightarrow> (digraph \<Rightarrow> bool) \<Rightarrow> (digraph \<Rightarrow> nat list option) \<Rightarrow> 'w geo_env \<Rightarrow> 'w output_env \<Rightarrow>
   json \<Rightarrow> 'w \<Rightarrow> ((exec_error, sync_result) result \<times> 'w) option" where
  "geo_run_sync serde_show is_cyclic toposort e o_env body w =
     (case parse_graph serde_show body of
        Inl err \<Rightarrow> Some (Err err, w)
      | Inr g \<Rightarrow> map_option (\<lambda>(r, w'). (and_then r (\<lambda>(proc, v).
            if proc = ''save_result'' then finalise_save_result o_env v w' else Ok (sync_result_json (oe_to_vec o_env) v)), w'))
          (geo_evaluate is_cyclic toposort (geo_registry e) g w))"

definition geo_enqueue :: "(json \<Rightarrow> 64 word) \<Rightarrow> (serde_error \<Rightarrow> string) \<Rightarrow> json \<Rightarrow> (exec_error, string) result" where
  "geo_enqueue deterministic_hash serde_show body =
     and_then (parse_graph serde_show body) (\<lambda>_. Ok (job_id_of_hash (deterministic_hash body)))"

section \<open>Clear sky and scratch\<close>

definition scl_is_clear_sky :: "8 word \<Rightarrow> bool" where
  "scl_is_clear_sky scl \<longleftrightarrow> scl_to_mask_value (scl_from_u8 scl) \<in> {Clear, Water, Snow}"

definition landsat_qa_is_clear_sky :: "16 word \<Rightarrow> bool" where
  "landsat_qa_is_clear_sky qa \<longleftrightarrow> qa_to_mask_value (from_u16 qa) = Clear"

section \<open>Runs of the loop\<close>

text \<open>
  A run along an order: every node's handler, applied to the arguments resolved under the final values, gives
  the node's value, and passes the world on to the next node.
\<close>

fun geo_trace :: "'w handler proc_registry \<Rightarrow> process_graph \<Rightarrow> (string \<Rightarrow> json) \<Rightarrow> string list \<Rightarrow> 'w \<Rightarrow> 'w \<Rightarrow> bool" where
  "geo_trace reg g val [] w w' \<longleftrightarrow> w = w'"
| "geo_trace reg g val (i # rest) w w' \<longleftrightarrow>
     (\<exists>node args h w1. bt_get (pg_nodes g) i = Some node \<and> resolve_args (arguments node) (\<lambda>j. Some (val j)) [] = Ok args \<and>
       handler_get reg (process_id node) = Some h \<and> h args w = Some (Ok (val i), w1) \<and> geo_trace reg g val rest w1 w')"

lemma geo_loop_complete:
  assumes "geo_trace reg g val order w w'" and "ready g (dom m) order" and "\<forall>j \<in> dom m. m j = Some (val j)"
  shows "\<exists>m'. geo_loop reg g order m w = Some (Ok m', w') \<and> dom m' = dom m \<union> set order \<and> (\<forall>j \<in> dom m'. m' j = Some (val j))"
  using assms
proof (induction order arbitrary: m w)
  case (Cons i rest)
  obtain node args h w1 where n: "bt_get (pg_nodes g) i = Some node" "resolve_args (arguments node) (\<lambda>j. Some (val j)) [] = Ok args"
    "handler_get reg (process_id node) = Some h" "h args w = Some (Ok (val i), w1)" "geo_trace reg g val rest w1 w'"
    using Cons.prems(1) by auto
  have "set (node_refs node) \<subseteq> dom m" using Cons.prems(2) n(1) by auto
  then have "resolve_args (arguments node) m [] = resolve_args (arguments node) (\<lambda>j. Some (val j)) []"
    using Cons.prems(3) by (intro resolve_args_cong) (auto simp: node_refs_def)
  then have args: "resolve_args (arguments node) m [] = Ok args" using n(2) by simp
  define M where "M = m(i \<mapsto> val i)"
  have M: "dom M = insert i (dom m)" "\<forall>j \<in> dom M. M j = Some (val j)" using Cons.prems(3) by (auto simp: M_def)
  have "ready g (dom M) rest" using Cons.prems(2) M(1) by simp
  from Cons.IH [OF n(5) this M(2)] show ?case using n(1,3,4) args by (auto simp: M(1) M_def [symmetric])
qed auto

lemma geo_loop_sound:
  assumes "geo_loop reg g order m w = Some (Ok m', w')" and "ready g (dom m) order" and "distinct order" and "set order \<inter> dom m = {}"
  shows "dom m' = dom m \<union> set order \<and> (\<forall>j \<in> dom m. m' j = m j) \<and> geo_trace reg g (\<lambda>j. the (m' j)) order w w'"
  using assms
proof (induction order arbitrary: m w)
  case (Cons i rest)
  obtain node where n: "bt_get (pg_nodes g) i = Some node" "set (node_refs node) \<subseteq> dom m" using Cons.prems(2) by auto
  obtain args h out w1 where r: "resolve_args (arguments node) m [] = Ok args" "handler_get reg (process_id node) = Some h"
    "h args w = Some (Ok out, w1)" "geo_loop reg g rest (m(i \<mapsto> out)) w1 = Some (Ok m', w')"
    using Cons.prems(1) n(1) by (auto split: sum.splits option.splits prod.splits)
  define M where "M = m(i \<mapsto> out)"
  have M: "dom M = insert i (dom m)" "M i = Some out" "\<forall>j \<in> dom m. M j = m j" using Cons.prems(4) by (auto simp: M_def)
  have "ready g (dom M) rest" "distinct rest" "set rest \<inter> dom M = {}" using Cons.prems M by auto
  note IH = Cons.IH [OF r(4) [folded M_def] this]
  have keep: "m' j = m j" if "j \<in> dom m" for j using that IH M by auto
  have "resolve_args (arguments node) (\<lambda>j. Some (the (m' j))) [] = resolve_args (arguments node) m []"
    using n(2) keep by (intro resolve_args_cong) (force simp: node_refs_def)
  moreover have "the (m' i) = out" using IH M by simp
  ultimately show ?case using n(1) r(1-3) IH M keep by auto
qed auto

lemma geo_loop_error:
  assumes "geo_loop reg g order m w = Some (Err e, w')" and "ready g (dom m) order"
    and "\<forall>(i, node) \<in> set (pg_nodes g). handler_get reg (process_id node) \<noteq> None"
  shows "\<exists>(i, node) \<in> set (pg_nodes g). \<exists>h args w1 w2. handler_get reg (process_id node) = Some h \<and> h args w1 = Some (Err e, w2)"
  using assms(1,2)
proof (induction order arbitrary: m w)
  case (Cons i rest)
  obtain node where n: "bt_get (pg_nodes g) i = Some node" "set (node_refs node) \<subseteq> dom m" using Cons.prems(2) by auto
  then have "(i, node) \<in> set (pg_nodes g)" by (auto simp: bt_get_def dest: map_of_SomeD)
  moreover obtain h where h: "handler_get reg (process_id node) = Some h" using assms(3) calculation by auto
  obtain args where args: "resolve_args (arguments node) m [] = Ok args"
    using n(2) resolve_args_ok [of "arguments node" m "[]"] by (auto simp: node_refs_def)
  show ?case
  proof (cases "\<exists>out w1. h args w = Some (Ok out, w1)")
    case True
    then obtain out w1 where o: "h args w = Some (Ok out, w1)" by blast
    have "geo_loop reg g rest (m(i \<mapsto> out)) w1 = Some (Err e, w')" using Cons.prems(1) n(1) args h o by simp
    moreover have "ready g (dom (m(i \<mapsto> out))) rest" using Cons.prems(2) by simp
    ultimately show ?thesis by (rule Cons.IH)
  next
    case False
    then have "\<exists>w2. h args w = Some (Err e, w2)"
      using Cons.prems(1) n(1) args h by (auto split: option.splits prod.splits sum.splits)
    then show ?thesis using calculation h by blast
  qed
qed simp

lemma geo_built:
  assumes "graph_algos ic ts" and "bt_wf (pg_nodes g)" and "build ic g = Ok a"
  obtains order where "evaluation_order ts a = Some order" "ready g (dom (Map.empty :: memo)) order" "distinct order"
    "set order = set (pg_ids g)" "\<forall>(src, dst) \<in> deps g. precedes order src dst" "result_id a = hd (result_nodes g)" "result_id a \<in> set order"
proof -
  obtain order where o: "evaluation_order ts a = Some order" "distinct order"
    "set order = set (pg_ids g)" "\<forall>(src, dst) \<in> deps g. precedes order src dst"
    using graph_algos.evaluation_order_topo [OF assms] by blast
  have "ready g (set []) order" using o by (intro precedes_ready [OF assms(2)]) auto
  moreover have "result_id a = hd (result_nodes g)" "length (result_nodes g) = 1"
    using assms(3) by (auto simp: build_Inr_iff [OF assms(2)])
  moreover have "result_id a \<in> set order" using calculation result_nodes_hd_in o(3) by simp
  ultimately show thesis using that o by simp
qed

text \<open>
  C6. The executor answers the value \<open>v\<close> of a process \<open>p\<close> and leaves the world \<open>w'\<close> exactly when the graph is
  accepted and there are values for all nodes such that, going through the nodes in a dependency order,
  each node's handler on its resolved arguments gives the node's value and hands its world to the next;
  \<open>v\<close> and \<open>p\<close> are those of the result node.
\<close>

theorem geo_evaluate_denotes:
  assumes "graph_algos ic ts" and "bt_wf (pg_nodes g)"
  shows "geo_evaluate ic ts reg g w = Some (Ok (p, v), w') \<longleftrightarrow>
    (\<exists>a order val node. build ic g = Ok a \<and> evaluation_order ts a = Some order \<and> distinct order \<and> set order = set (pg_ids g) \<and>
      (\<forall>(src, dst) \<in> deps g. precedes order src dst) \<and> geo_trace reg g val order w w' \<and>
      bt_get (pg_nodes g) (hd (result_nodes g)) = Some node \<and> p = process_id node \<and> v = val (hd (result_nodes g)))"
proof (cases "build ic g")
  case (Inl e)
  then show ?thesis by (simp add: geo_evaluate_def)
next
  case (Inr a)
  obtain order where o: "evaluation_order ts a = Some order" "ready g (dom (Map.empty :: memo)) order" "distinct order"
    "set order = set (pg_ids g)" "\<forall>(src, dst) \<in> deps g. precedes order src dst" "result_id a = hd (result_nodes g)" "result_id a \<in> set order"
    using geo_built [OF assms Inr] by metis
  have "\<exists>node. bt_get (pg_nodes g) (result_id a) = Some node"
    using o(4,7) by (auto simp: bt_get_def pg_ids_def) (meson map_of_eq_None_iff not_None_eq weak_map_of_SomeI)
  then obtain node where node: "bt_get (pg_nodes g) (hd (result_nodes g)) = Some node" using o(6) by auto
  have ev: "geo_evaluate ic ts reg g w = map_option (\<lambda>(r, w'). (and_then r (geo_result g (result_id a)), w')) (geo_loop reg g order Map.empty w)"
    by (simp add: geo_evaluate_def Inr o(1))
  show ?thesis (is "?L \<longleftrightarrow> ?R")
  proof
    assume ?L
    then obtain m where m: "geo_loop reg g order Map.empty w = Some (Ok m, w')" "geo_result g (result_id a) m = Ok (p, v)"
      unfolding ev by (auto simp: and_then_Inr_iff)
    have "geo_trace reg g (\<lambda>j. the (m j)) order w w'" using geo_loop_sound [OF m(1) o(2,3)] by simp
    moreover have "p = process_id node" "v = the (m (hd (result_nodes g)))"
      using m(2) node o(6) by (auto simp: geo_result_def and_then_Inr_iff)
    ultimately show ?R using Inr o(1,3,4,5) node by blast
  next
    assume ?R
    then obtain val where val: "geo_trace reg g val order w w'" "p = process_id node" "v = val (hd (result_nodes g))"
      using Inr o(1) node by auto
    obtain m where "geo_loop reg g order Map.empty w = Some (Ok m, w')" "dom m = set order" "\<forall>j \<in> dom m. m j = Some (val j)"
      using geo_loop_complete [OF val(1) o(2)] by auto
    then show ?L unfolding ev using o(6,7) val(2,3) node by (auto simp: geo_result_def)
  qed
qed

lemma geo_registry_get: "handler_get (geo_registry e) name = (if is_known_process name then Some (geo_handler e name) else None)"
  unfolding geo_registry_def by (rule defaults_registered)

lemma geo_trace_still:
  "(\<And>i. i \<in> set order \<Longrightarrow> \<exists>node args h. bt_get (pg_nodes g) i = Some node \<and> resolve_args (arguments node) (\<lambda>j. Some (val j)) [] = Ok args \<and>
     handler_get reg (process_id node) = Some h \<and> h args w = Some (Ok (val i), w)) \<Longrightarrow> geo_trace reg g val order w w"
proof (induction order)
  case (Cons i rest)
  then have "geo_trace reg g val rest w w" by simp
  then show ?case using Cons.prems [of i] by fastforce
qed simp

definition plain_libm :: libm where
  "plain_libm = \<lparr>m_exp = id, m_ln = id, m_log = (\<lambda>x _. x), m_powf = (\<lambda>x _. x), m_powi = (\<lambda>x _. x), m_cos = id, m_sin = id, m_tan = id,
     m_acos = id, m_asin = id, m_atan = id, m_atan2 = (\<lambda>x _. x)\<rparr>"

definition sample_geo :: "nat geo_env" where
  "sample_geo = \<lparr>ge_fmt = sample_fmt, ge_libm = plain_libm, ge_min = f64_min, ge_max = f64_max, ge_loader = (\<lambda>_. sample_loader),
     ge_crop = (\<lambda>_ _ _ _ _. Err (CropError [])), ge_nanos = (\<lambda>_ _ _. 0), ge_scratch = ''/scratch'', ge_left = (\<lambda>_ _. Suc),
     ge_raster = (\<lambda>_ _ _. None)\<rparr>"

lemma sample_geo_nodes:
  "handler_get (geo_registry sample_geo) ''add'' = Some (geo_handler sample_geo ''add'')"
  "handler_get (geo_registry sample_geo) ''save_result'' = Some (geo_handler sample_geo ''save_result'')"
  "geo_handler sample_geo ''add'' [(''x'', JNumber (PosInt 1)), (''y'', JNumber (PosInt 2))] w = Some (Ok sample_value, w)"
  "geo_handler sample_geo ''save_result'' [(''data'', v)] w = Some (Ok v, w)"
proof -
  have "is_known_process ''add''" "is_known_process ''save_result''" by code_simp+
  then show "handler_get (geo_registry sample_geo) ''add'' = Some (geo_handler sample_geo ''add'')"
    "handler_get (geo_registry sample_geo) ''save_result'' = Some (geo_handler sample_geo ''save_result'')"
    by (simp_all add: geo_registry_get)
  show "geo_handler sample_geo ''add'' [(''x'', JNumber (PosInt 1)), (''y'', JNumber (PosInt 2))] w = Some (Ok sample_value, w)"
    by (simp add: geo_handler_def scalar_table_def binary_num_handler_def arg_number_def bt_get_def sample_value_def)
  show "geo_handler sample_geo ''save_result'' [(''data'', v)] w = Some (Ok v, w)"
    by (simp add: geo_handler_def scalar_table_def array_table_def cube_table_def save_result_handler_def bt_get_def)
qed

theorem geo_evaluate_denotes_witness:
  "geo_evaluate ref_is_cyclic ref_toposort (geo_registry sample_geo) sample_graph 7 = Some (Ok (''save_result'', sample_value), 7)"
proof -
  obtain a where a: "build ref_is_cyclic sample_graph = Ok a" using sample_graph_builds by blast
  obtain order where o: "evaluation_order ref_toposort a = Some order" "distinct order" "set order = set (pg_ids sample_graph)"
    "\<forall>(src, dst) \<in> deps sample_graph. precedes order src dst"
    using geo_built [OF ref.graph_algos_axioms sample_graph_wf a] by metis
  have "geo_trace (geo_registry sample_geo) sample_graph (\<lambda>_. sample_value) order 7 7"
    by (rule geo_trace_still) (use o(3) sample_geo_nodes in \<open>auto simp: sample_graph_def pg_ids_def bt_get_def resolve_value_def\<close>)
  moreover have "hd (result_nodes sample_graph) = ''b''" by (simp add: sample_graph_def result_nodes_def)
  moreover have "\<exists>node. bt_get (pg_nodes sample_graph) ''b'' = Some node \<and> process_id node = ''save_result''"
    by (simp add: sample_graph_def bt_get_def)
  ultimately show ?thesis
    using geo_evaluate_denotes [OF ref.graph_algos_axioms sample_graph_wf, of "geo_registry sample_geo" 7 "''save_result''" sample_value 7] a o
    by metis
qed

section \<open>Known processes\<close>

text \<open>
  A graph that submit-time validation passes, written with objects for its nodes and no node called
  \<open>process_graph\<close>, uses registered processes only.
\<close>

lemma validated_known:
  assumes "submitted_graph body = Some (JObject entries)" and "map_of entries ''process_graph'' = None"
    and "\<forall>(i, v) \<in> set entries. \<exists>flds. v = JObject flds" and "unsupported_process_ids body process_ids = []"
    and "decode_nodes (JObject entries) = Ok nodes" and "(i, node) \<in> set nodes"
  shows "is_known_process (process_id node)"
proof -
  have "process_id node \<in> set process_ids"
    by (rule walked_nodes [OF assms(2,5,3,6)]) (use assms(4) unsupported_empty_iff [OF assms(1)] in blast)
  then show ?thesis by (auto simp: process_ids_def is_known_process_def list_ex_iff)
qed

lemma geo_evaluate_error:
  assumes "graph_algos ic ts" and "bt_wf (pg_nodes g)" and "build ic g = Ok a"
    and "\<forall>(i, node) \<in> set (pg_nodes g). is_known_process (process_id node)"
    and "geo_evaluate ic ts (geo_registry e) g w = Some (Err err, w')"
  shows "\<exists>(i, node) \<in> set (pg_nodes g). \<exists>args w1 w2. geo_handler e (process_id node) args w1 = Some (Err err, w2)"
proof -
  obtain order where o: "evaluation_order ts a = Some order" "ready g (dom (Map.empty :: memo)) order" "distinct order" "result_id a \<in> set order"
    using geo_built [OF assms(1-3)] by metis
  obtain r where r: "geo_loop (geo_registry e) g order Map.empty w = Some (r, w')" "and_then r (geo_result g (result_id a)) = Err err"
    using assms(5) by (auto simp: geo_evaluate_def assms(3) o(1))
  show ?thesis
  proof (cases r)
    case (Inl e')
    then have "geo_loop (geo_registry e) g order Map.empty w = Some (Err err, w')" using r by simp
    moreover have "\<forall>(i, node) \<in> set (pg_nodes g). handler_get (geo_registry e) (process_id node) \<noteq> None"
      using assms(4) by (auto simp: geo_registry_get)
    ultimately have "\<exists>(i, node) \<in> set (pg_nodes g). \<exists>h args w1 w2. handler_get (geo_registry e) (process_id node) = Some h \<and> h args w1 = Some (Err err, w2)"
      by (rule geo_loop_error [OF _ o(2)])
    then obtain x where x: "x \<in> set (pg_nodes g)"
      "\<exists>h args w1 w2. handler_get (geo_registry e) (process_id (snd x)) = Some h \<and> h args w1 = Some (Err err, w2)"
      unfolding split_beta by (rule bexE)
    from x(2) obtain h args w1 w2 where h: "handler_get (geo_registry e) (process_id (snd x)) = Some h" "h args w1 = Some (Err err, w2)"
      by (elim exE conjE)
    have "h = geo_handler e (process_id (snd x))" using h(1) by (simp add: geo_registry_get split: if_splits)
    then have "\<exists>args w1 w2. geo_handler e (process_id (snd x)) args w1 = Some (Err err, w2)" using h(2) by (intro exI) simp
    then show ?thesis unfolding split_beta using x(1) by (rule bexI)
  next
    case (Inr m)
    then have "dom m = set order" using geo_loop_sound [OF r(1) [unfolded Inr] o(2,3)] by simp
    then have "result_id a \<in> dom m" using o(4) by simp
    then show ?thesis using r(2) Inr by (auto simp: geo_result_def)
  qed
qed

end
