(* ===== verification/User_Routes.thy ===== *)
theory User_Routes
  imports Jobs_Routes Process_Catalog
begin

text \<open>
  The smaller routes: stored process graphs (\<open>udp_store.rs\<close>, \<open>routes/process_graphs.rs\<close>), user files
  (\<open>routes/files.rs\<close>), synchronous results (\<open>routes/result.rs\<close>) and validation (\<open>routes/validation.rs\<close>).
\<close>

section \<open>Stored process graphs\<close>

type_synonym udp_store = "(string, json) btree"

definition udp_new :: udp_store where "udp_new = []"

definition udp_put :: "string \<Rightarrow> json \<Rightarrow> udp_store \<Rightarrow> udp_store" where
  "udp_put i body u =
     bt_insert i (case body of JObject m \<Rightarrow> JObject (AList.update ''id'' (JString i) m) | _ \<Rightarrow> body) u"

definition udp_get :: "udp_store \<Rightarrow> string \<Rightarrow> json option" where "udp_get u i = bt_get u i"

definition udp_delete :: "string \<Rightarrow> udp_store \<Rightarrow> bool \<times> udp_store" where
  "udp_delete i u = (bt_get u i \<noteq> None, bt_remove i u)"

definition SUMMARY_KEYS :: "string list" where
  "SUMMARY_KEYS = [''summary'', ''description'', ''categories'', ''parameters'', ''returns'']"

definition udp_summary :: "string \<Rightarrow> json \<Rightarrow> json" where
  "udp_summary i body =
     JObject (case body of
        JObject b \<Rightarrow> fold (\<lambda>k s. case map_of b k of Some v \<Rightarrow> AList.update k v s | None \<Rightarrow> s) SUMMARY_KEYS [(''id'', JString i)]
      | _ \<Rightarrow> [(''id'', JString i)])"

definition list_summaries :: "udp_store \<Rightarrow> json list" where
  "list_summaries u = map (\<lambda>(i, body). udp_summary i body) u"

definition list_udps :: "udp_store \<Rightarrow> response" where
  "list_udps u = json_response 200 (JObject [(''process_graphs'', JArray (list_summaries u)), (''links'', JArray [])])"

definition udp_missing :: "string \<Rightarrow> response" where
  "udp_missing i = error_response 404 ''ProcessGraphNotFound'' (''process graph '' @ [CHR 0x27] @ i @ [CHR 0x27] @ '' not found'')"

definition get_udp :: "udp_store \<Rightarrow> string \<Rightarrow> response" where
  "get_udp u i = (case udp_get u i of Some v \<Rightarrow> json_response 200 v | None \<Rightarrow> udp_missing i)"

definition store_udp :: "udp_store \<Rightarrow> string \<Rightarrow> json \<Rightarrow> response \<times> udp_store" where
  "store_udp u i body =
     (if Option.bind (json_get body ''process_graph'') as_object = None
      then (error_response 400 ''ProcessGraphInvalid'' ''body must contain a `process_graph` object'', u)
      else (status_only 200, udp_put i body u))"

definition remove_udp :: "udp_store \<Rightarrow> string \<Rightarrow> response \<times> udp_store" where
  "remove_udp u i = (case udp_delete i u of (True, u') \<Rightarrow> (status_only 204, u') | (False, u') \<Rightarrow> (udp_missing i, u'))"

section \<open>Files\<close>

definition list_files :: "'f file_store_ops \<Rightarrow> 'f \<Rightarrow> string \<Rightarrow> response" where
  "list_files fops f user =
     (let entries = (case fop_list fops f user of Inr es \<Rightarrow> es | Inl _ \<Rightarrow> [])
      in json_response 200 (JObject
        [(''files'', JArray (map (\<lambda>x. JObject [(''path'', JString (entry_path x)), (''size'', JNumber (PosInt (entry_size x)))]) entries)),
         (''links'', JArray [])]))"

definition download_file :: "'f file_store_ops \<Rightarrow> 'f \<Rightarrow> string \<Rightarrow> string \<Rightarrow> response" where
  "download_file fops f user path =
     (case fop_get fops f (FileKey user path) of
        Inr b \<Rightarrow> \<lparr>code = 200, headers = [(''content-type'', ''application/octet-stream'')], resp_body = RawBody b\<rparr>
      | Inl FileNotFound \<Rightarrow> error_response 404 ''FilePathNotFound'' ''file not found''
      | Inl (Forbidden p) \<Rightarrow> error_response 400 ''FilePathInvalid'' p
      | Inl (FileIo e) \<Rightarrow> error_response 500 ''Internal'' e)"

fun file_change_response :: "nat \<Rightarrow> (file_error, unit) result \<Rightarrow> response" where
  "file_change_response ok (Inr _) = status_only ok"
| "file_change_response ok (Inl (Forbidden p)) = error_response 400 ''FilePathInvalid'' p"
| "file_change_response ok (Inl e) = error_response 500 ''Internal'' (file_error_display e)"

definition upload_file :: "'f file_store_ops \<Rightarrow> 'f \<Rightarrow> string \<Rightarrow> string \<Rightarrow> string \<Rightarrow> response \<times> 'f" where
  "upload_file fops f user path body = (case fop_put fops f (FileKey user path) body of (r, f') \<Rightarrow> (file_change_response 200 r, f'))"

definition delete_file :: "'f file_store_ops \<Rightarrow> 'f \<Rightarrow> string \<Rightarrow> string \<Rightarrow> response \<times> 'f" where
  "delete_file fops f user path = (case fop_delete fops f (FileKey user path) of (r, f') \<Rightarrow> (file_change_response 204 r, f'))"

section \<open>Synchronous results and validation\<close>

definition sync_compute :: "(json \<Rightarrow> (exec_error, sync_result) result) \<Rightarrow> json \<Rightarrow> response" where
  "sync_compute run_sync body =
     (case run_sync body of
        Inr r \<Rightarrow> \<lparr>code = 200, headers = [(''content-type'', content_type r)], resp_body = RawBody (result_body r)\<rparr>
      | Inl (InvalidGraph m) \<Rightarrow> error_response 400 ''InvalidProcessGraph'' m
      | Inl (UnknownProcess n) \<Rightarrow> error_response 400 ''ProcessUnsupported'' n
      | Inl (Backend m) \<Rightarrow> error_response 500 ''Internal'' m
      | Inl (PerPixelComputation m) \<Rightarrow> error_response 500 ''Internal'' (''per_pixel: '' @ m))"

text \<open>\<open>split("; ")\<close>.\<close>

fun split_messages :: "string \<Rightarrow> string list" where
  "split_messages (a # b # s) =
     (if a = CHR '';'' \<and> b = CHR '' '' then [] # split_messages s
      else case split_messages (b # s) of x # xs \<Rightarrow> (a # x) # xs | [] \<Rightarrow> [[a]])"
| "split_messages s = [s]"

definition validation_error :: "string \<Rightarrow> string \<Rightarrow> json" where
  "validation_error cd m = JObject [(''code'', JString cd), (''message'', JString m)]"

definition schema_errors :: "schema_registry \<Rightarrow> json \<Rightarrow> json list" where
  "schema_errors schemas body =
     (case find (schema_has schemas) [''process_graph'', ''process''] of
        None \<Rightarrow> []
      | Some name \<Rightarrow> (case schema_validate schemas name body of
          Inr _ \<Rightarrow> []
        | Inl (SchemaInvalid _ e) \<Rightarrow> map (validation_error ''ValidationError'') (split_messages e)
        | Inl other \<Rightarrow> [validation_error ''ValidationError'' (schema_error_text other)]))"

definition validate_route :: "schema_registry \<Rightarrow> json \<Rightarrow> response" where
  "validate_route schemas body =
     json_response 200 (JObject [(''errors'', JArray (schema_errors schemas body @
       map (\<lambda>bad. validation_error ''ProcessUnsupported'' (''process `'' @ bad @ ''` is not supported by this backend''))
         (unsupported_process_ids body process_ids)))])"

section \<open>Behaviour of the routes\<close>

lemmas route_defs = store_udp_def get_udp_def remove_udp_def udp_put_def udp_get_def udp_delete_def udp_missing_def
  error_response_def json_response_def status_only_def

text \<open>
  A stored process graph is served back with its id set, removing it makes it unknown again, and neither
  touches the other entries.
\<close>

theorem stored_graph_served:
  assumes "json_get (JObject m) ''process_graph'' = Some (JObject g)"
  shows "\<exists>u1 u2. store_udp u i (JObject m) = (status_only 200, u1) \<and> remove_udp u1 i = (status_only 204, u2) \<and>
    get_udp u1 i = json_response 200 (JObject (AList.update ''id'' (JString i) m)) \<and> get_udp u2 i = udp_missing i \<and>
    remove_udp u2 i = (udp_missing i, u2) \<and>
    (\<forall>j. j \<noteq> i \<longrightarrow> get_udp u1 j = get_udp u j \<and> get_udp u2 j = get_udp u j)"
proof -
  have "bt_remove i (bt_remove i x) = bt_remove i x" for x :: udp_store by (simp add: bt_remove_def)
  then show ?thesis using assms by (simp add: route_defs bt_get_insert bt_get_remove)
qed

theorem stored_graph_served_witness:
  "code (get_udp (snd (store_udp udp_new ''evi'' (JObject [(''process_graph'', JObject [])]))) ''evi'') = 200"
proof -
  have "json_get (JObject [(''process_graph'', JObject [])]) ''process_graph'' = Some (JObject [])" by (simp add: json_get_def)
  from stored_graph_served [OF this, of udp_new "''evi''"] show ?thesis by (auto simp: json_response_def)
qed

lemma summary_keys:
  "udp_summary i body = JObject s \<Longrightarrow> set (map fst s) \<subseteq> insert ''id'' (set SUMMARY_KEYS)"
proof -
  have "set (map fst (fold (\<lambda>k s. case map_of b k of Some v \<Rightarrow> AList.update k v s | None \<Rightarrow> s) ks s0)) \<subseteq> set (map fst s0) \<union> set ks"
    for b ks and s0 :: "(string \<times> json) list"
  proof (induction ks arbitrary: s0)
    case (Cons k ks)
    show ?case using Cons [of "AList.update k _ s0"] Cons [of s0] by (cases "map_of b k") (auto simp: dom_update)
  qed simp
  from this [of _ SUMMARY_KEYS "[(''id'', JString i)]"]
  have keys: "set (map fst (fold (\<lambda>k s. case map_of b k of Some v \<Rightarrow> AList.update k v s | None \<Rightarrow> s) SUMMARY_KEYS [(''id'', JString i)])) \<subseteq>
      insert ''id'' (set SUMMARY_KEYS)" for b
    by (simp only: list.map list.set fst_conv Un_insert_left Un_empty_left)
  assume "udp_summary i body = JObject s"
  then show "set (map fst s) \<subseteq> insert ''id'' (set SUMMARY_KEYS)"
    using keys by (cases body) (simp_all only: udp_summary_def json.inject json.case, auto)
qed

text \<open>
  Over any file store that keeps its contract: an upload is accepted exactly for a valid path, the file then
  downloads with its bytes, deleting it makes the download answer 404, and a refused path changes nothing.
\<close>

theorem file_routes:
  assumes "file_store_contract fops" and "upload_file fops f user path body = (resp, f1)" and "delete_file fops f1 user path = (resp2, f2)"
  shows "if validate_path path = Inr () then
      code resp = 200 \<and> code resp2 = 204 \<and> resp_body (download_file fops f1 user path) = RawBody body \<and>
      code (download_file fops f2 user path) = 404 \<and>
      (\<forall>u p. (u, p) \<noteq> (user, path) \<longrightarrow> download_file fops f1 u p = download_file fops f u p \<and> download_file fops f2 u p = download_file fops f u p)
    else f1 = f \<and> f2 = f \<and> code resp \<in> {400, 500} \<and> code resp2 \<in> {400, 500}"
proof (cases "validate_path path")
  case (Inr x)
  then have ok: "validate_path (fk_path (FileKey user path)) = Inr ()" by simp
  have "fst (fop_put fops f (FileKey user path) body) = Inr ()" "fop_get fops f1 = (fop_get fops f)(FileKey user path := Inr body)"
    using file_store_contract.put_valid [OF assms(1) ok, of f body] assms(2) by (auto simp: upload_file_def split: prod.splits)
  moreover have "fst (fop_delete fops f1 (FileKey user path)) = Inr ()" "fop_get fops f2 = (fop_get fops f1)(FileKey user path := Inl FileNotFound)"
    using file_store_contract.delete_valid [OF assms(1) ok, of f1] assms(3) by (auto simp: delete_file_def split: prod.splits)
  ultimately show ?thesis using assms(2,3) Inr
    by (auto simp: upload_file_def delete_file_def download_file_def status_only_def error_response_def json_response_def split: prod.splits)
next
  case (Inl e)
  then have bad: "validate_path (fk_path (FileKey user path)) = Inl e" by simp
  have "code (file_change_response ok (Inl e)) \<in> {400, 500}" for ok
    by (cases e) (simp_all add: error_response_def json_response_def)
  then show ?thesis using assms(2,3) Inl file_store_contract.put_invalid [OF assms(1) bad] file_store_contract.delete_invalid [OF assms(1) bad]
    by (auto simp: upload_file_def delete_file_def)
qed

theorem file_routes_witness:
  "\<exists>resp f1. upload_file mem_file_ops [] ''u'' ''a.tif'' ''xyz'' = (resp, f1) \<and> code resp = 200 \<and>
     resp_body (download_file mem_file_ops f1 ''u'' ''a.tif'') = RawBody ''xyz''"
proof -
  obtain resp f1 where up: "upload_file mem_file_ops [] ''u'' ''a.tif'' ''xyz'' = (resp, f1)" by (cases "upload_file mem_file_ops [] ''u'' ''a.tif'' ''xyz''")
  obtain resp2 f2 where del: "delete_file mem_file_ops f1 ''u'' ''a.tif'' = (resp2, f2)" by (cases "delete_file mem_file_ops f1 ''u'' ''a.tif''")
  have "validate_path ''a.tif'' = Inr ()" by code_simp
  then show ?thesis using file_routes [OF fs_contract up del] up by simp
qed

text \<open>The schema messages come back one by one when none of them contains the separator.\<close>

lemma split_messages_nonempty: "split_messages s \<noteq> []"
  by (induction s rule: split_messages.induct) (auto split: list.split)

lemma split_messages_prefix:
  "\<not> (\<exists>a b. e = a @ ''; '' @ b) \<Longrightarrow> split_messages (e @ ''; '' @ rest) = e # split_messages rest"
proof (induction e)
  case (Cons c e)
  have "\<not> (\<exists>a b. e = a @ ''; '' @ b)" using Cons.prems by (metis append_Cons)
  note IH = Cons.IH [OF this]
  show ?case
  proof (cases e)
    case Nil
    then show ?thesis using IH by (auto split: list.split)
  next
    case (Cons d e')
    have "\<not> (c = CHR '';'' \<and> d = CHR '' '')" using Cons.prems Cons by (metis append_Cons append_Nil)
    then show ?thesis using IH Cons by auto
  qed
qed simp

lemma split_messages_single: "\<not> (\<exists>a b. e = a @ ''; '' @ b) \<Longrightarrow> split_messages e = [e]"
proof (induction e rule: split_messages.induct)
  case (1 a b s)
  have "\<not> (a = CHR '';'' \<and> b = CHR '' '')" using 1(3) by (metis append_Cons append_Nil)
  moreover have "\<not> (\<exists>x y. b # s = x @ ''; '' @ y)" using 1(3) by (metis append_Cons)
  ultimately show ?case using 1(2) by simp
qed auto

lemma split_join: "es \<noteq> [] \<Longrightarrow> (\<And>e. e \<in> set es \<Longrightarrow> \<not> (\<exists>a b. e = a @ ''; '' @ b)) \<Longrightarrow> split_messages (join_text ''; '' es) = es"
proof (induction es)
  case (Cons x es)
  show ?case
  proof (cases es)
    case Nil
    then show ?thesis using split_messages_single [of x] Cons.prems(2) by simp
  next
    case (Cons y ys)
    then show ?thesis using split_messages_prefix [of x "join_text ''; '' es"] Cons.IH Cons.prems(2) by simp
  qed
qed simp

lemma schema_errors_listed:
  assumes "find (schema_has schemas) [''process_graph'', ''process''] = Some name" and "map_of schemas name = Some check"
    and "\<And>e. e \<in> set (check body) \<Longrightarrow> \<not> (\<exists>a b. e = a @ ''; '' @ b)"
  shows "schema_errors schemas body = map (validation_error ''ValidationError'') (check body)"
  using split_join [of "check body"] assms by (cases "check body = []") (simp_all add: schema_errors_def schema_validate_def Let_def)

end
