(* ===== verification/Raster_Dataset.thy ===== *)
theory Raster_Dataset
  imports Block_Grid
begin

text \<open>
  The data set of \<open>crates/orbit-geo\<close>: sources (\<open>source.rs\<close>), regions (\<open>block.rs\<close>), layer mappings
  (\<open>dataset.rs\<close>) and the builder that inspects the first file and partitions the raster
  (\<open>builder.rs\<close>). GDAL is a record of operations (the record \<open>gdal\<close> for what it answers about a file); whether a path exists is a parameter. The two
  nested \<open>while\<close> loops of the partition are partial: they do not end when a side of the block is zero.
\<close>

section \<open>Errors and sources\<close>

datatype geo_error =
    SourceNotFound string
  | InconsistentMetadata string
  | WorkerFailed string
  | Io string
  | Gdal string
  | InvalidBuilder string
  | Other string

fun geo_error_display :: "geo_error \<Rightarrow> string" where
  "geo_error_display (SourceNotFound p) = ''source not found: '' @ p"
| "geo_error_display (InconsistentMetadata m) = ''inconsistent metadata: '' @ m"
| "geo_error_display (WorkerFailed m) = ''worker error: '' @ m"
| "geo_error_display (Io m) = ''io: '' @ m"
| "geo_error_display (Gdal m) = ''gdal: '' @ m"
| "geo_error_display (InvalidBuilder m) = ''invalid builder: '' @ m"
| "geo_error_display (Other m) = m"

datatype open_eo_auth = OidcBearer string | BasicAuth string string | NoAuth

record image_resolution =
  res_x :: f64
  res_y :: f64

datatype data_source =
    Files "string list"
  | Stac string "image_resolution option"
  | OpenEO string json open_eo_auth string

fun source_validate :: "(string \<Rightarrow> bool) \<Rightarrow> data_source \<Rightarrow> (geo_error, unit) result" where
  "source_validate path_exists (Files paths) =
     (case find (\<lambda>p. take 4 p \<noteq> ''/vsi'' \<and> \<not> path_exists p) paths of
        Some p \<Rightarrow> Err (SourceNotFound p)
      | None \<Rightarrow> Ok ())"
| "source_validate path_exists (Stac _ _) = Ok ()"
| "source_validate path_exists (OpenEO url _ _ _) =
     (if url = [] then Err (InvalidBuilder ''openEO backend_url is empty'') else Ok ())"

fun local_paths :: "data_source \<Rightarrow> string list" where
  "local_paths (Files paths) = paths"
| "local_paths (Stac _ _) = []"
| "local_paths (OpenEO _ _ _ _) = []"

section \<open>Regions\<close>

record raster_region =
  rr_index :: nat
  rr_window :: read_window
  rr_overlap :: overlap
  rr_transform :: geo_transform
  rr_epsg :: nat

text \<open>Differences of \<open>isize\<close> values that are in range.\<close>

definition inner_size :: "raster_region \<Rightarrow> rc_size" where
  "inner_size g =
     (let ov = rr_overlap g; size = win_size (rr_window g) in
      \<lparr>size_rows = size_rows size - to_isize (wrap64 (ov_top ov + ov_bottom ov)),
       size_cols = size_cols size - to_isize (wrap64 (ov_left ov + ov_right ov))\<rparr>)"

definition write_window :: "raster_region \<Rightarrow> read_window" where
  "write_window g =
     (let ov = rr_overlap g; off = win_offset (rr_window g) in
      \<lparr>win_offset = \<lparr>off_rows = off_rows off + to_isize (ov_top ov), off_cols = off_cols off + to_isize (ov_left ov)\<rparr>,
       win_size = inner_size g\<rparr>)"

section \<open>Data sets\<close>

record layer_mapping =
  lm_source :: string
  lm_time :: nat
  lm_layer :: nat
  lm_band :: nat

record dataset_metadata =
  dm_shape :: raster_shape
  dm_epsg :: nat
  dm_transform :: geo_transform

record raster_dataset =
  ds_metadata :: dataset_metadata
  ds_blocks :: "raster_region list"
  ds_mappings :: "layer_mapping list"
  ds_files :: "string list"

definition num_blocks :: "raster_dataset \<Rightarrow> nat" where
  "num_blocks d = length (ds_blocks d)"

definition block_region :: "raster_dataset \<Rightarrow> nat \<Rightarrow> raster_region option" where
  "block_region d i = (if i < length (ds_blocks d) then Some (ds_blocks d ! i) else None)"

text \<open>What GDAL answers about an open file: its size is (columns, rows).\<close>

record ('h, 'b) gdal =
  g_open :: "string \<Rightarrow> (string, 'h) result"
  g_raster_size :: "'h \<Rightarrow> nat \<times> nat"
  g_raster_count :: "'h \<Rightarrow> nat"
  g_geo_transform :: "'h \<Rightarrow> (string, geo_transform) result"
  g_auth_code :: "'h \<Rightarrow> int option"
  g_rasterband :: "'h \<Rightarrow> nat \<Rightarrow> (string, 'b) result"

text \<open>
  Reading a window of a band at offset (column, row) and size (columns, rows) as elements of type \<open>'v\<close>;
  the inner result is what \<open>to_array\<close> makes of the buffer, indexed by row and column.
\<close>

record ('b, 'v) band_reader =
  r_read_as :: "'b \<Rightarrow> int \<times> int \<Rightarrow> nat \<times> nat \<Rightarrow> (string, (string, nat \<Rightarrow> nat \<Rightarrow> 'v) result) result"

definition layer_mappings_for_scene ::
  "('h, 'b) gdal \<Rightarrow> string \<Rightarrow> nat \<Rightarrow> (geo_error, layer_mapping list) result" where
  "layer_mappings_for_scene gd path time_pos =
     and_then (map_err (\<lambda>e. Other (''open '' @ path @ '' for band probe: '' @ e)) (g_open gd path)) (\<lambda>h.
     let n_bands = g_raster_count gd h
     in if n_bands = 0 then Err (InconsistentMetadata (path @ '' reports zero bands''))
        else Ok (map (\<lambda>b. \<lparr>lm_source = path, lm_time = time_pos, lm_layer = b - 1, lm_band = b\<rparr>) [1..<n_bands + 1]))"

fun scenes_loop ::
  "('h, 'b) gdal \<Rightarrow> (nat \<times> string) list \<Rightarrow> nat option \<Rightarrow> layer_mapping list \<Rightarrow>
   (geo_error, layer_mapping list) result" where
  "scenes_loop gd [] expected all_maps = Ok all_maps"
| "scenes_loop gd ((t, p) # rest) expected all_maps =
     and_then (layer_mappings_for_scene gd p t) (\<lambda>ms. case expected of
        None \<Rightarrow> scenes_loop gd rest (Some (length ms)) (all_maps @ ms)
      | Some n \<Rightarrow>
          if n = length ms then scenes_loop gd rest expected (all_maps @ ms)
          else Err (InconsistentMetadata (''scene '' @ p @ '' has '' @ show_nat (length ms) @ '' bands; expected '' @
            show_nat n @ '' (matching scene 0)'')))"

definition layer_mappings_for_scenes ::
  "('h, 'b) gdal \<Rightarrow> string list \<Rightarrow> (geo_error, layer_mapping list) result" where
  "layer_mappings_for_scenes gd paths = scenes_loop gd (List.enumerate 0 paths) None []"

section \<open>The builder\<close>

record dataset_builder =
  b_source :: data_source
  b_block_size :: block_size
  b_overlap :: overlap
  b_resolution :: "image_resolution option"
  b_epsg :: "nat option"
  b_transform :: "geo_transform option"
  b_image_size :: "(nat \<times> nat) option"

definition from_source :: "data_source \<Rightarrow> dataset_builder" where
  "from_source s = \<lparr>b_source = s, b_block_size = block_default, b_overlap = overlap_uniform 0, b_resolution = None,
     b_epsg = None, b_transform = None, b_image_size = None\<rparr>"

definition from_files :: "string list \<Rightarrow> (geo_error, dataset_builder) result" where
  "from_files paths = (if paths = [] then Err (InvalidBuilder ''file list is empty'') else Ok (from_source (Files paths)))"

definition from_band_resolver :: "(string \<Rightarrow> string list) \<Rightarrow> string \<Rightarrow> (geo_error, dataset_builder) result" where
  "from_band_resolver band_paths band_name =
     (if band_paths band_name = []
      then Err (InvalidBuilder (''BandPathResolver returned no paths for band `'' @ band_name @ ''`''))
      else from_files (band_paths band_name))"

definition with_template :: "raster_dataset \<Rightarrow> dataset_builder \<Rightarrow> dataset_builder" where
  "with_template d b = b\<lparr>b_epsg := Some (dm_epsg (ds_metadata d)), b_transform := Some (dm_transform (ds_metadata d)),
     b_image_size := Some (rs_rows (dm_shape (ds_metadata d)), rs_cols (dm_shape (ds_metadata d)))\<rparr>"

text \<open>The region pushed for the block at row \<open>r\<close> and column \<open>c\<close>.\<close>

definition region_at ::
  "raster_shape \<Rightarrow> block_size \<Rightarrow> overlap \<Rightarrow> geo_transform \<Rightarrow> nat \<Rightarrow> nat \<Rightarrow> nat \<Rightarrow> nat \<Rightarrow> raster_region" where
  "region_at shape bs ov g epsg index r c =
     \<lparr>rr_index = index,
      rr_window = \<lparr>win_offset = \<lparr>off_rows = to_isize r, off_cols = to_isize c\<rparr>,
        win_size = \<lparr>size_rows = to_isize (min (bs_rows bs) (rs_rows shape - r)),
                    size_cols = to_isize (min (bs_cols bs) (rs_cols shape - c))\<rparr>\<rparr>,
      rr_overlap = ov,
      rr_transform = \<lparr>gt0 = f64_add (gt0 g) (f64_mul (f64_of_nat c) (gt1 g)), gt1 = gt1 g, gt2 = gt2 g,
        gt3 = f64_add (gt3 g) (f64_mul (f64_of_nat r) (gt5 g)), gt4 = gt4 g, gt5 = gt5 g\<rparr>,
      rr_epsg = epsg\<rparr>"

partial_function (option) partition_cols ::
  "raster_shape \<Rightarrow> block_size \<Rightarrow> overlap \<Rightarrow> geo_transform \<Rightarrow> nat \<Rightarrow> nat \<Rightarrow> nat \<Rightarrow> nat \<Rightarrow> raster_region list \<Rightarrow>
   (nat \<times> raster_region list) option" where
  [code]: "partition_cols shape bs ov g epsg r c index blocks =
     (if c < rs_cols shape
      then partition_cols shape bs ov g epsg r (wrap64 (c + bs_cols bs)) (wrap64 (index + 1))
        (blocks @ [region_at shape bs ov g epsg index r c])
      else Some (index, blocks))"

partial_function (option) partition_rows ::
  "raster_shape \<Rightarrow> block_size \<Rightarrow> overlap \<Rightarrow> geo_transform \<Rightarrow> nat \<Rightarrow> nat \<Rightarrow> nat \<Rightarrow> raster_region list \<Rightarrow>
   raster_region list option" where
  [code]: "partition_rows shape bs ov g epsg r index blocks =
     (if r < rs_rows shape
      then Option.bind (partition_cols shape bs ov g epsg r 0 index blocks) (\<lambda>(index', blocks').
        partition_rows shape bs ov g epsg (wrap64 (r + bs_rows bs)) index' blocks')
      else Some blocks)"

definition partition_blocks ::
  "raster_shape \<Rightarrow> block_size \<Rightarrow> overlap \<Rightarrow> geo_transform \<Rightarrow> nat \<Rightarrow> raster_region list option" where
  "partition_blocks shape bs ov g epsg = partition_rows shape bs ov g epsg 0 0 []"

text \<open>\<open>as u32\<close> of the code GDAL reports.\<close>

definition inspect_first_file ::
  "('h, 'b) gdal \<Rightarrow> string \<Rightarrow> (geo_error, raster_shape \<times> nat \<times> geo_transform) result" where
  "inspect_first_file gd path =
     and_then (map_err Gdal (g_open gd path)) (\<lambda>h.
     and_then (map_err Gdal (g_geo_transform gd h)) (\<lambda>g.
       let (cols, rows) = g_raster_size gd h;
           epsg = nat ((case g_auth_code gd h of None \<Rightarrow> 0 | Some i \<Rightarrow> i) mod 2 ^ 32)
       in Ok (\<lparr>rs_times = 0, rs_layers = g_raster_count gd h, rs_rows = rows, rs_cols = cols\<rparr>, epsg, g)))"

text \<open>\<open>None\<close> is the partition that does not end.\<close>

definition build_dataset ::
  "(string \<Rightarrow> bool) \<Rightarrow> ('h, 'b) gdal \<Rightarrow> dataset_builder \<Rightarrow> (geo_error, raster_dataset) result option" where
  "build_dataset path_exists gd b =
     (case source_validate path_exists (b_source b) of
        Inl e \<Rightarrow> Some (Err e)
      | Inr _ \<Rightarrow>
          (case local_paths (b_source b) of
             [] \<Rightarrow> Some (Err (InvalidBuilder ''no local paths to build from''))
           | first # rest \<Rightarrow>
               (case inspect_first_file gd first of
                  Inl e \<Rightarrow> Some (Err e)
                | Inr (shape, epsg, g) \<Rightarrow>
                    let paths = first # rest;
                        shape' = shape\<lparr>rs_times := length paths\<rparr>
                    in map_option (\<lambda>blocks. Ok
                        \<lparr>ds_metadata = \<lparr>dm_shape = (case b_image_size b of
                               Some (r, c) \<Rightarrow> shape'\<lparr>rs_rows := r, rs_cols := c\<rparr> | None \<Rightarrow> shape'),
                             dm_epsg = case_option epsg id (b_epsg b), dm_transform = case_option g id (b_transform b)\<rparr>,
                         ds_blocks = blocks,
                         ds_mappings = map (\<lambda>(i, p). \<lparr>lm_source = p, lm_time = i, lm_layer = 0, lm_band = 1\<rparr>) (List.enumerate 0 paths),
                         ds_files = paths\<rparr>)
                      (partition_blocks shape' (b_block_size b) (b_overlap b) g epsg))))"

section \<open>The partition\<close>

text \<open>The loops in closed form when no side of the block is zero.\<close>

lemma partition_cols_closed:
  assumes "0 < bs_cols bs" and "rs_cols shape + bs_cols bs < 2 ^ 64"
    and "k \<le> div_ceil (rs_cols shape) (bs_cols bs)" and "index + (div_ceil (rs_cols shape) (bs_cols bs) - k) < 2 ^ 64"
  shows "partition_cols shape bs ov g epsg r (k * bs_cols bs) index blocks =
    Some (index + (div_ceil (rs_cols shape) (bs_cols bs) - k),
      blocks @ map (\<lambda>j. region_at shape bs ov g epsg (index + (j - k)) r (j * bs_cols bs)) [k..<div_ceil (rs_cols shape) (bs_cols bs)])"
  using assms(3,4)
proof (induction "div_ceil (rs_cols shape) (bs_cols bs) - k" arbitrary: k index blocks)
  case 0
  then have "k = div_ceil (rs_cols shape) (bs_cols bs)" "\<not> k < div_ceil (rs_cols shape) (bs_cols bs)" by simp_all
  then have "\<not> k * bs_cols bs < rs_cols shape" using div_ceil_covers [OF assms(1), of k "rs_cols shape"] by blast
  then show ?case using \<open>k = _\<close> by (subst partition_cols.simps) simp
next
  case (Suc n)
  let ?n = "div_ceil (rs_cols shape) (bs_cols bs)"
  have k: "k < ?n" "n = ?n - Suc k" using Suc.hyps(2) by simp_all
  then have lt: "k * bs_cols bs < rs_cols shape" using div_ceil_covers [OF assms(1), of k "rs_cols shape"] by blast
  have w: "wrap64 (k * bs_cols bs + bs_cols bs) = Suc k * bs_cols bs" "wrap64 (index + 1) = Suc index"
    using lt assms(2) Suc.prems k(1) by (simp_all add: wrap64_def)
  have "partition_cols shape bs ov g epsg r (k * bs_cols bs) index blocks =
      partition_cols shape bs ov g epsg r (Suc k * bs_cols bs) (Suc index) (blocks @ [region_at shape bs ov g epsg index r (k * bs_cols bs)])"
    by (subst partition_cols.simps) (simp only: lt w if_True)
  also have "\<dots> = Some (Suc index + (?n - Suc k), (blocks @ [region_at shape bs ov g epsg index r (k * bs_cols bs)]) @
      map (\<lambda>j. region_at shape bs ov g epsg (Suc index + (j - Suc k)) r (j * bs_cols bs)) [Suc k..<?n])"
    using Suc.prems k by (intro Suc.hyps(1)) simp_all
  also have "map (\<lambda>j. region_at shape bs ov g epsg (Suc index + (j - Suc k)) r (j * bs_cols bs)) [Suc k..<?n] =
      map (\<lambda>j. region_at shape bs ov g epsg (index + (j - k)) r (j * bs_cols bs)) [Suc k..<?n]"
    by (rule map_cong) (auto simp: Suc_diff_Suc)
  finally show ?case using k(1) by (simp add: upt_conv_Cons Suc_diff_Suc)
qed

lemma row_regions_flat:
  fixes n :: nat
  assumes "0 < n"
  shows "map (\<lambda>j. f (i * n + j) i j) [0..<n] = map (\<lambda>k. f k (k div n) (k mod n)) [i * n..<Suc i * n]"
  using assms by (intro nth_equalityI) simp_all

definition grid_regions :: "raster_shape \<Rightarrow> block_size \<Rightarrow> overlap \<Rightarrow> geo_transform \<Rightarrow> nat \<Rightarrow> nat \<Rightarrow> nat \<Rightarrow> raster_region list" where
  "grid_regions shape bs ov g epsg m n =
     (let nc = div_ceil (rs_cols shape) (bs_cols bs)
      in map (\<lambda>k. region_at shape bs ov g epsg k (k div nc * bs_rows bs) (k mod nc * bs_cols bs)) [m * nc..<n * nc])"

lemma partition_rows_closed:
  fixes shape bs
  defines "nc \<equiv> div_ceil (rs_cols shape) (bs_cols bs)" and "nr \<equiv> div_ceil (rs_rows shape) (bs_rows bs)"
  assumes "0 < bs_cols bs" "0 < bs_rows bs" and "rs_cols shape + bs_cols bs < 2 ^ 64" "rs_rows shape + bs_rows bs < 2 ^ 64"
    and "nr * nc < 2 ^ 64" and "k \<le> nr"
  shows "partition_rows shape bs ov g epsg (k * bs_rows bs) (k * nc) blocks = Some (blocks @ grid_regions shape bs ov g epsg k nr)"
  using assms(8)
proof (induction "nr - k" arbitrary: k blocks)
  case 0
  then have "k = nr" "\<not> k < nr" by simp_all
  then have "\<not> k * bs_rows bs < rs_rows shape" using div_ceil_covers [OF assms(4), of k "rs_rows shape"] unfolding nr_def by blast
  then show ?case using \<open>k = nr\<close> by (subst partition_rows.simps) (simp add: grid_regions_def Let_def nc_def [symmetric])
next
  case (Suc n)
  have k: "k < nr" "n = nr - Suc k" using Suc.hyps(2) by simp_all
  then have lt: "k * bs_rows bs < rs_rows shape" using div_ceil_covers [OF assms(4), of k "rs_rows shape"] unfolding nr_def by blast
  have w: "wrap64 (k * bs_rows bs + bs_rows bs) = Suc k * bs_rows bs" using lt assms(6) by (simp add: wrap64_def)
  have "Suc k * nc \<le> nr * nc" using k(1) by (intro mult_le_mono1) simp
  then have small: "k * nc + nc < 2 ^ 64" using assms(7) by simp
  have "partition_cols shape bs ov g epsg (k * bs_rows bs) (0 * bs_cols bs) (k * nc) blocks =
      Some (k * nc + (nc - 0), blocks @ map (\<lambda>j. region_at shape bs ov g epsg (k * nc + (j - 0)) (k * bs_rows bs) (j * bs_cols bs)) [0..<nc])"
    unfolding nc_def using small by (intro partition_cols_closed [OF assms(3,5)]) (simp_all add: nc_def)
  moreover have "map (\<lambda>j. region_at shape bs ov g epsg (k * nc + j) (k * bs_rows bs) (j * bs_cols bs)) [0..<nc] =
      map (\<lambda>j. region_at shape bs ov g epsg j (j div nc * bs_rows bs) (j mod nc * bs_cols bs)) [k * nc..<Suc k * nc]"
    by (cases "nc = 0") (simp_all only: row_regions_flat [of nc "\<lambda>j i c. region_at shape bs ov g epsg j (i * bs_rows bs) (c * bs_cols bs)"]
        neq0_conv mult_0_right upt_rec [of 0 0] less_irrefl if_False list.map)
  ultimately have c: "partition_cols shape bs ov g epsg (k * bs_rows bs) 0 (k * nc) blocks =
      Some (Suc k * nc, blocks @ grid_regions shape bs ov g epsg k (Suc k))"
    by (simp add: grid_regions_def Let_def nc_def [symmetric] add.commute)
  have "partition_rows shape bs ov g epsg (k * bs_rows bs) (k * nc) blocks =
      partition_rows shape bs ov g epsg (Suc k * bs_rows bs) (Suc k * nc) (blocks @ grid_regions shape bs ov g epsg k (Suc k))"
    by (subst partition_rows.simps) (simp only: lt w c if_True Option.bind.simps prod.case)
  also have "\<dots> = Some ((blocks @ grid_regions shape bs ov g epsg k (Suc k)) @ grid_regions shape bs ov g epsg (Suc k) nr)"
    using k by (intro Suc.hyps(1)) simp_all
  also have "\<dots> = Some (blocks @ (grid_regions shape bs ov g epsg k (Suc k) @ grid_regions shape bs ov g epsg (Suc k) nr))" by simp
  also have "grid_regions shape bs ov g epsg k (Suc k) @ grid_regions shape bs ov g epsg (Suc k) nr = grid_regions shape bs ov g epsg k nr"
  proof -
    have "[k * nc..<Suc k * nc] @ [Suc k * nc..<nr * nc] = [k * nc..<nr * nc]"
      using \<open>Suc k * nc \<le> nr * nc\<close> by (metis le_add1 le_add_diff_inverse2 upt_add_eq_append mult_Suc add.commute)
    then show ?thesis unfolding grid_regions_def Let_def nc_def [symmetric] map_append [symmetric] by simp
  qed
  finally show ?case .
qed

definition fits :: "raster_shape \<Rightarrow> block_size \<Rightarrow> bool" where
  "fits shape bs \<longleftrightarrow> 0 < bs_rows bs \<and> 0 < bs_cols bs \<and> rs_rows shape < 2 ^ 31 \<and> rs_cols shape < 2 ^ 31 \<and>
     bs_rows bs < 2 ^ 63 \<and> bs_cols bs < 2 ^ 63"

lemma div_ceil_le: "0 < b \<Longrightarrow> div_ceil a b \<le> a"
  using div_ceil_covers [of b a a] by (metis leI mult_le_mono2 not_less Suc_leI nat_mult_1_right One_nat_def)

lemma partition_blocks_closed:
  assumes "fits shape bs"
  shows "partition_blocks shape bs ov g epsg = Some (grid_regions shape bs ov g epsg 0 (div_ceil (rs_rows shape) (bs_rows bs)))"
proof -
  let ?nr = "div_ceil (rs_rows shape) (bs_rows bs)" and ?nc = "div_ceil (rs_cols shape) (bs_cols bs)"
  have "?nr < 2 ^ 31" "?nc < 2 ^ 31"
    using assms div_ceil_le [of "bs_rows bs" "rs_rows shape"] div_ceil_le [of "bs_cols bs" "rs_cols shape"] by (auto simp: fits_def)
  then have "?nr * ?nc \<le> 2 ^ 31 * 2 ^ 31" by (intro mult_le_mono) simp_all
  then have "?nr * ?nc < 2 ^ 64" by simp
  then show ?thesis
    using partition_rows_closed [of bs shape 0 ov g epsg "[]"] assms by (simp add: partition_blocks_def fits_def)
qed

text \<open>A block with an empty side never advances: the partition of a non-empty raster does not end.\<close>

lemma partition_cols_stuck:
  assumes "partition_cols shape bs ov g epsg r c index blocks = Some y"
  shows "bs_cols bs = 0 \<longrightarrow> c < 2 ^ 64 \<longrightarrow> \<not> c < rs_cols shape"
  using assms
proof (rule partition_cols.raw_induct [rotated])
  fix rec shape bs ov g epsg r c index blocks and y :: "nat \<times> raster_region list"
  assume IH: "\<And>shape bs ov g epsg r c index blocks y. rec shape bs ov g epsg r c index blocks = Some y \<Longrightarrow>
      bs_cols bs = 0 \<longrightarrow> c < 2 ^ 64 \<longrightarrow> \<not> c < rs_cols shape"
    and step: "(if c < rs_cols shape
      then rec shape bs ov g epsg r (wrap64 (c + bs_cols bs)) (wrap64 (index + 1)) (blocks @ [region_at shape bs ov g epsg index r c])
      else Some (index, blocks)) = Some y"
  show "bs_cols bs = 0 \<longrightarrow> c < 2 ^ 64 \<longrightarrow> \<not> c < rs_cols shape"
  proof (intro impI notI)
    assume z: "bs_cols bs = 0" "c < 2 ^ 64" and lt: "c < rs_cols shape"
    then have w: "wrap64 (c + bs_cols bs) = c" by (simp add: wrap64_def)
    show False using IH [OF step [unfolded if_P [OF lt]]] z lt unfolding w by blast
  qed
qed

lemma partition_rows_stuck:
  assumes "partition_rows shape bs ov g epsg r index blocks = Some y"
  shows "bs_rows bs = 0 \<longrightarrow> r < 2 ^ 64 \<longrightarrow> \<not> r < rs_rows shape"
  using assms
proof (rule partition_rows.raw_induct [rotated])
  fix rec shape bs ov g epsg r index blocks and y :: "raster_region list"
  assume IH: "\<And>shape bs ov g epsg r index blocks y. rec shape bs ov g epsg r index blocks = Some y \<Longrightarrow>
      bs_rows bs = 0 \<longrightarrow> r < 2 ^ 64 \<longrightarrow> \<not> r < rs_rows shape"
    and step: "(if r < rs_rows shape
      then Option.bind (partition_cols shape bs ov g epsg r 0 index blocks) (\<lambda>(index', blocks').
        rec shape bs ov g epsg (wrap64 (r + bs_rows bs)) index' blocks')
      else Some blocks) = Some y"
  show "bs_rows bs = 0 \<longrightarrow> r < 2 ^ 64 \<longrightarrow> \<not> r < rs_rows shape"
  proof (intro impI notI)
    assume z: "bs_rows bs = 0" "r < 2 ^ 64" and lt: "r < rs_rows shape"
    then have w: "wrap64 (r + bs_rows bs) = r" by (simp add: wrap64_def)
    obtain i b where "rec shape bs ov g epsg (wrap64 (r + bs_rows bs)) i b = Some y"
      using step lt by (auto simp: bind_eq_Some_conv)
    from IH [OF this] show False using z lt unfolding w by blast
  qed
qed

lemma partition_hangs:
  assumes "bs_rows bs = 0 \<or> bs_cols bs = 0" and "0 < rs_rows shape" "0 < rs_cols shape"
  shows "partition_blocks shape bs ov g epsg = None"
proof (rule ccontr)
  assume "partition_blocks shape bs ov g epsg \<noteq> None"
  then obtain y where y: "partition_rows shape bs ov g epsg 0 0 [] = Some y" by (auto simp: partition_blocks_def)
  then have "bs_cols bs = 0" using assms(1,2) partition_rows_stuck [OF y] by auto
  moreover obtain z where "partition_cols shape bs ov g epsg 0 0 0 [] = Some z"
    using y assms(2) by (subst (asm) partition_rows.simps) (auto simp: bind_eq_Some_conv)
  ultimately show False using partition_cols_stuck [of shape bs ov g epsg 0 0 0 "[]" z] assms(3) by simp
qed

text \<open>The same blocks as the kernel crate enumerates.\<close>

lemma grid_flat:
  "concat (map (\<lambda>i. map (f i) [0..<n]) [0..<m]) = map (\<lambda>k. f (k div n) (k mod n)) [0..<m * n]" for n m :: nat
proof (cases "n = 0")
  case False
  then show ?thesis
  proof (induction m)
    case (Suc m)
    have "map (f m) [0..<n] = map (\<lambda>k. f (k div n) (k mod n)) [m * n..<Suc m * n]"
      using row_regions_flat [of n "\<lambda>_. f" m] False by simp
    then show ?case using Suc upt_add_eq_append [of 0 "m * n" n] by (simp add: add.commute)
  qed simp
qed simp

lemma partition_enumerates:
  assumes "fits shape bs"
  shows "map_option (map rr_window) (partition_blocks shape bs ov g epsg) =
    Some (map snd (grid_blocks \<lparr>grid_rows = rs_rows shape, grid_cols = rs_cols shape\<rparr> bs))"
  using assms
  by (simp add: partition_blocks_closed [OF assms] grid_blocks_def grid_flat grid_regions_def Let_def
      fits_def region_at_def block_at_def comp_def)

lemma grid_regions_nth:
  fixes shape bs
  defines "nc \<equiv> div_ceil (rs_cols shape) (bs_cols bs)"
  assumes "k < n * nc"
  shows "grid_regions shape bs ov g epsg 0 n ! k = region_at shape bs ov g epsg k (k div nc * bs_rows bs) (k mod nc * bs_cols bs)"
  using assms by (simp add: grid_regions_def Let_def)

lemma grid_regions_length: "length (grid_regions shape bs ov g epsg 0 n) = n * div_ceil (rs_cols shape) (bs_cols bs)"
  by (simp add: grid_regions_def Let_def)

text \<open>The window of the block at grid position \<open>(i, j)\<close>.\<close>

lemma region_window:
  assumes "fits shape bs" and "i * bs_rows bs < rs_rows shape" "j * bs_cols bs < rs_cols shape"
  shows "rr_window (region_at shape bs ov g epsg k (i * bs_rows bs) (j * bs_cols bs)) =
    \<lparr>win_offset = \<lparr>off_rows = int (i * bs_rows bs), off_cols = int (j * bs_cols bs)\<rparr>,
     win_size = \<lparr>size_rows = int (min (bs_rows bs) (rs_rows shape - i * bs_rows bs)),
                 size_cols = int (min (bs_cols bs) (rs_cols shape - j * bs_cols bs))\<rparr>\<rparr>"
proof -
  have "i * bs_rows bs < 2 ^ 63" "j * bs_cols bs < 2 ^ 63" "rs_rows shape < 2 ^ 63" "rs_cols shape < 2 ^ 63"
    using assms by (auto simp: fits_def)
  then show ?thesis
    unfolding region_at_def raster_region.select_convs by (simp only: to_isize_small clip_small)
qed

definition window_inside :: "raster_shape \<Rightarrow> read_window \<Rightarrow> bool" where
  "window_inside shape w \<longleftrightarrow> window_non_empty w \<and> 0 \<le> off_rows (win_offset w) \<and> 0 \<le> off_cols (win_offset w) \<and>
     off_rows (win_offset w) + size_rows (win_size w) \<le> int (rs_rows shape) \<and>
     off_cols (win_offset w) + size_cols (win_size w) \<le> int (rs_cols shape)"

lemma grid_position:
  fixes shape bs
  defines "nc \<equiv> div_ceil (rs_cols shape) (bs_cols bs)" and "nr \<equiv> div_ceil (rs_rows shape) (bs_rows bs)"
  assumes "fits shape bs" and "k < nr * nc"
  shows "k div nc * bs_rows bs < rs_rows shape" "k mod nc * bs_cols bs < rs_cols shape"
proof -
  have pos: "0 < bs_rows bs" "0 < bs_cols bs" using assms(3) by (simp_all add: fits_def)
  have "k div nc < nr" using assms(4) by (simp add: less_mult_imp_div_less)
  then show "k div nc * bs_rows bs < rs_rows shape" using div_ceil_covers [OF pos(1)] by (simp only: nr_def)
  have "0 < nc" using assms(4) by (cases nc) simp_all
  then have "k mod nc < nc" by simp
  then show "k mod nc * bs_cols bs < rs_cols shape" using div_ceil_covers [OF pos(2)] unfolding nc_def by blast
qed

lemma region_covers:
  assumes "fits shape bs" and "i * bs_rows bs < rs_rows shape" "j * bs_cols bs < rs_cols shape"
    and "r < rs_rows shape" "c < rs_cols shape"
  shows "covers (rr_window (region_at shape bs ov g epsg k (i * bs_rows bs) (j * bs_cols bs))) r c \<longleftrightarrow>
    i = r div bs_rows bs \<and> j = c div bs_cols bs"
proof -
  have pos: "0 < bs_rows bs" "0 < bs_cols bs" using assms(1) by (simp_all add: fits_def)
  show ?thesis
    unfolding region_window [OF assms(1-3)] covers_def read_window.select_convs rc_offset.select_convs rc_size.select_convs
      interval_div [OF pos(1) assms(4), symmetric] interval_div [OF pos(2) assms(5), symmetric]
    by (simp only: of_nat_le_iff of_nat_add [symmetric] of_nat_less_iff) blast
qed

lemma partition_region:
  assumes "fits shape bs" and "partition_blocks shape bs ov g epsg = Some blocks" and "k < length blocks"
  shows "window_inside shape (rr_window (blocks ! k))" "rr_overlap (blocks ! k) = ov" "rr_index (blocks ! k) = k"
proof -
  let ?nc = "div_ceil (rs_cols shape) (bs_cols bs)" and ?nr = "div_ceil (rs_rows shape) (bs_rows bs)"
  have b: "blocks = grid_regions shape bs ov g epsg 0 ?nr" using assms(1,2) partition_blocks_closed by force
  have k: "k < ?nr * ?nc" using assms(3) by (simp add: b grid_regions_length)
  note at = grid_regions_nth [OF k, of ov g epsg, folded b] and pos = grid_position [OF assms(1) k]
  have s: "0 < bs_rows bs" "0 < bs_cols bs" using assms(1) by (simp_all add: fits_def)
  show "window_inside shape (rr_window (blocks ! k))"
    unfolding at window_inside_def window_non_empty_def region_window [OF assms(1) pos]
      read_window.select_convs rc_offset.select_convs rc_size.select_convs
    using pos s by (simp only: of_nat_0_less_iff of_nat_0_le_iff of_nat_add [symmetric] of_nat_le_iff simp_thms) auto
  show "rr_overlap (blocks ! k) = ov" "rr_index (blocks ! k) = k" unfolding at by (simp_all add: region_at_def)
qed

text \<open>Every pixel belongs to exactly one region.\<close>

lemma partition_tiles:
  assumes "fits shape bs" and "partition_blocks shape bs ov g epsg = Some blocks" and "r < rs_rows shape" "c < rs_cols shape"
  shows "\<exists>!k. k < length blocks \<and> covers (rr_window (blocks ! k)) r c"
proof -
  let ?nc = "div_ceil (rs_cols shape) (bs_cols bs)" and ?nr = "div_ceil (rs_rows shape) (bs_rows bs)"
  let ?i = "r div bs_rows bs" and ?j = "c div bs_cols bs"
  have s: "0 < bs_rows bs" "0 < bs_cols bs" using assms(1) by (simp_all add: fits_def)
  have b: "blocks = grid_regions shape bs ov g epsg 0 ?nr" using assms(1,2) partition_blocks_closed by force
  have cov: "covers (rr_window (blocks ! k)) r c \<longleftrightarrow> k div ?nc = ?i \<and> k mod ?nc = ?j" if k: "k < ?nr * ?nc" for k
    unfolding b grid_regions_nth [OF k] by (rule region_covers [OF assms(1) grid_position [OF assms(1) k] assms(3,4)])
  have ij: "?i * bs_rows bs < rs_rows shape" "?j * bs_cols bs < rs_cols shape"
    using assms(3,4) div_times_less_eq_dividend [of r "bs_rows bs"] div_times_less_eq_dividend [of c "bs_cols bs"] by linarith+
  then have lt: "?i < ?nr" "?j < ?nc" using div_ceil_covers [OF s(1)] div_ceil_covers [OF s(2)] by blast+
  have len: "length blocks = ?nr * ?nc" by (simp add: b grid_regions_length)
  have "?i * ?nc + ?j < Suc ?i * ?nc" using lt(2) by simp
  also have "\<dots> \<le> ?nr * ?nc" using lt(1) by (intro mult_le_mono1) simp
  finally have k0: "?i * ?nc + ?j < ?nr * ?nc" .
  show ?thesis
  proof (rule ex1I [of _ "?i * ?nc + ?j"])
    show "?i * ?nc + ?j < length blocks \<and> covers (rr_window (blocks ! (?i * ?nc + ?j))) r c"
      using k0 lt(2) unfolding len cov [OF k0] by simp
    show "k = ?i * ?nc + ?j" if "k < length blocks \<and> covers (rr_window (blocks ! k)) r c" for k
    proof -
      have "k div ?nc = ?i" "k mod ?nc = ?j" using that cov [of k] unfolding len by blast+
      then show ?thesis using div_mult_mod_eq [of k ?nc] by simp
    qed
  qed
qed

lemma write_window_plain: "overlap_is_zero (rr_overlap x) \<Longrightarrow> write_window x = rr_window x"
  by (cases x) (simp add: write_window_def inner_size_def overlap_is_zero_def to_isize_def wrap64_def Let_def)

text \<open>
  The read windows are not enlarged by the overlap but the write windows are shrunk by it: with an
  overlap at the top the first row of the raster is in no write window.
\<close>

lemma overlap_gap:
  assumes "fits shape bs" and "partition_blocks shape bs ov g epsg = Some blocks"
    and "0 < ov_top ov" "ov_top ov < 2 ^ 63" and "x \<in> set blocks"
  shows "\<not> covers (write_window x) 0 c"
proof -
  obtain k where "k < length blocks" "x = blocks ! k" using assms(5) by (auto simp: in_set_conv_nth)
  then have "window_inside shape (rr_window x)" "rr_overlap x = ov" using partition_region [OF assms(1,2)] by simp_all
  then show ?thesis using assms(3,4) by (simp add: covers_def write_window_def window_inside_def Let_def to_isize_def)
qed

end
