(* ===== verification/Raster_Processing.thy ===== *)
theory Raster_Processing
  imports Raster_Dataset Scalar_Processes
begin

text \<open>
  The block-parallel entry points of \<open>orbit-geo/src/processing.rs\<close> and the shared output file of
  \<open>writer.rs\<close>. The tasks of the thread pool read disjoint blocks, call the worker and write through a
  mutex; a run is the order \<open>sched\<close> in which they reach the writer, each entry with the thread that runs
  it, because a thread keeps its opened files. An element type is given by its zero. A panic (of a slice
  or of the worker) is \<open>Panicked\<close>; after an error the content of the output is not described.
\<close>

section \<open>Blocks in memory\<close>

record 'v array3 =
  a3_layers :: nat
  a3_rows :: nat
  a3_cols :: nat
  a3_at :: "nat \<Rightarrow> nat \<Rightarrow> nat \<Rightarrow> 'v"

record 'v data_block =
  db_shape :: raster_shape
  db_data :: "nat \<Rightarrow> nat \<Rightarrow> nat \<Rightarrow> nat \<Rightarrow> 'v"
  db_no_data :: 'v
  db_region :: raster_region

datatype geo_fail = Fails geo_error | Panicked

section \<open>Reading\<close>

definition as_usize :: "int \<Rightarrow> nat" where "as_usize i = nat (i mod 2 ^ 64)"

definition debug_pair :: "string \<Rightarrow> string \<Rightarrow> string" where
  "debug_pair a b = ''('' @ a @ '', '' @ b @ '')''"

text \<open>The handle cache of a thread; the second component is the cache afterwards.\<close>

definition cached_open ::
  "('h, 'b) gdal \<Rightarrow> (string \<rightharpoonup> 'h) \<Rightarrow> string \<Rightarrow> (geo_error, 'h) result \<times> (string \<rightharpoonup> 'h)" where
  "cached_open gd cache source = (case cache source of
      Some h \<Rightarrow> (Ok h, cache)
    | None \<Rightarrow> (case g_open gd source of
        Inl e \<Rightarrow> (Err (Other (''open '' @ source @ '' (cached): '' @ e)), cache)
      | Inr h \<Rightarrow> (Ok h, cache(source \<mapsto> h))))"

definition read_band ::
  "('h, 'b) gdal \<Rightarrow> ('b, 'v) band_reader \<Rightarrow> 'h \<Rightarrow> string \<Rightarrow> nat \<Rightarrow> int \<times> int \<Rightarrow> nat \<times> nat \<Rightarrow> (geo_error, nat \<Rightarrow> nat \<Rightarrow> 'v) result" where
  "read_band gd rd h source band_idx off sz =
     and_then (map_err (\<lambda>e. Other (''rasterband '' @ show_nat band_idx @ '' of '' @ source @ '': '' @ e)) (g_rasterband gd h band_idx)) (\<lambda>band.
     and_then (map_err (\<lambda>e. Other (''read_as '' @ source @ '' band '' @ show_nat band_idx @ '' window='' @
           debug_pair (show_int (fst off)) (show_int (snd off)) @ '' size='' @
           debug_pair (show_nat (fst sz)) (show_nat (snd sz)) @ '': '' @ e)) (r_read_as rd band off sz)) (\<lambda>buffer.
       map_err (\<lambda>e. Other (''buffer.to_array for '' @ source @ '': '' @ e)) buffer))"

definition read_window_cached ::
  "('h, 'b) gdal \<Rightarrow> ('b, 'v) band_reader \<Rightarrow> (string \<rightharpoonup> 'h) \<Rightarrow> string \<Rightarrow> nat \<Rightarrow> int \<times> int \<Rightarrow> nat \<times> nat \<Rightarrow>
   (geo_error, nat \<Rightarrow> nat \<Rightarrow> 'v) result \<times> (string \<rightharpoonup> 'h)" where
  "read_window_cached gd rd cache source band_idx off sz =
     (case cached_open gd cache source of (r, cache') \<Rightarrow>
        (and_then r (\<lambda>h. read_band gd rd h source band_idx off sz), cache'))"

definition mapping_bounds :: "layer_mapping \<Rightarrow> raster_shape \<Rightarrow> geo_error" where
  "mapping_bounds m shape = InconsistentMetadata (''layer_mapping time_pos='' @ show_nat (lm_time m) @ '', layer_pos='' @
     show_nat (lm_layer m) @ '' out of bounds for shape times='' @ show_nat (rs_times shape) @ '', layers='' @ show_nat (rs_layers shape))"

fun read_mappings ::
  "('h, 'b) gdal \<Rightarrow> ('b, 'v) band_reader \<Rightarrow> (string \<rightharpoonup> 'h) \<Rightarrow> raster_shape \<Rightarrow> int \<times> int \<Rightarrow> layer_mapping list \<Rightarrow>
   (nat \<Rightarrow> nat \<Rightarrow> nat \<Rightarrow> nat \<Rightarrow> 'v) \<Rightarrow> (geo_error, nat \<Rightarrow> nat \<Rightarrow> nat \<Rightarrow> nat \<Rightarrow> 'v) result \<times> (string \<rightharpoonup> 'h)" where
  "read_mappings gd rd cache shape off [] data = (Ok data, cache)"
| "read_mappings gd rd cache shape off (m # ms) data =
     (case read_window_cached gd rd cache (lm_source m) (lm_band m) off (rs_cols shape, rs_rows shape) of
        (Inl e, cache') \<Rightarrow> (Err e, cache')
      | (Inr a, cache') \<Rightarrow>
          if lm_time m \<ge> rs_times shape \<or> lm_layer m \<ge> rs_layers shape then (Err (mapping_bounds m shape), cache')
          else read_mappings gd rd cache' shape off ms
            (\<lambda>t l. if t = lm_time m \<and> l = lm_layer m then a else data t l))"

definition window_shape :: "raster_dataset \<Rightarrow> raster_region \<Rightarrow> raster_shape" where
  "window_shape d x = \<lparr>rs_times = rs_times (dm_shape (ds_metadata d)), rs_layers = rs_layers (dm_shape (ds_metadata d)),
     rs_rows = as_usize (size_rows (win_size (rr_window x))), rs_cols = as_usize (size_cols (win_size (rr_window x)))\<rparr>"

definition window_offset :: "raster_region \<Rightarrow> int \<times> int" where
  "window_offset x = (off_cols (win_offset (rr_window x)), off_rows (win_offset (rr_window x)))"

definition read_block ::
  "('h, 'b) gdal \<Rightarrow> ('b, 'v) band_reader \<Rightarrow> 'v \<Rightarrow> (string \<rightharpoonup> 'h) \<Rightarrow> raster_dataset \<Rightarrow> raster_region \<Rightarrow>
   (geo_error, 'v data_block) result \<times> (string \<rightharpoonup> 'h)" where
  "read_block gd rd zero cache d x =
     (case read_mappings gd rd cache (window_shape d x) (window_offset x) (ds_mappings d) (\<lambda>_ _ _ _. zero) of
        (r, cache') \<Rightarrow> (and_then r (\<lambda>data. Ok \<lparr>db_shape = window_shape d x, db_data = data, db_no_data = zero, db_region = x\<rparr>), cache'))"

text \<open>\<open>read_block_layer_idx\<close>: one layer, which becomes layer 0.\<close>

definition time_bounds :: "layer_mapping \<Rightarrow> raster_shape \<Rightarrow> geo_error" where
  "time_bounds m shape = InconsistentMetadata (''layer_mapping time_pos='' @ show_nat (lm_time m) @
     '' out of bounds for shape.times='' @ show_nat (rs_times shape))"

fun read_layer_mappings ::
  "('h, 'b) gdal \<Rightarrow> ('b, 'v) band_reader \<Rightarrow> (string \<rightharpoonup> 'h) \<Rightarrow> raster_shape \<Rightarrow> int \<times> int \<Rightarrow> layer_mapping list \<Rightarrow>
   (nat \<Rightarrow> nat \<Rightarrow> nat \<Rightarrow> nat \<Rightarrow> 'v) \<Rightarrow> (geo_error, nat \<Rightarrow> nat \<Rightarrow> nat \<Rightarrow> nat \<Rightarrow> 'v) result \<times> (string \<rightharpoonup> 'h)" where
  "read_layer_mappings gd rd cache shape off [] data = (Ok data, cache)"
| "read_layer_mappings gd rd cache shape off (m # ms) data =
     (case read_window_cached gd rd cache (lm_source m) (lm_band m) off (rs_cols shape, rs_rows shape) of
        (Inl e, cache') \<Rightarrow> (Err e, cache')
      | (Inr a, cache') \<Rightarrow>
          if lm_time m \<ge> rs_times shape then (Err (time_bounds m shape), cache')
          else read_layer_mappings gd rd cache' shape off ms
            (\<lambda>t l. if t = lm_time m \<and> l = 0 then a else data t l))"

definition read_block_layer_idx ::
  "('h, 'b) gdal \<Rightarrow> ('b, 'v) band_reader \<Rightarrow> 'v \<Rightarrow> (string \<rightharpoonup> 'h) \<Rightarrow> raster_dataset \<Rightarrow> nat \<Rightarrow> nat \<Rightarrow>
   (geo_error, 'v data_block) result \<times> (string \<rightharpoonup> 'h)" where
  "read_block_layer_idx gd rd zero cache d block_id layer_idx =
     (if layer_idx \<ge> rs_layers (dm_shape (ds_metadata d))
      then (Err (InconsistentMetadata (''layer_idx='' @ show_nat layer_idx @ '' out of range (dataset has '' @
        show_nat (rs_layers (dm_shape (ds_metadata d))) @ '' layers)'')), cache)
      else if block_id \<ge> length (ds_blocks d) then (Err (Other (''block_id '' @ show_nat block_id @ '' out of range'')), cache)
      else let x = ds_blocks d ! block_id; shape = (window_shape d x)\<lparr>rs_layers := 1\<rparr>
        in case read_layer_mappings gd rd cache shape (window_offset x)
              (filter (\<lambda>m. lm_layer m = layer_idx) (ds_mappings d)) (\<lambda>_ _ _ _. zero) of
          (r, cache') \<Rightarrow> (and_then r (\<lambda>data. Ok \<lparr>db_shape = shape, db_data = data, db_no_data = zero, db_region = x\<rparr>), cache'))"

section \<open>Trimming and writing\<close>

text \<open>A slice whose start lies behind its end panics.\<close>

definition trim_overlap :: "'v array3 \<Rightarrow> raster_region \<Rightarrow> 'v array3 option" where
  "trim_overlap a x =
     (let ov = rr_overlap x in
      if overlap_is_zero ov then Some a
      else let row_end = sat_sub (a3_rows a) (ov_bottom ov); col_end = sat_sub (a3_cols a) (ov_right ov)
        in if ov_top ov \<le> row_end \<and> ov_left ov \<le> col_end
           then Some \<lparr>a3_layers = a3_layers a, a3_rows = row_end - ov_top ov, a3_cols = col_end - ov_left ov,
             a3_at = (\<lambda>l r c. a3_at a l (r + ov_top ov) (c + ov_left ov))\<rparr>
           else None)"

text \<open>The trait \<open>BlockWriter\<close>.\<close>

record ('w, 'v) block_writer =
  bw_write :: "'w \<Rightarrow> 'v array3 \<Rightarrow> read_window \<Rightarrow> (geo_error, 'w) result"
  bw_overviews :: "'w \<Rightarrow> string \<Rightarrow> int list \<Rightarrow> (geo_error, 'w) result"

text \<open>What the writer uses of GDAL, over the state \<open>'f\<close> of the output file.\<close>

record ('f, 'v) gdal_out =
  o_create_dir :: "string \<Rightarrow> (string, unit) result"
  o_driver :: "(string, unit) result"
  o_create :: "string \<Rightarrow> nat \<Rightarrow> nat \<Rightarrow> nat \<Rightarrow> (string, 'f) result"
  o_set_transform :: "'f \<Rightarrow> geo_transform \<Rightarrow> (string, 'f) result"
  o_from_epsg :: "nat \<Rightarrow> (string, unit) result"
  o_set_srs :: "'f \<Rightarrow> nat \<Rightarrow> (string, 'f) result"
  o_to_f64 :: "'v \<Rightarrow> f64 option"
  o_rasterband :: "'f \<Rightarrow> nat \<Rightarrow> (string, unit) result"
  o_set_no_data :: "'f \<Rightarrow> nat \<Rightarrow> f64 \<Rightarrow> (string, 'f) result"
  o_open_ex :: "'f \<Rightarrow> (string, 'f) result"
  o_write :: "'f \<Rightarrow> nat \<Rightarrow> int \<times> int \<Rightarrow> nat \<times> nat \<Rightarrow> 'v list \<Rightarrow> (string, 'f) result"
  o_overviews :: "'f \<Rightarrow> string \<Rightarrow> int list \<Rightarrow> (string, 'f) result"

record 'f gtiff_writer =
  gw_path :: string
  gw_rows :: nat
  gw_cols :: nat
  gw_bands :: nat
  gw_file :: 'f
  gw_open :: bool

fun set_no_data_values :: "('f, 'v) gdal_out \<Rightarrow> f64 \<Rightarrow> nat list \<Rightarrow> 'f \<Rightarrow> (geo_error, 'f) result" where
  "set_no_data_values gd nd [] f = Ok f"
| "set_no_data_values gd nd (b # bs) f =
     and_then (map_err (\<lambda>e. Other (''rasterband '' @ show_nat b @ '': '' @ e)) (o_rasterband gd f b)) (\<lambda>_.
     and_then (map_err (\<lambda>e. Other (''set_no_data_value: '' @ e)) (o_set_no_data gd f b nd)) (set_no_data_values gd nd bs))"

text \<open>\<open>parent\<close> is \<open>Path::parent\<close>.\<close>

definition gtiff_create ::
  "('f, 'v) gdal_out \<Rightarrow> (string \<Rightarrow> string option) \<Rightarrow> string \<Rightarrow> geo_transform \<Rightarrow> nat \<Rightarrow> nat \<Rightarrow> nat \<Rightarrow> nat \<Rightarrow> 'v \<Rightarrow>
   (geo_error, 'f gtiff_writer) result" where
  "gtiff_create gd parent path g epsg rows cols bands no_data =
     and_then (case parent path of
         Some dir \<Rightarrow> if dir \<noteq> [] then map_err Io (o_create_dir gd dir) else Ok ()
       | None \<Rightarrow> Ok ()) (\<lambda>_.
     and_then (map_err (\<lambda>e. Other (''get_driver GTiff: '' @ e)) (o_driver gd)) (\<lambda>_.
     and_then (map_err (\<lambda>e. Other (''create GTiff at '' @ path @ '': '' @ e)) (o_create gd path cols rows bands)) (\<lambda>f.
     and_then (map_err (\<lambda>e. Other (''set_geo_transform: '' @ e)) (o_set_transform gd f g)) (\<lambda>f.
     and_then (if epsg > 0
         then and_then (map_err (\<lambda>e. Other (''EPSG '' @ show_nat epsg @ '': '' @ e)) (o_from_epsg gd epsg)) (\<lambda>_.
           map_err (\<lambda>e. Other (''set_spatial_ref: '' @ e)) (o_set_srs gd f epsg))
         else Ok f) (\<lambda>f.
     and_then (case o_to_f64 gd no_data of
         Some nd \<Rightarrow> set_no_data_values gd nd [1..<bands + 1] f
       | None \<Rightarrow> Ok f) (\<lambda>f.
       Ok \<lparr>gw_path = path, gw_rows = rows, gw_cols = cols, gw_bands = bands, gw_file = f, gw_open = False\<rparr>))))))"

definition ensure_open :: "('f, 'v) gdal_out \<Rightarrow> 'f gtiff_writer \<Rightarrow> (geo_error, 'f gtiff_writer) result" where
  "ensure_open gd w =
     (if gw_open w then Ok w
      else and_then (map_err (\<lambda>e. Other (''open_ex '' @ gw_path w @ '': '' @ e)) (o_open_ex gd (gw_file w))) (\<lambda>f.
        Ok (w\<lparr>gw_file := f, gw_open := True\<rparr>)))"

text \<open>The buffer of one layer, row by row.\<close>

definition layer_values :: "'v array3 \<Rightarrow> nat \<Rightarrow> 'v list" where
  "layer_values a l = [a3_at a l r c. r \<leftarrow> [0..<a3_rows a], c \<leftarrow> [0..<a3_cols a]]"

fun write_layers ::
  "('f, 'v) gdal_out \<Rightarrow> 'v array3 \<Rightarrow> read_window \<Rightarrow> nat list \<Rightarrow> 'f \<Rightarrow> (geo_error, 'f) result" where
  "write_layers gd a w [] f = Ok f"
| "write_layers gd a w (l # ls) f =
     and_then (map_err (\<lambda>e. Other (''rasterband '' @ show_nat (l + 1) @ '': '' @ e)) (o_rasterband gd f (l + 1))) (\<lambda>_.
     and_then (map_err (\<lambda>e. Other (''band '' @ show_nat (l + 1) @ '' write at ('' @ show_int (off_cols (win_offset w)) @ '','' @
         show_int (off_rows (win_offset w)) @ '') size ('' @ show_nat (a3_cols a) @ '','' @ show_nat (a3_rows a) @ ''): '' @ e))
       (o_write gd f (l + 1) (off_cols (win_offset w), off_rows (win_offset w)) (a3_cols a, a3_rows a) (layer_values a l)))
       (write_layers gd a w ls))"

definition gtiff_write_block ::
  "('f, 'v) gdal_out \<Rightarrow> 'f gtiff_writer \<Rightarrow> 'v array3 \<Rightarrow> read_window \<Rightarrow> (geo_error, 'f gtiff_writer) result" where
  "gtiff_write_block gd w a win =
     and_then (ensure_open gd w) (\<lambda>w.
     and_then (write_layers gd a win [0..<a3_layers a] (gw_file w)) (\<lambda>f. Ok (w\<lparr>gw_file := f\<rparr>)))"

definition gtiff_build_overviews ::
  "('f, 'v) gdal_out \<Rightarrow> 'f gtiff_writer \<Rightarrow> string \<Rightarrow> int list \<Rightarrow> (geo_error, 'f gtiff_writer) result" where
  "gtiff_build_overviews gd w resampling levels =
     and_then (ensure_open gd w) (\<lambda>w.
     and_then (map_err (\<lambda>e. Other (''build_overviews: '' @ e)) (o_overviews gd (gw_file w) resampling levels)) (\<lambda>f.
       Ok (w\<lparr>gw_file := f\<rparr>)))"

definition gtiff_ops :: "('f, 'v) gdal_out \<Rightarrow> ('f gtiff_writer, 'v) block_writer" where
  "gtiff_ops gd = \<lparr>bw_write = gtiff_write_block gd, bw_overviews = gtiff_build_overviews gd\<rparr>"

definition write_window3 ::
  "('f, 'v) gdal_out \<Rightarrow> 'f gtiff_writer \<Rightarrow> 'v array3 \<Rightarrow> int \<Rightarrow> int \<Rightarrow> (geo_error, 'f gtiff_writer) result" where
  "write_window3 gd w a row_off col_off = gtiff_write_block gd w a
     \<lparr>win_offset = \<lparr>off_rows = row_off, off_cols = col_off\<rparr>,
      win_size = \<lparr>size_rows = to_isize (a3_rows a), size_cols = to_isize (a3_cols a)\<rparr>\<rparr>"

section \<open>The parallel loops\<close>

fun try_each :: "('i \<Rightarrow> 's \<Rightarrow> ('e, 's) result) \<Rightarrow> 'i list \<Rightarrow> 's \<Rightarrow> ('e, 's) result" where
  "try_each body [] s = Ok s"
| "try_each body (i # is) s = and_then (body i s) (try_each body is)"

type_synonym ('h, 'w) run_state = "(nat \<Rightarrow> string \<rightharpoonup> 'h) \<times> 'w"

text \<open>What every task does with the array of its worker.\<close>

definition land_block ::
  "('w, 'v) block_writer \<Rightarrow> raster_region \<Rightarrow> 'v array3 option \<Rightarrow> 'w \<Rightarrow> (geo_fail, 'w) result" where
  "land_block ops x out w = (case out of
      None \<Rightarrow> Err Panicked
    | Some a \<Rightarrow> (case trim_overlap a x of
        None \<Rightarrow> Err Panicked
      | Some a' \<Rightarrow> map_err Fails (bw_write ops w a' (write_window x))))"

definition region_task ::
  "('h, 'b) gdal \<Rightarrow> ('b, 'r) band_reader \<Rightarrow> 'r \<Rightarrow> raster_dataset \<Rightarrow> ('r data_block \<Rightarrow> 'v array3 option) \<Rightarrow> ('w, 'v) block_writer \<Rightarrow>
   nat \<times> nat \<Rightarrow> ('h, 'w) run_state \<Rightarrow> (geo_fail, ('h, 'w) run_state) result" where
  "region_task gd rd zero d worker ops tk s =
     (case (tk, s) of ((thread, k), caches, w) \<Rightarrow>
       let x = ds_blocks d ! k in
       (case read_block gd rd zero (caches thread) d x of (r, cache') \<Rightarrow>
         and_then (map_err Fails r) (\<lambda>block.
         and_then (land_block ops x (worker block) w) (\<lambda>w'. Ok (caches(thread := cache'), w')))))"

definition masked_task ::
  "('h, 'b) gdal \<Rightarrow> ('b, 'r) band_reader \<Rightarrow> 'r \<Rightarrow> raster_dataset \<Rightarrow> ('b, 'm) band_reader \<Rightarrow> 'm \<Rightarrow> raster_dataset \<Rightarrow>
   ('r data_block \<Rightarrow> 'm data_block \<Rightarrow> 'v array3 option) \<Rightarrow> ('w, 'v) block_writer \<Rightarrow>
   nat \<times> nat \<Rightarrow> ('h, 'w) run_state \<Rightarrow> (geo_fail, ('h, 'w) run_state) result" where
  "masked_task gd rd zero d rdm zerom mds worker ops tk s =
     (case (tk, s) of ((thread, k), caches, w) \<Rightarrow>
       let x = ds_blocks d ! k in
       (case read_block gd rd zero (caches thread) d x of (r, cache1) \<Rightarrow>
         and_then (map_err Fails r) (\<lambda>block.
         (case read_block gd rdm zerom cache1 mds (ds_blocks mds ! k) of (rm, cache2) \<Rightarrow>
           and_then (map_err Fails rm) (\<lambda>mask_block.
           and_then (land_block ops x (worker block mask_block) w) (\<lambda>w'. Ok (caches(thread := cache2), w')))))))"

text \<open>Building the pool may fail; its size is at least one.\<close>

definition pooled ::
  "(nat \<Rightarrow> (string, unit) result) \<Rightarrow> nat \<Rightarrow> (nat \<times> nat \<Rightarrow> ('h, 'w) run_state \<Rightarrow> (geo_fail, ('h, 'w) run_state) result) \<Rightarrow>
   (nat \<times> nat) list \<Rightarrow> 'w \<Rightarrow> (geo_fail, 'w) result" where
  "pooled pool n_threads body sched w =
     and_then (map_err (\<lambda>e. Fails (Other (''rayon pool: '' @ e))) (pool (max n_threads 1))) (\<lambda>_.
     and_then (try_each body sched (\<lambda>_. Map.empty, w)) (\<lambda>(_, w'). Ok w'))"

definition default_overviews :: "('w, 'v) block_writer \<Rightarrow> 'w \<Rightarrow> (geo_fail, 'w) result" where
  "default_overviews ops w = map_err Fails (bw_overviews ops w ''AVERAGE'' [2, 4, 8, 16])"

definition apply_reduction_to_writer ::
  "(nat \<Rightarrow> (string, unit) result) \<Rightarrow> ('h, 'b) gdal \<Rightarrow> ('b, 'r) band_reader \<Rightarrow> 'r \<Rightarrow> (nat \<times> nat) list \<Rightarrow> raster_dataset \<Rightarrow>
   ('w, 'v) block_writer \<Rightarrow> 'w \<Rightarrow> ('r data_block \<Rightarrow> dimension \<Rightarrow> 'v array3 option) \<Rightarrow> dimension \<Rightarrow> nat \<Rightarrow> (geo_fail, 'w) result" where
  "apply_reduction_to_writer pool gd rd zero sched d ops w worker dim n_threads =
     and_then (pooled pool n_threads (region_task gd rd zero d (\<lambda>b. worker b dim) ops) sched w) (default_overviews ops)"

definition blocks_mismatch :: "raster_dataset \<Rightarrow> raster_dataset \<Rightarrow> geo_error" where
  "blocks_mismatch d mds = InconsistentMetadata (''data has '' @ show_nat (num_blocks d) @ '' blocks, mask has '' @ show_nat (num_blocks mds))"

definition apply_reduction_with_mask_to_writer ::
  "(nat \<Rightarrow> (string, unit) result) \<Rightarrow> ('h, 'b) gdal \<Rightarrow> ('b, 'r) band_reader \<Rightarrow> 'r \<Rightarrow> ('b, 'm) band_reader \<Rightarrow> 'm \<Rightarrow> (nat \<times> nat) list \<Rightarrow>
   raster_dataset \<Rightarrow> raster_dataset \<Rightarrow> ('w, 'v) block_writer \<Rightarrow> 'w \<Rightarrow>
   ('r data_block \<Rightarrow> 'm data_block \<Rightarrow> dimension \<Rightarrow> 'v array3 option) \<Rightarrow> dimension \<Rightarrow> nat \<Rightarrow> (geo_fail, 'w) result" where
  "apply_reduction_with_mask_to_writer pool gd rd zero rdm zerom sched d mds ops w worker dim n_threads =
     (if num_blocks d \<noteq> num_blocks mds then Err (Fails (blocks_mismatch d mds))
      else and_then (pooled pool n_threads (masked_task gd rd zero d rdm zerom mds (\<lambda>b m. worker b m dim) ops) sched w)
        (default_overviews ops))"

definition apply_with_mask_to_writer ::
  "(nat \<Rightarrow> (string, unit) result) \<Rightarrow> ('h, 'b) gdal \<Rightarrow> ('b, 'r) band_reader \<Rightarrow> 'r \<Rightarrow> ('b, 'm) band_reader \<Rightarrow> 'm \<Rightarrow> (nat \<times> nat) list \<Rightarrow>
   raster_dataset \<Rightarrow> raster_dataset \<Rightarrow> ('w, 'v) block_writer \<Rightarrow> 'w \<Rightarrow>
   ('r data_block \<Rightarrow> 'm data_block \<Rightarrow> 'v array3 option) \<Rightarrow> nat \<Rightarrow> (geo_fail, 'w) result" where
  "apply_with_mask_to_writer pool gd rd zero rdm zerom sched d mds ops w worker n_threads =
     (if num_blocks d \<noteq> num_blocks mds then Err (Fails (blocks_mismatch d mds))
      else and_then (pooled pool n_threads (masked_task gd rd zero d rdm zerom mds worker ops) sched w) (default_overviews ops))"

text \<open>
  The row-wise reductions call the worker on one row at a time. A row is indexed by time, layer and
  column; a row result whose length is neither one (which \<open>assign\<close> broadcasts) nor the number of columns
  panics.
\<close>

definition rows_worker :: "'v \<Rightarrow> (nat \<Rightarrow> 'v list option) \<Rightarrow> nat \<Rightarrow> nat \<Rightarrow> 'v array3 option" where
  "rows_worker zero row_out rows cols =
     map_option (\<lambda>outs. \<lparr>a3_layers = 1, a3_rows = rows, a3_cols = cols,
         a3_at = (\<lambda>l r c. if length (outs ! r) = 1 then hd (outs ! r) else outs ! r ! c)\<rparr>)
       (those (map (\<lambda>r. case row_out r of
            None \<Rightarrow> None
          | Some xs \<Rightarrow> if length xs = cols \<or> length xs = 1 then Some xs else None) [0..<rows]))"

definition block_row_view :: "'r data_block \<Rightarrow> nat \<Rightarrow> nat \<Rightarrow> nat \<Rightarrow> nat \<Rightarrow> 'r" where
  "block_row_view b r = (\<lambda>t l c. db_data b t l r c)"

definition apply_reduction_row_pixel_to_writer ::
  "(nat \<Rightarrow> (string, unit) result) \<Rightarrow> ('h, 'b) gdal \<Rightarrow> ('b, 'r) band_reader \<Rightarrow> 'r \<Rightarrow> 'v \<Rightarrow> (nat \<times> nat) list \<Rightarrow> raster_dataset \<Rightarrow>
   ('w, 'v) block_writer \<Rightarrow> 'w \<Rightarrow> (raster_shape \<Rightarrow> (nat \<Rightarrow> nat \<Rightarrow> nat \<Rightarrow> 'r) \<Rightarrow> 'v list option) \<Rightarrow> nat \<Rightarrow> (geo_fail, 'w) result" where
  "apply_reduction_row_pixel_to_writer pool gd rd zero zerov sched d ops w worker n_threads =
     and_then (pooled pool n_threads (region_task gd rd zero d
         (\<lambda>b. rows_worker zerov (\<lambda>r. worker (db_shape b) (block_row_view b r)) (rs_rows (db_shape b)) (rs_cols (db_shape b))) ops) sched w)
       (default_overviews ops)"

definition apply_reduction_row_pixel_with_mask_to_writer ::
  "(nat \<Rightarrow> (string, unit) result) \<Rightarrow> ('h, 'b) gdal \<Rightarrow> ('b, 'r) band_reader \<Rightarrow> 'r \<Rightarrow> ('b, 'm) band_reader \<Rightarrow> 'm \<Rightarrow> 'v \<Rightarrow> (nat \<times> nat) list \<Rightarrow>
   raster_dataset \<Rightarrow> raster_dataset \<Rightarrow> ('w, 'v) block_writer \<Rightarrow> 'w \<Rightarrow>
   (raster_shape \<Rightarrow> (nat \<Rightarrow> nat \<Rightarrow> nat \<Rightarrow> 'r) \<Rightarrow> (nat \<Rightarrow> nat \<Rightarrow> nat \<Rightarrow> 'm) \<Rightarrow> 'v list option) \<Rightarrow> nat \<Rightarrow> (geo_fail, 'w) result" where
  "apply_reduction_row_pixel_with_mask_to_writer pool gd rd zero rdm zerom zerov sched d mds ops w worker n_threads =
     (if num_blocks d \<noteq> num_blocks mds then Err (Fails (blocks_mismatch d mds))
      else and_then (pooled pool n_threads (masked_task gd rd zero d rdm zerom mds
         (\<lambda>b m. if rs_rows (db_shape b) \<le> rs_rows (db_shape m)
            then rows_worker zerov (\<lambda>r. worker (db_shape b) (block_row_view b r) (block_row_view m r)) (rs_rows (db_shape b)) (rs_cols (db_shape b))
            else None) ops) sched w)
       (default_overviews ops))"

section \<open>The entry points that create the output file\<close>

definition create_output ::
  "('f, 'v) gdal_out \<Rightarrow> (string \<Rightarrow> string option) \<Rightarrow> raster_dataset \<Rightarrow> string \<Rightarrow> nat \<Rightarrow> 'v \<Rightarrow> (geo_fail, 'f gtiff_writer) result" where
  "create_output go parent d out bands na =
     map_err Fails (gtiff_create go parent out (dm_transform (ds_metadata d)) (dm_epsg (ds_metadata d))
       (rs_rows (dm_shape (ds_metadata d))) (rs_cols (dm_shape (ds_metadata d))) bands na)"

definition apply_reduction ::
  "(nat \<Rightarrow> (string, unit) result) \<Rightarrow> ('h, 'b) gdal \<Rightarrow> ('b, 'r) band_reader \<Rightarrow> ('f, 'v) gdal_out \<Rightarrow> (string \<Rightarrow> string option) \<Rightarrow> 'r \<Rightarrow>
   (nat \<times> nat) list \<Rightarrow> raster_dataset \<Rightarrow> ('r data_block \<Rightarrow> dimension \<Rightarrow> 'v array3 option) \<Rightarrow> dimension \<Rightarrow> nat \<Rightarrow> string \<Rightarrow> 'v \<Rightarrow>
   (geo_fail, 'f gtiff_writer) result" where
  "apply_reduction pool gd rd go parent zero sched d worker dim n_threads out na =
     and_then (create_output go parent d out 1 na) (\<lambda>w.
       apply_reduction_to_writer pool gd rd zero sched d (gtiff_ops go) w worker dim n_threads)"

definition apply_reduction_with_mask ::
  "(nat \<Rightarrow> (string, unit) result) \<Rightarrow> ('h, 'b) gdal \<Rightarrow> ('b, 'r) band_reader \<Rightarrow> ('b, 'm) band_reader \<Rightarrow> ('f, 'v) gdal_out \<Rightarrow>
   (string \<Rightarrow> string option) \<Rightarrow> 'r \<Rightarrow> 'm \<Rightarrow> (nat \<times> nat) list \<Rightarrow> raster_dataset \<Rightarrow> raster_dataset \<Rightarrow>
   ('r data_block \<Rightarrow> 'm data_block \<Rightarrow> dimension \<Rightarrow> 'v array3 option) \<Rightarrow> dimension \<Rightarrow> nat \<Rightarrow> string \<Rightarrow> 'v \<Rightarrow> (geo_fail, 'f gtiff_writer) result" where
  "apply_reduction_with_mask pool gd rd rdm go parent zero zerom sched d mds worker dim n_threads out na =
     and_then (create_output go parent d out 1 na) (\<lambda>w.
       apply_reduction_with_mask_to_writer pool gd rd zero rdm zerom sched d mds (gtiff_ops go) w worker dim n_threads)"

text \<open>The probes run the worker on the first block, on the calling thread.\<close>

definition probe_output_layers ::
  "('h, 'b) gdal \<Rightarrow> ('b, 'r) band_reader \<Rightarrow> 'r \<Rightarrow> raster_dataset \<Rightarrow> ('r data_block \<Rightarrow> 'v array3 option) \<Rightarrow> (geo_fail, nat) result" where
  "probe_output_layers gd rd zero d worker =
     (if ds_blocks d = [] then Err (Fails (Other ''dataset has no blocks''))
      else and_then (map_err Fails (fst (read_block gd rd zero Map.empty d (hd (ds_blocks d))))) (\<lambda>probe.
        case worker probe of None \<Rightarrow> Err Panicked | Some a \<Rightarrow> Ok (a3_layers a)))"

definition probe_output_layers_with_mask ::
  "('h, 'b) gdal \<Rightarrow> ('b, 'r) band_reader \<Rightarrow> 'r \<Rightarrow> ('b, 'm) band_reader \<Rightarrow> 'm \<Rightarrow> raster_dataset \<Rightarrow> raster_dataset \<Rightarrow>
   ('r data_block \<Rightarrow> 'm data_block \<Rightarrow> 'v array3 option) \<Rightarrow> (geo_fail, nat) result" where
  "probe_output_layers_with_mask gd rd zero rdm zerom d mds worker =
     (if ds_blocks d = [] then Err (Fails (Other ''dataset has no blocks''))
      else if ds_blocks mds = [] then Err (Fails (Other ''mask has no blocks''))
      else and_then (map_err Fails (fst (read_block gd rd zero Map.empty d (hd (ds_blocks d))))) (\<lambda>probe.
        and_then (map_err Fails (fst (read_block gd rdm zerom Map.empty mds (hd (ds_blocks mds))))) (\<lambda>mask_probe.
        case worker probe mask_probe of None \<Rightarrow> Err Panicked | Some a \<Rightarrow> Ok (a3_layers a))))"

text \<open>\<open>apply\<close> builds no overviews.\<close>

definition apply_raster ::
  "(nat \<Rightarrow> (string, unit) result) \<Rightarrow> ('h, 'b) gdal \<Rightarrow> ('b, 'r) band_reader \<Rightarrow> ('f, 'v) gdal_out \<Rightarrow> (string \<Rightarrow> string option) \<Rightarrow> 'r \<Rightarrow> 'v \<Rightarrow>
   (nat \<times> nat) list \<Rightarrow> raster_dataset \<Rightarrow> ('r data_block \<Rightarrow> 'v array3 option) \<Rightarrow> nat \<Rightarrow> string \<Rightarrow> (geo_fail, 'f gtiff_writer) result" where
  "apply_raster pool gd rd go parent zero zerov sched d worker n_threads out =
     and_then (probe_output_layers gd rd zero d worker) (\<lambda>n_bands.
     and_then (create_output go parent d out n_bands zerov) (\<lambda>w.
       pooled pool n_threads (region_task gd rd zero d worker (gtiff_ops go)) sched w))"

definition apply_with_mask ::
  "(nat \<Rightarrow> (string, unit) result) \<Rightarrow> ('h, 'b) gdal \<Rightarrow> ('b, 'r) band_reader \<Rightarrow> ('b, 'm) band_reader \<Rightarrow> ('f, 'v) gdal_out \<Rightarrow>
   (string \<Rightarrow> string option) \<Rightarrow> 'r \<Rightarrow> 'm \<Rightarrow> 'v \<Rightarrow> (nat \<times> nat) list \<Rightarrow> raster_dataset \<Rightarrow> raster_dataset \<Rightarrow>
   ('r data_block \<Rightarrow> 'm data_block \<Rightarrow> 'v array3 option) \<Rightarrow> nat \<Rightarrow> string \<Rightarrow> (geo_fail, 'f gtiff_writer) result" where
  "apply_with_mask pool gd rd rdm go parent zero zerom zerov sched d mds worker n_threads out =
     and_then (probe_output_layers_with_mask gd rd zero rdm zerom d mds worker) (\<lambda>n_bands.
     and_then (create_output go parent d out n_bands zerov) (\<lambda>w.
       apply_with_mask_to_writer pool gd rd zero rdm zerom sched d mds (gtiff_ops go) w worker n_threads))"

end
