(* ===== verification/Raster_Runs.thy ===== *)
theory Raster_Runs
  imports Raster_Processing "HOL-Library.Multiset"
begin

text \<open>
  What the parallel loops of \<open>processing.rs\<close> compute: the contract of a block writer as a locale, the
  GeoTIFF writer under the documented behaviour of GDAL, the transparency of the handle caches, and
  that a pixelwise worker yields the same raster in every order of the tasks and for every block size.
\<close>

section \<open>The handle caches are transparent\<close>

definition cache_ok :: "('h, 'b) gdal \<Rightarrow> (string \<rightharpoonup> 'h) \<Rightarrow> bool" where
  "cache_ok gd cache \<longleftrightarrow> (\<forall>p h. cache p = Some h \<longrightarrow> g_open gd p = Ok h)"

lemma cache_ok_empty [simp]: "cache_ok gd Map.empty"
  by (simp add: cache_ok_def)

lemma cached_open_fresh:
  "cache_ok gd cache \<Longrightarrow> fst (cached_open gd cache p) = fst (cached_open gd Map.empty p) \<and> cache_ok gd (snd (cached_open gd cache p))"
  by (auto simp: cache_ok_def cached_open_def split: option.splits sum.splits)

lemma read_window_fresh:
  assumes "cache_ok gd cache"
  shows "fst (read_window_cached gd rd cache p b off sz) = fst (read_window_cached gd rd Map.empty p b off sz)"
    and "cache_ok gd (snd (read_window_cached gd rd cache p b off sz))"
  using cached_open_fresh [OF assms, of p] by (simp_all add: read_window_cached_def case_prod_beta)

lemma read_mappings_fresh:
  "cache_ok gd cache \<Longrightarrow> cache_ok gd cache0 \<Longrightarrow>
     fst (read_mappings gd rd cache shape off ms data) = fst (read_mappings gd rd cache0 shape off ms data) \<and>
     cache_ok gd (snd (read_mappings gd rd cache shape off ms data))"
proof (induction ms arbitrary: cache cache0 data)
  case (Cons m ms)
  let ?read = "\<lambda>cache. read_window_cached gd rd cache (lm_source m) (lm_band m) off (rs_cols shape, rs_rows shape)"
  obtain r c1 where 1: "?read cache = (r, c1)" by fastforce
  obtain r' c2 where 2: "?read cache0 = (r', c2)" by fastforce
  note same = read_window_fresh [OF Cons.prems(1), of rd "lm_source m" "lm_band m" off "(rs_cols shape, rs_rows shape)", unfolded 1 fst_conv snd_conv]
    and same0 = read_window_fresh [OF Cons.prems(2), of rd "lm_source m" "lm_band m" off "(rs_cols shape, rs_rows shape)", unfolded 2 fst_conv snd_conv]
  have "r' = r" using same(1) same0(1) by simp
  then show ?case using 1 2 Cons.IH [OF same(2) same0(2)] same(2) by (cases r) simp_all
qed simp

lemma read_block_fresh:
  assumes "cache_ok gd cache"
  shows "fst (read_block gd rd zero cache d x) = fst (read_block gd rd zero Map.empty d x)"
    and "cache_ok gd (snd (read_block gd rd zero cache d x))"
  using read_mappings_fresh [OF assms cache_ok_empty, of rd "window_shape d x" "window_offset x" "ds_mappings d" "\<lambda>_ _ _ _. zero"]
  by (simp_all add: read_block_def case_prod_beta)

section \<open>What a block holds\<close>

text \<open>The value of a cell of the cube: the last mapping of its slot, or zero.\<close>

definition slot_value ::
  "'v \<Rightarrow> (string \<Rightarrow> nat \<Rightarrow> nat \<Rightarrow> nat \<Rightarrow> 'v) \<Rightarrow> layer_mapping list \<Rightarrow> nat \<Rightarrow> nat \<Rightarrow> nat \<Rightarrow> nat \<Rightarrow> 'v" where
  "slot_value zero img ms t l r c = (case find (\<lambda>m. lm_time m = t \<and> lm_layer m = l) (rev ms) of
      Some m \<Rightarrow> img (lm_source m) (lm_band m) r c
    | None \<Rightarrow> zero)"

text \<open>
  The files of a data set can be read and hold the images \<open>img\<close>: every window inside the raster reads
  as the part of the image it covers.
\<close>

definition serves ::
  "('h, 'b) gdal \<Rightarrow> ('b, 'v) band_reader \<Rightarrow> raster_dataset \<Rightarrow> (string \<Rightarrow> nat \<Rightarrow> nat \<Rightarrow> nat \<Rightarrow> 'v) \<Rightarrow> bool" where
  "serves gd rd d img \<longleftrightarrow> (\<forall>m \<in> set (ds_mappings d).
     lm_time m < rs_times (dm_shape (ds_metadata d)) \<and> lm_layer m < rs_layers (dm_shape (ds_metadata d)) \<and>
     (\<exists>h b. g_open gd (lm_source m) = Ok h \<and> g_rasterband gd h (lm_band m) = Ok b \<and>
       (\<forall>r0 c0 rows cols. r0 + rows \<le> rs_rows (dm_shape (ds_metadata d)) \<longrightarrow> c0 + cols \<le> rs_cols (dm_shape (ds_metadata d)) \<longrightarrow>
          (\<exists>a. r_read_as rd b (int c0, int r0) (cols, rows) = Ok (Ok a) \<and>
             (\<forall>r c. r < rows \<longrightarrow> c < cols \<longrightarrow> a r c = img (lm_source m) (lm_band m) (r0 + r) (c0 + c))))))"

lemma slot_value_snoc:
  "slot_value zero img (ms @ [m]) t l r c =
     (if lm_time m = t \<and> lm_layer m = l then img (lm_source m) (lm_band m) r c else slot_value zero img ms t l r c)"
  by (simp add: slot_value_def)

lemma read_mappings_value:
  assumes "\<And>m. m \<in> set ms \<Longrightarrow> lm_time m < rs_times shape \<and> lm_layer m < rs_layers shape \<and>
      (\<exists>a. fst (read_window_cached gd rd Map.empty (lm_source m) (lm_band m) off (rs_cols shape, rs_rows shape)) = Ok a \<and>
        (\<forall>r c. r < rs_rows shape \<longrightarrow> c < rs_cols shape \<longrightarrow> a r c = img (lm_source m) (lm_band m) (r0 + r) (c0 + c)))"
    and "cache_ok gd cache"
    and "\<forall>t l r c. r < rs_rows shape \<longrightarrow> c < rs_cols shape \<longrightarrow> data t l r c = slot_value zero img pre t l (r0 + r) (c0 + c)"
  shows "\<exists>out. fst (read_mappings gd rd cache shape off ms data) = Ok out \<and>
    (\<forall>t l r c. r < rs_rows shape \<longrightarrow> c < rs_cols shape \<longrightarrow> out t l r c = slot_value zero img (pre @ ms) t l (r0 + r) (c0 + c))"
  using assms
proof (induction ms arbitrary: cache data pre)
  case (Cons m ms)
  obtain a where m: "lm_time m < rs_times shape" "lm_layer m < rs_layers shape"
    "fst (read_window_cached gd rd Map.empty (lm_source m) (lm_band m) off (rs_cols shape, rs_rows shape)) = Ok a"
    "\<forall>r c. r < rs_rows shape \<longrightarrow> c < rs_cols shape \<longrightarrow> a r c = img (lm_source m) (lm_band m) (r0 + r) (c0 + c)"
    using Cons.prems(1) [of m] by auto
  obtain c1 where w: "read_window_cached gd rd cache (lm_source m) (lm_band m) off (rs_cols shape, rs_rows shape) = (Ok a, c1)"
    using m(3) read_window_fresh(1) [OF Cons.prems(2)] by (metis prod.collapse)
  have c1: "cache_ok gd c1" using read_window_fresh(2) [OF Cons.prems(2)] w by (metis snd_conv)
  let ?data = "\<lambda>t l. if t = lm_time m \<and> l = lm_layer m then a else data t l"
  have "\<exists>out. fst (read_mappings gd rd c1 shape off ms ?data) = Ok out \<and>
      (\<forall>t l r c. r < rs_rows shape \<longrightarrow> c < rs_cols shape \<longrightarrow> out t l r c = slot_value zero img ((pre @ [m]) @ ms) t l (r0 + r) (c0 + c))"
  proof (rule Cons.IH [OF _ c1])
    show "\<forall>t l r c. r < rs_rows shape \<longrightarrow> c < rs_cols shape \<longrightarrow> ?data t l r c = slot_value zero img (pre @ [m]) t l (r0 + r) (c0 + c)"
      using m(4) Cons.prems(3) by (auto simp: slot_value_snoc)
  qed (use Cons.prems(1) in auto)
  then show ?case using w m(1,2) by simp
qed auto

lemma read_block_value:
  assumes "serves gd rd d img" and "window_inside (dm_shape (ds_metadata d)) (rr_window x)"
    and "rs_rows (dm_shape (ds_metadata d)) < 2 ^ 63" "rs_cols (dm_shape (ds_metadata d)) < 2 ^ 63"
  shows "\<exists>block. fst (read_block gd rd zero Map.empty d x) = Ok block \<and>
    int (rs_rows (db_shape block)) = size_rows (win_size (rr_window x)) \<and>
    int (rs_cols (db_shape block)) = size_cols (win_size (rr_window x)) \<and>
    rs_times (db_shape block) = rs_times (dm_shape (ds_metadata d)) \<and> rs_layers (db_shape block) = rs_layers (dm_shape (ds_metadata d)) \<and>
    (\<forall>t l r c. r < rs_rows (db_shape block) \<longrightarrow> c < rs_cols (db_shape block) \<longrightarrow>
       db_data block t l r c = slot_value zero img (ds_mappings d) t l
         (nat (off_rows (win_offset (rr_window x))) + r) (nat (off_cols (win_offset (rr_window x))) + c))"
proof -
  let ?w = "rr_window x" and ?sh = "window_shape d x"
  define r0 where "r0 = nat (off_rows (win_offset ?w))"
  define c0 where "c0 = nat (off_cols (win_offset ?w))"
  have off: "window_offset x = (int c0, int r0)" using assms(2) by (simp add: window_offset_def window_inside_def r0_def c0_def)
  have sz: "int (rs_rows ?sh) = size_rows (win_size ?w)" "int (rs_cols ?sh) = size_cols (win_size ?w)"
    using assms(2-4) by (simp_all add: window_shape_def as_usize_def window_inside_def window_non_empty_def)
  have fit: "r0 + rs_rows ?sh \<le> rs_rows (dm_shape (ds_metadata d))" "c0 + rs_cols ?sh \<le> rs_cols (dm_shape (ds_metadata d))"
    using assms(2) sz by (auto simp: window_inside_def r0_def c0_def)
  have read: "lm_time m < rs_times ?sh \<and> lm_layer m < rs_layers ?sh \<and>
      (\<exists>a. fst (read_window_cached gd rd Map.empty (lm_source m) (lm_band m) (window_offset x) (rs_cols ?sh, rs_rows ?sh)) = Ok a \<and>
        (\<forall>r c. r < rs_rows ?sh \<longrightarrow> c < rs_cols ?sh \<longrightarrow> a r c = img (lm_source m) (lm_band m) (r0 + r) (c0 + c)))"
    if m: "m \<in> set (ds_mappings d)" for m
  proof -
    obtain h b where h: "lm_time m < rs_times (dm_shape (ds_metadata d))" "lm_layer m < rs_layers (dm_shape (ds_metadata d))"
      "g_open gd (lm_source m) = Ok h" "g_rasterband gd h (lm_band m) = Ok b"
      "\<And>r0 c0 rows cols. r0 + rows \<le> rs_rows (dm_shape (ds_metadata d)) \<Longrightarrow> c0 + cols \<le> rs_cols (dm_shape (ds_metadata d)) \<Longrightarrow>
          \<exists>a. r_read_as rd b (int c0, int r0) (cols, rows) = Ok (Ok a) \<and>
             (\<forall>r c. r < rows \<longrightarrow> c < cols \<longrightarrow> a r c = img (lm_source m) (lm_band m) (r0 + r) (c0 + c))"
      using assms(1) m unfolding serves_def by blast
    obtain a where "r_read_as rd b (int c0, int r0) (rs_cols ?sh, rs_rows ?sh) = Ok (Ok a)"
      "\<forall>r c. r < rs_rows ?sh \<longrightarrow> c < rs_cols ?sh \<longrightarrow> a r c = img (lm_source m) (lm_band m) (r0 + r) (c0 + c)"
      using h(5) [OF fit] by blast
    then show ?thesis using h(1-4) unfolding off by (simp add: read_window_cached_def cached_open_def read_band_def window_shape_def)
  qed
  have start: "\<forall>t l r c. r < rs_rows ?sh \<longrightarrow> c < rs_cols ?sh \<longrightarrow> zero = slot_value zero img [] t l (r0 + r) (c0 + c)"
    by (simp add: slot_value_def)
  obtain out where "fst (read_mappings gd rd Map.empty ?sh (window_offset x) (ds_mappings d) (\<lambda>_ _ _ _. zero)) = Ok out"
    "\<forall>t l r c. r < rs_rows ?sh \<longrightarrow> c < rs_cols ?sh \<longrightarrow> out t l r c = slot_value zero img (ds_mappings d) t l (r0 + r) (c0 + c)"
    using read_mappings_value [of "ds_mappings d" ?sh gd rd "window_offset x" img r0 c0 Map.empty "\<lambda>_ _ _ _. zero" zero "[]", OF read cache_ok_empty start]
    by auto
  then show ?thesis using sz unfolding r0_def c0_def by (auto simp: read_block_def window_shape_def case_prod_beta)
qed

section \<open>The contract of a block writer\<close>

text \<open>An array that fills a window inside a raster of the given size.\<close>

definition fills :: "'v array3 \<Rightarrow> read_window \<Rightarrow> nat \<Rightarrow> nat \<Rightarrow> bool" where
  "fills a w rows cols \<longleftrightarrow> int (a3_rows a) = size_rows (win_size w) \<and> int (a3_cols a) = size_cols (win_size w) \<and>
     0 \<le> off_rows (win_offset w) \<and> 0 \<le> off_cols (win_offset w) \<and>
     off_rows (win_offset w) + size_rows (win_size w) \<le> int rows \<and> off_cols (win_offset w) + size_cols (win_size w) \<le> int cols"

text \<open>The element of the array that lands on a pixel of its window.\<close>

definition landed :: "'v array3 \<Rightarrow> read_window \<Rightarrow> nat \<Rightarrow> nat \<Rightarrow> nat \<Rightarrow> 'v" where
  "landed a w l r c = a3_at a l (r - nat (off_rows (win_offset w))) (c - nat (off_cols (win_offset w)))"

locale block_sink =
  fixes ops :: "('w, 'v) block_writer"
    and sink_ok :: "'w \<Rightarrow> bool"
    and dims :: "'w \<Rightarrow> nat \<times> nat \<times> nat"
    and pix :: "'w \<Rightarrow> nat \<Rightarrow> nat \<Rightarrow> nat \<Rightarrow> 'v"
  assumes write_lands: "sink_ok w \<Longrightarrow> dims w = (bands, rows, cols) \<Longrightarrow> a3_layers a \<le> bands \<Longrightarrow> fills a win rows cols \<Longrightarrow>
      \<exists>w'. bw_write ops w a win = Ok w' \<and> sink_ok w' \<and> dims w' = dims w \<and>
        (\<forall>l r c. pix w' l r c = (if l < a3_layers a \<and> covers win r c then landed a win l r c else pix w l r c))"
    and overviews_keep: "sink_ok w \<Longrightarrow> bw_overviews ops w resampling levels = Ok w' \<Longrightarrow>
      sink_ok w' \<and> dims w' = dims w \<and> pix w' = pix w"
begin

text \<open>Tasks that write disjoint windows, in any order.\<close>

lemma run_lands:
  assumes "\<And>t k caches w. k \<in> K \<Longrightarrow> \<forall>i. cache_ok gd (caches i) \<Longrightarrow> sink_ok w \<Longrightarrow> dims w = (bands, rows, cols) \<Longrightarrow>
      \<exists>caches'. (\<forall>i. cache_ok gd (caches' i)) \<and>
        task (t, k) (caches, w) = and_then (map_err Fails (bw_write ops w (got k) (win k))) (\<lambda>w'. Ok (caches', w'))"
    and "\<And>k. k \<in> K \<Longrightarrow> a3_layers (got k) \<le> bands \<and> fills (got k) (win k) rows cols"
    and "\<And>k j r c. k \<in> K \<Longrightarrow> j \<in> K \<Longrightarrow> covers (win k) r c \<Longrightarrow> covers (win j) r c \<Longrightarrow> k = j"
    and "distinct (map snd sched)" "snd ` set sched \<subseteq> K"
    and "\<forall>i. cache_ok gd (caches i)" "sink_ok w" "dims w = (bands, rows, cols)"
  shows "\<exists>caches' w'. try_each task sched (caches, w) = Ok (caches', w') \<and> sink_ok w' \<and> dims w' = dims w \<and>
    (\<forall>l r c. (\<forall>k \<in> snd ` set sched. l < a3_layers (got k) \<longrightarrow> covers (win k) r c \<longrightarrow> pix w' l r c = landed (got k) (win k) l r c) \<and>
       ((\<forall>k \<in> snd ` set sched. \<not> covers (win k) r c) \<longrightarrow> pix w' l r c = pix w l r c))"
  using assms(4-)
proof (induction sched arbitrary: caches w)
  case (Cons x sched)
  obtain t k where x: "x = (t, k)" by (cases x)
  have k: "k \<in> K" and ks: "k \<notin> snd ` set sched" "snd ` set sched \<subseteq> K" "distinct (map snd sched)" using Cons.prems x by auto
  obtain c1 where c1: "\<forall>i. cache_ok gd (c1 i)"
    "task (t, k) (caches, w) = and_then (map_err Fails (bw_write ops w (got k) (win k))) (\<lambda>w'. Ok (c1, w'))"
    using assms(1) [OF k Cons.prems(3-5)] by blast
  obtain w1 where w1: "bw_write ops w (got k) (win k) = Ok w1" "sink_ok w1" "dims w1 = dims w"
    "\<forall>l r c. pix w1 l r c = (if l < a3_layers (got k) \<and> covers (win k) r c then landed (got k) (win k) l r c else pix w l r c)"
    using write_lands [OF Cons.prems(4,5)] assms(2) [OF k] by blast
  obtain c2 w2 where w2: "try_each task sched (c1, w1) = Ok (c2, w2)" "sink_ok w2" "dims w2 = dims w1"
    "\<And>l r c j. j \<in> snd ` set sched \<Longrightarrow> l < a3_layers (got j) \<Longrightarrow> covers (win j) r c \<Longrightarrow> pix w2 l r c = landed (got j) (win j) l r c"
    "\<And>l r c. \<forall>j \<in> snd ` set sched. \<not> covers (win j) r c \<Longrightarrow> pix w2 l r c = pix w1 l r c"
    using Cons.IH [OF ks(3,2) c1(1) w1(2)] w1(3) Cons.prems(5) by metis
  have "pix w2 l r c = landed (got j) (win j) l r c"
    if j: "j \<in> snd ` set (x # sched)" "l < a3_layers (got j)" "covers (win j) r c" for j l r c
  proof (cases "j = k")
    case True
    have "\<forall>i \<in> snd ` set sched. \<not> covers (win i) r c" using assms(3) [OF k _ j(3) [unfolded True]] ks by blast
    then show ?thesis using w2(5) w1(4) j True by simp
  qed (use j x w2(4) in auto)
  moreover have "pix w2 l r c = pix w l r c" if "\<forall>j \<in> snd ` set (x # sched). \<not> covers (win j) r c" for l r c
    using that x w2(5) w1(4) by simp
  ultimately show ?case using c1 w1(1,3) w2(1-3) x by auto
qed auto

end

section \<open>Pixelwise workers\<close>

text \<open>
  A data set as the builder leaves it, without overlap; its times and layers may be changed afterwards,
  as the callers do.
\<close>

definition gridded :: "raster_dataset \<Rightarrow> bool" where
  "gridded d \<longleftrightarrow> (\<exists>shape bs ov g epsg. rs_rows shape = rs_rows (dm_shape (ds_metadata d)) \<and>
     rs_cols shape = rs_cols (dm_shape (ds_metadata d)) \<and> fits shape bs \<and> overlap_is_zero ov \<and>
     partition_blocks shape bs ov g epsg = Some (ds_blocks d))"

text \<open>A worker that computes every pixel of every layer from the values of the cube at that pixel.\<close>

definition pixelwise ::
  "raster_dataset \<Rightarrow> nat \<Rightarrow> (nat \<Rightarrow> (nat \<Rightarrow> nat \<Rightarrow> 'r) \<Rightarrow> 'v) \<Rightarrow> ('r data_block \<Rightarrow> 'v array3 option) \<Rightarrow> bool" where
  "pixelwise d n f worker \<longleftrightarrow> (\<forall>b. rs_times (db_shape b) = rs_times (dm_shape (ds_metadata d)) \<longrightarrow>
     rs_layers (db_shape b) = rs_layers (dm_shape (ds_metadata d)) \<longrightarrow>
     (\<exists>a. worker b = Some a \<and> a3_layers a = n \<and> a3_rows a = rs_rows (db_shape b) \<and> a3_cols a = rs_cols (db_shape b) \<and>
       (\<forall>l r c. l < n \<longrightarrow> r < a3_rows a \<longrightarrow> c < a3_cols a \<longrightarrow> a3_at a l r c = f l (\<lambda>t l'. db_data b t l' r c))))"

lemma gridded_region:
  assumes "gridded d" and "k < num_blocks d"
  shows "window_inside (dm_shape (ds_metadata d)) (rr_window (ds_blocks d ! k))" "overlap_is_zero (rr_overlap (ds_blocks d ! k))"
    "write_window (ds_blocks d ! k) = rr_window (ds_blocks d ! k)"
    "rs_rows (dm_shape (ds_metadata d)) < 2 ^ 63" "rs_cols (dm_shape (ds_metadata d)) < 2 ^ 63"
proof -
  obtain shape bs ov g epsg where g: "rs_rows shape = rs_rows (dm_shape (ds_metadata d))" "rs_cols shape = rs_cols (dm_shape (ds_metadata d))"
    "fits shape bs" "overlap_is_zero ov" "partition_blocks shape bs ov g epsg = Some (ds_blocks d)" using assms(1) by (auto simp: gridded_def)
  note r = partition_region [OF g(3,5)] assms(2) [unfolded num_blocks_def]
  show "window_inside (dm_shape (ds_metadata d)) (rr_window (ds_blocks d ! k))" using r g(1,2) by (simp add: window_inside_def)
  show o: "overlap_is_zero (rr_overlap (ds_blocks d ! k))" using r g(4) by simp
  show "write_window (ds_blocks d ! k) = rr_window (ds_blocks d ! k)" using o by (rule write_window_plain)
  show "rs_rows (dm_shape (ds_metadata d)) < 2 ^ 63" "rs_cols (dm_shape (ds_metadata d)) < 2 ^ 63"
    using g(3) unfolding g(1) [symmetric] g(2) [symmetric] by (simp_all add: fits_def)
qed

lemma gridded_tiles:
  assumes "gridded d" and "r < rs_rows (dm_shape (ds_metadata d))" "c < rs_cols (dm_shape (ds_metadata d))"
  shows "\<exists>!k. k < num_blocks d \<and> covers (rr_window (ds_blocks d ! k)) r c"
proof -
  obtain shape bs ov g epsg where g: "rs_rows shape = rs_rows (dm_shape (ds_metadata d))" "rs_cols shape = rs_cols (dm_shape (ds_metadata d))"
    "fits shape bs" "partition_blocks shape bs ov g epsg = Some (ds_blocks d)" using assms(1) by (auto simp: gridded_def)
  show ?thesis using partition_tiles [OF g(3,4)] assms(2,3) g(1,2) by (simp add: num_blocks_def)
qed

lemma covers_inside:
  assumes "window_inside shape w" and "covers w r c"
  shows "r < rs_rows shape" "c < rs_cols shape"
    "r - nat (off_rows (win_offset w)) < nat (size_rows (win_size w))" "c - nat (off_cols (win_offset w)) < nat (size_cols (win_size w))"
    "nat (off_rows (win_offset w)) + (r - nat (off_rows (win_offset w))) = r"
    "nat (off_cols (win_offset w)) + (c - nat (off_cols (win_offset w))) = c"
  using assms by (auto simp: window_inside_def covers_def)

text \<open>The array a task computes, and the pixels it lands on.\<close>

lemma task_array:
  assumes "gridded d" "serves gd rd d img" "pixelwise d n f worker" and "k < num_blocks d"
  shows "\<exists>block a. fst (read_block gd rd zero Map.empty d (ds_blocks d ! k)) = Ok block \<and> worker block = Some a \<and> a3_layers a = n \<and>
    fills a (rr_window (ds_blocks d ! k)) (rs_rows (dm_shape (ds_metadata d))) (rs_cols (dm_shape (ds_metadata d))) \<and>
    (\<forall>l r c. l < n \<longrightarrow> covers (rr_window (ds_blocks d ! k)) r c \<longrightarrow>
       landed a (rr_window (ds_blocks d ! k)) l r c = f l (\<lambda>t l'. slot_value zero img (ds_mappings d) t l' r c))"
proof -
  let ?x = "ds_blocks d ! k"
  note g = gridded_region [OF assms(1,4)]
  obtain block where b: "fst (read_block gd rd zero Map.empty d ?x) = Ok block"
    "int (rs_rows (db_shape block)) = size_rows (win_size (rr_window ?x))" "int (rs_cols (db_shape block)) = size_cols (win_size (rr_window ?x))"
    "rs_times (db_shape block) = rs_times (dm_shape (ds_metadata d))" "rs_layers (db_shape block) = rs_layers (dm_shape (ds_metadata d))"
    "\<And>t l r c. r < rs_rows (db_shape block) \<Longrightarrow> c < rs_cols (db_shape block) \<Longrightarrow>
       db_data block t l r c = slot_value zero img (ds_mappings d) t l
         (nat (off_rows (win_offset (rr_window ?x))) + r) (nat (off_cols (win_offset (rr_window ?x))) + c)"
    using read_block_value [OF assms(2) g(1,4,5)] by blast
  obtain a where a: "worker block = Some a" "a3_layers a = n" "a3_rows a = rs_rows (db_shape block)" "a3_cols a = rs_cols (db_shape block)"
    "\<And>l r c. l < n \<Longrightarrow> r < a3_rows a \<Longrightarrow> c < a3_cols a \<Longrightarrow> a3_at a l r c = f l (\<lambda>t l'. db_data block t l' r c)"
    using assms(3) b(4,5) unfolding pixelwise_def by blast
  have dims: "nat (size_rows (win_size (rr_window ?x))) = a3_rows a" "nat (size_cols (win_size (rr_window ?x))) = a3_cols a"
    using b(2,3) a(3,4) by linarith+
  have "fills a (rr_window ?x) (rs_rows (dm_shape (ds_metadata d))) (rs_cols (dm_shape (ds_metadata d)))"
    using g(1) a(3,4) b(2,3) by (simp add: fills_def window_inside_def)
  moreover have "landed a (rr_window ?x) l r c = f l (\<lambda>t l'. slot_value zero img (ds_mappings d) t l' r c)"
    if "l < n" "covers (rr_window ?x) r c" for l r c
    unfolding landed_def using covers_inside [OF g(1) that(2), unfolded dims] a(3-5) b(6) that(1) by simp
  ultimately show ?thesis using b(1) a(1,2) by blast
qed

lemma region_task_runs:
  assumes "\<forall>i. cache_ok gd (caches i)" and "fst (read_block gd rd zero Map.empty d (ds_blocks d ! k)) = Ok block"
    and "worker block = Some a" and "overlap_is_zero (rr_overlap (ds_blocks d ! k))"
  shows "\<exists>caches'. (\<forall>i. cache_ok gd (caches' i)) \<and> region_task gd rd zero d worker ops (t, k) (caches, w) =
    and_then (map_err Fails (bw_write ops w a (rr_window (ds_blocks d ! k)))) (\<lambda>w'. Ok (caches', w'))"
proof -
  obtain cache' where r: "read_block gd rd zero (caches t) d (ds_blocks d ! k) = (Ok block, cache')"
    using read_block_fresh(1) [of gd "caches t" rd zero d "ds_blocks d ! k"] assms(1,2) by (metis prod.collapse)
  then have "cache_ok gd cache'" using read_block_fresh(2) [of gd "caches t" rd zero d "ds_blocks d ! k"] assms(1) by simp
  then have "\<forall>i. cache_ok gd ((caches(t := cache')) i)" using assms(1) by simp
  moreover have "region_task gd rd zero d worker ops (t, k) (caches, w) =
      and_then (map_err Fails (bw_write ops w a (rr_window (ds_blocks d ! k)))) (\<lambda>w'. Ok (caches(t := cache'), w'))"
    using r assms(3,4) by (simp add: region_task_def land_block_def trim_overlap_def write_window_plain)
  ultimately show ?thesis by blast
qed

context block_sink
begin

lemma run_pixels:
  assumes "gridded d" "serves gd rd d img" "pixelwise d n f worker" and "mset (map snd sched) = mset [0..<num_blocks d]"
    and "sink_ok w" "dims w = (bands, rs_rows (dm_shape (ds_metadata d)), rs_cols (dm_shape (ds_metadata d)))" "n \<le> bands"
  shows "\<exists>caches' w'. try_each (region_task gd rd zero d worker ops) sched (\<lambda>_. Map.empty, w) = Ok (caches', w') \<and>
    sink_ok w' \<and> dims w' = dims w \<and>
    (\<forall>l r c. l < n \<longrightarrow> r < rs_rows (dm_shape (ds_metadata d)) \<longrightarrow> c < rs_cols (dm_shape (ds_metadata d)) \<longrightarrow>
       pix w' l r c = f l (\<lambda>t l'. slot_value zero img (ds_mappings d) t l' r c))"
proof -
  let ?R = "rs_rows (dm_shape (ds_metadata d))" and ?C = "rs_cols (dm_shape (ds_metadata d))" and ?K = "{..<num_blocks d}"
  let ?win = "\<lambda>k. rr_window (ds_blocks d ! k)"
  define blk where "blk k = projr (fst (read_block gd rd zero Map.empty d (ds_blocks d ! k)))" for k
  define got where "got k = the (worker (blk k))" for k
  have b: "fst (read_block gd rd zero Map.empty d (ds_blocks d ! k)) = Ok (blk k)" "worker (blk k) = Some (got k)" "a3_layers (got k) = n"
      "fills (got k) (?win k) ?R ?C"
      "\<And>l r c. l < n \<Longrightarrow> covers (?win k) r c \<Longrightarrow>
         landed (got k) (?win k) l r c = f l (\<lambda>t l'. slot_value zero img (ds_mappings d) t l' r c)" if "k < num_blocks d" for k
    using task_array [OF assms(1-3) that, of zero] unfolding blk_def got_def by auto
  have set: "snd ` set sched = ?K" "distinct (map snd sched)"
    using mset_eq_setD [OF assms(4)] mset_eq_imp_distinct_iff [OF assms(4)] by auto
  have task: "\<exists>caches'. (\<forall>i. cache_ok gd (caches' i)) \<and> region_task gd rd zero d worker ops (t, k) (caches, w) =
      and_then (map_err Fails (bw_write ops w (got k) (?win k))) (\<lambda>w'. Ok (caches', w'))"
    if "k \<in> ?K" "\<forall>i. cache_ok gd (caches i)" for t k caches w
    by (rule region_task_runs [where block = "blk k"]) (use that b(1,2) gridded_region(2) [OF assms(1)] in simp_all)
  have size: "a3_layers (got k) \<le> bands \<and> fills (got k) (?win k) ?R ?C" if "k \<in> ?K" for k
    using b(3,4) assms(7) that by simp
  have disj: "k = j" if "k \<in> ?K" "j \<in> ?K" "covers (?win k) r c" "covers (?win j) r c" for k j r c
    using gridded_tiles [OF assms(1), of r c] covers_inside(1,2) [OF gridded_region(1) [OF assms(1)] that(3)] that by auto
  have fresh: "\<forall>i::nat. cache_ok gd Map.empty" by simp
  have "\<exists>caches' w'. try_each (region_task gd rd zero d worker ops) sched (\<lambda>_. Map.empty, w) = Ok (caches', w') \<and>
      sink_ok w' \<and> dims w' = dims w \<and>
      (\<forall>l r c. (\<forall>k \<in> snd ` set sched. l < a3_layers (got k) \<longrightarrow> covers (?win k) r c \<longrightarrow> pix w' l r c = landed (got k) (?win k) l r c) \<and>
        ((\<forall>k \<in> snd ` set sched. \<not> covers (?win k) r c) \<longrightarrow> pix w' l r c = pix w l r c))"
    by (rule run_lands [where K = ?K and gd = gd and bands = bands and rows = ?R and cols = ?C and got = got and win = ?win];
        ((rule task size disj set(2) equalityD1 [OF set(1)] fresh assms(5,6)); assumption))
  then obtain caches' w' where w': "try_each (region_task gd rd zero d worker ops) sched (\<lambda>_. Map.empty, w) = Ok (caches', w')"
    "sink_ok w'" "dims w' = dims w"
    and px: "\<forall>l r c. (\<forall>k \<in> snd ` set sched. l < a3_layers (got k) \<longrightarrow> covers (?win k) r c \<longrightarrow> pix w' l r c = landed (got k) (?win k) l r c) \<and>
        ((\<forall>k \<in> snd ` set sched. \<not> covers (?win k) r c) \<longrightarrow> pix w' l r c = pix w l r c)"
    by (elim exE conjE)
  have "pix w' l r c = f l (\<lambda>t l'. slot_value zero img (ds_mappings d) t l' r c)" if lrc: "l < n" "r < ?R" "c < ?C" for l r c
  proof -
    obtain k where k: "k < num_blocks d" "covers (?win k) r c" using gridded_tiles [OF assms(1) lrc(2,3)] by blast
    then have "pix w' l r c = landed (got k) (?win k) l r c" 
      using px [THEN spec, of l, THEN spec, of r, THEN spec, of c, THEN conjunct1, THEN bspec, of k] b(3) [OF k(1)] k lrc(1) set(1) by simp
    then show ?thesis using b(5) [OF k(1) lrc(1) k(2)] by simp
  qed
  then show ?thesis using w'(1-3) by blast
qed

lemma reduction_pixels:
  assumes "gridded d" "serves gd rd d img" "pixelwise d n f (\<lambda>b. worker b dim)" and "mset (map snd sched) = mset [0..<num_blocks d]"
    and "sink_ok w" "dims w = (bands, rs_rows (dm_shape (ds_metadata d)), rs_cols (dm_shape (ds_metadata d)))" "n \<le> bands"
    and "pool (max n_threads 1) = Ok ()"
  shows "\<exists>w'. apply_reduction_to_writer pool gd rd zero sched d ops w worker dim n_threads = default_overviews ops w' \<and>
    sink_ok w' \<and> dims w' = dims w \<and>
    (\<forall>l r c. l < n \<longrightarrow> r < rs_rows (dm_shape (ds_metadata d)) \<longrightarrow> c < rs_cols (dm_shape (ds_metadata d)) \<longrightarrow>
       pix w' l r c = f l (\<lambda>t l'. slot_value zero img (ds_mappings d) t l' r c))"
proof -
  obtain caches' w' where "try_each (region_task gd rd zero d (\<lambda>b. worker b dim) ops) sched (\<lambda>_. Map.empty, w) = Ok (caches', w')"
    and rest: "sink_ok w'" "dims w' = dims w"
    "\<forall>l r c. l < n \<longrightarrow> r < rs_rows (dm_shape (ds_metadata d)) \<longrightarrow> c < rs_cols (dm_shape (ds_metadata d)) \<longrightarrow>
       pix w' l r c = f l (\<lambda>t l'. slot_value zero img (ds_mappings d) t l' r c)"
    using run_pixels [OF assms(1-7), of zero] by (elim exE conjE)
  then have "apply_reduction_to_writer pool gd rd zero sched d ops w worker dim n_threads = default_overviews ops w'"
    using assms(8) by (simp add: apply_reduction_to_writer_def pooled_def)
  then show ?thesis using rest by blast
qed

lemma overviews_pixels: "sink_ok w \<Longrightarrow> default_overviews ops w = Ok w' \<Longrightarrow> pix w' = pix w"
  using overviews_keep by (simp add: default_overviews_def)

end

section \<open>The GeoTIFF writer\<close>

text \<open>
  What the writer relies on of GDAL: a new file has the requested size, settings and overviews do not
  touch the pixels, and writing a window inside the raster succeeds and changes exactly its pixels.
\<close>

locale gdal_sink =
  fixes go :: "('f, 'v) gdal_out"
    and fdims :: "'f \<Rightarrow> nat \<times> nat \<times> nat"
    and fpix :: "'f \<Rightarrow> nat \<Rightarrow> nat \<Rightarrow> nat \<Rightarrow> 'v"
  assumes creates: "o_create go path cols rows bands = Ok f \<Longrightarrow> fdims f = (bands, rows, cols)"
    and transform_keeps: "o_set_transform go f g = Ok f' \<Longrightarrow> fdims f' = fdims f"
    and srs_keeps: "o_set_srs go f epsg = Ok f' \<Longrightarrow> fdims f' = fdims f"
    and no_data_keeps: "o_set_no_data go f b nd = Ok f' \<Longrightarrow> fdims f' = fdims f"
    and opens: "\<exists>f'. o_open_ex go f = Ok f' \<and> fdims f' = fdims f \<and> fpix f' = fpix f"
    and band_exists: "fdims f = (bands, rows, cols) \<Longrightarrow> 1 \<le> b \<Longrightarrow> b \<le> bands \<Longrightarrow> o_rasterband go f b = Ok ()"
    and writes: "fdims f = (bands, rows, cols) \<Longrightarrow> 1 \<le> b \<Longrightarrow> b \<le> bands \<Longrightarrow> r0 + h \<le> rows \<Longrightarrow> c0 + w \<le> cols \<Longrightarrow> length xs = h * w \<Longrightarrow>
      \<exists>f'. o_write go f b (int c0, int r0) (w, h) xs = Ok f' \<and> fdims f' = fdims f \<and>
        (\<forall>l r c. fpix f' l r c = (if l + 1 = b \<and> r0 \<le> r \<and> r < r0 + h \<and> c0 \<le> c \<and> c < c0 + w
           then xs ! ((r - r0) * w + (c - c0)) else fpix f l r c))"
    and overviews_harmless: "o_overviews go f resampling levels = Ok f' \<Longrightarrow> fdims f' = fdims f \<and> fpix f' = fpix f"

lemma layer_values_nth: "i < a3_rows a \<Longrightarrow> j < a3_cols a \<Longrightarrow> layer_values a l ! (i * a3_cols a + j) = a3_at a l i j"
proof -
  assume ij: "i < a3_rows a" "j < a3_cols a"
  have "i * a3_cols a + j < Suc i * a3_cols a" using ij(2) by simp
  also have "\<dots> \<le> a3_rows a * a3_cols a" using ij(1) by (intro mult_le_mono1) simp
  finally show ?thesis using ij by (simp add: layer_values_def grid_flat)
qed

lemma layer_values_length: "length (layer_values a l) = a3_rows a * a3_cols a"
  by (simp add: layer_values_def grid_flat)

lemma fills_window:
  assumes "fills a win rows cols"
  obtains r0 c0 where "off_rows (win_offset win) = int r0" "off_cols (win_offset win) = int c0"
    "r0 + a3_rows a \<le> rows" "c0 + a3_cols a \<le> cols"
    "\<And>r c. covers win r c \<longleftrightarrow> r0 \<le> r \<and> r < r0 + a3_rows a \<and> c0 \<le> c \<and> c < c0 + a3_cols a"
    "\<And>l r c. landed a win l r c = a3_at a l (r - r0) (c - c0)"
proof (rule that [of "nat (off_rows (win_offset win))" "nat (off_cols (win_offset win))"])
  show "covers win r c \<longleftrightarrow> nat (off_rows (win_offset win)) \<le> r \<and> r < nat (off_rows (win_offset win)) + a3_rows a \<and>
      nat (off_cols (win_offset win)) \<le> c \<and> c < nat (off_cols (win_offset win)) + a3_cols a" for r c
    using assms by (auto simp: fills_def covers_def)
qed (use assms in \<open>auto simp: fills_def landed_def\<close>)

context gdal_sink
begin

lemma layers_written:
  assumes "fills a win rows cols"
  shows "distinct ls \<Longrightarrow> \<forall>l \<in> set ls. l < bands \<Longrightarrow> fdims f = (bands, rows, cols) \<Longrightarrow>
    \<exists>f'. write_layers go a win ls f = Ok f' \<and> fdims f' = fdims f \<and>
      (\<forall>l r c. fpix f' l r c = (if l \<in> set ls \<and> covers win r c then landed a win l r c else fpix f l r c))"
proof (induction ls arbitrary: f)
  case (Cons x ls)
  obtain r0 c0 where w: "off_rows (win_offset win) = int r0" "off_cols (win_offset win) = int c0"
    "r0 + a3_rows a \<le> rows" "c0 + a3_cols a \<le> cols"
    "\<And>r c. covers win r c \<longleftrightarrow> r0 \<le> r \<and> r < r0 + a3_rows a \<and> c0 \<le> c \<and> c < c0 + a3_cols a"
    "\<And>l r c. landed a win l r c = a3_at a l (r - r0) (c - c0)"
    using fills_window [OF assms] by metis
  obtain f1 where f1: "o_write go f (x + 1) (int c0, int r0) (a3_cols a, a3_rows a) (layer_values a x) = Ok f1" "fdims f1 = fdims f"
    "\<forall>l r c. fpix f1 l r c = (if l + 1 = x + 1 \<and> r0 \<le> r \<and> r < r0 + a3_rows a \<and> c0 \<le> c \<and> c < c0 + a3_cols a
           then layer_values a x ! ((r - r0) * a3_cols a + (c - c0)) else fpix f l r c)"
    using writes [OF Cons.prems(3), of "x + 1" r0 "a3_rows a" c0 "a3_cols a" "layer_values a x"] w(3,4) Cons.prems(2) layer_values_length
    by auto
  have px: "fpix f1 l r c = (if l = x \<and> covers win r c then landed a win l r c else fpix f l r c)" for l r c
    using f1(3) layer_values_nth [of "r - r0" a "c - c0" x] by (auto simp: w(5,6))
  obtain f2 where f2: "write_layers go a win ls f1 = Ok f2" "fdims f2 = fdims f1"
    "\<forall>l r c. fpix f2 l r c = (if l \<in> set ls \<and> covers win r c then landed a win l r c else fpix f1 l r c)"
    using Cons.IH [of f1] Cons.prems f1(2) by auto
  have "o_rasterband go f (x + 1) = Ok ()" using band_exists [OF Cons.prems(3)] Cons.prems(2) by auto
  then have "write_layers go a win (x # ls) f = Ok f2" using f1(1) f2(1) w(1,2) by simp
  moreover have "fpix f2 l r c = (if l \<in> set (x # ls) \<and> covers win r c then landed a win l r c else fpix f l r c)" for l r c
    using f2(3) px by auto
  ultimately show ?case using f1(2) f2(2) by auto
qed simp

lemma opened:
  "\<exists>w'. ensure_open go w = Ok w' \<and> fdims (gw_file w') = fdims (gw_file w) \<and> fpix (gw_file w') = fpix (gw_file w)"
  using opens [of "gw_file w"] by (auto simp: ensure_open_def)

end

sublocale gdal_sink < gtiff: block_sink "gtiff_ops go" "\<lambda>_. True" "\<lambda>w. fdims (gw_file w)" "\<lambda>w. fpix (gw_file w)"
proof (unfold_locales, goal_cases)
  case (1 w bands rows cols a win)
  obtain w1 where w1: "ensure_open go w = Ok w1" "fdims (gw_file w1) = fdims (gw_file w)" "fpix (gw_file w1) = fpix (gw_file w)"
    using opened by blast
  obtain f where "write_layers go a win [0..<a3_layers a] (gw_file w1) = Ok f" "fdims f = fdims (gw_file w1)"
    "\<forall>l r c. fpix f l r c = (if l \<in> set [0..<a3_layers a] \<and> covers win r c then landed a win l r c else fpix (gw_file w1) l r c)"
    using layers_written [OF 1(4), of "[0..<a3_layers a]" bands "gw_file w1"] 1(2,3) w1(2) by auto
  then show ?case using w1 by (simp add: gtiff_ops_def gtiff_write_block_def)
next
  case (2 w resampling levels w')
  then show ?case
    using opened [of w] overviews_harmless
    by (auto simp: gtiff_ops_def gtiff_build_overviews_def and_then_Inr_iff)
qed

context gdal_sink
begin

lemma no_data_dims: "set_no_data_values go nd bs f = Ok f' \<Longrightarrow> fdims f' = fdims f"
  by (induction bs arbitrary: f) (auto simp: and_then_Inr_iff dest: no_data_keeps)

lemma created_dims:
  assumes "gtiff_create go parent path g epsg rows cols bands na = Ok w"
  shows "fdims (gw_file w) = (bands, rows, cols)"
proof -
  obtain f1 f2 f3 f4 where f: "o_create go path cols rows bands = Ok f1" "o_set_transform go f1 g = Ok f2"
    "(if epsg > 0
       then and_then (map_err (\<lambda>e. Other (''EPSG '' @ show_nat epsg @ '': '' @ e)) (o_from_epsg go epsg)) (\<lambda>_.
         map_err (\<lambda>e. Other (''set_spatial_ref: '' @ e)) (o_set_srs go f2 epsg))
       else Ok f2) = Ok f3"
    "(case o_to_f64 go na of Some nd \<Rightarrow> set_no_data_values go nd [1..<bands + 1] f3 | None \<Rightarrow> Ok f3) = Ok f4" "gw_file w = f4"
    using assms unfolding gtiff_create_def and_then_Inr_iff map_err_Inr_iff by (elim exE conjE) auto
  have "fdims f2 = (bands, rows, cols)" using creates [OF f(1)] transform_keeps [OF f(2)] by simp
  moreover have "fdims f3 = fdims f2" using f(3) srs_keeps by (auto simp: and_then_Inr_iff split: if_splits)
  moreover have "fdims f4 = fdims f3" using f(4) no_data_dims by (auto split: option.splits)
  ultimately show ?thesis using f(5) by simp
qed

lemma apply_reduction_lands:
  assumes "gridded d" "serves gd rd d img" "pixelwise d 1 f (\<lambda>b. worker b dim)" and "mset (map snd sched) = mset [0..<num_blocks d]"
    and "pool (max n_threads 1) = Ok ()" and "create_output go parent d out 1 na = Ok w0"
    and "\<And>f. \<exists>f'. o_overviews go f ''AVERAGE'' [2, 4, 8, 16] = Ok f'"
  shows "\<exists>w. apply_reduction pool gd rd go parent zero sched d worker dim n_threads out na = Ok w \<and>
    (\<forall>r c. r < rs_rows (dm_shape (ds_metadata d)) \<longrightarrow> c < rs_cols (dm_shape (ds_metadata d)) \<longrightarrow>
       fpix (gw_file w) 0 r c = f 0 (\<lambda>t l. slot_value zero img (ds_mappings d) t l r c))"
proof -
  have dims: "fdims (gw_file w0) = (1, rs_rows (dm_shape (ds_metadata d)), rs_cols (dm_shape (ds_metadata d)))"
    using assms(6) created_dims by (simp add: create_output_def)
  obtain w1 where w1: "apply_reduction_to_writer pool gd rd zero sched d (gtiff_ops go) w0 worker dim n_threads = default_overviews (gtiff_ops go) w1"
    and px: "\<forall>l r c. l < 1 \<longrightarrow> r < rs_rows (dm_shape (ds_metadata d)) \<longrightarrow> c < rs_cols (dm_shape (ds_metadata d)) \<longrightarrow>
       fpix (gw_file w1) l r c = f l (\<lambda>t l'. slot_value zero img (ds_mappings d) t l' r c)"
    using gtiff.reduction_pixels [where worker = worker and dim = dim and pool = pool and n_threads = n_threads and zero = zero,
        OF assms(1-4) TrueI dims order_refl assms(5)] by blast
  obtain w2 where w2: "ensure_open go w1 = Ok w2" using opened by blast
  obtain w where w: "default_overviews (gtiff_ops go) w1 = Ok w"
    using assms(7) [of "gw_file w2"] w2 by (auto simp: default_overviews_def gtiff_ops_def gtiff_build_overviews_def)
  then have "fpix (gw_file w) = fpix (gw_file w1)" using gtiff.overviews_pixels by simp
  then show ?thesis using w w1 px assms(6) by (simp add: apply_reduction_def)
qed

end

section \<open>GDAL in memory\<close>

text \<open>A raster in memory keeps the contract.\<close>

record 'v mem_raster =
  mr_dims :: "nat \<times> nat \<times> nat"
  mr_cells :: "nat \<Rightarrow> nat \<Rightarrow> nat \<Rightarrow> 'v"

definition mem_write :: "'v mem_raster \<Rightarrow> nat \<Rightarrow> int \<times> int \<Rightarrow> nat \<times> nat \<Rightarrow> 'v list \<Rightarrow> (string, 'v mem_raster) result" where
  "mem_write f b off sz xs =
     (let c0 = nat (fst off); r0 = nat (snd off); w = fst sz; h = snd sz in
      if fst off < 0 \<or> snd off < 0 \<or> fst (snd (mr_dims f)) < r0 + h \<or> snd (snd (mr_dims f)) < c0 + w
      then Err ''access window out of range''
      else Ok (f\<lparr>mr_cells := (\<lambda>l r c. if l + 1 = b \<and> r0 \<le> r \<and> r < r0 + h \<and> c0 \<le> c \<and> c < c0 + w
        then xs ! ((r - r0) * w + (c - c0)) else mr_cells f l r c)\<rparr>))"

definition mem_out :: "'v \<Rightarrow> ('v mem_raster, 'v) gdal_out" where
  "mem_out z = \<lparr>o_create_dir = (\<lambda>_. Ok ()), o_driver = Ok (),
     o_create = (\<lambda>path cols rows bands. Ok \<lparr>mr_dims = (bands, rows, cols), mr_cells = (\<lambda>_ _ _. z)\<rparr>),
     o_set_transform = (\<lambda>f _. Ok f), o_from_epsg = (\<lambda>_. Ok ()), o_set_srs = (\<lambda>f _. Ok f), o_to_f64 = (\<lambda>_. None),
     o_rasterband = (\<lambda>f b. if 1 \<le> b \<and> b \<le> fst (mr_dims f) then Ok () else Err ''illegal band''),
     o_set_no_data = (\<lambda>f _ _. Ok f), o_open_ex = Ok, o_write = mem_write, o_overviews = (\<lambda>f _ _. Ok f)\<rparr>"

interpretation mem: gdal_sink "mem_out z" mr_dims mr_cells
  by unfold_locales (auto simp: mem_out_def mem_write_def Let_def)

end
