(* ===== verification/Ieee_F32.thy ===== *)
theory Ieee_F32
  imports Scalar_Processes
begin

text \<open>
  Rust's \<open>f32\<close> as its IEEE 754 binary32 bit pattern, in the way of \<open>Ieee_F64\<close>: a finite magnitude is a
  number of units of \<open>2 ^ - 149\<close>, and every operation rounds an exact rational once, ties to even.
  Every NaN result is the canonical quiet NaN.
\<close>

type_synonym f32 = "32 word"

section \<open>Classification and value\<close>

definition inf32 :: nat where "inf32 = 255 * 2 ^ 23"

definition f32_neg :: "f32 \<Rightarrow> bool" where "f32_neg w \<longleftrightarrow> 2 ^ 31 \<le> unat w"
definition f32_mag :: "f32 \<Rightarrow> nat" where "f32_mag w = unat w mod 2 ^ 31"
definition f32_make :: "bool \<Rightarrow> nat \<Rightarrow> f32" where
  "f32_make s m = of_nat ((if s then 2 ^ 31 else 0) + m)"

definition f32_is_nan :: "f32 \<Rightarrow> bool" where "f32_is_nan w \<longleftrightarrow> inf32 < f32_mag w"
definition f32_is_infinite :: "f32 \<Rightarrow> bool" where "f32_is_infinite w \<longleftrightarrow> f32_mag w = inf32"
definition f32_is_finite :: "f32 \<Rightarrow> bool" where "f32_is_finite w \<longleftrightarrow> f32_mag w < inf32"

definition f32_nan :: f32 where "f32_nan = f32_make False (255 * 2 ^ 23 + 2 ^ 22)"
definition f32_infinity :: "bool \<Rightarrow> f32" where "f32_infinity s = f32_make s inf32"

definition mag_units32 :: "nat \<Rightarrow> nat" where
  "mag_units32 m = (if m < 2 ^ 23 then m else (2 ^ 23 + m mod 2 ^ 23) * 2 ^ (m div 2 ^ 23 - 1))"

definition f32_units :: "f32 \<Rightarrow> int" where
  "f32_units w = (if f32_neg w then - int (mag_units32 (f32_mag w)) else int (mag_units32 (f32_mag w)))"

definition round_mag32 :: "nat \<Rightarrow> nat \<Rightarrow> nat" where
  "round_mag32 num den =
     (let k = bitlen (num div den) - 24 in min (k * 2 ^ 23 + rne num (den * 2 ^ k)) inf32)"

section \<open>Operations\<close>

definition f32_minus :: "f32 \<Rightarrow> f32" where "f32_minus w = f32_make (\<not> f32_neg w) (f32_mag w)"
definition f32_abs :: "f32 \<Rightarrow> f32" where "f32_abs w = f32_make False (f32_mag w)"

definition f32_add :: "f32 \<Rightarrow> f32 \<Rightarrow> f32" where
  "f32_add a b =
     (if f32_is_nan a \<or> f32_is_nan b then f32_nan
      else if f32_is_infinite a then
        (if f32_is_infinite b \<and> f32_neg a \<noteq> f32_neg b then f32_nan else a)
      else if f32_is_infinite b then b
      else let s = f32_units a + f32_units b in
        if s = 0 then f32_make (f32_neg a \<and> f32_neg b) 0
        else f32_make (s < 0) (round_mag32 (nat \<bar>s\<bar>) 1))"

definition f32_sub :: "f32 \<Rightarrow> f32 \<Rightarrow> f32" where "f32_sub a b = f32_add a (f32_minus b)"

definition f32_mul :: "f32 \<Rightarrow> f32 \<Rightarrow> f32" where
  "f32_mul a b =
     (let s = (f32_neg a \<noteq> f32_neg b) in
      if f32_is_nan a \<or> f32_is_nan b then f32_nan
      else if f32_is_infinite a then (if f32_mag b = 0 then f32_nan else f32_infinity s)
      else if f32_is_infinite b then (if f32_mag a = 0 then f32_nan else f32_infinity s)
      else f32_make s (round_mag32 (mag_units32 (f32_mag a) * mag_units32 (f32_mag b)) (2 ^ 149)))"

definition f32_div :: "f32 \<Rightarrow> f32 \<Rightarrow> f32" where
  "f32_div a b =
     (let s = (f32_neg a \<noteq> f32_neg b) in
      if f32_is_nan a \<or> f32_is_nan b then f32_nan
      else if f32_is_infinite a then (if f32_is_infinite b then f32_nan else f32_infinity s)
      else if f32_is_infinite b then f32_make s 0
      else if f32_mag b = 0 then (if f32_mag a = 0 then f32_nan else f32_infinity s)
      else f32_make s (round_mag32 (mag_units32 (f32_mag a) * 2 ^ 149) (mag_units32 (f32_mag b))))"

text \<open>Casts: \<open>usize as f32\<close> and \<open>f64 as f32\<close>.\<close>

definition f32_of_nat :: "nat \<Rightarrow> f32" where "f32_of_nat n = f32_make False (round_mag32 (n * 2 ^ 149) 1)"

definition f32_of_f64 :: "f64 \<Rightarrow> f32" where
  "f32_of_f64 x =
     (if f64_is_nan x then f32_nan else if f64_is_infinite x then f32_infinity (f64_neg x)
      else f32_make (f64_neg x) (round_mag32 (mag_units (f64_mag x)) (2 ^ 925)))"

text \<open>\<open>f64 as i32\<close>: towards zero, saturating, zero for NaN.\<close>

definition f64_to_i32 :: "f64 \<Rightarrow> int" where
  "f64_to_i32 x =
     (if f64_is_nan x then 0
      else let q = int (mag_units (f64_mag x) div 2 ^ 1074) in
        if f64_neg x then max (- q) (- (2 ^ 31)) else min q (2 ^ 31 - 1))"

definition f32_lt :: "f32 \<Rightarrow> f32 \<Rightarrow> bool" where
  "f32_lt a b \<longleftrightarrow> \<not> f32_is_nan a \<and> \<not> f32_is_nan b \<and> f32_units a < f32_units b"
definition f32_le :: "f32 \<Rightarrow> f32 \<Rightarrow> bool" where
  "f32_le a b \<longleftrightarrow> \<not> f32_is_nan a \<and> \<not> f32_is_nan b \<and> f32_units a \<le> f32_units b"
definition f32_eq :: "f32 \<Rightarrow> f32 \<Rightarrow> bool" where
  "f32_eq a b \<longleftrightarrow> \<not> f32_is_nan a \<and> \<not> f32_is_nan b \<and> f32_units a = f32_units b"

text \<open>\<open>f32::clamp\<close> panics unless the bounds are ordered.\<close>

definition f32_clamp :: "f32 \<Rightarrow> f32 \<Rightarrow> f32 \<Rightarrow> f32 option" where
  "f32_clamp x lo hi =
     (if f32_le lo hi
      then Some (let x1 = (if f32_lt x lo then lo else x) in if f32_lt hi x1 then hi else x1)
      else None)"

definition f32_integral :: "(nat \<Rightarrow> nat \<Rightarrow> nat) \<Rightarrow> f32 \<Rightarrow> f32" where
  "f32_integral q x =
     (if f32_is_nan x then f32_nan else if f32_is_infinite x then x
      else f32_make (f32_neg x) (round_mag32 (q (mag_units32 (f32_mag x)) (2 ^ 149) * 2 ^ 149) 1))"

definition f32_trunc :: "f32 \<Rightarrow> f32" where "f32_trunc = f32_integral (div)"
definition f32_floor :: "f32 \<Rightarrow> f32" where
  "f32_floor x = f32_integral (if f32_neg x then nat_div_up else (div)) x"
definition f32_ceil :: "f32 \<Rightarrow> f32" where
  "f32_ceil x = f32_integral (if f32_neg x then (div) else nat_div_up) x"
definition f32_round_ties_even :: "f32 \<Rightarrow> f32" where "f32_round_ties_even = f32_integral rne"

definition f32_signum :: "f32 \<Rightarrow> f32" where
  "f32_signum x = (if f32_is_nan x then f32_nan else f32_make (f32_neg x) (f32_mag (f32_of_nat 1)))"

text \<open>The square root, correctly rounded: the root of the value scaled by \<open>2 ^ 200\<close> and a sticky bit.\<close>

definition f32_sqrt :: "f32 \<Rightarrow> f32" where
  "f32_sqrt x =
     (if f32_is_nan x then f32_nan else if f32_mag x = 0 then x else if f32_neg x then f32_nan
      else if f32_is_infinite x then x
      else let n = mag_units32 (f32_mag x) * 2 ^ 149 * 2 ^ 200; r = isqrt n
        in f32_make False (round_mag32 (2 * r + (if r * r = n then 0 else 1)) (2 * 2 ^ 100)))"

section \<open>Order\<close>

lemma f32_finite_not_nan: "f32_is_finite x \<Longrightarrow> \<not> f32_is_nan x"
  by (simp add: f32_is_finite_def f32_is_nan_def)

lemma f32_lt_irrefl: "\<not> f32_lt x x"
  by (simp add: f32_lt_def)

lemma f32_not_lt: "\<not> f32_is_nan a \<Longrightarrow> \<not> f32_is_nan b \<Longrightarrow> \<not> f32_lt a b \<longleftrightarrow> f32_le b a"
  by (auto simp: f32_lt_def f32_le_def)

lemma f32_le_trans: "f32_le a b \<Longrightarrow> f32_le b c \<Longrightarrow> f32_le a c"
  by (auto simp: f32_le_def)

lemma f32_clamp_range: "f32_clamp x lo hi = Some y \<Longrightarrow> f32_is_nan x \<and> y = x \<or> f32_le lo y \<and> f32_le y hi"
  by (auto simp: f32_clamp_def f32_le_def f32_lt_def Let_def split: if_splits)

end
