(* ===== verification/Reducers.thy ===== *)
theory Reducers
  imports Ieee_F32 Sub_Graph "HOL-Library.Multiset"
begin

text \<open>
  The reducers of \<open>geo_executor/eval_reduce.rs\<close>: the statistical reducers, the parsing of a reducer
  callback and the per-pixel evaluator of a compound callback with its memo and cycle check. An
  operation of a node asks for its arguments one after the other; it is a tree of requests, so that the
  order of evaluation and every early error is that of the code. What the standard library leaves open for
  \<open>f32\<close> (the start of \<open>sum\<close>, the zero of \<open>min\<close> and \<open>max\<close>, the precision of \<open>powi\<close> and of the
  transcendental functions) is the record \<open>libm32\<close>. The recursion of the evaluator gets two more than
  the number of nodes as fuel, which is shown never to run out.
\<close>

record libm32 =
  sum32_start :: f32
  fmin32 :: "f32 \<Rightarrow> f32 \<Rightarrow> f32"
  fmax32 :: "f32 \<Rightarrow> f32 \<Rightarrow> f32"
  powi32 :: "f32 \<Rightarrow> int \<Rightarrow> f32"
  powf32 :: "f32 \<Rightarrow> f32 \<Rightarrow> f32"
  exp32 :: "f32 \<Rightarrow> f32"
  ln32 :: "f32 \<Rightarrow> f32"
  cos32 :: "f32 \<Rightarrow> f32"
  sin32 :: "f32 \<Rightarrow> f32"
  tan32 :: "f32 \<Rightarrow> f32"
  acos32 :: "f32 \<Rightarrow> f32"
  asin32 :: "f32 \<Rightarrow> f32"
  atan32 :: "f32 \<Rightarrow> f32"
  atan2_32 :: "f32 \<Rightarrow> f32 \<Rightarrow> f32"

definition SENTINEL_NDVI_NA :: f32 where "SENTINEL_NDVI_NA = f32_minus (f32_of_nat 9999)"

section \<open>Statistical reducers\<close>

datatype reducer = RMean | RMin | RMax | RSum | RMedian | RCount | RFirst | RLast | RSd | RVariance

fun reducer_name :: "reducer \<Rightarrow> string" where
  "reducer_name RMean = ''mean''"
| "reducer_name RMin = ''min''"
| "reducer_name RMax = ''max''"
| "reducer_name RSum = ''sum''"
| "reducer_name RMedian = ''median''"
| "reducer_name RCount = ''count''"
| "reducer_name RFirst = ''first''"
| "reducer_name RLast = ''last''"
| "reducer_name RSd = ''sd''"
| "reducer_name RVariance = ''variance''"

definition from_process_id :: "string \<Rightarrow> reducer option" where
  "from_process_id pid =
     (if pid = ''mean'' then Some RMean
      else if pid = ''min'' then Some RMin
      else if pid = ''max'' then Some RMax
      else if pid = ''sum'' then Some RSum
      else if pid = ''median'' then Some RMedian
      else if pid = ''count'' then Some RCount
      else if pid = ''first'' then Some RFirst
      else if pid = ''last'' then Some RLast
      else if pid = ''sd'' \<or> pid = ''stdev'' then Some RSd
      else if pid = ''variance'' \<or> pid = ''var'' then Some RVariance
      else None)"

definition f32_sum :: "libm32 \<Rightarrow> f32 list \<Rightarrow> f32" where "f32_sum m xs = foldl f32_add (sum32_start m) xs"

definition mean_of :: "libm32 \<Rightarrow> f32 list \<Rightarrow> f32" where
  "mean_of m xs = f32_div (f32_sum m xs) (f32_of_nat (length xs))"

text \<open>On values without NaN the comparison is total and the stable sort is the sort by value.\<close>

definition median_of :: "f32 list \<Rightarrow> f32" where
  "median_of xs =
     (let s = sort_key f32_units xs; n = length s
      in if n mod 2 = 1 then s ! (n div 2) else f32_div (f32_add (s ! (n div 2 - 1)) (s ! (n div 2))) (f32_of_nat 2))"

definition variance_of :: "libm32 \<Rightarrow> f32 list \<Rightarrow> f32" where
  "variance_of m xs =
     (let n = f32_of_nat (length xs); mean = f32_div (f32_sum m xs) n;
          ss = f32_sum m (map (\<lambda>v. powi32 m (f32_sub v mean) 2) xs)
      in f32_div ss (f32_sub n (f32_of_nat 1)))"

text \<open>\<open>None\<close> is the panic of an index into an empty stack.\<close>

fun apply_reducer :: "libm32 \<Rightarrow> f32 list \<Rightarrow> reducer \<Rightarrow> f32 option" where
  "apply_reducer m xs RMean = Some (mean_of m xs)"
| "apply_reducer m xs RMin = Some (foldl (fmin32 m) (f32_infinity False) xs)"
| "apply_reducer m xs RMax = Some (foldl (fmax32 m) (f32_infinity True) xs)"
| "apply_reducer m xs RSum = Some (f32_sum m xs)"
| "apply_reducer m xs RCount = Some (f32_of_nat (length xs))"
| "apply_reducer m xs RFirst = (if xs = [] then None else Some (hd xs))"
| "apply_reducer m xs RLast = (if xs = [] then None else Some (last xs))"
| "apply_reducer m xs RMedian = (if xs = [] then None else Some (median_of xs))"
| "apply_reducer m xs RVariance =
     Some (if f32_lt (f32_of_nat (length xs)) (f32_of_nat 2) then f32_of_nat 0 else variance_of m xs)"
| "apply_reducer m xs RSd =
     Some (if f32_lt (f32_of_nat (length xs)) (f32_of_nat 2) then f32_of_nat 0 else f32_sqrt (variance_of m xs))"

section \<open>Parsing a callback\<close>

datatype reducer_kind = Builtin reducer | SubGraph "(string \<times> json) list"

fun reducer_kind_label :: "reducer_kind \<Rightarrow> string" where
  "reducer_kind_label (Builtin r) = reducer_name r"
| "reducer_kind_label (SubGraph _) = ''subgraph''"

definition reducer_field :: string where "reducer_field = ''reduce_dimension.reducer''"

definition scalar_ops :: "string list" where
  "scalar_ops = [''add'', ''subtract'', ''multiply'', ''divide'', ''power'', ''absolute'', ''clip'', ''min'', ''max'', ''sqrt'', ''exp'',
     ''ln'', ''mod'', ''sgn'', ''sign'', ''floor'', ''ceil'', ''int'', ''round'', ''normalized_difference'', ''between'', ''cos'', ''sin'',
     ''tan'', ''arccos'', ''arcsin'', ''arctan'', ''arctan2'']"

definition no_process_id :: "string \<Rightarrow> exec_error" where
  "no_process_id i = InvalidGraph (reducer_field @ '': node `'' @ i @ ''` has no process_id'')"

fun validate_reduce_subgraph_processes :: "(string \<times> json) list \<Rightarrow> (exec_error, unit) result" where
  "validate_reduce_subgraph_processes [] = Ok ()"
| "validate_reduce_subgraph_processes ((i, node) # pg) =
     and_then (ok_or (no_process_id i) (Option.bind (json_get node ''process_id'') as_str)) (\<lambda>pid.
       if from_process_id pid = None \<and> pid \<notin> set scalar_ops
       then Err (InvalidGraph (reducer_field @ '': unsupported process `'' @ pid @ ''` in reducer callback (supported: statistical reducers + '' @
         ''arithmetic/trig/rounding/comparison scalar ops)''))
       else validate_reduce_subgraph_processes pg)"

definition parse_reducer_subgraph :: "json \<Rightarrow> (exec_error, reducer_kind) result" where
  "parse_reducer_subgraph v =
     and_then (require_subgraph v reducer_field) (\<lambda>pg.
     and_then (find_unique_result_node pg reducer_field) (\<lambda>(_, node).
     and_then (result_process_id node reducer_field) (\<lambda>pid.
     case (if length pg = 1 then from_process_id pid else None) of
       Some r \<Rightarrow> Ok (Builtin r)
     | None \<Rightarrow> and_then (validate_reduce_subgraph_processes pg) (\<lambda>_. Ok (SubGraph pg)))))"

section \<open>Operations of a node\<close>

datatype red_val = RScalar f32 | RArray "f32 list"

text \<open>\<open>Abort\<close> is a panic.\<close>

datatype red_op = Need string "red_val \<Rightarrow> red_op" | Yield red_val | Throw exec_error | Abort

definition scalar_arg :: "string \<Rightarrow> (f32 \<Rightarrow> red_op) \<Rightarrow> red_op" where
  "scalar_arg key k = Need key (\<lambda>v. case v of
      RScalar s \<Rightarrow> k s
    | RArray _ \<Rightarrow> Throw (PerPixelComputation (reducer_field @ '': `'' @ key @ ''` expected scalar, got array'')))"

definition op1 :: "string \<Rightarrow> (f32 \<Rightarrow> f32) \<Rightarrow> red_op" where
  "op1 key f = scalar_arg key (\<lambda>x. Yield (RScalar (f x)))"

definition op2 :: "string \<Rightarrow> string \<Rightarrow> (f32 \<Rightarrow> f32 \<Rightarrow> f32) \<Rightarrow> red_op" where
  "op2 k1 k2 f = scalar_arg k1 (\<lambda>x. scalar_arg k2 (\<lambda>y. Yield (RScalar (f x y))))"

definition op3 :: "(f32 \<Rightarrow> f32 \<Rightarrow> f32 \<Rightarrow> red_op) \<Rightarrow> red_op" where
  "op3 f = scalar_arg ''x'' (\<lambda>x. scalar_arg ''min'' (\<lambda>lo. scalar_arg ''max'' (\<lambda>hi. f x lo hi)))"

definition array_op :: "libm32 \<Rightarrow> reducer \<Rightarrow> red_op" where
  "array_op m r = Need ''data'' (\<lambda>v.
     let xs = (case v of RArray xs \<Rightarrow> xs | RScalar s \<Rightarrow> [s])
     in if xs = [] then Yield (RScalar SENTINEL_NDVI_NA)
        else (case apply_reducer m xs r of None \<Rightarrow> Abort | Some s \<Rightarrow> Yield (RScalar s)))"

definition red_mod :: "f32 \<Rightarrow> f32 \<Rightarrow> f32" where
  "red_mod x y = f32_sub x (f32_mul y (f32_floor (f32_div x y)))"

definition round_digits :: "(string \<times> json) list option \<Rightarrow> int" where
  "round_digits args =
     f64_to_i32 (case Option.bind (Option.bind args (\<lambda>a. map_of a ''p'')) as_f64 of Some p \<Rightarrow> p | None \<Rightarrow> f64_of_nat 0)"

definition zero32 :: f32 where "zero32 = f32_of_nat 0"

definition scalar_op :: "libm32 \<Rightarrow> string \<Rightarrow> (string \<times> json) list option \<Rightarrow> red_op" where
  "scalar_op m pid args =
     (if pid = ''add'' then op2 ''x'' ''y'' f32_add
      else if pid = ''subtract'' then op2 ''x'' ''y'' f32_sub
      else if pid = ''multiply'' then op2 ''x'' ''y'' f32_mul
      else if pid = ''divide'' then
        scalar_arg ''y'' (\<lambda>y. if f32_eq y zero32 then Throw (PerPixelComputation (reducer_field @ '': divide by zero''))
          else scalar_arg ''x'' (\<lambda>x. Yield (RScalar (f32_div x y))))
      else if pid = ''power'' then op2 ''base'' ''p'' (powf32 m)
      else if pid = ''absolute'' then op1 ''x'' f32_abs
      else if pid = ''sqrt'' then op1 ''x'' f32_sqrt
      else if pid = ''exp'' then op1 ''p'' (exp32 m)
      else if pid = ''ln'' then op1 ''x'' (ln32 m)
      else if pid = ''min'' then op2 ''x'' ''y'' (fmin32 m)
      else if pid = ''max'' then op2 ''x'' ''y'' (fmax32 m)
      else if pid = ''clip'' then
        op3 (\<lambda>x lo hi. case f32_clamp x lo hi of None \<Rightarrow> Abort | Some v \<Rightarrow> Yield (RScalar v))
      else if pid = ''mod'' then op2 ''x'' ''y'' red_mod
      else if pid = ''sgn'' \<or> pid = ''sign'' then op1 ''x'' f32_signum
      else if pid = ''floor'' then op1 ''x'' f32_floor
      else if pid = ''ceil'' then op1 ''x'' f32_ceil
      else if pid = ''int'' then op1 ''x'' f32_trunc
      else if pid = ''round'' then
        op1 ''x'' (\<lambda>x. let factor = powi32 m (f32_of_nat 10) (round_digits args)
          in f32_div (f32_round_ties_even (f32_mul x factor)) factor)
      else if pid = ''normalized_difference'' then
        scalar_arg ''x'' (\<lambda>x. scalar_arg ''y'' (\<lambda>y.
          if f32_eq (f32_add x y) zero32 then Throw (PerPixelComputation (reducer_field @ '': normalized_difference x + y == 0''))
          else Yield (RScalar (f32_div (f32_sub x y) (f32_add x y)))))
      else if pid = ''between'' then
        op3 (\<lambda>x lo hi. Yield (RScalar (if f32_le lo x \<and> f32_le x hi then f32_of_nat 1 else zero32)))
      else if pid = ''cos'' then op1 ''x'' (cos32 m)
      else if pid = ''sin'' then op1 ''x'' (sin32 m)
      else if pid = ''tan'' then op1 ''x'' (tan32 m)
      else if pid = ''arccos'' then op1 ''x'' (acos32 m)
      else if pid = ''arcsin'' then op1 ''x'' (asin32 m)
      else if pid = ''arctan'' then op1 ''x'' (atan32 m)
      else if pid = ''arctan2'' then op2 ''y'' ''x'' (atan2_32 m)
      else Throw (InvalidGraph (reducer_field @ '': unsupported process `'' @ pid @ ''`'')))"

definition node_op :: "libm32 \<Rightarrow> string \<Rightarrow> (string \<times> json) list option \<Rightarrow> red_op" where
  "node_op m pid args = (case from_process_id pid of Some r \<Rightarrow> array_op m r | None \<Rightarrow> scalar_op m pid args)"

section \<open>The evaluator\<close>

datatype red_fail = RedErr exec_error | RedPanic | RedFuel

type_synonym red_state = "(string \<rightharpoonup> red_val) \<times> string list"

definition red_node :: "(string \<times> json) list \<Rightarrow> string \<Rightarrow> (exec_error, string \<times> (string \<times> json) list option) result" where
  "red_node pg i =
     and_then (ok_or (InvalidGraph (reducer_field @ '': unknown node `'' @ i @ ''`'')) (map_of pg i)) (\<lambda>node.
     and_then (ok_or (no_process_id i) (Option.bind (json_get node ''process_id'') as_str)) (\<lambda>pid.
       Ok (pid, Option.bind (json_get node ''arguments'') as_object)))"

text \<open>What an argument is: a value, or a reference to a node.\<close>

definition red_arg :: "f32 list \<Rightarrow> string \<Rightarrow> (string \<times> json) list option \<Rightarrow> string \<Rightarrow> (exec_error, red_val + string) result" where
  "red_arg stack i args key =
     (let bad = InvalidGraph (reducer_field @ '': node `'' @ i @ ''` arg `'' @ key @ ''` has unsupported shape'') in
      case Option.bind args (\<lambda>a. map_of a key) of
        None \<Rightarrow> Err (InvalidGraph (reducer_field @ '': node `'' @ i @ ''` missing arg `'' @ key @ ''`''))
      | Some a \<Rightarrow> (case as_f64 a of
          Some n \<Rightarrow> Ok (Inl (RScalar (f32_of_f64 n)))
        | None \<Rightarrow> (case as_object a of
            None \<Rightarrow> Err bad
          | Some obj \<Rightarrow> (case Option.bind (map_of obj ''from_parameter'') as_str of
              Some p \<Rightarrow> if p = ''data'' then Ok (Inl (RArray stack))
                else Err (InvalidGraph (reducer_field @ '': only `data` parameter is bound (got `'' @ p @ ''`)''))
            | None \<Rightarrow> (case Option.bind (map_of obj ''from_node'') as_str of
                Some t \<Rightarrow> Ok (Inr t)
              | None \<Rightarrow> Err bad)))))"

primrec run_op :: "(string \<Rightarrow> red_state \<Rightarrow> (red_fail, red_val \<times> red_state) result) \<Rightarrow> red_op \<Rightarrow> red_state \<Rightarrow>
    (red_fail, red_val \<times> red_state) result" where
  "run_op res (Need key k) = (\<lambda>st. and_then (res key st) (\<lambda>(v, st'). run_op res (k v) st'))"
| "run_op res (Yield v) = (\<lambda>st. Ok (v, st))"
| "run_op res (Throw e) = (\<lambda>st. Err (RedErr e))"
| "run_op res Abort = (\<lambda>st. Err RedPanic)"

definition red_resolve ::
  "f32 list \<Rightarrow> string \<Rightarrow> (string \<times> json) list option \<Rightarrow> (string \<Rightarrow> red_state \<Rightarrow> (red_fail, red_val \<times> red_state) result) \<Rightarrow>
   string \<Rightarrow> red_state \<Rightarrow> (red_fail, red_val \<times> red_state) result" where
  "red_resolve stack i args ev key st = (case red_arg stack i args key of
      Inl e \<Rightarrow> Err (RedErr e)
    | Inr (Inl v) \<Rightarrow> Ok (v, st)
    | Inr (Inr t) \<Rightarrow> ev t st)"

primrec eval_reduce_node ::
  "libm32 \<Rightarrow> (string \<times> json) list \<Rightarrow> f32 list \<Rightarrow> nat \<Rightarrow> string \<Rightarrow> red_state \<Rightarrow> (red_fail, red_val \<times> red_state) result" where
  "eval_reduce_node m pg stack 0 i st = Err RedFuel"
| "eval_reduce_node m pg stack (Suc fuel) i st =
     (case st of (memo, in_progress) \<Rightarrow> (case memo i of
        Some v \<Rightarrow> Ok (v, memo, in_progress)
      | None \<Rightarrow>
          if list_ex (\<lambda>n. n = i) in_progress then Err (RedErr (InvalidGraph (reducer_field @ '': cycle at node `'' @ i @ ''`'')))
          else (case red_node pg i of
            Inl e \<Rightarrow> Err (RedErr e)
          | Inr (pid, args) \<Rightarrow>
              and_then (run_op (red_resolve stack i args (eval_reduce_node m pg stack fuel)) (node_op m pid args) (memo, in_progress @ [i]))
                (\<lambda>(v, memo', in_progress'). Ok (v, memo'(i \<mapsto> v), butlast in_progress')))))"

definition eval_reduce_subgraph :: "libm32 \<Rightarrow> (string \<times> json) list \<Rightarrow> f32 list \<Rightarrow> (red_fail, f32) result" where
  "eval_reduce_subgraph m pg stack =
     and_then (map_err RedErr (find_unique_result_node pg reducer_field)) (\<lambda>(result_id, _).
     and_then (eval_reduce_node m pg stack (length pg + 2) result_id (Map.empty, [])) (\<lambda>(v, _).
     case v of
       RScalar s \<Rightarrow> Ok s
     | RArray _ \<Rightarrow> Err (RedErr (PerPixelComputation (reducer_field @ '': result node returned an array, expected a scalar'')))))"

section \<open>What a callback denotes\<close>

text \<open>The value of a node without memo, cycle check or fuel, through at most \<open>n\<close> levels of nodes.\<close>

primrec run_pure :: "(string \<Rightarrow> red_val option) \<Rightarrow> red_op \<Rightarrow> red_val option" where
  "run_pure val (Need key k) = Option.bind (val key) (\<lambda>v. run_pure val (k v))"
| "run_pure val (Yield v) = Some v"
| "run_pure val (Throw e) = None"
| "run_pure val Abort = None"

definition pure_arg ::
  "f32 list \<Rightarrow> string \<Rightarrow> (string \<times> json) list option \<Rightarrow> (string \<Rightarrow> red_val option) \<Rightarrow> string \<Rightarrow> red_val option" where
  "pure_arg stack i args val key = (case red_arg stack i args key of
      Inl _ \<Rightarrow> None
    | Inr (Inl v) \<Rightarrow> Some v
    | Inr (Inr t) \<Rightarrow> val t)"

primrec red_level :: "libm32 \<Rightarrow> (string \<times> json) list \<Rightarrow> f32 list \<Rightarrow> nat \<Rightarrow> string \<Rightarrow> red_val option" where
  "red_level m pg stack 0 i = None"
| "red_level m pg stack (Suc n) i = (case red_node pg i of
      Inl _ \<Rightarrow> None
    | Inr (pid, args) \<Rightarrow> run_pure (pure_arg stack i args (red_level m pg stack n)) (node_op m pid args))"

definition red_denotes :: "libm32 \<Rightarrow> (string \<times> json) list \<Rightarrow> f32 list \<Rightarrow> string \<Rightarrow> red_val \<Rightarrow> bool" where
  "red_denotes m pg stack i v \<longleftrightarrow> (\<exists>n. red_level m pg stack n i = Some v)"

lemma run_pure_mono:
  assumes "\<And>key v. f key = Some v \<Longrightarrow> g key = Some v"
  shows "run_pure f p = Some v \<Longrightarrow> run_pure g p = Some v"
proof (induction p arbitrary: v)
  case (Need key k)
  obtain w where "f key = Some w" "run_pure f (k w) = Some v" using Need.prems by (auto simp: bind_eq_Some_conv)
  then show ?case using Need.IH [of "k w" v] assms by simp
qed simp_all

lemma pure_arg_mono:
  "(\<And>i v. f i = Some v \<Longrightarrow> g i = Some v) \<Longrightarrow> pure_arg stack i args f key = Some v \<Longrightarrow> pure_arg stack i args g key = Some v"
  by (auto simp: pure_arg_def split: sum.splits)

lemma red_level_Suc: "red_level m pg stack n i = Some v \<Longrightarrow> red_level m pg stack (Suc n) i = Some v"
proof (induction n arbitrary: i v)
  case (Suc n)
  obtain pid args where h: "red_node pg i = Ok (pid, args)"
    "run_pure (pure_arg stack i args (red_level m pg stack n)) (node_op m pid args) = Some v"
    using Suc.prems by (auto split: sum.splits)
  have "run_pure (pure_arg stack i args (red_level m pg stack (Suc n))) (node_op m pid args) = Some v"
    by (rule run_pure_mono [OF pure_arg_mono h(2)]) (rule Suc.IH)
  then show ?case using h(1) by (subst red_level.simps(2)) simp
qed simp

lemma red_level_mono: "red_level m pg stack n i = Some v \<Longrightarrow> n \<le> k \<Longrightarrow> red_level m pg stack k i = Some v"
  by (induction k) (auto simp: le_Suc_eq red_level_Suc simp del: red_level.simps(2))

lemma red_denotes_at: "red_level m pg stack n i = Some v \<Longrightarrow> red_denotes m pg stack i w \<Longrightarrow> w = v"
  unfolding red_denotes_def using red_level_mono by (metis nat_le_linear option.inject)

definition red_memo_ok :: "libm32 \<Rightarrow> (string \<times> json) list \<Rightarrow> f32 list \<Rightarrow> (string \<rightharpoonup> red_val) \<Rightarrow> bool" where
  "red_memo_ok m pg stack memo \<longleftrightarrow> (\<forall>i v. memo i = Some v \<longrightarrow> red_denotes m pg stack i v)"

subsection \<open>The evaluator is sound\<close>

text \<open>A run whose requests are answered with denoted values reaches a value at some level.\<close>

lemma run_op_sound:
  assumes "\<And>key st v st'. red_memo_ok m pg stack (fst st) \<Longrightarrow> res key st = Ok (v, st') \<Longrightarrow>
      red_memo_ok m pg stack (fst st') \<and> snd st' = snd st \<and> (\<exists>n. pure_arg stack i args (red_level m pg stack n) key = Some v)"
  shows "red_memo_ok m pg stack (fst st) \<Longrightarrow> run_op res p st = Ok (v, st') \<Longrightarrow>
    red_memo_ok m pg stack (fst st') \<and> snd st' = snd st \<and>
    (\<exists>n. run_pure (pure_arg stack i args (red_level m pg stack n)) p = Some v)"
proof (induction p arbitrary: st)
  case (Need key k)
  obtain w st1 where r: "res key st = Ok (w, st1)" "run_op res (k w) st1 = Ok (v, st')"
    using Need.prems(2) by (auto simp: and_then_Inr_iff)
  obtain n where n: "pure_arg stack i args (red_level m pg stack n) key = Some w" "red_memo_ok m pg stack (fst st1)" "snd st1 = snd st"
    using assms [OF Need.prems(1) r(1)] by blast
  obtain j where j: "run_pure (pure_arg stack i args (red_level m pg stack j)) (k w) = Some v"
    "red_memo_ok m pg stack (fst st')" "snd st' = snd st1"
    using Need.IH [OF _ n(2) r(2)] by blast
  let ?l = "red_level m pg stack (max n j)"
  have up: "\<And>a v. red_level m pg stack n a = Some v \<Longrightarrow> ?l a = Some v" "\<And>a v. red_level m pg stack j a = Some v \<Longrightarrow> ?l a = Some v"
    by (auto intro: red_level_mono)
  have "pure_arg stack i args ?l key = Some w" by (rule pure_arg_mono [OF up(1) n(1)])
  moreover have "run_pure (pure_arg stack i args ?l) (k w) = Some v" by (rule run_pure_mono [OF pure_arg_mono [OF up(2)] j(1)])
  ultimately have "run_pure (pure_arg stack i args ?l) (Need key k) = Some v" by simp
  then show ?case using n(3) j(2,3) by metis
qed auto

lemma red_eval_sound:
  "red_memo_ok m pg stack (fst st) \<Longrightarrow> eval_reduce_node m pg stack fuel i st = Ok (v, st') \<Longrightarrow>
     red_memo_ok m pg stack (fst st') \<and> snd st' = snd st \<and> red_denotes m pg stack i v"
proof (induction fuel arbitrary: i st v st')
  case (Suc fuel)
  obtain memo ip where st: "st = (memo, ip)" by (cases st)
  show ?case
  proof (cases "memo i")
    case (Some w)
    then show ?thesis using Suc.prems st by (auto simp: red_memo_ok_def)
  next
    case None
    have c: "\<not> list_ex (\<lambda>n. n = i) ip" using Suc.prems(2) st None by (auto split: if_splits)
    obtain pid args where n: "red_node pg i = Ok (pid, args)" using Suc.prems(2) st None c by (auto split: sum.splits)
    let ?res = "red_resolve stack i args (eval_reduce_node m pg stack fuel)"
    obtain memo' ip' where r: "run_op ?res (node_op m pid args) (memo, ip @ [i]) = Ok (v, memo', ip')"
      and st': "st' = (memo'(i \<mapsto> v), butlast ip')"
      using Suc.prems(2) st None c n by (auto simp: and_then_Inr_iff)
    have ans: "red_memo_ok m pg stack (fst s') \<and> snd s' = snd s \<and> (\<exists>n. pure_arg stack i args (red_level m pg stack n) key = Some w)"
      if "red_memo_ok m pg stack (fst s)" "?res key s = Ok (w, s')" for key s w s'
      using that Suc.IH [OF that(1)] unfolding red_resolve_def pure_arg_def red_denotes_def by (auto split: sum.splits)
    have sound: "red_memo_ok m pg stack memo'" "ip' = ip @ [i]"
      "\<exists>n. run_pure (pure_arg stack i args (red_level m pg stack n)) (node_op m pid args) = Some v"
      using run_op_sound [where res = ?res, OF ans _ r] Suc.prems(1) st by auto
    then obtain n where "run_pure (pure_arg stack i args (red_level m pg stack n)) (node_op m pid args) = Some v" by blast
    then have "red_level m pg stack (Suc n) i = Some v" using \<open>red_node pg i = _\<close> by simp
    then have "red_denotes m pg stack i v" unfolding red_denotes_def by blast
    then show ?thesis using sound st st' by (auto simp: red_memo_ok_def)
  qed
qed simp

subsection \<open>The fuel suffices\<close>

lemma run_op_fuel:
  assumes "\<And>key st. snd st = ip \<Longrightarrow> res key st \<noteq> Err RedFuel \<and> (\<forall>v st'. res key st = Ok (v, st') \<longrightarrow> snd st' = ip)"
  shows "snd st = ip \<Longrightarrow> run_op res p st \<noteq> Err RedFuel \<and> (\<forall>v st'. run_op res p st = Ok (v, st') \<longrightarrow> snd st' = ip)"
proof (induction p arbitrary: st)
  case (Need key k)
  note h = assms [OF Need.prems, of key]
  show ?case
  proof (cases "res key st")
    case (Inl e)
    then show ?thesis using h by simp
  next
    case (Inr w)
    obtain v s1 where w: "w = (v, s1)" by (cases w)
    then have "snd s1 = ip" using h Inr by (cases s1) simp
    then show ?thesis using Need.IH [of "k v" s1] Inr w by simp
  qed
qed auto

lemma red_fuel_suffices:
  "distinct (snd st) \<Longrightarrow> set (snd st) \<subseteq> fst ` set pg \<Longrightarrow> card (fst ` set pg) + 1 \<le> length (snd st) + fuel \<Longrightarrow>
     eval_reduce_node m pg stack fuel i st \<noteq> Err RedFuel \<and>
     (\<forall>v st'. eval_reduce_node m pg stack fuel i st = Ok (v, st') \<longrightarrow> snd st' = snd st)"
proof (induction fuel arbitrary: i st)
  case 0
  have "length (snd st) = card (set (snd st))" using 0(1) by (simp add: distinct_card)
  also have "\<dots> \<le> card (fst ` set pg)" using 0(2) by (intro card_mono) simp_all
  finally show ?case using 0(3) by simp
next
  case (Suc fuel)
  obtain memo ip where st: "st = (memo, ip)" by (cases st)
  show ?case
  proof (cases "memo i = None \<and> \<not> list_ex (\<lambda>n. n = i) ip \<and> (\<exists>x. red_node pg i = Ok x)")
    case True
    then obtain pid args where h: "memo i = None" "i \<notin> set ip" "red_node pg i = Ok (pid, args)" by (auto simp: list_ex_iff)
    let ?res = "red_resolve stack i args (eval_reduce_node m pg stack fuel)"
    have "map_of pg i \<noteq> None" using h(3) by (auto simp: red_node_def and_then_Inr_iff)
    then have i: "i \<in> fst ` set pg" by (simp add: map_of_eq_None_iff)
    have dist: "distinct (ip @ [i])" "set (ip @ [i]) \<subseteq> fst ` set pg" "card (fst ` set pg) + 1 \<le> length (ip @ [i]) + fuel"
      using Suc.prems st h(2) i by auto
    have res: "?res key s \<noteq> Err RedFuel \<and> (\<forall>v s'. ?res key s = Ok (v, s') \<longrightarrow> snd s' = ip @ [i])" if s: "snd s = ip @ [i]" for key s
    proof (cases "red_arg stack i args key")
      case (Inl e)
      then show ?thesis by (simp add: red_resolve_def)
    next
      case (Inr x)
      then show ?thesis using Suc.IH [of s] dist s by (cases x; cases s) (simp_all add: red_resolve_def)
    qed
    have "run_op ?res (node_op m pid args) (memo, ip @ [i]) \<noteq> Err RedFuel \<and>
        (\<forall>v s'. run_op ?res (node_op m pid args) (memo, ip @ [i]) = Ok (v, s') \<longrightarrow> snd s' = ip @ [i])"
      by (rule run_op_fuel [where res = ?res, OF res]) simp_all
    then show ?thesis using h st by (auto simp: list_ex_iff and_then_Inr_iff and_then_Inl_iff)
  next
    case False
    then show ?thesis using st by (cases "memo i"; cases "red_node pg i") auto
  qed
qed

lemma red_fuel_start:
  "eval_reduce_node m pg stack (length pg + 2) i (Map.empty, []) \<noteq> Err RedFuel"
proof -
  have "card (fst ` set pg) \<le> length pg" using card_image_le [of "set pg" fst] card_length [of pg] by simp
  then show ?thesis using red_fuel_suffices [of "(Map.empty, [])" pg "length pg + 2"] by simp
qed

subsection \<open>Every value is found\<close>

definition finds :: "libm32 \<Rightarrow> (string \<times> json) list \<Rightarrow> f32 list \<Rightarrow> nat \<Rightarrow> bool" where
  "finds m pg stack n \<longleftrightarrow> (\<forall>fuel i v memo ip. red_level m pg stack n i = Some v \<longrightarrow> red_memo_ok m pg stack memo \<longrightarrow>
     (\<forall>x \<in> set ip. red_level m pg stack n x = None) \<longrightarrow>
     eval_reduce_node m pg stack fuel i (memo, ip) = Err RedFuel \<or>
     (\<exists>memo'. eval_reduce_node m pg stack fuel i (memo, ip) = Ok (v, memo', ip) \<and> red_memo_ok m pg stack memo'))"

lemma run_op_finds:
  assumes "\<And>key memo v. red_memo_ok m pg stack memo \<Longrightarrow> val key = Some v \<Longrightarrow>
      res key (memo, ip) = Err RedFuel \<or> (\<exists>memo'. res key (memo, ip) = Ok (v, memo', ip) \<and> red_memo_ok m pg stack memo')"
  shows "red_memo_ok m pg stack memo \<Longrightarrow> run_pure val p = Some v \<Longrightarrow>
    run_op res p (memo, ip) = Err RedFuel \<or> (\<exists>memo'. run_op res p (memo, ip) = Ok (v, memo', ip) \<and> red_memo_ok m pg stack memo')"
proof (induction p arbitrary: memo)
  case (Need key k)
  obtain w where w: "val key = Some w" "run_pure val (k w) = Some v" using Need.prems(2) by (auto simp: bind_eq_Some_conv)
  show ?case
    using assms [OF Need.prems(1) w(1)]
  proof
    assume "\<exists>memo'. res key (memo, ip) = Ok (w, memo', ip) \<and> red_memo_ok m pg stack memo'"
    then obtain memo1 where "res key (memo, ip) = Ok (w, memo1, ip)" "red_memo_ok m pg stack memo1" by blast
    then show ?case using Need.IH [OF _ _ w(2)] by simp
  qed simp
qed simp_all

lemma red_complete: "finds m pg stack n"
proof (induction n)
  case (Suc n)
  show ?case unfolding finds_def
  proof (intro allI impI)
    fix fuel i v memo ip
    assume val: "red_level m pg stack (Suc n) i = Some v" and memo: "red_memo_ok m pg stack memo"
      and ip: "\<forall>x \<in> set ip. red_level m pg stack (Suc n) x = None"
    let ?goal = "eval_reduce_node m pg stack fuel i (memo, ip) = Err RedFuel \<or>
       (\<exists>memo'. eval_reduce_node m pg stack fuel i (memo, ip) = Ok (v, memo', ip) \<and> red_memo_ok m pg stack memo')"
    have ip': "\<forall>x \<in> set ip. red_level m pg stack n x = None" using ip red_level_Suc by (metis option.exhaust option.distinct(1))
    show ?goal
    proof (cases fuel)
      case (Suc fuel')
      show ?thesis
      proof (cases "memo i")
        case (Some w)
        then have "w = v" using memo red_denotes_at [OF val] by (auto simp: red_memo_ok_def)
        then show ?thesis using Some Suc memo by simp
      next
        case new: None
        show ?thesis
        proof (cases "red_level m pg stack n i")
          case (Some w)
          then have "w = v" using red_level_Suc [OF Some] val by simp
          then show ?thesis using Suc.IH [unfolded finds_def, rule_format, OF Some memo, of ip fuel] ip' by simp
        next
          case none: None
          have c: "\<not> list_ex (\<lambda>n. n = i) ip" using ip val by (auto simp: list_ex_iff)
          obtain pid args where h: "red_node pg i = Ok (pid, args)"
            "run_pure (pure_arg stack i args (red_level m pg stack n)) (node_op m pid args) = Some v"
            using val by (auto split: sum.splits)
          let ?res = "red_resolve stack i args (eval_reduce_node m pg stack fuel')"
          have res: "?res key (mm, ip @ [i]) = Err RedFuel \<or>
              (\<exists>mm'. ?res key (mm, ip @ [i]) = Ok (w, mm', ip @ [i]) \<and> red_memo_ok m pg stack mm')"
            if "red_memo_ok m pg stack mm" "pure_arg stack i args (red_level m pg stack n) key = Some w" for key mm w
            using that Suc.IH [unfolded finds_def, rule_format, of _ w mm "ip @ [i]" fuel'] ip' none
            by (auto simp: red_resolve_def pure_arg_def split: sum.splits)
          have "red_denotes m pg stack i v" using val unfolding red_denotes_def by blast
          then have upd: "red_memo_ok m pg stack mm \<Longrightarrow> red_memo_ok m pg stack (mm(i \<mapsto> v))" for mm by (auto simp: red_memo_ok_def)
          show ?thesis
            using run_op_finds [where res = ?res, OF res memo h(2)] new c h(1) Suc upd by (auto simp: and_then_Inr_iff)
        qed
      qed
    qed simp
  qed
qed (simp add: finds_def)

declare eval_reduce_node.simps(2) [simp del]

text \<open>
  The evaluator returns exactly the value its result node denotes; it never runs out of fuel.
\<close>

lemma reduce_subgraph_denotes:
  assumes "find_unique_result_node pg reducer_field = Ok (i, node)"
  shows "eval_reduce_subgraph m pg stack = Ok s \<longleftrightarrow> red_denotes m pg stack i (RScalar s)"
    and "eval_reduce_subgraph m pg stack \<noteq> Err RedFuel"
proof -
  define run where "run = eval_reduce_node m pg stack (length pg + 2) i (Map.empty, [])"
  have e: "eval_reduce_subgraph m pg stack = and_then run (\<lambda>(v, _). case v of RScalar s \<Rightarrow> Ok s
      | RArray _ \<Rightarrow> Err (RedErr (PerPixelComputation (reducer_field @ '': result node returned an array, expected a scalar''))))"
    using assms by (simp add: eval_reduce_subgraph_def run_def del: eval_reduce_node.simps)
  have memo: "red_memo_ok m pg stack Map.empty" by (simp add: red_memo_ok_def)
  show "eval_reduce_subgraph m pg stack = Ok s \<longleftrightarrow> red_denotes m pg stack i (RScalar s)"
  proof
    assume "eval_reduce_subgraph m pg stack = Ok s"
    then obtain v st' where "run = Ok (v, st')" "(case v of RScalar s \<Rightarrow> Ok s
        | RArray _ \<Rightarrow> Err (RedErr (PerPixelComputation (reducer_field @ '': result node returned an array, expected a scalar'')))) = Ok s"
      unfolding e by (auto simp: and_then_Inr_iff)
    then have "run = Ok (RScalar s, st')" by (cases v) simp_all
    then show "red_denotes m pg stack i (RScalar s)" using red_eval_sound [of m pg stack "(Map.empty, [])"] memo unfolding run_def by simp
  next
    assume "red_denotes m pg stack i (RScalar s)"
    then obtain n where "red_level m pg stack n i = Some (RScalar s)" by (auto simp: red_denotes_def)
    then obtain memo' where "run = Ok (RScalar s, memo', [])"
      using red_complete [of m pg stack n, unfolded finds_def, rule_format, OF _ memo, of i "RScalar s" "[]" "length pg + 2"]
        red_fuel_start [of m pg stack i] unfolding run_def [symmetric] by auto
    then show "eval_reduce_subgraph m pg stack = Ok s" unfolding e by simp
  qed
  show "eval_reduce_subgraph m pg stack \<noteq> Err RedFuel"
    unfolding e using red_fuel_start [of m pg stack i] unfolding run_def [symmetric] by (auto simp: and_then_Inl_iff split: red_val.splits)
qed

section \<open>The order statistics\<close>

text \<open>What Rust documents of \<open>f32::min\<close> and \<open>max\<close>: one of the operands, and on numbers the right one.\<close>

definition min_max_laws :: "libm32 \<Rightarrow> bool" where
  "min_max_laws m \<longleftrightarrow> (\<forall>a b. \<not> f32_is_nan a \<longrightarrow> \<not> f32_is_nan b \<longrightarrow>
     (fmin32 m a b = a \<or> fmin32 m a b = b) \<and> f32_le (fmin32 m a b) a \<and> f32_le (fmin32 m a b) b \<and>
     (fmax32 m a b = a \<or> fmax32 m a b = b) \<and> f32_le a (fmax32 m a b) \<and> f32_le b (fmax32 m a b))"

lemma fold_select:
  assumes "\<And>a b. \<not> f32_is_nan a \<Longrightarrow> \<not> f32_is_nan b \<Longrightarrow> (f a b = a \<or> f a b = b) \<and> le (f a b) a \<and> le (f a b) b"
    and "\<And>a b c. le a b \<Longrightarrow> le b c \<Longrightarrow> le a c"
    and "\<And>a. \<not> f32_is_nan a \<Longrightarrow> le a a"
  shows "\<not> f32_is_nan z \<Longrightarrow> list_all (\<lambda>x. \<not> f32_is_nan x) xs \<Longrightarrow>
    foldl f z xs \<in> insert z (set xs) \<and> le (foldl f z xs) z \<and> (\<forall>x \<in> set xs. le (foldl f z xs) x) \<and> \<not> f32_is_nan (foldl f z xs)"
proof (induction xs arbitrary: z)
  case (Cons x xs)
  have x: "\<not> f32_is_nan x" using Cons.prems by simp
  note s = assms(1) [OF Cons.prems(1) x]
  have n: "\<not> f32_is_nan (f z x)" using s Cons.prems(1) x by auto
  have xs: "list_all (\<lambda>x. \<not> f32_is_nan x) xs" using Cons.prems(2) by simp
  note ih = Cons.IH [OF n xs]
  have "foldl f (f z x) xs \<in> insert z (insert x (set xs))" using ih s by auto
  moreover have "le (foldl f (f z x) xs) z" "le (foldl f (f z x) xs) x" using ih s assms(2) by blast+
  ultimately show ?case using ih by simp
qed (simp add: assms(3))

lemma median_rank:
  assumes "xs \<noteq> []" and "odd (length xs)"
  shows "\<exists>s. mset s = mset xs \<and> sorted (map f32_units s) \<and> median_of xs = s ! (length xs div 2)"
  using assms by (intro exI [of _ "sort_key f32_units xs"]) (simp add: median_of_def Let_def odd_iff_mod_2_eq_one)

text \<open>
  On a stack of numbers the minimum, the maximum, the first, the last and the median of an odd number of
  values are values of the stack (or the infinity the fold starts from), the extrema bound all of them.
\<close>

lemma extrema_bound:
  assumes "min_max_laws m" and "list_all (\<lambda>x. \<not> f32_is_nan x) xs" "x \<in> set xs"
    and "apply_reducer m xs RMin = Some lo" "apply_reducer m xs RMax = Some hi"
  shows "f32_le lo x" "f32_le x hi"
proof -
  have inf: "\<not> f32_is_nan (f32_infinity b)" for b
    by (cases b) (simp_all add: f32_is_nan_def f32_mag_def f32_infinity_def f32_make_def inf32_def)
  have laws: "(fmin32 m a b = a \<or> fmin32 m a b = b) \<and> f32_le (fmin32 m a b) a \<and> f32_le (fmin32 m a b) b"
    "(fmax32 m a b = a \<or> fmax32 m a b = b) \<and> f32_le a (fmax32 m a b) \<and> f32_le b (fmax32 m a b)"
    if "\<not> f32_is_nan a" "\<not> f32_is_nan b" for a b
    using assms(1) that unfolding min_max_laws_def by blast+
  have refl: "f32_le a a" if "\<not> f32_is_nan a" for a using that by (simp add: f32_le_def)
  show "f32_le lo x"
    using fold_select [where f = "fmin32 m" and le = f32_le, OF laws(1) f32_le_trans refl inf [of False] assms(2)] assms(3,4) by simp
  show "f32_le x hi"
    using fold_select [where f = "fmax32 m" and le = "\<lambda>a b. f32_le b a", OF laws(2) _ refl inf [of True] assms(2)] assms(3,5) f32_le_trans
    by simp
qed

section \<open>What a callback cannot do\<close>

text \<open>
  A scalar \<open>min\<close> or \<open>max\<close> is never reached: both names are taken by the array reducers, which ask for
  \<open>data\<close>, so a node with \<open>x\<close> and \<open>y\<close> has no value although the callback parses.
\<close>

lemma scalar_min_unreachable: "node_op m ''min'' args = array_op m RMin" "node_op m ''max'' args = array_op m RMax"
  by (simp_all add: node_op_def from_process_id_def)

lemma min_of_two_has_no_value:
  assumes "red_node pg i = Ok (''min'', Some args)" and "map_of args ''data'' = None"
  shows "\<not> red_denotes m pg stack i v"
proof
  assume "red_denotes m pg stack i v"
  then obtain n where "red_level m pg stack n i = Some v" by (auto simp: red_denotes_def)
  then show False using assms by (cases n) (simp_all add: scalar_min_unreachable array_op_def pure_arg_def red_arg_def Let_def)
qed

text \<open>A \<open>clip\<close> whose bounds are not ordered panics.\<close>

lemma clip_panics: "\<not> f32_le lo hi \<Longrightarrow> f32_clamp x lo hi = None"
  by (simp add: f32_clamp_def)

text \<open>A callback of one node is the built-in reducer whatever its arguments are.\<close>

lemma builtin_ignores_arguments:
  assumes "require_subgraph v reducer_field = Ok [(i, node)]" and "marked_result node"
    and "json_get node ''process_id'' = Some (JString pid)" "from_process_id pid = Some r"
  shows "parse_reducer_subgraph v = Ok (Builtin r)"
  using assms by (simp add: parse_reducer_subgraph_def find_unique_result_node_def result_process_id_def)

text \<open>A parsed callback names only known processes.\<close>

lemma validated_processes:
  "validate_reduce_subgraph_processes pg = Ok () \<Longrightarrow> (i, node) \<in> set pg \<Longrightarrow>
     \<exists>pid. json_get node ''process_id'' = Some (JString pid) \<and> (from_process_id pid \<noteq> None \<or> pid \<in> set scalar_ops)"
proof (induction pg rule: validate_reduce_subgraph_processes.induct)
  case (2 j x pg)
  obtain pid where "Option.bind (json_get x ''process_id'') as_str = Some pid" "from_process_id pid \<noteq> None \<or> pid \<in> set scalar_ops"
    "validate_reduce_subgraph_processes pg = Ok ()"
    using "2.prems"(1) by (auto simp: and_then_Inr_iff split: if_splits)
  moreover from this(1) obtain w where "json_get x ''process_id'' = Some w" "as_str w = Some pid" by (auto simp: bind_eq_Some_conv)
  then have "json_get x ''process_id'' = Some (JString pid)" by (cases w) simp_all
  ultimately show ?case using 2 by auto
qed simp

end
