(* ===== verification/Reduce_Dimension.thy ===== *)
theory Reduce_Dimension
  imports Reducers Raster_Runs Data_Cube
begin

text \<open>
  \<open>reduce_dimension\<close> of \<open>geo_executor/eval_reduce.rs\<close> over the time axis and over the band axis: the choice of
  the band, the data set it builds, the per-pixel worker and the cube it answers. The files written are
  part of the result, in order. GDAL, the clock, the thread pool and the order of its tasks are the
  record \<open>raster_env\<close>.
\<close>

record ('h, 'b, 'f) raster_env =
  x_exists :: "string \<Rightarrow> bool"
  x_gdal :: "('h, 'b) gdal"
  x_reader :: "('b, f32) band_reader"
  x_out :: "('f, f32) gdal_out"
  x_parent :: "string \<Rightarrow> string option"
  x_pool :: "nat \<Rightarrow> (string, unit) result"
  x_threads :: nat
  x_crop :: nat
  x_scratch :: "string \<Rightarrow> string"
  x_nanos :: "nat \<Rightarrow> nat"
  x_sched :: "nat \<Rightarrow> raster_dataset \<Rightarrow> (nat \<times> nat) list"
  x_math :: libm32
  x_decode :: "json \<Rightarrow> string"

text \<open>A process fails with an error, panics, or does not end.\<close>

datatype raster_fail = Failing exec_error | Panicking | Hanging

section \<open>The worker\<close>

definition usable :: "f32 \<Rightarrow> bool" where
  "usable v \<longleftrightarrow> f32_is_finite v \<and> \<not> f32_eq v SENTINEL_NDVI_NA"

text \<open>The value of one output pixel; \<open>None\<close> is a panic.\<close>

definition reduce_pixel :: "libm32 \<Rightarrow> reducer_kind \<Rightarrow> f32 list \<Rightarrow> f32 option" where
  "reduce_pixel m red stack =
     (if stack = [] then Some SENTINEL_NDVI_NA
      else case red of
        Builtin r \<Rightarrow> apply_reducer m stack r
      | SubGraph pg \<Rightarrow> (case eval_reduce_subgraph m pg stack of
          Inr v \<Rightarrow> Some v
        | Inl (RedErr _) \<Rightarrow> Some SENTINEL_NDVI_NA
        | Inl _ \<Rightarrow> None))"

definition time_stack :: "f32 data_block \<Rightarrow> nat \<Rightarrow> nat \<Rightarrow> f32 list" where
  "time_stack b r c = filter usable (map (\<lambda>t. db_data b t 0 r c) [0..<rs_times (db_shape b)])"

definition layer_stack :: "f32 data_block \<Rightarrow> nat \<Rightarrow> nat \<Rightarrow> f32 list" where
  "layer_stack b r c = filter usable (map (\<lambda>l. db_data b 0 l r c) [0..<rs_layers (db_shape b)])"

definition pixel_array :: "nat \<Rightarrow> nat \<Rightarrow> (nat \<Rightarrow> nat \<Rightarrow> f32 option) \<Rightarrow> f32 array3 option" where
  "pixel_array rows cols px =
     (if list_all (\<lambda>r. list_all (\<lambda>c. px r c \<noteq> None) [0..<cols]) [0..<rows]
      then Some \<lparr>a3_layers = 1, a3_rows = rows, a3_cols = cols, a3_at = (\<lambda>l r c. the (px r c))\<rparr>
      else None)"

definition time_worker :: "libm32 \<Rightarrow> reducer_kind \<Rightarrow> f32 data_block \<Rightarrow> dimension \<Rightarrow> f32 array3 option" where
  "time_worker m red b dim =
     pixel_array (rs_rows (db_shape b)) (rs_cols (db_shape b)) (\<lambda>r c. reduce_pixel m red (time_stack b r c))"

definition layer_worker :: "libm32 \<Rightarrow> reducer_kind \<Rightarrow> f32 data_block \<Rightarrow> dimension \<Rightarrow> f32 array3 option" where
  "layer_worker m red b dim =
     pixel_array (rs_rows (db_shape b)) (rs_cols (db_shape b)) (\<lambda>r c. reduce_pixel m red (layer_stack b r c))"

section \<open>The two axes\<close>

definition reduce_index_bands :: "string list" where
  "reduce_index_bands = [''ndvi'', ''ndmi'', ''ndwi'', ''evi'', ''savi'', ''msavi'']"

definition index_key :: "(string, string list) btree \<Rightarrow> string option" where
  "index_key bands = (case find (\<lambda>k. bt_get bands k \<noteq> None) reduce_index_bands of
      Some k \<Rightarrow> Some k
    | None \<Rightarrow> find (\<lambda>k. k \<noteq> ''SCL'') (map fst bands))"

definition lift_exec :: "(exec_error, 'a) result \<Rightarrow> (raster_fail, 'a) result" where
  "lift_exec r = map_err Failing r"

definition lift_geo :: "string \<Rightarrow> (geo_error, 'a) result \<Rightarrow> (raster_fail, 'a) result" where
  "lift_geo what r = map_err (\<lambda>e. Failing (Backend (what @ geo_error_display e))) r"

definition lift_run :: "string \<Rightarrow> (geo_fail, 'a) result \<Rightarrow> (raster_fail, 'a) result" where
  "lift_run what r = map_err (\<lambda>e. case e of
      Fails g \<Rightarrow> Failing (Backend (what @ geo_error_display g)) | Panicked \<Rightarrow> Panicking) r"

definition open_stack ::
  "('h, 'b, 'f) raster_env \<Rightarrow> string \<Rightarrow> string \<Rightarrow> string list \<Rightarrow> (raster_fail, raster_dataset) result" where
  "open_stack x builder_msg build_msg paths =
     and_then (lift_geo builder_msg (from_files paths)) (\<lambda>b.
       case build_dataset (x_exists x) (x_gdal x)
           (b\<lparr>b_resolution := Some \<lparr>res_x = f64_of_nat 10, res_y = f64_minus (f64_of_nat 10)\<rparr>,
              b_block_size := \<lparr>bs_rows = x_crop x, bs_cols = x_crop x\<rparr>\<rparr>) of
         None \<Rightarrow> Err Hanging
       | Some r \<Rightarrow> lift_geo build_msg r)"

definition with_stack :: "nat \<Rightarrow> nat \<Rightarrow> layer_mapping list \<Rightarrow> raster_dataset \<Rightarrow> raster_dataset" where
  "with_stack n_times n_layers ms d =
     d\<lparr>ds_metadata := (ds_metadata d)\<lparr>dm_shape := (dm_shape (ds_metadata d))\<lparr>rs_times := n_times, rs_layers := n_layers\<rparr>\<rparr>,
       ds_mappings := ms\<rparr>"

definition time_mappings :: "string list \<Rightarrow> layer_mapping list" where
  "time_mappings paths = map (\<lambda>(t, p). \<lparr>lm_source = p, lm_time = t, lm_layer = 0, lm_band = 1\<rparr>) (List.enumerate 0 paths)"

definition layer_mappings :: "string list \<Rightarrow> layer_mapping list" where
  "layer_mappings paths = map (\<lambda>(l, p). \<lparr>lm_source = p, lm_time = 0, lm_layer = l, lm_band = 1\<rparr>) (List.enumerate 0 paths)"

definition cube_json :: "string \<Rightarrow> string list \<Rightarrow> string \<Rightarrow> nat \<Rightarrow> json" where
  "cube_json band paths produced_by n = JObject [(''__cube'', JObject
     [(''bands'', JObject [(band, JArray (map JString paths))]), (''produced_by'', JString produced_by),
      (''scene_count'', JNumber (PosInt n))])]"

definition downloaded_cube ::
  "('h, 'b, 'f) raster_env \<Rightarrow> string \<Rightarrow> args \<Rightarrow> (raster_fail, data_cube) result" where
  "downloaded_cube x name args =
     and_then (lift_exec (ok_or (InvalidGraph (name @ '': missing `data`'')) (bt_get args ''data''))) (\<lambda>data.
       lift_exec (map_err (\<lambda>e. InvalidGraph (name @ '': input is not a downloaded cube: '' @ cube_error_display e))
         (from_envelope_owned (x_decode x) data)))"

definition parse_reducer_arg :: "string \<Rightarrow> args \<Rightarrow> (raster_fail, reducer_kind) result" where
  "parse_reducer_arg name args =
     and_then (lift_exec (ok_or (InvalidGraph (name @ '': missing `reducer` sub-process callback'')) (bt_get args ''reducer''))) (\<lambda>v.
       lift_exec (parse_reducer_subgraph v))"

definition reduce_time ::
  "('h, 'b, 'f) raster_env \<Rightarrow> args \<Rightarrow> (raster_fail, json \<times> (string \<times> 'f) list) result" where
  "reduce_time x args =
     and_then (parse_reducer_arg ''reduce_dimension'' args) (\<lambda>red.
     and_then (downloaded_cube x ''reduce_dimension'' args) (\<lambda>cube.
     and_then (lift_exec (ok_or (InvalidGraph ''reduce_dimension: __cube.bands has no usable band (cube is empty or only contains SCL)'')
         (index_key (c_bands cube)))) (\<lambda>key.
     and_then (lift_exec (map_err (\<lambda>_. InvalidGraph (''reduce_dimension: band `'' @ key @ ''` vanished from cube''))
         (fst (take_band cube key)))) (\<lambda>paths.
     if paths = [] then Err (Failing (Backend ''reduce_dimension: empty input cube''))
     else and_then (open_stack x ''reduce_dimension: builder: '' ''reduce_dimension: build: '' paths) (\<lambda>d.
       let d' = with_stack (length paths) 1 (time_mappings paths) d;
           out = x_scratch x (''reduce_'' @ show_nat (x_nanos x 0) @ ''.tif'')
       in and_then (lift_run ''reduce_dimension: apply_reduction: ''
            (apply_reduction (x_pool x) (x_gdal x) (x_reader x) (x_out x) (x_parent x) zero32 (x_sched x 0 d') d'
              (time_worker (x_math x) red) Time (x_threads x) out SENTINEL_NDVI_NA)) (\<lambda>w.
          Ok (cube_json key [out] (''reduce_dimension('' @ reducer_kind_label red @ '')'') 1, [(out, gw_file w)])))))))"

text \<open>One scene of the band axis.\<close>

definition reduce_scene ::
  "('h, 'b, 'f) raster_env \<Rightarrow> reducer_kind \<Rightarrow> string list list \<Rightarrow> nat \<Rightarrow> (raster_fail, string \<times> 'f) result" where
  "reduce_scene x red band_paths t =
     (let paths = map (\<lambda>ps. ps ! t) band_paths; ts = show_nat t in
      and_then (open_stack x (''reduce(bands): builder t='' @ ts @ '': '') (''reduce(bands): build t='' @ ts @ '': '') paths) (\<lambda>d.
        let d' = with_stack 1 (length band_paths) (layer_mappings paths) d;
            out = x_scratch x (''reduce_bands_t'' @ ts @ ''_'' @ show_nat (x_nanos x t) @ ''.tif'')
        in and_then (lift_run (''reduce(bands): apply_reduction t='' @ ts @ '': '')
             (apply_reduction (x_pool x) (x_gdal x) (x_reader x) (x_out x) (x_parent x) zero32 (x_sched x t d') d'
               (layer_worker (x_math x) red) Layer (x_threads x) out SENTINEL_NDVI_NA)) (\<lambda>w. Ok (out, gw_file w))))"

definition eval_reduce_dimension_bands ::
  "('h, 'b, 'f) raster_env \<Rightarrow> args \<Rightarrow> (raster_fail, json \<times> (string \<times> 'f) list) result" where
  "eval_reduce_dimension_bands x args =
     and_then (parse_reducer_arg ''reduce_dimension(bands)'' args) (\<lambda>red.
     and_then (downloaded_cube x ''reduce_dimension(bands)'' args) (\<lambda>cube.
     let bands = filter (\<lambda>kv. fst kv \<noteq> ''SCL'') (c_bands cube) in
     case bands of
       [] \<Rightarrow> Err (Failing (InvalidGraph ''reduce_dimension(bands): cube has no non-SCL band to reduce''))
     | [(k, paths)] \<Rightarrow> Ok (cube_json ''result'' paths (''reduce_dimension(bands, '' @ reducer_kind_label red @ '', single-band-passthrough)'')
         (length paths), [])
     | (k, ps) # _ \<Rightarrow>
         (case find (\<lambda>kv. length (snd kv) \<noteq> length ps) bands of
            Some (j, qs) \<Rightarrow> Err (Failing (InvalidGraph (''reduce_dimension(bands): band `'' @ j @ ''` has '' @ show_nat (length qs) @
              '' scenes, expected '' @ show_nat (length ps))))
          | None \<Rightarrow>
              and_then (traverse (reduce_scene x red (map snd bands)) [0..<length ps]) (\<lambda>outs.
                Ok (cube_json ''result'' (map fst outs) (''reduce_dimension(bands, '' @ reducer_kind_label red @ '')'') (length ps), outs)))))"

definition eval_reduce_dimension ::
  "('h, 'b, 'f) raster_env \<Rightarrow> args \<Rightarrow> (raster_fail, json \<times> (string \<times> 'f) list) result" where
  "eval_reduce_dimension x args =
     and_then (lift_exec (ok_or (InvalidGraph ''reduce_dimension: missing `dimension` (must be a string)'')
         (Option.bind (bt_get args ''dimension'') as_str))) (\<lambda>dim.
     if dim \<in> {''bands'', ''band''} then eval_reduce_dimension_bands x args
     else if dim \<notin> {''t'', ''time'', ''temporal''}
     then Err (Failing (InvalidGraph (''reduce_dimension: dimension `'' @ dim @
       ''` not supported (only `t`/`time`/`temporal` and `bands`/`band`)'')))
     else reduce_time x args)"

section \<open>What the workers compute\<close>

lemma pixel_array_Some:
  assumes "\<And>r c. r < rows \<Longrightarrow> c < cols \<Longrightarrow> px r c \<noteq> None"
  shows "pixel_array rows cols px = Some \<lparr>a3_layers = 1, a3_rows = rows, a3_cols = cols, a3_at = (\<lambda>l r c. the (px r c))\<rparr>"
  using assms by (simp add: pixel_array_def list_all_iff)

text \<open>A reducer that no stack of usable values makes panic.\<close>

definition total_reducer :: "libm32 \<Rightarrow> reducer_kind \<Rightarrow> bool" where
  "total_reducer m red \<longleftrightarrow> (\<forall>stack. list_all usable stack \<longrightarrow> reduce_pixel m red stack \<noteq> None)"

lemma apply_reducer_total: "xs \<noteq> [] \<Longrightarrow> apply_reducer m xs r \<noteq> None"
  by (cases r) simp_all

lemma builtin_total: "total_reducer m (Builtin r)"
  using apply_reducer_total by (simp add: total_reducer_def reduce_pixel_def)

definition pixel_of :: "libm32 \<Rightarrow> reducer_kind \<Rightarrow> f32 list \<Rightarrow> f32" where
  "pixel_of m red vs = the (reduce_pixel m red (filter usable vs))"

lemma total_filtered: "total_reducer m red \<Longrightarrow> reduce_pixel m red (filter usable vs) = Some (pixel_of m red vs)"
  unfolding total_reducer_def pixel_of_def by (simp add: list_all_iff)

lemma time_worker_pixelwise:
  assumes "total_reducer m red"
  shows "pixelwise d 1 (\<lambda>l cell. pixel_of m red (map (\<lambda>t. cell t 0) [0..<rs_times (dm_shape (ds_metadata d))])) (\<lambda>b. time_worker m red b dim)"
  unfolding pixelwise_def
proof (intro allI impI)
  fix b :: "f32 data_block"
  assume t: "rs_times (db_shape b) = rs_times (dm_shape (ds_metadata d))"
  have "time_worker m red b dim = Some \<lparr>a3_layers = 1, a3_rows = rs_rows (db_shape b), a3_cols = rs_cols (db_shape b),
      a3_at = (\<lambda>l r c. pixel_of m red (map (\<lambda>t. db_data b t 0 r c) [0..<rs_times (dm_shape (ds_metadata d))]))\<rparr>"
    unfolding time_worker_def time_stack_def t total_filtered [OF assms] by (subst pixel_array_Some) simp_all
  then show "\<exists>a. time_worker m red b dim = Some a \<and> a3_layers a = 1 \<and> a3_rows a = rs_rows (db_shape b) \<and> a3_cols a = rs_cols (db_shape b) \<and>
     (\<forall>l r c. l < 1 \<longrightarrow> r < a3_rows a \<longrightarrow> c < a3_cols a \<longrightarrow>
        a3_at a l r c = pixel_of m red (map (\<lambda>t. db_data b t 0 r c) [0..<rs_times (dm_shape (ds_metadata d))]))" by simp
qed

lemma layer_worker_pixelwise:
  assumes "total_reducer m red"
  shows "pixelwise d 1 (\<lambda>l cell. pixel_of m red (map (cell 0) [0..<rs_layers (dm_shape (ds_metadata d))])) (\<lambda>b. layer_worker m red b dim)"
  unfolding pixelwise_def
proof (intro allI impI)
  fix b :: "f32 data_block"
  assume t: "rs_layers (db_shape b) = rs_layers (dm_shape (ds_metadata d))"
  have "layer_worker m red b dim = Some \<lparr>a3_layers = 1, a3_rows = rs_rows (db_shape b), a3_cols = rs_cols (db_shape b),
      a3_at = (\<lambda>l r c. pixel_of m red (map (\<lambda>l'. db_data b 0 l' r c) [0..<rs_layers (dm_shape (ds_metadata d))]))\<rparr>"
    unfolding layer_worker_def layer_stack_def t total_filtered [OF assms] by (subst pixel_array_Some) simp_all
  then show "\<exists>a. layer_worker m red b dim = Some a \<and> a3_layers a = 1 \<and> a3_rows a = rs_rows (db_shape b) \<and> a3_cols a = rs_cols (db_shape b) \<and>
     (\<forall>l r c. l < 1 \<longrightarrow> r < a3_rows a \<longrightarrow> c < a3_cols a \<longrightarrow>
        a3_at a l r c = pixel_of m red (map (\<lambda>l'. db_data b 0 l' r c) [0..<rs_layers (dm_shape (ds_metadata d))]))" by simp
qed

text \<open>The slots of the two stacks.\<close>

lemma find_enumerate:
  assumes "k < length paths" and "\<And>i p. P (f (i, p)) \<longleftrightarrow> i = k"
  shows "find P (rev (map f (List.enumerate 0 paths))) = Some (f (k, paths ! k))"
proof -
  let ?xs = "map f (List.enumerate 0 paths)"
  have nth: "?xs ! i = f (i, paths ! i)" if "i < length paths" for i using that by (simp add: nth_enumerate_eq)
  have e: "\<exists>x \<in> set ?xs. P x" using assms nth [of k] by (auto simp: set_conv_nth)
  then have "find P (rev ?xs) \<noteq> None" unfolding find_None_iff set_rev by blast
  then obtain x where x: "find P (rev ?xs) = Some x" by blast
  then have "x \<in> set (rev ?xs)" "P x" unfolding find_Some_iff using nth_mem by blast+
  then obtain i where "i < length paths" "x = f (i, paths ! i)" using nth unfolding set_rev in_set_conv_nth by auto
  then show ?thesis using x assms(2) \<open>P x\<close> by simp
qed

lemma time_slot: "t < length paths \<Longrightarrow> slot_value z img (time_mappings paths) t 0 r c = img (paths ! t) 1 r c"
  using find_enumerate [of t paths "\<lambda>m. lm_time m = t \<and> lm_layer m = 0" "\<lambda>(t, p). \<lparr>lm_source = p, lm_time = t, lm_layer = 0, lm_band = 1\<rparr>"]
  by (simp add: slot_value_def time_mappings_def)

lemma layer_slot: "l < length paths \<Longrightarrow> slot_value z img (layer_mappings paths) 0 l r c = img (paths ! l) 1 r c"
  using find_enumerate [of l paths "\<lambda>m. lm_time m = 0 \<and> lm_layer m = l" "\<lambda>(l, p). \<lparr>lm_source = p, lm_time = 0, lm_layer = l, lm_band = 1\<rparr>"]
  by (simp add: slot_value_def layer_mappings_def)

lemma open_stack_gridded:
  assumes "open_stack x b1 b2 paths = Ok d" and "0 < x_crop x" "x_crop x < 2 ^ 63"
    and "rs_rows (dm_shape (ds_metadata d)) < 2 ^ 31" "rs_cols (dm_shape (ds_metadata d)) < 2 ^ 31"
  shows "gridded (with_stack n l ms d)"
proof -
  let ?b = "(from_source (Files paths))\<lparr>b_resolution := Some \<lparr>res_x = f64_of_nat 10, res_y = f64_minus (f64_of_nat 10)\<rparr>,
              b_block_size := \<lparr>bs_rows = x_crop x, bs_cols = x_crop x\<rparr>\<rparr>"
  have p: "paths \<noteq> []" and b: "build_dataset (x_exists x) (x_gdal x) ?b = Some (Ok d)"
    using assms(1) by (auto simp: open_stack_def lift_geo_def from_files_def and_then_Inr_iff split: if_splits option.splits)
  obtain first rest where "paths = first # rest" using p by (cases paths) auto
  then obtain shape epsg g blocks where
    s: "partition_blocks (shape\<lparr>rs_times := length paths\<rparr>) \<lparr>bs_rows = x_crop x, bs_cols = x_crop x\<rparr> (overlap_uniform 0) g epsg = Some blocks"
    and d: "ds_blocks d = blocks" "dm_shape (ds_metadata d) = shape\<lparr>rs_times := length paths\<rparr>"
    using b by (auto simp: build_dataset_def from_source_def Let_def split: sum.splits option.splits)
  show ?thesis unfolding gridded_def
    by (rule exI [of _ "shape\<lparr>rs_times := length paths\<rparr>"], rule exI [of _ "\<lparr>bs_rows = x_crop x, bs_cols = x_crop x\<rparr>"],
        rule exI [of _ "overlap_uniform 0"], rule exI [of _ g], rule exI [of _ epsg])
      (use s d assms(2-5) in \<open>simp add: with_stack_def fits_def overlap_is_zero_def overlap_uniform_def\<close>)
qed

lemma with_stack_shape [simp]:
  "rs_rows (dm_shape (ds_metadata (with_stack n l ms d))) = rs_rows (dm_shape (ds_metadata d))"
  "rs_cols (dm_shape (ds_metadata (with_stack n l ms d))) = rs_cols (dm_shape (ds_metadata d))"
  "rs_times (dm_shape (ds_metadata (with_stack n l ms d))) = n" "rs_layers (dm_shape (ds_metadata (with_stack n l ms d))) = l"
  "ds_mappings (with_stack n l ms d) = ms" "num_blocks (with_stack n l ms d) = num_blocks d"
  by (simp_all add: with_stack_def num_blocks_def)

text \<open>What the environment must provide for a reduction of the data set \<open>d\<close> into the file \<open>out\<close> to succeed.\<close>

definition reducible ::
  "('h, 'b, 'f) raster_env \<Rightarrow> nat \<Rightarrow> raster_dataset \<Rightarrow> string \<Rightarrow> (string \<Rightarrow> nat \<Rightarrow> nat \<Rightarrow> nat \<Rightarrow> f32) \<Rightarrow> bool" where
  "reducible x t d out img \<longleftrightarrow>
     serves (x_gdal x) (x_reader x) d img \<and> mset (map snd (x_sched x t d)) = mset [0..<num_blocks d] \<and>
     x_pool x (max (x_threads x) 1) = Ok () \<and>
     (\<exists>w. create_output (x_out x) (x_parent x) d out 1 SENTINEL_NDVI_NA = Ok w) \<and>
     (\<forall>f. \<exists>f'. o_overviews (x_out x) f ''AVERAGE'' [2, 4, 8, 16] = Ok f')"

lemma reduction_runs:
  assumes "gdal_sink (x_out x) fdims fpix" and "gridded d" and "reducible x t d out img"
    and "pixelwise d 1 f (\<lambda>b. worker b dim)"
  shows "\<exists>w. apply_reduction (x_pool x) (x_gdal x) (x_reader x) (x_out x) (x_parent x) zero32 (x_sched x t d) d worker dim
      (x_threads x) out SENTINEL_NDVI_NA = Ok w \<and>
    (\<forall>r c. r < rs_rows (dm_shape (ds_metadata d)) \<longrightarrow> c < rs_cols (dm_shape (ds_metadata d)) \<longrightarrow>
       fpix (gw_file w) 0 r c = f 0 (\<lambda>t l. slot_value zero32 img (ds_mappings d) t l r c))"
proof -
  obtain w0 where w0: "create_output (x_out x) (x_parent x) d out 1 SENTINEL_NDVI_NA = Ok w0" using assms(3) by (auto simp: reducible_def)
  have r: "serves (x_gdal x) (x_reader x) d img" "mset (map snd (x_sched x t d)) = mset [0..<num_blocks d]"
    "x_pool x (max (x_threads x) 1) = Ok ()" "\<And>f. \<exists>f'. o_overviews (x_out x) f ''AVERAGE'' [2, 4, 8, 16] = Ok f'"
    using assms(3) unfolding reducible_def by blast+
  show ?thesis
    by (rule gdal_sink.apply_reduction_lands [where worker = worker and dim = dim and pool = "x_pool x" and n_threads = "x_threads x",
        OF assms(1,2) r(1) assms(4) r(2,3) w0 r(4)])
qed

text \<open>
  With a single band besides \<open>SCL\<close> the reduction over bands hands the files through: the reducer is parsed and
  then ignored, so \<open>count\<close> or \<open>sd\<close> answers the band itself.
\<close>

lemma single_band_untouched:
  assumes "parse_reducer_arg ''reduce_dimension(bands)'' args = Ok red" and "downloaded_cube x ''reduce_dimension(bands)'' args = Ok cube"
    and "filter (\<lambda>kv. fst kv \<noteq> ''SCL'') (c_bands cube) = [(k, paths)]"
  shows "eval_reduce_dimension_bands x args = Ok (cube_json ''result'' paths
    (''reduce_dimension(bands, '' @ reducer_kind_label red @ '', single-band-passthrough)'') (length paths), [])"
  using assms by (simp add: eval_reduce_dimension_bands_def Let_def)

text \<open>One scene of a reduction over bands: the reducer over the bands' values at each pixel.\<close>

lemma scene_pixels:
  assumes "gdal_sink (x_out x) fdims fpix" and "total_reducer (x_math x) red" and "paths = map (\<lambda>ps. ps ! t) band_paths"
    and "open_stack x (''reduce(bands): builder t='' @ show_nat t @ '': '') (''reduce(bands): build t='' @ show_nat t @ '': '') paths = Ok d"
    and "0 < x_crop x" "x_crop x < 2 ^ 63" and "rs_rows (dm_shape (ds_metadata d)) < 2 ^ 31" "rs_cols (dm_shape (ds_metadata d)) < 2 ^ 31"
    and "out = x_scratch x (''reduce_bands_t'' @ show_nat t @ ''_'' @ show_nat (x_nanos x t) @ ''.tif'')"
    and "reducible x t (with_stack 1 (length band_paths) (layer_mappings paths) d) out img"
  shows "\<exists>f. reduce_scene x red band_paths t = Ok (out, f) \<and>
    (\<forall>r c. r < rs_rows (dm_shape (ds_metadata d)) \<longrightarrow> c < rs_cols (dm_shape (ds_metadata d)) \<longrightarrow>
       reduce_pixel (x_math x) red (filter usable (map (\<lambda>p. img p 1 r c) paths)) = Some (fpix f 0 r c))"
proof -
  let ?d = "with_stack 1 (length band_paths) (layer_mappings paths) d"
  note grid = open_stack_gridded [OF assms(4-8), of 1 "length band_paths" "layer_mappings paths"]
  obtain w where w: "apply_reduction (x_pool x) (x_gdal x) (x_reader x) (x_out x) (x_parent x) zero32 (x_sched x t ?d) ?d
      (layer_worker (x_math x) red) Layer (x_threads x) out SENTINEL_NDVI_NA = Ok w"
    and px: "\<forall>r c. r < rs_rows (dm_shape (ds_metadata ?d)) \<longrightarrow> c < rs_cols (dm_shape (ds_metadata ?d)) \<longrightarrow>
       fpix (gw_file w) 0 r c = pixel_of (x_math x) red (map (\<lambda>l. slot_value zero32 img (ds_mappings ?d) 0 l r c)
         [0..<rs_layers (dm_shape (ds_metadata ?d))])"
    using reduction_runs [where worker = "layer_worker (x_math x) red" and dim = Layer, OF assms(1) grid assms(10) layer_worker_pixelwise [OF assms(2)]]
    by blast
  have "reduce_scene x red band_paths t = Ok (out, gw_file w)"
    using assms(3,4,9) w by (simp add: reduce_scene_def Let_def lift_run_def)
  moreover have "reduce_pixel (x_math x) red (filter usable (map (\<lambda>p. img p 1 r c) paths)) = Some (fpix (gw_file w) 0 r c)"
    if "r < rs_rows (dm_shape (ds_metadata d))" "c < rs_cols (dm_shape (ds_metadata d))" for r c
  proof -
    have "map (\<lambda>l. slot_value zero32 img (layer_mappings paths) 0 l r c) [0..<length band_paths] = map (\<lambda>p. img p 1 r c) paths"
      by (rule nth_equalityI) (simp_all add: layer_slot assms(3))
    then show ?thesis using px that total_filtered [OF assms(2)] by simp
  qed
  ultimately show ?thesis by (intro exI [of _ "gw_file w"]) simp
qed

section \<open>Properties\<close>

text \<open>
  C36. \<open>reduce_dimension\<close> over time computes the reducer at every pixel, whatever the block size, the number
  of threads and the order in which the blocks are finished: with a callback that parses and that cannot
  panic, a cube with a usable band whose files can be read, and a GDAL that keeps its contract, the process
  answers a cube with that band and one new file, and each pixel of that file is the reducer applied to the
  values of the band's files at the pixel, in scene order, without those that are not finite or equal the
  no-data value; it is the no-data value when none is left.
\<close>

theorem reduce_time_pixels:
  assumes "gdal_sink (x_out x) fdims fpix"
    and "bt_get args ''dimension'' = Some (JString dim)" "dim \<in> {''t'', ''time'', ''temporal''}"
    and "bt_get args ''reducer'' = Some v" "parse_reducer_subgraph v = Ok red" "total_reducer (x_math x) red"
    and "bt_get args ''data'' = Some data" "from_envelope_owned (x_decode x) data = Ok cube"
    and "index_key (c_bands cube) = Some key" "bt_get (c_bands cube) key = Some paths" "paths \<noteq> []"
    and "open_stack x ''reduce_dimension: builder: '' ''reduce_dimension: build: '' paths = Ok d"
    and "0 < x_crop x" "x_crop x < 2 ^ 63"
    and "rs_rows (dm_shape (ds_metadata d)) < 2 ^ 31" "rs_cols (dm_shape (ds_metadata d)) < 2 ^ 31"
    and "out = x_scratch x (''reduce_'' @ show_nat (x_nanos x 0) @ ''.tif'')"
    and "reducible x 0 (with_stack (length paths) 1 (time_mappings paths) d) out img"
  shows "\<exists>f. eval_reduce_dimension x args =
      Ok (cube_json key [out] (''reduce_dimension('' @ reducer_kind_label red @ '')'') 1, [(out, f)]) \<and>
    (\<forall>r c. r < rs_rows (dm_shape (ds_metadata d)) \<longrightarrow> c < rs_cols (dm_shape (ds_metadata d)) \<longrightarrow>
       reduce_pixel (x_math x) red (filter usable (map (\<lambda>p. img p 1 r c) paths)) = Some (fpix f 0 r c))"
proof -
  let ?d = "with_stack (length paths) 1 (time_mappings paths) d"
  note grid = open_stack_gridded [OF assms(12-16), of "length paths" 1 "time_mappings paths"]
  obtain w where w: "apply_reduction (x_pool x) (x_gdal x) (x_reader x) (x_out x) (x_parent x) zero32 (x_sched x 0 ?d) ?d
      (time_worker (x_math x) red) Time (x_threads x) out SENTINEL_NDVI_NA = Ok w"
    and px: "\<forall>r c. r < rs_rows (dm_shape (ds_metadata ?d)) \<longrightarrow> c < rs_cols (dm_shape (ds_metadata ?d)) \<longrightarrow>
       fpix (gw_file w) 0 r c = pixel_of (x_math x) red (map (\<lambda>t. slot_value zero32 img (ds_mappings ?d) t 0 r c)
         [0..<rs_times (dm_shape (ds_metadata ?d))])"
    using reduction_runs [where worker = "time_worker (x_math x) red" and dim = Time, OF assms(1) grid assms(18) time_worker_pixelwise [OF assms(6)]]
    by blast
  have "dim \<notin> {''bands'', ''band''}" using assms(3) by auto
  then have e: "eval_reduce_dimension x args = reduce_time x args"
    using assms(2,3) by (simp add: eval_reduce_dimension_def lift_exec_def)
  have "reduce_time x args = Ok (cube_json key [out] (''reduce_dimension('' @ reducer_kind_label red @ '')'') 1, [(out, gw_file w)])"
    using assms(4,5,7-12) w assms(17)
    by (simp add: reduce_time_def parse_reducer_arg_def downloaded_cube_def lift_exec_def take_band_def Let_def lift_run_def)
  moreover have "reduce_pixel (x_math x) red (filter usable (map (\<lambda>p. img p 1 r c) paths)) = Some (fpix (gw_file w) 0 r c)"
    if "r < rs_rows (dm_shape (ds_metadata d))" "c < rs_cols (dm_shape (ds_metadata d))" for r c
  proof -
    have "map (\<lambda>t. slot_value zero32 img (time_mappings paths) t 0 r c) [0..<length paths] = map (\<lambda>p. img p 1 r c) paths"
      by (rule nth_equalityI) (simp_all add: time_slot)
    then show ?thesis using px that total_filtered [OF assms(6)] by simp
  qed
  ultimately show ?thesis unfolding e by (intro exI [of _ "gw_file w"]) simp
qed

text \<open>Two scenes of one row and two columns, reduced in blocks of one pixel, the last block first.\<close>

definition sample_gdal :: "(string, string) gdal" where
  "sample_gdal = \<lparr>g_open = Ok, g_raster_size = (\<lambda>_. (2, 1)), g_raster_count = (\<lambda>_. 1),
     g_geo_transform = (\<lambda>_. Ok \<lparr>gt0 = f64_of_nat 0, gt1 = f64_of_nat 10, gt2 = f64_of_nat 0, gt3 = f64_of_nat 0, gt4 = f64_of_nat 0,
       gt5 = f64_minus (f64_of_nat 10)\<rparr>),
     g_auth_code = (\<lambda>_. None), g_rasterband = (\<lambda>h b. Ok h)\<rparr>"

definition sample_image :: "string \<Rightarrow> nat \<Rightarrow> nat \<Rightarrow> nat \<Rightarrow> f32" where
  "sample_image p b r c = f32_of_nat (length p + c)"

definition sample_raster_env :: "(string, string, f32 mem_raster) raster_env" where
  "sample_raster_env = \<lparr>x_exists = (\<lambda>_. True), x_gdal = sample_gdal,
     x_reader = \<lparr>r_read_as = (\<lambda>p off sz. Ok (Ok (\<lambda>r c. sample_image p 1 (nat (snd off) + r) (nat (fst off) + c))))\<rparr>,
     x_out = mem_out zero32, x_parent = (\<lambda>_. None), x_pool = (\<lambda>_. Ok ()), x_threads = 4, x_crop = 1, x_scratch = id, x_nanos = id,
     x_sched = (\<lambda>_ d. map (Pair 0) (rev [0..<num_blocks d])),
     x_math = \<lparr>sum32_start = zero32, fmin32 = (\<lambda>a b. a), fmax32 = (\<lambda>a b. a), powi32 = (\<lambda>a _. a), powf32 = (\<lambda>a _. a), exp32 = id, ln32 = id,
       cos32 = id, sin32 = id, tan32 = id, acos32 = id, asin32 = id, atan32 = id, atan2_32 = (\<lambda>a _. a)\<rparr>,
     x_decode = (\<lambda>_. [])\<rparr>"

definition sample_cube :: json where
  "sample_cube = JObject [(''__cube'', JObject [(''bands'', JObject [(''ndvi'', JArray [JString ''a'', JString ''bcd''])])])]"

definition sample_reducer :: json where
  "sample_reducer = JObject [(''process_graph'', JObject [(''n'', JObject [(''process_id'', JString ''last''),
     (''arguments'', JObject [(''data'', JObject [(''from_parameter'', JString ''data'')])]), (''result'', JBool True)])])]"

lemma sample_parsed: "parse_reducer_subgraph sample_reducer = Ok (Builtin RLast)"
  by (simp add: sample_reducer_def parse_reducer_subgraph_def require_subgraph_def find_unique_result_node_def marked_result_def
      result_process_id_def from_process_id_def json_get_def)

lemma sample_opened:
  "\<exists>d. open_stack sample_raster_env b1 b2 [''a'', ''bcd''] = Ok d \<and> rs_rows (dm_shape (ds_metadata d)) = 1 \<and>
     rs_cols (dm_shape (ds_metadata d)) = 2"
proof -
  obtain blocks where "partition_blocks \<lparr>rs_times = 2, rs_layers = 1, rs_rows = 1, rs_cols = 2\<rparr> \<lparr>bs_rows = 1, bs_cols = 1\<rparr> (overlap_uniform 0)
      \<lparr>gt0 = f64_of_nat 0, gt1 = f64_of_nat 10, gt2 = f64_of_nat 0, gt3 = f64_of_nat 0, gt4 = f64_of_nat 0,
       gt5 = f64_minus (f64_of_nat 10)\<rparr> 0 = Some blocks"
    using partition_blocks_closed by (simp add: fits_def)
  then show ?thesis
    by (simp add: open_stack_def sample_raster_env_def from_files_def lift_geo_def build_dataset_def from_source_def
        inspect_first_file_def sample_gdal_def Let_def numeral_2_eq_2)
qed

lemma sample_reducible: "reducible sample_raster_env 0 (with_stack 2 1 (time_mappings [''a'', ''bcd'']) d) out sample_image"
  by (auto simp: reducible_def sample_raster_env_def sample_gdal_def serves_def time_mappings_def sample_image_def
      create_output_def gtiff_create_def mem_out_def comp_def)

definition sample_args :: args where
  "sample_args = [(''data'', sample_cube), (''dimension'', JString ''t''), (''reducer'', sample_reducer)]"

definition sample_data_cube :: data_cube where
  "sample_data_cube = cube_new\<lparr>c_bands := [(''ndvi'', [''a'', ''bcd''])]\<rparr>"

lemma sample_decoded: "from_envelope_owned msg sample_cube = Ok sample_data_cube"
  by (simp add: from_envelope_owned_def from_envelope_def sample_cube_def json_get_def decode_or_err_def decode_cube_def dec_default_def
      dec_map_def dec_list_def sample_data_cube_def cube_new_def field_names_def Let_def)

theorem reduce_time_pixels_witness:
  "\<exists>f. eval_reduce_dimension sample_raster_env sample_args =
      Ok (cube_json ''ndvi'' [''reduce_0.tif''] ''reduce_dimension(last)'' 1, [(''reduce_0.tif'', f)]) \<and>
    reduce_pixel (x_math sample_raster_env) (Builtin RLast) (filter usable [sample_image ''a'' 1 0 1, sample_image ''bcd'' 1 0 1]) =
      Some (mr_cells f 0 0 1)"
proof -
  let ?x = sample_raster_env and ?p = "[''a'', ''bcd'']"
  obtain d where d: "open_stack ?x ''reduce_dimension: builder: '' ''reduce_dimension: build: '' ?p = Ok d"
    "rs_rows (dm_shape (ds_metadata d)) = 1" "rs_cols (dm_shape (ds_metadata d)) = 2" using sample_opened by blast
  have args: "bt_get sample_args ''dimension'' = Some (JString ''t'')" "bt_get sample_args ''reducer'' = Some sample_reducer"
    "bt_get sample_args ''data'' = Some sample_cube" by (simp_all add: sample_args_def bt_get_def)
  have cube: "index_key (c_bands sample_data_cube) = Some ''ndvi''" "bt_get (c_bands sample_data_cube) ''ndvi'' = Some ?p"
    by (simp_all add: sample_data_cube_def cube_new_def index_key_def reduce_index_bands_def bt_get_def)
  have out: "''reduce_0.tif'' = x_scratch ?x (''reduce_'' @ show_nat (x_nanos ?x 0) @ ''.tif'')" by (simp add: sample_raster_env_def show_nat.simps [of 0], code_simp)
  have sink: "gdal_sink (x_out ?x) mr_dims mr_cells" using mem.gdal_sink_axioms by (simp add: sample_raster_env_def show_nat.simps [of 0])
  have crop: "0 < x_crop ?x" "x_crop ?x < 2 ^ 63" by (simp_all add: sample_raster_env_def)
  have small: "rs_rows (dm_shape (ds_metadata d)) < 2 ^ 31" "rs_cols (dm_shape (ds_metadata d)) < 2 ^ 31" using d(2,3) by simp_all
  have red: "reducible ?x 0 (with_stack (length ?p) 1 (time_mappings ?p) d) ''reduce_0.tif'' sample_image"
    using sample_reducible by (simp add: numeral_2_eq_2)
  have t: "''t'' \<in> {''t'', ''time'', ''temporal''}" and ne: "?p \<noteq> []" by simp_all
  obtain f where f: "eval_reduce_dimension ?x sample_args = Ok (cube_json ''ndvi'' [''reduce_0.tif'']
      (''reduce_dimension('' @ reducer_kind_label (Builtin RLast) @ '')'') 1, [(''reduce_0.tif'', f)])"
    and px: "\<forall>r c. r < rs_rows (dm_shape (ds_metadata d)) \<longrightarrow> c < rs_cols (dm_shape (ds_metadata d)) \<longrightarrow>
      reduce_pixel (x_math ?x) (Builtin RLast) (filter usable (map (\<lambda>p. sample_image p 1 r c) ?p)) = Some (mr_cells f 0 r c)"
    using reduce_time_pixels [OF sink args(1) t args(2) sample_parsed builtin_total args(3) sample_decoded cube ne d(1) crop small out red]
    by (elim exE conjE)
  have "reduce_pixel (x_math ?x) (Builtin RLast) (filter usable [sample_image ''a'' 1 0 1, sample_image ''bcd'' 1 0 1]) = Some (mr_cells f 0 0 1)"
    using px [THEN spec, of 0, THEN spec, of 1] unfolding d(2,3) list.map by (simp only: zero_less_one one_less_numeral_iff semiring_norm simp_thms)
  moreover have "''reduce_dimension('' @ reducer_kind_label (Builtin RLast) @ '')'' = ''reduce_dimension(last)''" by simp
  ultimately show ?thesis using f by metis
qed

end
