(* ===== verification/Spec2Isabelle.thy ===== *)
theory Spec2Isabelle
  imports Process_Graph Process_Graph_Ir Local_Executor Civil_Time Job_Store File_Store Runner Jobs_Routes Resilience
    Block_Grid Block_Executor Masks Auth Url_Policy File_Cache Asset_Cache Sub_Graph
    Edit_Distance Scalar_Processes Data_Cube Extents Cube_Ops Stac_Scenes Load_Collection Png_Pixel
    Process_Catalog Geo_Executor User_Routes Raster_Dataset Raster_Processing Raster_Runs Ieee_F32 Reducers Reduce_Dimension
begin

text \<open>
  \<^bold>\<open>Orbit, an openEO back end in Rust: a verification library\<close>

  Orbit accepts openEO process graphs over HTTP, checks them, stores them as batch jobs, evaluates
  them and serves the results. The code is a Cargo workspace: \<open>apps/orbit-openeo\<close> is the service;
  the crates below \<open>crates/\<close> hold the raster primitives, masks, retry policies and caches it uses.

  \<^bold>\<open>How the parts interact.\<close> A request passes the authentication layer (\<open>auth_layer.rs\<close>,
  \<open>auth/\<close>) and reaches a handler of \<open>routes/jobs.rs\<close>. \<open>POST /jobs\<close> decodes the graph
  (\<open>eo-process\<close>), analyses it (\<open>process_graph.rs\<close>) and creates a record in the job store
  (\<open>job_store.rs\<close>). \<open>POST /jobs/{id}/results\<close> takes a permit, spawns a supervisor and registers
  it (\<open>job_registry.rs\<close>); the supervisor runs \<open>run_job\<close> (\<open>runner.rs\<close>), which calls an executor
  (\<open>executor.rs\<close> and \<open>geo_executor\<close>), writes the result to the file store (\<open>file_store.rs\<close>), the
  final status to the job store and events to the bus (\<open>event_bus.rs\<close>). Executors evaluate
  callbacks (\<open>geo_executor/sub_graph.rs\<close>) and split rasters into blocks (\<open>eo-kernel\<close>,
  \<open>chunk_plan.rs\<close>, \<open>block_executor.rs\<close>); downloads go through the URL policy (\<open>url_policy.rs\<close>),
  the retry policy (\<open>orbit-resilience\<close>) and a file cache (\<open>cache.rs\<close> of \<open>orbit-geo\<close>, which is the cache
  of \<open>orbit-cache\<close> with a read-write lock).

  \<^bold>\<open>Theories and sources.\<close>
  \<^item> \<open>Orbit_Prelude\<close>: \<open>Result\<close> as a sum with \<open>and_then\<close> for \<open>?\<close>, \<open>usize\<close>/\<open>u64\<close> arithmetic
    (saturating and wrapping), words bit by bit, \<open>BTreeMap\<close> as a key-sorted association list, the
    locale \<open>kv_map\<close> of key-value containers and the shared lemma collections.
  \<^item> \<open>Ieee_F64\<close>: \<open>f64\<close> as its bit pattern; the arithmetic, comparisons and conversions the code
    uses, with correctly rounded results.
  \<^item> \<open>Json\<close>: \<open>serde_json::Value\<close>, the accessors, and the process-graph types of
    \<open>eo-process/src/graph.rs\<close> with their derived decoders.
  \<^item> \<open>Process_Graph\<close>: \<open>process_graph.rs\<close>. Which graphs are accepted (C1), in which order they are
    evaluated (C2: the nodes the result depends on as documented, and the others besides), that callbacks
    are isolated (C3), and which objects submit-time validation reaches and misses (\<open>submitted_object\<close>).
  \<^item> \<open>Process_Graph_Ir\<close>: \<open>process_graph_ir.rs\<close>. The lift into typed nodes decides a type system
    that is stated independently (C40).
  \<^item> \<open>Local_Executor\<close>: \<open>executor.rs\<close> and the in-memory part of \<open>catalog.rs\<close>. The evaluation loop
    refines the denotation of the graph.
  \<^item> \<open>Process_Catalog\<close>: \<open>process_catalog.rs\<close>, the handler registry of \<open>geo_executor/registry.rs\<close> with
    its suggestions, and \<open>schema.rs\<close>. Catalogue and registry name the same processes.
  \<^item> \<open>Geo_Executor\<close>: \<open>geo_executor/mod.rs\<close>. The loop over the registered handlers refines a trace of
    handler calls that threads the world they share (C6); output formats and files of a result.
  \<^item> \<open>Png_Pixel\<close>: the PNG encoder for one pixel, its CRC-32 and Adler-32 against a reader (C8).
  \<^item> \<open>Scalar_Processes\<close>, \<open>Edit_Distance\<close>: the number, logical and array processes of \<open>registry.rs\<close> and
    \<open>eval_arrays.rs\<close> (C17), and the edit distance behind the suggestions (C35).
  \<^item> \<open>Data_Cube\<close>: the cube envelope of \<open>data_cube.rs\<close> and that encoding and decoding are inverse.
  \<^item> \<open>Extents\<close>: \<open>identifier.rs\<close>, bounding boxes, temporal extents, reference systems and the asset
    link guard of \<open>eval_load.rs\<close> (C4).
  \<^item> \<open>Cube_Ops\<close>: \<open>eval_cube_ops.rs\<close>: temporal filter, renaming, cropping (C12, C14, C26).
  \<^item> \<open>Stac_Scenes\<close>: \<open>stac.rs\<close>, the search with its retries, the scenes of an answer and how a band is
    found on a scene (C32).
  \<^item> \<open>Load_Collection\<close>: \<open>load_collection\<close> over any completion order of its downloads (C5), and the
    cached download through \<open>Asset_Cache\<close>.
  \<^item> \<open>Civil_Time\<close>: \<open>iso8601\<close> and \<open>days_to_ymd\<close> of \<open>job_store.rs\<close> (C9).
  \<^item> \<open>Job_Store\<close>: the \<open>JobStore\<close> trait as a record of operations, its contract as a locale, the
    in-memory store (C10) and its invariant (C11). The store has two locks; \<open>append_log\<close>, \<open>get_logs\<close> and
    \<open>delete\<close> are composed of their lock scopes, and \<open>shared_step\<close> interleaves the scopes of concurrent calls.
  \<^item> \<open>File_Store\<close>: \<open>validate_path\<close> and the in-memory file store (C13).
  \<^item> \<open>Runner\<close>: \<open>runner.rs\<close>, \<open>event_bus.rs\<close>, \<open>job_registry.rs\<close>; every branch of \<open>run_job\<close> over
    any two stores that keep their contracts (C15, C16).
  \<^item> \<open>Jobs_Routes\<close>: the handlers of \<open>routes/jobs.rs\<close> and the interleavings of requests and
    supervisors as an inductive step relation (C18 to C21). The store changes only as the store's operations
    change it (\<open>store_write\<close>). C21 is a defect: two starts of a created job are both accepted.
  \<^item> \<open>User_Routes\<close>: \<open>udp_store.rs\<close> and the routes \<open>process_graphs.rs\<close>, \<open>files.rs\<close>, \<open>result.rs\<close> and
    \<open>validation.rs\<close>: what is stored is served back, and a refused request changes nothing.
  \<^item> \<open>Resilience\<close>: \<open>orbit-resilience\<close>: delays, jitter, \<open>retry_async\<close>, circuit breaker (C22 to C24).
    C23 holds below \<open>2 ^ 53\<close> microseconds, and \<open>jitter_above_cap\<close> shows why. The breaker's counter is changed
    before its lock is taken; C24 is about calls that do not overlap, \<open>breaker_step\<close> interleaves the two parts
    and \<open>stale_failure_opens\<close> shows what an overlap can do.
  \<^item> \<open>Block_Grid\<close>: \<open>eo-core\<close> and \<open>eo-kernel\<close>: the blocks tile the raster, the driver keeps their
    order (C25). A vector of blocks that cannot be reserved is the panic \<open>None\<close> (\<open>capacity_overflow\<close>).
  \<^item> \<open>Block_Budget\<close>: \<open>chunk_plan.rs\<close> and the lock-free memory budget of \<open>block_executor.rs\<close>
    (C27 to C29); for the cap \<open>usize::MAX\<close> the budget fails (\<open>saturated_reservation\<close>).
  \<^item> \<open>Block_Executor\<close>: \<open>run_blocks\<close> as a step relation: results, bounds and termination (C30, C31). The
    worker and the progress callback may return, panic or never return.
  \<^item> \<open>Masks\<close>: \<open>eo-mask\<close>, the quality-band decoders and that they lose nothing.
  \<^item> \<open>Auth\<close>: bearer and basic authentication, the route policy and the middleware (C33, C34).
  \<^item> \<open>Url_Policy\<close>: \<open>url_policy.rs\<close> with the standard library's address parser: no
    spelling of a link reaches an internal address.
  \<^item> \<open>File_Cache\<close>: \<open>orbit-cache\<close>, insertion, lookup and LRU eviction (C37, for one caller at a time). Insertion is
    composed of the copy, the reading of the length, the lock scope of the index and the eviction;
    \<open>cache_step\<close> interleaves them, and \<open>racing_insert_dangles\<close> shows what two insertions can do.
  \<^item> \<open>Asset_Cache\<close>: the cache of \<open>orbit-geo\<close> that the executor uses; every operation agrees with its counterpart
    in \<open>File_Cache\<close>, so a downloaded file is found again under the same conditions (\<open>asset_insert_found\<close>).
  \<^item> \<open>Sub_Graph\<close>: \<open>geo_executor/sub_graph.rs\<close>, the callback evaluator against a plain recursive
    value (C38).
  \<^item> \<open>Raster_Dataset\<close>: \<open>source.rs\<close>, \<open>block.rs\<close>, \<open>dataset.rs\<close> and \<open>builder.rs\<close> of \<open>orbit-geo\<close>: the
    partition gives every pixel exactly one region, and does not end when a side of the block is empty.
  \<^item> \<open>Raster_Processing\<close>, \<open>Raster_Runs\<close>: \<open>processing.rs\<close> and \<open>writer.rs\<close>: cached reads, the parallel
    loops and the shared output file; a pixelwise worker yields the same raster in every order of the tasks.
  \<^item> \<open>Ieee_F32\<close>, \<open>Reducers\<close>, \<open>Reduce_Dimension\<close>: \<open>f32\<close> bit by bit and \<open>eval_reduce.rs\<close>: what a reducer
    callback denotes, and that \<open>reduce_dimension\<close> computes it at every pixel (C36).
  \<^item> This theory: the life of a job from submission to download, over any stores (C39), and that an
    accepted submission is one the executor can dispatch (C7).

  \<^bold>\<open>State.\<close> The stores are association lists in the order of the maps they model, passed and
  returned explicitly. \<open>run_job\<close> threads a world of store, files, bus and terminal callbacks. The
  application state of the routes (\<open>app\<close>) adds the permits, the registry and the spawned
  supervisors. Concurrency is interleaving: the steps of \<open>Job_Store\<close>, \<open>Jobs_Routes\<close>, \<open>Resilience\<close>,
  \<open>File_Cache\<close>, \<open>Block_Budget\<close> and \<open>Block_Executor\<close> are what the code performs atomically (an atomic operation, a lock section, a
  poll between two awaits). In \<open>Jobs_Routes\<close> a start is two steps, the spawn and the registration, and a discard
  and the end of a supervisor are one each.

  \<^bold>\<open>Interfaces.\<close> \<open>kv_map\<close> (interpreted on the key-sorted and the plain association list),
  \<open>graph_algos\<close> (what the analyser needs of petgraph's \<open>is_cyclic_directed\<close> and \<open>toposort\<close>,
  interpreted on reference algorithms), \<open>job_store_contract\<close> and \<open>file_store_contract\<close>
  (interpreted on the in-memory stores), \<open>block_sink\<close> (a writer of blocks) and \<open>gdal_sink\<close> (GDAL's output),
  the second giving the first for the GeoTIFF writer and interpreted on rasters in memory, and \<open>runner_env\<close>, which joins the two and carries the
  proofs about \<open>run_job\<close>.

  \<^bold>\<open>Parameters.\<close> Code outside the repository is an argument: petgraph's algorithms, the wording of
  serde's errors, SHA-256, the iteration order of \<open>HashMap\<close>, clocks, random sources, generated
  ids, the executor of a job, the block worker, Unicode upper-casing, the printed form of floats and
  JSON values, the functions of the C math library, the points Rust leaves open in \<open>f64::min\<close>, \<open>max\<close>
  and \<open>sum\<close>, the replies of a STAC server, the order in which downloads complete, compiled JSON schemas,
  and GDAL: the outcome of a download or crop, opening, reading and writing of rasters, and the raster processes
  as handlers of the registry.

  \<^bold>\<open>Bounds and fuel.\<close> The reference walk stops at depth 64 as the code does. The sub-graph
  evaluator recurses to the code's limit of 64 levels; the theorem shows that graphs of up to 32
  nested references are always found. The eviction loop of the cache gets the number of entries as
  fuel, one per removal, which is all the loop can use. The integer square root of the planner
  recurses on a decreasing argument. The evaluator of reducer callbacks gets two more than the number of nodes as
  fuel and is shown never to use it up. The typed lift recurses on the height of the argument values.
  The loop of \<open>retry_async\<close> recurses on the remaining attempts. Machine integers wrap or saturate
  where the code does.

  \<^bold>\<open>Not modelled.\<close> Network and disk input and output (the HTTP STAC catalog, the SQLite job
  store, the \<open>object_store\<close> backend), raster processing beyond the block-parallel loops (the rest of
  \<open>orbit-geo\<close>, and masking, \<open>apply\<close>, indices, zonal statistics and classifiers in \<open>geo_executor\<close>, \<open>eo-io\<close>, \<open>eo-vector\<close>), the ETL
  engine, configuration and telemetry, the gRPC server and the command-line tools, and the routes that only
  shape fixed JSON documents. The delivery of events by tokio's broadcast channel, waiting times between
  retries, logging and metrics are left out of the modelled parts.
\<close>

section \<open>From submission to download\<close>

text \<open>
  C39. A job that was accepted delivers its result, over every job store and file store that keep
  their contracts: if \<open>POST /jobs\<close> answers 201 for a fresh id and \<open>POST /jobs/{id}/results\<close> answers 202,
  then the supervisor that was spawned belongs to that job and the default user, and if the executor
  answers on the body it was given, the run ends \<open>RunFinished\<close>; afterwards the results document is
  served with 200, the asset named in it downloads with 200, the result's media type, its length and
  exactly the executor's bytes, and every other job is as it was before the submission.
\<close>

theorem submitted_job_delivers:
  assumes "job_store_contract ops" and "file_store_contract fops" and "op_get ops s i = Inl e"
    and "create_job ops ic show_e known i now s body = (resp, s1)" and "code resp = 201"
    and "a_jobs a = s1" and "start_processing ops a i = (resp2, a2)" and "code resp2 = 202"
    and "a_tasks a2 (a_next a) = Some t" and "exec (timeout_secs env) (t_body t) = Some (Ok res)"
    and "length (result_body res) < 2 ^ 64"
  shows "\<exists>w'. run_job ops fops clock env exec (t_job t) (t_user t) (t_body t)
      \<lparr>w_store = s1, w_files = f, w_bus = [], w_terminal = []\<rparr> = (RunFinished, w') \<and>
    t_job t = i \<and> t_user t = DEFAULT_USER \<and>
    code (get_results ops (w_store w') i) = 200 \<and>
    download_asset ops fops (w_store w') (w_files w') i (default_asset_name (content_type res)) =
      \<lparr>code = 200, headers = [(''content-type'', content_type res), (''content-length'', show_nat (length (result_body res)))],
       resp_body = RawBody (result_body res)\<rparr> \<and>
    (\<forall>j. j \<noteq> i \<longrightarrow> op_get ops (w_store w') j = op_get ops s j)"
proof -
  obtain r where r: "op_get ops s1 = (op_get ops s)(i := Ok r)" "job_id r = i" "user_id r = DEFAULT_USER" "assets r = []"
    using assms(4)
  proof (cases rule: create_job_cases)
    case refused
    then show ?thesis using assms(5) by simp
  next
    case (stored nodes g ti de pr)
    then show ?thesis using that job_store_contract.get_create [OF assms(1,3), of now DEFAULT_USER ti de pr] by metis
  qed
  have got: "op_get ops (a_jobs a) i = Ok r" using r(1) assms(6) by simp
  then have "a2 = register_supervisor i (a_next a) (spawn_supervisor r i a)"
    using assms(7,8) by (auto simp: start_processing_def resp_simps split: if_splits)
  then have t: "t_job t = i" "t_user t = DEFAULT_USER"
    using assms(9) r(3) by (auto simp: register_supervisor_def spawn_supervisor_def Let_def)
  define as where "as = \<lparr>asset_name = default_asset_name (content_type res), media_type = content_type res,
    asset_size = (of_nat (length (result_body res)) :: 64 word)\<rparr>"
  let ?w = "\<lparr>w_store = s1, w_files = f, w_bus = [], w_terminal = []\<rparr>"
  have "op_get ops (w_store ?w) i = Ok r" using got assms(6) by simp
  then obtain w' r' where run: "run_job ops fops clock env exec i DEFAULT_USER (t_body t) ?w = (RunFinished, w')"
    "op_get ops (w_store w') = (op_get ops s1)(i := Ok r')" "status r' = Finished" "assets r' = [as]" "job_id r' = i"
    "fop_get fops (w_files w') (FileKey i (asset_name as)) = Ok (result_body res)"
    using runner_env.run_job_finishes [OF runner_env.intro [OF assms(1,2)], of ?w i r exec env "t_body t" res as clock DEFAULT_USER]
      assms(10) r as_def by (auto simp: job_now_def)
  have "download_asset ops fops (w_store w') (w_files w') i (asset_name as) =
      \<lparr>code = 200, headers = [(''content-type'', content_type res), (''content-length'', show_nat (length (result_body res)))],
       resp_body = RawBody (result_body res)\<rparr>"
    using run(2,4,5,6) assms(11) by (simp add: download_asset_def as_def unat_of_nat)
  moreover have "code (get_results ops (w_store w') i) = 200" using run(2,3) by (simp add: get_results_def resp_simps)
  moreover have "\<forall>j. j \<noteq> i \<longrightarrow> op_get ops (w_store w') j = op_get ops s j" using run(2) r(1) by simp
  ultimately show ?thesis using run(1) t by (auto simp: as_def)
qed

lemma sample_submission:
  assumes "unsupported_process_ids sample_body known = []"
  shows "\<exists>resp s1 r. create_job mem_ops ref_is_cyclic (\<lambda>_. []) known ''j1'' 5 mem_new sample_body = (resp, s1) \<and> code resp = 201 \<and>
     op_get mem_ops s1 ''j1'' = Ok r \<and> status r = Created"
proof -
  let ?n = "[(''a'', \<lparr>process_id = ''add'', arguments = [(''x'', JNumber (PosInt 1)), (''y'', JNumber (PosInt 2))],
    result_flag = Some True\<rparr>)]"
  obtain resp s1 where c: "create_job mem_ops ref_is_cyclic (\<lambda>_. []) known ''j1'' 5 mem_new sample_body = (resp, s1)"
    by (cases "create_job mem_ops ref_is_cyclic (\<lambda>_. []) known ''j1'' 5 mem_new sample_body")
  have fresh: "op_get mem_ops mem_new ''j1'' = Err (JobNotFound ''j1'')" by (simp add: mem_ops_def mem_get_def mem_new_def)
  have "refs_resolve \<lparr>pg_nodes = ?n\<rparr>" "acyclic (deps \<lparr>pg_nodes = ?n\<rparr>)" "length (result_nodes \<lparr>pg_nodes = ?n\<rparr>) = 1"
    by (simp_all add: refs_resolve_def node_depth_ok_def node_refs_def deps_def result_nodes_def acyclic_def)
  then obtain g where g: "build ref_is_cyclic \<lparr>pg_nodes = ?n\<rparr> = Ok g"
    using ref.build_accepts [of "\<lparr>pg_nodes = ?n\<rparr>"] submitted_nodes_wf [OF sample_body_nodes] by auto
  from c show ?thesis
  proof (cases rule: create_job_cases)
    case refused
    then show ?thesis using sample_body_nodes g assms by blast
  next
    case (stored nodes a ti de pr)
    then show ?thesis using c mem.get_create [OF fresh, of 5 DEFAULT_USER ti de pr] by auto
  qed
qed

theorem submitted_job_delivers_witness:
  "\<exists>resp s1 a2 t w'. create_job mem_ops ref_is_cyclic (\<lambda>_. []) [''add''] ''j1'' 5 mem_new sample_body = (resp, s1) \<and>
     start_processing mem_ops (app_init 2 s1) ''j1'' = (status_only 202, a2) \<and> a_tasks a2 0 = Some t \<and>
     run_job mem_ops mem_file_ops (\<lambda>_. 9) None (\<lambda>_ _. Some (Ok \<lparr>content_type = ''application/json'', result_body = ''3.0''\<rparr>))
       (t_job t) (t_user t) (t_body t) \<lparr>w_store = s1, w_files = [], w_bus = [], w_terminal = []\<rparr> = (RunFinished, w') \<and>
     resp_body (download_asset mem_ops mem_file_ops (w_store w') (w_files w') ''j1'' (default_asset_name ''application/json'')) =
       RawBody ''3.0''"
proof -
  obtain resp s1 r where c: "create_job mem_ops ref_is_cyclic (\<lambda>_. []) [''add''] ''j1'' 5 mem_new sample_body = (resp, s1)"
    "code resp = 201" "op_get mem_ops s1 ''j1'' = Ok r" "status r = Created" using sample_submission [OF sample_body_supported] by blast
  have fresh: "op_get mem_ops mem_new ''j1'' = Err (JobNotFound ''j1'')" by (simp add: mem_ops_def mem_get_def mem_new_def)
  obtain a2 t where st: "start_processing mem_ops (app_init 2 s1) ''j1'' = (status_only 202, a2)" "a_tasks a2 (a_next (app_init 2 s1)) = Some t"
    using c(3,4) by (simp add: start_processing_def app_init_def register_supervisor_def spawn_supervisor_def Let_def)
  obtain w' where "run_job mem_ops mem_file_ops (\<lambda>_. 9) None (\<lambda>_ _. Some (Ok \<lparr>content_type = ''application/json'', result_body = ''3.0''\<rparr>))
       (t_job t) (t_user t) (t_body t) \<lparr>w_store = s1, w_files = [], w_bus = [], w_terminal = []\<rparr> = (RunFinished, w')"
    "resp_body (download_asset mem_ops mem_file_ops (w_store w') (w_files w') ''j1'' (default_asset_name ''application/json'')) = RawBody ''3.0''"
    using submitted_job_delivers [OF mem_store_contract fs_contract fresh c(1,2) _ st(1) _ st(2),
        where exec = "\<lambda>_ _. Some (Ok \<lparr>content_type = ''application/json'', result_body = ''3.0''\<rparr>)" and env = None
          and res = "\<lparr>content_type = ''application/json'', result_body = ''3.0''\<rparr>" and clock = "\<lambda>_. 9" and f = "[]"]
    by (auto simp: app_init_def)
  moreover have "a_tasks a2 0 = Some t" using st(2) by (simp add: app_init_def)
  ultimately show ?thesis using c(1) st(1) by blast
qed

section \<open>From submission to execution\<close>

text \<open>
  C7. A submission that \<open>POST /jobs\<close> accepts against the catalogue is one the executor can dispatch: when its
  nodes are written as objects and none is called \<open>process_graph\<close>, the executor reads a graph from the same
  body, and every error its evaluation ends with is raised by the handler of one of the graph's nodes.
  It never reports an unknown process, an unknown node, an upstream node that is not yet evaluated or a
  result node that was not visited.
\<close>

theorem accepted_processes_known:
  assumes "create_job ops ic show_e process_ids i now s body = (resp, s1)" and "code resp = 201" and "graph_algos ic ts"
    and "Option.bind (json_get body ''process'') (\<lambda>p. json_get p ''process_graph'') = Some (JObject entries)"
    and "map_of entries ''process_graph'' = None" and "\<forall>(j, v) \<in> set entries. \<exists>flds. v = JObject flds"
  shows "\<exists>g. parse_graph serde_show body = Ok g \<and>
    (\<forall>err w'. geo_evaluate ic ts (geo_registry e) g w = Some (Err err, w') \<longrightarrow>
      (\<exists>(j, node) \<in> set (pg_nodes g). \<exists>args w1 w2. geo_handler e (process_id node) args w1 = Some (Err err, w2)))"
  using assms(1)
proof (cases rule: create_job_cases)
  case refused
  then show ?thesis using assms(2) by simp
next
  case (stored nodes a ti de pr)
  have sub: "submitted_graph body = Some (JObject entries)" using assms(4) by (simp add: submitted_graph_def)
  have dec: "decode_nodes (JObject entries) = Ok nodes"
    using stored(1) assms(4) by (auto simp: submitted_nodes_def split: sum.splits)
  have wf: "bt_wf nodes" using stored(1) by (rule submitted_nodes_wf)
  have "length (result_nodes \<lparr>pg_nodes = nodes\<rparr>) = 1" using stored(2) wf by (simp add: build_Inr_iff)
  then have "nodes \<noteq> []" by (auto simp: result_nodes_def)
  then have "parse_graph serde_show body = Ok \<lparr>pg_nodes = nodes\<rparr>" by (simp add: parse_graph_def sub dec)
  moreover have "\<forall>(j, node) \<in> set nodes. is_known_process (process_id node)"
    using validated_known [OF sub assms(5,6) stored(3) dec] by blast
  then have "\<forall>err w'. geo_evaluate ic ts (geo_registry e) \<lparr>pg_nodes = nodes\<rparr> w = Some (Err err, w') \<longrightarrow>
      (\<exists>(j, node) \<in> set nodes. \<exists>args w1 w2. geo_handler e (process_id node) args w1 = Some (Err err, w2))"
    using geo_evaluate_error [OF assms(3) _ stored(2), of e w] wf by simp
  ultimately show ?thesis by (intro exI [of _ "\<lparr>pg_nodes = nodes\<rparr>"]) simp
qed

lemma sample_body_catalogued: "unsupported_process_ids sample_body process_ids = []"
proof -
  have "collect_process_ids sample_body = {''add''}"
    by (simp add: sample_body_def collect_process_ids_def submitted_graph_def json_get_def walk_ids.simps MAX_SUBGRAPH_DEPTH_def)
  moreover have "''add'' \<in> set process_ids" by code_simp
  ultimately have "set (unsupported_process_ids sample_body process_ids) = {}" by (simp add: set_unsupported)
  then show ?thesis by simp
qed

theorem accepted_processes_known_witness:
  "\<exists>g. parse_graph (\<lambda>_. []) sample_body = Ok g \<and>
     (\<forall>p w'. geo_evaluate ref_is_cyclic ref_toposort (geo_registry sample_geo) g 0 \<noteq> Some (Err (UnknownProcess p), w'))"
proof -
  let ?entries = "[(''a'', JObject [(''process_id'', JString ''add''),
    (''arguments'', JObject [(''x'', JNumber (PosInt 1)), (''y'', JNumber (PosInt 2))]), (''result'', JBool True)])]"
  obtain resp s1 where c: "create_job mem_ops ref_is_cyclic (\<lambda>_. []) process_ids ''j1'' 5 mem_new sample_body = (resp, s1)" "code resp = 201"
    using sample_submission [OF sample_body_catalogued] by blast
  have pg: "Option.bind (json_get sample_body ''process'') (\<lambda>p. json_get p ''process_graph'') = Some (JObject ?entries)"
    by (simp add: sample_body_def json_get_def)
  obtain g where g: "parse_graph (\<lambda>_. []) sample_body = Ok g"
      "\<And>err w'. geo_evaluate ref_is_cyclic ref_toposort (geo_registry sample_geo) g 0 = Some (Err err, w') \<Longrightarrow>
        \<exists>(j, node) \<in> set (pg_nodes g). \<exists>args w1 w2. geo_handler sample_geo (process_id node) args w1 = Some (Err err, w2)"
    using accepted_processes_known [OF c ref.graph_algos_axioms pg, where serde_show = "\<lambda>_. []" and e = sample_geo and w = 0] by auto
  have add: "process_id node = ''add''" if "(j, node) \<in> set (pg_nodes g)" for j node
    using that g(1) sample_body_nodes pg by (auto simp: parse_graph_def submitted_graph_def submitted_nodes_def split: sum.splits)
  have "geo_handler sample_geo ''add'' args w1 \<noteq> Some (Err (UnknownProcess p), w2)" for args w1 p w2
    by (simp add: geo_handler_def scalar_table_def binary_num_handler_def arg_number_def and_then_Inl_iff)
  then show ?thesis using g add by fastforce
qed

end
